(* ===== verification/Prelude.thy ===== *)
theory Prelude
  imports Main "HOL-Library.Word" "HOL-Library.Code_Target_Nat"
begin

text \<open>
  Shared vocabulary of the development: the fixed-width integer types of the Rust code, the
  operations of Rust's standard library that several components use (saturating subtraction,
  \<open>slice::get\<close>, \<open>Iterator::position\<close>, \<open>Vec::swap_remove\<close>, \<open>Iterator::min_by\<close>, string trimming
  and decimal printing), the collections of facts the component proofs draw on, and generic
  lemmas on lists, options and words.

  A Rust \<open>Result\<close> is a sum (\<open>Inl\<close> the error), an \<open>Option\<close> is \<open>option\<close>, a \<open>usize\<close> index or length
  is \<open>nat\<close>, and a sized integer is a word, so that the release build's wrap-around is part of the
  model.
\<close>

section \<open>Collections\<close>

named_theorems model_defs \<open>definitions that component proofs unfold\<close>
named_theorems inv_intros \<open>each operation keeps its component's invariant\<close>

section \<open>Machine integers\<close>

type_synonym u8 = "8 word"
type_synonym u32 = "32 word"
type_synonym u64 = "64 word"

text \<open>Rust's \<open>saturating_sub\<close> on unsigned integers.\<close>

definition sat_sub :: "'a::len word \<Rightarrow> 'a word \<Rightarrow> 'a word" where
  "sat_sub a b = (if b \<le> a then a - b else 0)"

lemma unat_sat_sub: "unat (sat_sub a b) = unat a - unat b"
  by (simp add: sat_sub_def unat_sub word_le_nat_alt)

lemma sat_sub_le: "sat_sub a b \<le> a"
  by (simp add: word_le_nat_alt unat_sat_sub)

lemma sat_sub_0 [simp]: "sat_sub a 0 = a"
  by (simp add: sat_sub_def)

lemma sat_sub_self [simp]: "sat_sub a a = 0"
  by (simp add: sat_sub_def)

text \<open>An addition whose exact sum fits does not wrap.\<close>

lemma unat_add_no_wrap:
  fixes a b :: "'a::len word"
  assumes "unat a + unat b < 2 ^ LENGTH('a)"
  shows "unat (a + b) = unat a + unat b"
  using assms by (simp add: unat_word_ariths)

section \<open>Lists\<close>

text \<open>\<open>slice::get\<close>: no panic, \<open>None\<close> out of range.\<close>

definition get_nth :: "'a list \<Rightarrow> nat \<Rightarrow> 'a option" where
  "get_nth xs i = (if i < length xs then Some (xs ! i) else None)"

lemma get_nth_Nil [simp]: "get_nth [] i = None"
  by (simp add: get_nth_def)

lemma get_nth_Cons_0 [simp]: "get_nth (x # xs) 0 = Some x"
  by (simp add: get_nth_def)

lemma get_nth_Cons_Suc [simp]: "get_nth (x # xs) (Suc i) = get_nth xs i"
  by (simp add: get_nth_def)

lemma get_nth_Some_iff: "get_nth xs i = Some x \<longleftrightarrow> i < length xs \<and> x = xs ! i"
  by (auto simp: get_nth_def)

lemma get_nth_None_iff [simp]: "get_nth xs i = None \<longleftrightarrow> length xs \<le> i"
  by (auto simp: get_nth_def)

text \<open>\<open>Iterator::position\<close>: the first index whose element satisfies the predicate.\<close>

fun position :: "('a \<Rightarrow> bool) \<Rightarrow> 'a list \<Rightarrow> nat option" where
  "position p [] = None"
| "position p (x # xs) = (if p x then Some 0 else map_option Suc (position p xs))"

lemma position_Some:
  "position p xs = Some i \<Longrightarrow> i < length xs \<and> p (xs ! i) \<and> (\<forall>j < i. \<not> p (xs ! j))"
proof (induction xs arbitrary: i)
  case Nil
  then show ?case by simp
next
  case (Cons x xs)
  show ?case
  proof (cases "p x")
    case True
    with Cons.prems show ?thesis by simp
  next
    case False
    with Cons.prems obtain k where k: "position p xs = Some k" "i = Suc k" by auto
    from Cons.IH [OF k(1)] k(2) False show ?thesis
      by (auto simp: less_Suc_eq_0_disj)
  qed
qed

lemma position_None [simp]: "position p xs = None \<longleftrightarrow> (\<forall>x \<in> set xs. \<not> p x)"
  by (induction xs) auto

text \<open>\<open>Vec::remove\<close>, for an index in range.\<close>

definition remove_nth :: "nat \<Rightarrow> 'a list \<Rightarrow> 'a list" where
  "remove_nth i xs = take i xs @ drop (Suc i) xs"

lemma length_remove_nth: "i < length xs \<Longrightarrow> length (remove_nth i xs) = length xs - 1"
  by (simp add: remove_nth_def)

lemma set_remove_nth: "set (remove_nth i xs) \<subseteq> set xs"
  by (auto simp: remove_nth_def dest: in_set_takeD in_set_dropD)

lemma remove_nth_0: "remove_nth 0 xs = tl xs"
  by (cases xs) (simp_all add: remove_nth_def)

lemma map_remove_nth: "map f (remove_nth i xs) = remove_nth i (map f xs)"
  by (simp add: remove_nth_def take_map drop_map)

lemma distinct_remove_nth: "distinct xs \<Longrightarrow> distinct (remove_nth i xs)"
  by (simp add: remove_nth_def set_take_disj_set_drop_if_distinct)

lemma length_remove_nth_le: "length (remove_nth i xs) \<le> length xs"
  by (simp add: remove_nth_def)

lemma filter_neq_remove_nth:
  assumes "distinct (map fst cs)" "i < length cs"
  shows "remove_nth i cs = filter (\<lambda>c. fst c \<noteq> fst (cs ! i)) cs"
  using assms
proof (induction cs arbitrary: i)
  case Nil
  then show ?case by simp
next
  case (Cons c cs)
  show ?case
  proof (cases i)
    case 0
    from Cons.prems have "fst c \<notin> fst ` set cs" by simp
    then have "fst d \<noteq> fst c" if "d \<in> set cs" for d using that by (metis image_eqI)
    then show ?thesis using 0 by (simp add: remove_nth_def)
  next
    case (Suc j)
    with Cons.prems have "fst c \<noteq> fst (cs ! j)" by force
    with Suc Cons show ?thesis by (simp add: remove_nth_def)
  qed
qed

lemma position_fst:
  assumes "distinct (map fst cs)" "i < length cs"
  shows "position (\<lambda>(j, _). j = fst (cs ! i)) cs = Some i"
proof (cases "position (\<lambda>(j, _). j = fst (cs ! i)) cs")
  case None
  with assms(2) show ?thesis by (force dest: nth_mem)
next
  case (Some k)
  from position_Some [OF this] have "k < length cs" "fst (cs ! k) = fst (cs ! i)"
    by (auto simp: case_prod_beta)
  with assms Some show ?thesis
    using nth_eq_iff_index_eq [of "map fst cs" k i] by simp
qed

text \<open>\<open>Vec::swap_remove\<close>, for an index in range: the last element takes the hole.\<close>

definition swap_remove :: "nat \<Rightarrow> 'a list \<Rightarrow> 'a list" where
  "swap_remove i xs =
     (if i = length xs - 1 then butlast xs else (butlast xs)[i := last xs])"

lemma length_swap_remove [simp]: "length (swap_remove i xs) = length xs - 1"
  by (simp add: swap_remove_def)

lemma set_swap_remove:
  assumes "i < length xs" "distinct xs"
  shows "set (swap_remove i xs) = set xs - {xs ! i}" and "distinct (swap_remove i xs)"
proof -
  obtain ys y where xs: "xs = ys @ [y]"
    using assms(1) by (cases xs rule: rev_cases) auto
  have "set (swap_remove i xs) = set xs - {xs ! i} \<and> distinct (swap_remove i xs)"
  proof (cases "i = length ys")
    case True
    then show ?thesis using assms(2) by (simp add: xs swap_remove_def)
  next
    case False
    with assms(1) have i: "i < length ys" by (simp add: xs)
    have "distinct ys" "y \<notin> set ys" using assms(2) by (auto simp: xs)
    with i False show ?thesis
      by (auto simp: xs swap_remove_def nth_append set_update_distinct distinct_list_update)
  qed
  then show "set (swap_remove i xs) = set xs - {xs ! i}" and "distinct (swap_remove i xs)"
    by auto
qed

text \<open>
  \<open>Iterator::min_by\<close> over an enumeration: the index of the first element that no other element
  is strictly below.
\<close>

fun first_min_from :: "('a \<Rightarrow> 'a \<Rightarrow> bool) \<Rightarrow> nat \<Rightarrow> 'a \<Rightarrow> nat \<Rightarrow> 'a list \<Rightarrow> nat" where
  "first_min_from lt b x i [] = b"
| "first_min_from lt b x i (y # ys) =
     (if lt y x then first_min_from lt i y (Suc i) ys else first_min_from lt b x (Suc i) ys)"

definition first_min_index :: "('a \<Rightarrow> 'a \<Rightarrow> bool) \<Rightarrow> 'a list \<Rightarrow> nat option" where
  "first_min_index lt xs =
     (case xs of [] \<Rightarrow> None | x # ys \<Rightarrow> Some (first_min_from lt 0 x 1 ys))"

lemma first_min_from_min:
  assumes key: "\<And>a b. lt a b \<longleftrightarrow> (k a :: 'k::linorder) < k b"
    and "b < length pre" "pre ! b = x" "i = length pre" "\<forall>z \<in> set pre. k x \<le> k z"
  shows "first_min_from lt b x i ys < length (pre @ ys) \<and>
    (\<forall>z \<in> set (pre @ ys). k ((pre @ ys) ! first_min_from lt b x i ys) \<le> k z)"
  using assms(2-)
proof (induction ys arbitrary: b x i pre)
  case Nil
  then show ?case by simp
next
  case (Cons y ys)
  show ?case
  proof (cases "lt y x")
    case True
    have "first_min_from lt i y (Suc i) ys < length ((pre @ [y]) @ ys) \<and>
      (\<forall>z \<in> set ((pre @ [y]) @ ys). k (((pre @ [y]) @ ys) ! first_min_from lt i y (Suc i) ys) \<le> k z)"
      by (rule Cons.IH) (use Cons.prems True key in auto)
    with True show ?thesis by simp
  next
    case False
    have "first_min_from lt b x (Suc i) ys < length ((pre @ [y]) @ ys) \<and>
      (\<forall>z \<in> set ((pre @ [y]) @ ys). k (((pre @ [y]) @ ys) ! first_min_from lt b x (Suc i) ys) \<le> k z)"
      by (rule Cons.IH) (use Cons.prems False key in \<open>auto simp: nth_append\<close>)
    with False show ?thesis by simp
  qed
qed

lemma first_min_index_min:
  assumes key: "\<And>a b. lt a b \<longleftrightarrow> (k a :: 'k::linorder) < k b"
    and "first_min_index lt xs = Some i"
  shows "i < length xs" and "\<forall>z \<in> set xs. k (xs ! i) \<le> k z"
proof -
  from assms(2) obtain x ys where xs: "xs = x # ys" and i: "i = first_min_from lt 0 x 1 ys"
    by (auto simp: first_min_index_def split: list.splits)
  have "first_min_from lt 0 x 1 ys < length ([x] @ ys) \<and>
    (\<forall>z \<in> set ([x] @ ys). k (([x] @ ys) ! first_min_from lt 0 x 1 ys) \<le> k z)"
    by (rule first_min_from_min [OF key]) auto
  then show "i < length xs" and "\<forall>z \<in> set xs. k (xs ! i) \<le> k z"
    by (simp_all add: xs i)
qed

lemma first_min_index_None [simp]: "first_min_index lt xs = None \<longleftrightarrow> xs = []"
  by (cases xs) (auto simp: first_min_index_def)

section \<open>Runs of a step function\<close>

text \<open>
  Feed a list of inputs to a step function that returns an output and the next state, as the
  callers' loops do, collecting the outputs.
\<close>

fun run_steps :: "('s \<Rightarrow> 'i \<Rightarrow> 'o \<times> 's) \<Rightarrow> 's \<Rightarrow> 'i list \<Rightarrow> 'o list \<times> 's" where
  "run_steps f s [] = ([], s)"
| "run_steps f s (i # is) =
     (let (out, s') = f s i; (outs, s'') = run_steps f s' is in (out # outs, s''))"

lemma length_run_steps [simp]: "length (fst (run_steps f s is)) = length is"
  by (induction "is" arbitrary: s) (simp_all add: Let_def case_prod_beta)

lemma run_steps_append:
  "run_steps f s (xs @ ys) =
     (let (o1, s1) = run_steps f s xs; (o2, s2) = run_steps f s1 ys in (o1 @ o2, s2))"
  by (induction xs arbitrary: s) (simp_all add: Let_def case_prod_beta)

lemma run_steps_invariant:
  assumes "\<And>s i. I s \<Longrightarrow> I (snd (f s i))" and "I s"
  shows "I (snd (run_steps f s is))"
  using assms(2)
proof (induction "is" arbitrary: s)
  case Nil
  then show ?case by simp
next
  case (Cons i "is")
  obtain out s' where f: "f s i = (out, s')" by (cases "f s i")
  with Cons.prems assms(1) [of s i] have "I s'" by simp
  then have "I (snd (run_steps f s' is))" by (rule Cons.IH)
  with f show ?case by (simp add: Let_def case_prod_beta)
qed

section \<open>Strings\<close>

text \<open>
  A Rust \<open>String\<close> is its sequence of UTF-8 bytes, which is what \<open>len\<close>, \<open>push_str\<close> and
  \<open>truncate\<close> count; \<open>string\<close> is a list of bytes.
\<close>

fun show_nat :: "nat \<Rightarrow> string" where
  "show_nat n = (if n < 10 then [char_of (48 + n)] else show_nat (n div 10) @ [char_of (48 + n mod 10)])"

declare show_nat.simps [simp del]

lemma show_nat_nonempty [simp]: "show_nat n \<noteq> []"
  by (subst show_nat.simps) simp

fun read_nat_acc :: "nat \<Rightarrow> string \<Rightarrow> nat" where
  "read_nat_acc acc [] = acc"
| "read_nat_acc acc (c # cs) = read_nat_acc (10 * acc + (of_char c - 48)) cs"

lemma read_nat_acc_append: "read_nat_acc acc (xs @ ys) = read_nat_acc (read_nat_acc acc xs) ys"
  by (induction xs arbitrary: acc) auto

lemma of_char_digit: "d < 10 \<Longrightarrow> (of_char (char_of (48 + d :: nat)) :: nat) = 48 + d"
  by simp

text \<open>Printing in decimal loses nothing.\<close>

lemma read_show_nat: "read_nat_acc 0 (show_nat n) = n"
proof (induction n rule: show_nat.induct)
  case (1 n)
  show ?case
  proof (cases "n < 10")
    case True
    then show ?thesis by (subst show_nat.simps) (simp add: of_char_digit)
  next
    case False
    with "1.IH" have IH: "read_nat_acc 0 (show_nat (n div 10)) = n div 10" by simp
    from False show ?thesis
      by (subst show_nat.simps) (simp add: read_nat_acc_append IH of_char_digit)
  qed
qed

lemma show_nat_inj: "show_nat m = show_nat n \<Longrightarrow> m = n"
  using read_show_nat by metis

text \<open>Decimal strings hold digits only, so neither quotes nor line breaks.\<close>

lemma show_nat_digits: "c \<in> set (show_nat n) \<Longrightarrow> 48 \<le> (of_char c :: nat) \<and> (of_char c :: nat) \<le> 57"
proof (induction n rule: show_nat.induct)
  case (1 n)
  show ?case
  proof (cases "n < 10")
    case True
    with "1.prems" show ?thesis by (subst (asm) show_nat.simps) auto
  next
    case False
    from "1.prems" False have "c \<in> set (show_nat (n div 10)) \<or> c = char_of (48 + n mod 10)"
      by (subst (asm) show_nat.simps) auto
    then show ?thesis
    proof
      assume "c \<in> set (show_nat (n div 10))"
      with "1.IH" False show ?thesis by simp
    next
      assume "c = char_of (48 + n mod 10)"
      then show ?thesis using of_char_digit [of "n mod 10"] by simp
    qed
  qed
qed

lemma length_show_nat_le: "n < 10 ^ k \<Longrightarrow> 0 < k \<Longrightarrow> length (show_nat n) \<le> k"
proof (induction n arbitrary: k rule: show_nat.induct)
  case (1 n)
  show ?case
  proof (cases "n < 10")
    case True
    with "1.prems" show ?thesis by (subst show_nat.simps) simp
  next
    case False
    obtain j where k: "k = Suc j" using "1.prems" by (cases k) auto
    with "1.prems" False have j: "n div 10 < 10 ^ j" "0 < j"
      by (auto intro!: Nat.gr0I simp: less_mult_imp_div_less mult.commute)
    have "length (show_nat (n div 10)) \<le> j" using "1.IH" [OF False j] .
    with False k show ?thesis by (subst show_nat.simps) simp
  qed
qed

text \<open>\<open>str::trim_end_matches\<close> for one character, and \<open>str::starts_with\<close>.\<close>

definition trim_end_matches :: "char \<Rightarrow> string \<Rightarrow> string" where
  "trim_end_matches c s = rev (dropWhile (\<lambda>x. x = c) (rev s))"

fun starts_with :: "string \<Rightarrow> string \<Rightarrow> bool" where
  "starts_with s [] = True"
| "starts_with [] (p # ps) = False"
| "starts_with (c # s) (p # ps) = (c = p \<and> starts_with s ps)"

lemma starts_with_append [simp]: "starts_with (p @ s) p"
  by (induction p) auto

lemma starts_with_iff: "starts_with s p \<longleftrightarrow> (\<exists>t. s = p @ t)"
  by (induction s p rule: starts_with.induct) auto

lemma trim_end_matches_snoc [simp]:
  "trim_end_matches c (s @ [x]) = (if x = c then trim_end_matches c s else s @ [x])"
  by (simp add: trim_end_matches_def)

lemma trim_end_matches_Nil [simp]: "trim_end_matches c [] = []"
  by (simp add: trim_end_matches_def)

lemma trim_end_matches_last: "t = trim_end_matches c s \<Longrightarrow> t \<noteq> [] \<Longrightarrow> last t \<noteq> c"
  by (induction s arbitrary: t rule: rev_induct) (auto split: if_splits)

lemma trim_end_matches_idem [simp]:
  "trim_end_matches c (trim_end_matches c s) = trim_end_matches c s"
  by (induction s rule: rev_induct) auto

end
