(* ===== verification/Encoder.thy ===== *)
theory Encoder
  imports Prelude
begin

text \<open>
  The quadrature decoder of the rotary encoder
  (\<open>crates/anova-oven-pico-core/src/encoder.rs\<close>): the transition table, the accumulator with its
  reset on reversal, and what a stream of samples decodes to.

  \<open>prev\<close> is the 2-bit code of the last sample, kept as the code's \<open>u8\<close>; \<open>accum\<close> is the code's
  \<open>i8\<close>, an \<open>int\<close> here because it is proved to stay within -3 and 3 (and within -4 and 4 inside
  \<open>update\<close>), so that no \<open>i8\<close> addition wraps.
\<close>

datatype EncoderTick = Cw | Ccw

definition QEM :: "int list" where
  "QEM = [0, -1, 1, 0, 1, 0, 0, -1, -1, 0, 0, 1, 0, 1, -1, 0]"

definition TRANSITIONS_PER_DETENT :: int where
  "TRANSITIONS_PER_DETENT = 4"

record QuadratureDecoder =
  qd_prev :: u8
  qd_accum :: int

unbundle bit_operations_syntax

definition encode :: "bool \<Rightarrow> bool \<Rightarrow> u8" where
  "encode a_low b_low = push_bit 1 (of_bool a_low) OR of_bool b_low"

definition decoder_new :: "bool \<Rightarrow> bool \<Rightarrow> QuadratureDecoder" where
  "decoder_new a_low b_low = \<lparr>qd_prev = encode a_low b_low, qd_accum = 0\<rparr>"

definition decoder_update ::
  "QuadratureDecoder \<Rightarrow> bool \<times> bool \<Rightarrow> EncoderTick option \<times> QuadratureDecoder" where
  "decoder_update d s =
     (let curr = encode (fst s) (snd s);
          dir = QEM ! unat (push_bit 2 (qd_prev d) OR curr);
          d = d\<lparr>qd_prev := curr\<rparr>
      in if dir = 0 then (None, d)
         else
           let accum = (if (qd_accum d > 0 \<and> dir < 0) \<or> (qd_accum d < 0 \<and> dir > 0) then 0
                        else qd_accum d) + dir
           in if accum \<ge> TRANSITIONS_PER_DETENT then (Some Cw, d\<lparr>qd_accum := 0\<rparr>)
              else if accum \<le> - TRANSITIONS_PER_DETENT then (Some Ccw, d\<lparr>qd_accum := 0\<rparr>)
              else (None, d\<lparr>qd_accum := accum\<rparr>))"


section \<open>Invariant\<close>

text \<open>
  Between calls the previous code has two bits and the accumulator is short of a detent in
  either direction.
\<close>

definition decoder_inv :: "QuadratureDecoder \<Rightarrow> bool" where
  "decoder_inv d \<longleftrightarrow> unat (qd_prev d) < 4 \<and> -4 < qd_accum d \<and> qd_accum d < 4"

lemma encode_values:
  "encode False False = 0" "encode False True = 1" "encode True False = 2" "encode True True = 3"
  by (simp_all add: encode_def)

lemma encode_lt_4: "unat (encode a b) < 4"
  by (cases a; cases b) (simp_all add: encode_values)

lemma code_cases:
  assumes "unat (c :: u8) < 4"
  obtains a b where "c = encode a b"
proof -
  have "unat c = 0 \<or> unat c = 1 \<or> unat c = 2 \<or> unat c = 3"
    using assms by auto
  then have "c = 0 \<or> c = 1 \<or> c = 2 \<or> c = 3"
    by (auto simp: word_unat_eq_iff)
  then show thesis
    using encode_values that by metis
qed

text \<open>The direction of one transition, read off the table.\<close>

definition transition_dir :: "u8 \<Rightarrow> u8 \<Rightarrow> int" where
  "transition_dir p c = QEM ! unat (push_bit 2 p OR c)"

lemma transition_dir_table:
  "transition_dir (encode a b) (encode a' b') =
     (if (a, b) = (a', b') \<or> (a \<noteq> a' \<and> b \<noteq> b') then 0
      else if (a \<noteq> a') = (a = b) then 1 else -1)"
  by (cases a; cases b; cases a'; cases b')
     (simp_all add: encode_values transition_dir_def QEM_def)

lemma transition_dir_range: "transition_dir (encode a b) (encode a' b') \<in> {-1, 0, 1}"
  by (simp add: transition_dir_table)

text \<open>Undoing a transition undoes its direction.\<close>

lemma transition_dir_antisym:
  "transition_dir (encode a b) (encode a' b') = - transition_dir (encode a' b') (encode a b)"
  by (cases a; cases b; cases a'; cases b') (simp_all add: transition_dir_table)

text \<open>The accumulator's part of \<open>update\<close>, on a direction that is not 0.\<close>

definition acc_step :: "int \<Rightarrow> int \<Rightarrow> EncoderTick option \<times> int" where
  "acc_step acc dir =
     (let a = (if (acc > 0 \<and> dir < 0) \<or> (acc < 0 \<and> dir > 0) then 0 else acc) + dir
      in if a \<ge> 4 then (Some Cw, 0) else if a \<le> -4 then (Some Ccw, 0) else (None, a))"

lemma decoder_update_acc_step:
  "decoder_update d s =
     (let c = encode (fst s) (snd s); dir = transition_dir (qd_prev d) c
      in if dir = 0 then (None, d\<lparr>qd_prev := c\<rparr>)
         else (fst (acc_step (qd_accum d) dir),
               d\<lparr>qd_prev := c, qd_accum := snd (acc_step (qd_accum d) dir)\<rparr>))"
  by (simp add: decoder_update_def transition_dir_def acc_step_def Let_def
      TRANSITIONS_PER_DETENT_def)

lemma decoder_new_inv [inv_intros]: "decoder_inv (decoder_new a b)"
  by (simp add: decoder_inv_def decoder_new_def encode_lt_4)

lemma acc_step_bounds:
  "-4 < acc \<Longrightarrow> acc < 4 \<Longrightarrow> dir \<in> {-1, 1} \<Longrightarrow>
     -4 < snd (acc_step acc dir) \<and> snd (acc_step acc dir) < 4"
  by (auto simp: acc_step_def Let_def)

lemma decoder_update_inv [inv_intros]:
  assumes "decoder_inv d"
  shows "decoder_inv (snd (decoder_update d s))"
proof -
  obtain a b where p: "qd_prev d = encode a b"
    using assms code_cases by (auto simp: decoder_inv_def)
  let ?dir = "transition_dir (qd_prev d) (encode (fst s) (snd s))"
  have "?dir \<in> {-1, 0, 1}" by (simp only: p transition_dir_range)
  then show ?thesis
    using assms acc_step_bounds [of "qd_accum d" ?dir] encode_lt_4
    by (auto simp: decoder_update_acc_step Let_def decoder_inv_def)
qed

section \<open>Decoding a stream of samples\<close>

definition ticks_of :: "EncoderTick option list \<Rightarrow> EncoderTick list" where
  "ticks_of os = map the (filter (\<lambda>x. x \<noteq> None) os)"

definition decoder_ticks :: "QuadratureDecoder \<Rightarrow> (bool \<times> bool) list \<Rightarrow> EncoderTick list" where
  "decoder_ticks d ss = ticks_of (fst (run_steps decoder_update d ss))"

text \<open>The directions of the legal transitions a stream of samples makes.\<close>

fun directions :: "u8 \<Rightarrow> (bool \<times> bool) list \<Rightarrow> int list" where
  "directions p [] = []"
| "directions p ((a, b) # ss) =
     (let d = transition_dir p (encode a b)
      in if d = 0 then directions (encode a b) ss else d # directions (encode a b) ss)"

text \<open>
  The specification: a detent per four legal transitions of a maximal run in one direction; what
  is left of a run when the shaft reverses is dropped.
\<close>

definition tick_of_dir :: "int \<Rightarrow> EncoderTick" where
  "tick_of_dir d = (if 0 < d then Cw else Ccw)"

function run_ticks :: "int list \<Rightarrow> EncoderTick list" where
  "run_ticks [] = []"
| "run_ticks (d # ds) =
     replicate (Suc (length (takeWhile (\<lambda>x. x = d) ds)) div 4) (tick_of_dir d)
     @ run_ticks (dropWhile (\<lambda>x. x = d) ds)"
  by pat_completeness auto
termination
  by (relation "measure length") (auto simp: length_dropWhile_le le_imp_less_Suc)

fun acc_run :: "int \<Rightarrow> int list \<Rightarrow> EncoderTick list" where
  "acc_run acc [] = []"
| "acc_run acc (d # ds) =
     (case acc_step acc d of (None, acc') \<Rightarrow> acc_run acc' ds | (Some t, acc') \<Rightarrow> t # acc_run acc' ds)"

lemma decoder_ticks_acc_run:
  "decoder_ticks d ss = acc_run (qd_accum d) (directions (qd_prev d) ss)"
proof (induction ss arbitrary: d)
  case Nil
  then show ?case by (simp add: decoder_ticks_def ticks_of_def)
next
  case (Cons s ss)
  obtain a b where s: "s = (a, b)" by (cases s)
  have "decoder_ticks d (s # ss) =
      (case fst (decoder_update d s) of None \<Rightarrow> [] | Some t \<Rightarrow> [t])
      @ decoder_ticks (snd (decoder_update d s)) ss"
    by (simp add: decoder_ticks_def ticks_of_def Let_def case_prod_beta split: option.split)
  then show ?case
    by (simp add: s Cons.IH decoder_update_acc_step Let_def case_prod_beta split: option.split)
qed

lemma acc_run_same:
  assumes "d \<in> {-1, 1}" "j < 4"
  shows "acc_run (int j * d) (replicate n d @ ds) =
    replicate ((j + n) div 4) (tick_of_dir d) @ acc_run (int ((j + n) mod 4) * d) ds"
  using assms(2)
proof (induction n arbitrary: j)
  case 0
  then show ?case by simp
next
  case (Suc n)
  show ?case
  proof (cases "j = 3")
    case True
    have "acc_step (int j * d) d = (Some (tick_of_dir d), 0)"
      using assms(1) True by (auto simp: acc_step_def tick_of_dir_def)
    moreover have "(4 + n) div 4 = Suc (n div 4)" "(4 + n) mod 4 = n mod 4" by simp_all
    ultimately show ?thesis using Suc.IH [of 0] True by (simp add: Suc.IH [of 0])
  next
    case False
    with Suc.prems have j: "Suc j < 4" by simp
    have "acc_step (int j * d) d = (None, int (Suc j) * d)"
      using assms(1) j by (auto simp: acc_step_def)
    then show ?thesis using Suc.IH [OF j] by simp
  qed
qed

lemma acc_run_reverse:
  assumes "d \<in> {-1, 1}" "ds = [] \<or> hd ds = - d"
  shows "acc_run (int j * d) ds = acc_run 0 ds"
proof (cases ds)
  case (Cons e es)
  with assms have "acc_step (int j * d) e = acc_step 0 e"
    by (auto simp: acc_step_def Let_def)
  then show ?thesis by (simp add: Cons)
qed simp

lemma run_split:
  "\<exists>n. takeWhile (\<lambda>x. x = d) ds = replicate n d \<and> ds = replicate n d @ dropWhile (\<lambda>x. x = d) ds"
proof -
  let ?t = "takeWhile (\<lambda>x. x = d) ds" and ?r = "dropWhile (\<lambda>x. x = d) ds"
  have t: "replicate (length ?t) d = ?t"
    by (rule replicate_length_same) (auto dest: set_takeWhileD)
  have "ds = replicate (length ?t) d @ ?r"
    unfolding t by simp
  with t show ?thesis by (intro exI [of _ "length ?t"]) simp
qed

lemma acc_run_run_ticks: "set ds \<subseteq> {-1, 1} \<Longrightarrow> acc_run 0 ds = run_ticks ds"
proof (induction ds rule: run_ticks.induct)
  case 1
  then show ?case by simp
next
  case (2 d ds)
  let ?rest = "dropWhile (\<lambda>x. x = d) ds"
  obtain n where n: "takeWhile (\<lambda>x. x = d) ds = replicate n d" "ds = replicate n d @ ?rest"
    using run_split [of d ds] by blast
  have d: "d \<in> {-1, 1}" using "2.prems" by simp
  have sub: "set ?rest \<subseteq> {-1, 1}" using "2.prems" by (auto dest: set_dropWhileD)
  have hd: "?rest = [] \<or> hd ?rest = - d"
  proof (cases "?rest = []")
    case False
    then have "hd ?rest \<noteq> d" "hd ?rest \<in> {-1, 1}"
      using hd_dropWhile [of "\<lambda>x. x = d" ds] hd_in_set [of ?rest] sub by blast+
    with d show ?thesis by auto
  qed simp
  have "acc_run 0 (d # ds) = acc_run (int 0 * d) (replicate (Suc n) d @ ?rest)"
    using n(2) by simp
  also have "\<dots> = replicate (Suc n div 4) (tick_of_dir d) @ acc_run (int (Suc n mod 4) * d) ?rest"
    using acc_run_same [OF d, of 0 "Suc n" ?rest] by simp
  also have "acc_run (int (Suc n mod 4) * d) ?rest = run_ticks ?rest"
    using acc_run_reverse [OF d hd] "2.IH" [OF sub] by simp
  finally show ?case using n(1) by simp
qed

lemma directions_range: "unat p < 4 \<Longrightarrow> set (directions p ss) \<subseteq> {-1, 1}"
proof (induction p ss rule: directions.induct)
  case 1
  then show ?case by simp
next
  case (2 p a b ss)
  obtain a0 b0 where p: "p = encode a0 b0" using "2.prems" code_cases by blast
  have "transition_dir p (encode a b) \<in> {-1, 0, 1}" by (simp only: p transition_dir_range)
  with "2.IH" encode_lt_4 show ?case by (auto simp: Let_def)
qed

text \<open>
  C36: What the decoder emits for any stream of pin samples is what the specification says: each
  maximal run of same-direction transitions gives one tick of its direction per four transitions,
  repeated and illegal samples count for nothing, and a reversal drops the partial detent.
\<close>

theorem decoder_refines_run_ticks:
  "decoder_ticks (decoder_new a b) ss = run_ticks (directions (encode a b) ss)"
  by (simp add: decoder_ticks_acc_run decoder_new_def acc_run_run_ticks directions_range encode_lt_4)

text \<open>
  The accumulator stays short of a detent after every sample, so the code's \<open>i8\<close> addition
  never leaves -4 to 4, and the table index never leaves the table's 16 entries.
\<close>

theorem decoder_accum_bounded:
  "decoder_inv (snd (run_steps decoder_update (decoder_new a b) ss)) \<and>
   unat (push_bit 2 (qd_prev (snd (run_steps decoder_update (decoder_new a b) ss)))
         OR encode a' b') < length QEM"
proof
  show inv: "decoder_inv (snd (run_steps decoder_update (decoder_new a b) ss))"
    by (rule run_steps_invariant) (rule inv_intros | assumption)+
  obtain c d where "qd_prev (snd (run_steps decoder_update (decoder_new a b) ss)) = encode c d"
    using inv code_cases by (auto simp: decoder_inv_def)
  then show "unat (push_bit 2 (qd_prev (snd (run_steps decoder_update (decoder_new a b) ss)))
      OR encode a' b') < length QEM"
    by (cases c; cases d; cases a'; cases b') (simp_all add: encode_values QEM_def)
qed

text \<open>The pin codes of one clockwise detent, from any rest position, and of \<open>n\<close> of them.\<close>

fun cw_next :: "bool \<times> bool \<Rightarrow> bool \<times> bool" where
  "cw_next (a, b) = (\<not> b, a)"

fun cw_turn :: "nat \<Rightarrow> bool \<times> bool \<Rightarrow> (bool \<times> bool) list" where
  "cw_turn 0 s = []"
| "cw_turn (Suc n) s = cw_next s # cw_turn n (cw_next s)"

lemma directions_cw_turn: "directions (encode a b) (cw_turn n (a, b)) = replicate n 1"
  by (induction n arbitrary: a b) (auto simp: transition_dir_table Let_def)

lemma run_ticks_replicate: "run_ticks (replicate n d) = replicate (n div 4) (tick_of_dir d)"
proof (cases n)
  case (Suc m)
  have "takeWhile (\<lambda>x. x = d) (replicate m d) = replicate m d"
    "dropWhile (\<lambda>x. x = d) (replicate m d) = []" by auto
  then show ?thesis by (simp add: Suc)
qed simp

lemma acc_run_replicate_1: "acc_run 0 (replicate n 1) = replicate (n div 4) Cw"
proof -
  have "set (replicate n (1::int)) \<subseteq> {-1, 1}" by auto
  then show ?thesis by (simp add: acc_run_run_ticks run_ticks_replicate tick_of_dir_def)
qed

text \<open>
  Turning clockwise by \<open>n\<close> quarter steps from any rest position of the shaft gives one \<open>Cw\<close> per
  full detent, wherever in the detent the decoder was created.
\<close>

theorem cw_turn_ticks:
  "decoder_ticks (decoder_new a b) (cw_turn n (a, b)) = replicate (n div 4) Cw"
  by (simp add: decoder_ticks_acc_run decoder_new_def directions_cw_turn acc_run_replicate_1)

end
