(* ===== verification/Button.thy ===== *)
theory Button
  imports Prelude
begin

text \<open>
  The integrating debouncer of the encoder's push button
  (\<open>crates/anova-oven-pico-core/src/button.rs\<close>): the verdicts, the state of one low-going
  excursion and \<open>sample\<close>, with the \<open>u32\<close> arithmetic at its width (the diagnostics counters wrap
  in a release build). The lemmas show what a verdict means in terms of the samples fed so far.
\<close>

datatype ButtonVerdict = Idle | Pressed | Released | Glitch

record Debouncer =
  charge_ms :: u32
  pressed :: bool
  samples :: u32
  peak_charge_ms :: u32
  elapsed_ms :: u32
  last_low_ms :: u32

definition SAMPLE_INTERVAL_MS :: u32 where
  "SAMPLE_INTERVAL_MS = 2"

definition PRESS_MS :: u32 where
  "PRESS_MS = 12"

definition MAX_STEP_MS :: u32 where
  "MAX_STEP_MS = PRESS_MS div 2"

definition debouncer_new :: Debouncer where
  "debouncer_new =
     \<lparr>charge_ms = 0, pressed = False, samples = 0, peak_charge_ms = 0, elapsed_ms = 0,
      last_low_ms = 0\<rparr>"

definition sample :: "Debouncer \<Rightarrow> bool \<times> u32 \<Rightarrow> ButtonVerdict \<times> Debouncer" where
  "sample d s =
     (let (is_low, elapsed) = s;
          step = min elapsed MAX_STEP_MS;
          d = d\<lparr>samples := samples d + 1, elapsed_ms := elapsed_ms d + elapsed\<rparr>;
          d = (if is_low then d\<lparr>last_low_ms := elapsed_ms d\<rparr> else d);
          d = (if is_low
               then let c = min (charge_ms d + step) PRESS_MS
                    in d\<lparr>charge_ms := c, peak_charge_ms := max (peak_charge_ms d) c\<rparr>
               else d\<lparr>charge_ms := sat_sub (charge_ms d) step\<rparr>)
      in if \<not> pressed d \<and> PRESS_MS \<le> charge_ms d then (Pressed, d\<lparr>pressed := True\<rparr>)
         else if charge_ms d = 0 then (if pressed d then Released else Glitch, d)
         else (Idle, d))"

definition contact_ms :: "Debouncer \<Rightarrow> u32" where
  "contact_ms d = last_low_ms d"

definition is_pressed :: "Debouncer \<Rightarrow> bool" where
  "is_pressed d = pressed d"

section \<open>Invariant\<close>

text \<open>
  The charge never passes the threshold, the high-water mark is above the charge and below the
  threshold, and it is at the threshold exactly when a press has been reported.
\<close>

definition debouncer_inv :: "Debouncer \<Rightarrow> bool" where
  "debouncer_inv d \<longleftrightarrow>
     unat (charge_ms d) \<le> unat (peak_charge_ms d) \<and> unat (peak_charge_ms d) \<le> 12 \<and>
     (pressed d \<longleftrightarrow> unat (peak_charge_ms d) = 12)"

lemma press_consts: "unat PRESS_MS = 12" "unat MAX_STEP_MS = 6" "unat SAMPLE_INTERVAL_MS = 2"
  by (simp_all add: PRESS_MS_def MAX_STEP_MS_def SAMPLE_INTERVAL_MS_def)

lemma unat_min: "unat (min a b) = min (unat a) (unat (b :: 'a::len word))"
  by (simp add: min_def word_le_nat_alt)

lemma unat_max: "unat (max a b) = max (unat a) (unat (b :: 'a::len word))"
  by (simp add: max_def word_le_nat_alt)

text \<open>The charge after a sample, on natural numbers.\<close>

definition step_of :: "u32 \<Rightarrow> nat" where
  "step_of e = min (unat e) 6"

lemma charge_word:
  "charge_ms (snd (sample d (True, e))) = min (charge_ms d + min e MAX_STEP_MS) PRESS_MS"
  "charge_ms (snd (sample d (False, e))) = sat_sub (charge_ms d) (min e MAX_STEP_MS)"
  by (auto simp: sample_def Let_def)

lemma charge_after:
  assumes "debouncer_inv d"
  shows "unat (charge_ms (snd (sample d (True, e)))) = min (unat (charge_ms d) + step_of e) 12"
    and "unat (charge_ms (snd (sample d (False, e)))) = unat (charge_ms d) - step_of e"
proof -
  have "unat (charge_ms d) \<le> 12" using assms by (simp add: debouncer_inv_def)
  then have "unat (charge_ms d + min e MAX_STEP_MS) = unat (charge_ms d) + step_of e"
    by (subst unat_add_no_wrap) (auto simp: unat_min press_consts step_of_def)
  then show "unat (charge_ms (snd (sample d (True, e)))) = min (unat (charge_ms d) + step_of e) 12"
    by (simp add: charge_word unat_min press_consts)
  show "unat (charge_ms (snd (sample d (False, e)))) = unat (charge_ms d) - step_of e"
    by (simp add: charge_word unat_sat_sub unat_min press_consts step_of_def)
qed

lemma peak_after:
  assumes "debouncer_inv d"
  shows "unat (peak_charge_ms (snd (sample d (True, e)))) =
      max (unat (peak_charge_ms d)) (min (unat (charge_ms d) + step_of e) 12)"
    and "peak_charge_ms (snd (sample d (False, e))) = peak_charge_ms d"
proof -
  have "peak_charge_ms (snd (sample d (True, e))) =
      max (peak_charge_ms d) (charge_ms (snd (sample d (True, e))))"
    by (simp add: sample_def Let_def)
  then show "unat (peak_charge_ms (snd (sample d (True, e)))) =
      max (unat (peak_charge_ms d)) (min (unat (charge_ms d) + step_of e) 12)"
    by (simp add: unat_max charge_after [OF assms])
  show "peak_charge_ms (snd (sample d (False, e))) = peak_charge_ms d"
    by (simp add: sample_def Let_def)
qed

lemma pressed_after:
  "pressed (snd (sample d s)) \<longleftrightarrow> pressed d \<or> 12 \<le> unat (charge_ms (snd (sample d s)))"
  by (cases s) (simp add: sample_def Let_def word_le_nat_alt press_consts)

lemma verdict_eq:
  "fst (sample d s) =
     (if \<not> pressed d \<and> pressed (snd (sample d s)) then Pressed
      else if charge_ms (snd (sample d s)) = 0 then (if pressed d then Released else Glitch)
      else Idle)"
  by (cases s) (simp add: sample_def Let_def)

lemma debouncer_new_inv [inv_intros]: "debouncer_inv debouncer_new"
  by (simp add: debouncer_inv_def debouncer_new_def)

lemma sample_inv [inv_intros]:
  assumes "debouncer_inv d"
  shows "debouncer_inv (snd (sample d s))"
proof (cases s)
  case (Pair is_low e)
  have d: "unat (charge_ms d) \<le> unat (peak_charge_ms d)" "unat (peak_charge_ms d) \<le> 12"
      "pressed d \<longleftrightarrow> unat (peak_charge_ms d) = 12"
    using assms by (simp_all add: debouncer_inv_def)
  show ?thesis
  proof (cases is_low)
    case True
    show ?thesis
      unfolding debouncer_inv_def pressed_after
      using d by (auto simp: Pair True charge_after [OF assms] peak_after [OF assms])
  next
    case False
    show ?thesis
      unfolding debouncer_inv_def pressed_after
      using d by (auto simp: Pair False charge_after [OF assms] peak_after [OF assms])
  qed
qed

section \<open>An excursion\<close>

definition verdicts :: "Debouncer \<Rightarrow> (bool \<times> u32) list \<Rightarrow> ButtonVerdict list" where
  "verdicts d ss = fst (run_steps sample d ss)"

lemma verdicts_Cons [simp]: "verdicts d (s # ss) = fst (sample d s) # verdicts (snd (sample d s)) ss"
  by (simp add: verdicts_def Let_def case_prod_beta)

lemma verdicts_Nil [simp]: "verdicts d [] = []"
  by (simp add: verdicts_def)

text \<open>Low time a sample list holds, each sample counted up to the cap.\<close>

definition low_evidence :: "(bool \<times> u32) list \<Rightarrow> nat" where
  "low_evidence ss = (\<Sum>(l, e) \<leftarrow> ss. if l then step_of e else 0)"

lemma pressed_mono: "pressed d \<Longrightarrow> Pressed \<notin> set (verdicts d ss)"
  by (induction ss arbitrary: d) (auto simp: verdict_eq pressed_after)

lemma count_pressed_le:
  "count_list (verdicts d ss) Pressed \<le> (if pressed d then 0 else 1)"
proof (induction ss arbitrary: d)
  case (Cons s ss)
  show ?case
    using Cons.IH [of "snd (sample d s)"] by (auto simp: verdict_eq pressed_after split: if_splits)
qed simp

lemma evidence_needed:
  assumes "debouncer_inv d" "\<not> pressed d" "Pressed \<in> set (verdicts d ss)"
  shows "12 \<le> unat (charge_ms d) + low_evidence ss"
  using assms
proof (induction ss arbitrary: d)
  case Nil
  then show ?case by simp
next
  case (Cons s ss)
  obtain l e where s: "s = (l, e)" by (cases s)
  let ?d = "snd (sample d s)"
  have charge: "unat (charge_ms ?d) \<le> unat (charge_ms d) + (if l then step_of e else 0)"
    using charge_after [OF Cons.prems(1), of e] by (cases l) (auto simp: s)
  show ?case
  proof (cases "pressed ?d")
    case True
    then have "12 \<le> unat (charge_ms ?d)"
      using Cons.prems(2) by (simp add: pressed_after)
    with charge show ?thesis by (simp add: s low_evidence_def)
  next
    case False
    have "fst (sample d s) \<noteq> Pressed" using False by (simp add: verdict_eq)
    with Cons.prems(3) have "Pressed \<in> set (verdicts ?d ss)" by auto
    from Cons.IH [OF sample_inv [OF Cons.prems(1)] False this] charge
    show ?thesis by (simp add: s low_evidence_def split: if_splits)
  qed
qed

text \<open>
  A press needs \<open>PRESS_MS\<close> of low evidence: whatever the samples and however late they
  arrive, a fresh debouncer reports a press at most once, and only when the low samples, each
  counted up to half the threshold, add up to 12 ms. So no single sample can confirm a press.
\<close>

theorem press_needs_evidence:
  "count_list (verdicts debouncer_new ss) Pressed \<le> 1 \<and>
   (Pressed \<in> set (verdicts debouncer_new ss) \<longrightarrow> 12 \<le> low_evidence ss) \<and>
   verdicts debouncer_new [s] \<noteq> [Pressed]"
proof (intro conjI impI)
  show "count_list (verdicts debouncer_new ss) Pressed \<le> 1"
    using count_pressed_le [of debouncer_new ss] by (auto split: if_splits)
next
  assume "Pressed \<in> set (verdicts debouncer_new ss)"
  with evidence_needed [OF debouncer_new_inv, of ss] show "12 \<le> low_evidence ss"
    by (simp add: debouncer_new_def)
next
  have "low_evidence [s] \<le> 6" by (cases s) (simp add: low_evidence_def step_of_def)
  with evidence_needed [OF debouncer_new_inv, of "[s]"]
  show "verdicts debouncer_new [s] \<noteq> [Pressed]"
    by (auto simp: debouncer_new_def)
qed

text \<open>
  The caller stops at the first verdict that ends the excursion. \<open>stops\<close> says which do.
\<close>

definition stops :: "ButtonVerdict \<Rightarrow> bool" where
  "stops v \<longleftrightarrow> v = Released \<or> v = Glitch"

lemma released_only_after_pressed:
  "verdicts d ss = vs @ [Released] \<Longrightarrow> pressed d \<or> Pressed \<in> set vs"
proof (induction ss arbitrary: d vs)
  case Nil
  then show ?case by simp
next
  case (Cons s ss)
  show ?case
  proof (cases vs)
    case Nil
    with Cons.prems have "fst (sample d s) = Released" by simp
    then show ?thesis by (simp add: verdict_eq split: if_splits)
  next
    case (Cons v vs')
    with Cons.prems have v: "v = fst (sample d s)"
      and tail: "verdicts (snd (sample d s)) ss = vs' @ [Released]" by auto
    from Cons.IH [OF tail] show ?thesis
      by (auto simp: Cons v verdict_eq pressed_after split: if_splits)
  qed
qed

lemma glitch_only_unpressed:
  "verdicts d ss = vs @ [Glitch] \<Longrightarrow> \<not> pressed d \<and> Pressed \<notin> set vs"
proof (induction ss arbitrary: d vs)
  case Nil
  then show ?case by simp
next
  case (Cons s ss)
  show ?case
  proof (cases vs)
    case Nil
    with Cons.prems have "fst (sample d s) = Glitch" by simp
    then show ?thesis using Nil by (simp add: verdict_eq split: if_splits)
  next
    case (Cons v vs')
    with Cons.prems have v: "v = fst (sample d s)"
      and tail: "verdicts (snd (sample d s)) ss = vs' @ [Glitch]" by auto
    from Cons.IH [OF tail] show ?thesis
      by (auto simp: Cons v verdict_eq pressed_after split: if_splits)
  qed
qed

text \<open>
  The verdict that ends an excursion tells the caller whether a press was reported: an
  excursion ends in \<open>Released\<close> only after a \<open>Pressed\<close>, and in \<open>Glitch\<close> only without one.
\<close>

theorem excursion_end:
  "(verdicts debouncer_new ss = vs @ [Released] \<longrightarrow> Pressed \<in> set vs) \<and>
   (verdicts debouncer_new ss = vs @ [Glitch] \<longrightarrow> Pressed \<notin> set vs)"
  using released_only_after_pressed [of debouncer_new ss vs]
    glitch_only_unpressed [of debouncer_new ss vs]
  by (auto simp: debouncer_new_def)

text \<open>
  Liveness: once the line stays high the excursion ends, because every sample with time between
  discharges at least a millisecond.
\<close>

lemma discharge:
  assumes "debouncer_inv d" "unat (charge_ms d) \<le> length es" "es \<noteq> []" "\<forall>e \<in> set es. 0 < unat e"
  shows "\<exists>v \<in> set (verdicts d (map (Pair False) es)). stops v"
  using assms
proof (induction es arbitrary: d)
  case Nil
  then show ?case by simp
next
  case (Cons e es)
  let ?d = "snd (sample d (False, e))"
  have charge: "unat (charge_ms ?d) = unat (charge_ms d) - step_of e"
    by (rule charge_after(2) [OF Cons.prems(1)])
  have step: "1 \<le> step_of e" using Cons.prems(4) by (simp add: step_of_def)
  have press: "pressed ?d \<longleftrightarrow> pressed d"
    using Cons.prems(1) step charge by (auto simp: pressed_after debouncer_inv_def)
  show ?case
  proof (cases "charge_ms ?d = 0")
    case True
    then have "stops (fst (sample d (False, e)))"
      by (simp add: verdict_eq press stops_def)
    then show ?thesis by simp
  next
    case False
    then have pos: "0 < unat (charge_ms ?d)" by (simp add: unat_gt_0)
    then have "unat (charge_ms ?d) \<le> length es" "es \<noteq> []"
      using Cons.prems(2) charge step by (cases es; simp)+
    with Cons.IH [OF sample_inv [OF Cons.prems(1)]] Cons.prems(4) show ?thesis by auto
  qed
qed

text \<open>
  C37: Every excursion ends: after any samples at all, twelve samples of a line that stays high,
  with time between them, bring the verdict that stops the caller's sampling loop.
\<close>

theorem excursion_terminates:
  assumes "\<forall>e \<in> set es. 0 < unat e" and "length es = 12"
  shows "\<exists>v \<in> set (verdicts (snd (run_steps sample debouncer_new ss)) (map (Pair False) es)). stops v"
proof -
  have inv: "debouncer_inv (snd (run_steps sample debouncer_new ss))"
    by (rule run_steps_invariant) (rule inv_intros | assumption)+
  show ?thesis
    by (rule discharge [OF inv]) (use inv assms in \<open>auto simp: debouncer_inv_def\<close>)
qed

theorem excursion_terminates_witness:
  "\<exists>v \<in> set (verdicts (snd (run_steps sample debouncer_new [(True, 40)]))
      (map (Pair False) (replicate 12 2))). stops v"
  by (rule excursion_terminates) simp_all

end
