(* ===== verification/Scheduler.thy ===== *)
theory Scheduler
  imports Prelude "HOL-Library.Product_Lexorder"
begin

text \<open>
  The bounded event queue of the firmware's API client
  (\<open>crates/anova-oven-pico-core/src/scheduler.rs\<close>). The queue is the code's vector, in vector
  order: \<open>enqueue\<close> updates in place or pushes, \<open>pop_due\<close> takes the soonest event out with
  \<open>swap_remove\<close>. An \<open>Instant\<close> is its number of ticks.

  The interface the API client relies on is the locale \<open>poll_queue\<close>, stated over the map from
  event kinds to due times; its interpretation at the end shows that the vector implements it.
\<close>

type_synonym instant = nat

definition EVENT_QUEUE_CAPACITY :: nat where
  "EVENT_QUEUE_CAPACITY = 16"

datatype EventKind =
  PollStatus | PollCurrentCook | PollRecipes | ApiStart | ApiStop | ApiNextStage

fun priority_of :: "EventKind \<Rightarrow> nat" where
  "priority_of ApiStart = 0"
| "priority_of ApiStop = 0"
| "priority_of ApiNextStage = 0"
| "priority_of _ = 1"

record ScheduledEvent =
  ev_kind :: EventKind
  execution_time :: instant
  ev_priority :: nat

datatype EnqueueMode = PreferEarlier | Replace

datatype QueueOverflow = QueueOverflow

type_synonym EventQueue = "ScheduledEvent list"

definition queue_new :: EventQueue where
  "queue_new = []"

definition enqueue ::
  "EventQueue \<Rightarrow> EventKind \<Rightarrow> instant \<Rightarrow> EnqueueMode \<Rightarrow> (QueueOverflow + unit) \<times> EventQueue" where
  "enqueue q k t mode =
     (case position (\<lambda>e. ev_kind e = k) q of
        Some i \<Rightarrow>
          (Inr (),
           q[i := (q ! i)\<lparr>execution_time :=
             (case mode of PreferEarlier \<Rightarrow> min (execution_time (q ! i)) t | Replace \<Rightarrow> t)\<rparr>])
      | None \<Rightarrow>
          if length q < EVENT_QUEUE_CAPACITY
          then (Inr (), q @ [\<lparr>ev_kind = k, execution_time = t, ev_priority = priority_of k\<rparr>])
          else (Inl QueueOverflow, q))"

definition sooner :: "ScheduledEvent \<Rightarrow> ScheduledEvent \<Rightarrow> bool" where
  "sooner a b \<longleftrightarrow> execution_time a < execution_time b \<or>
     execution_time a = execution_time b \<and> ev_priority a < ev_priority b"

definition soonest_index :: "EventQueue \<Rightarrow> nat option" where
  "soonest_index q = first_min_index sooner q"

definition next_due_at :: "EventQueue \<Rightarrow> instant option" where
  "next_due_at q = map_option (\<lambda>i. execution_time (q ! i)) (soonest_index q)"

definition has_pending :: "EventQueue \<Rightarrow> EventKind \<Rightarrow> bool" where
  "has_pending q k = list_ex (\<lambda>e. ev_kind e = k) q"

definition pop_due :: "EventQueue \<Rightarrow> instant \<Rightarrow> ScheduledEvent option \<times> EventQueue" where
  "pop_due q now =
     (case soonest_index q of
        None \<Rightarrow> (None, q)
      | Some i \<Rightarrow> if execution_time (q ! i) > now then (None, q) else (Some (q ! i), swap_remove i q))"

section \<open>The interface\<close>

definition merge_time :: "EnqueueMode \<Rightarrow> instant option \<Rightarrow> instant \<Rightarrow> instant" where
  "merge_time mode old t =
     (case (mode, old) of (PreferEarlier, Some t') \<Rightarrow> min t' t | _ \<Rightarrow> t)"

definition due_key :: "instant \<Rightarrow> EventKind \<Rightarrow> nat \<times> nat" where
  "due_key t k = (t, priority_of k)"

text \<open>
  What the client sees: at most one due time per kind, an \<open>enqueue\<close> that always succeeds, and a
  \<open>pop_due\<close> that takes out a pending event no other precedes, if one is due.
\<close>

locale poll_queue =
  fixes empty :: 'q
    and enq :: "'q \<Rightarrow> EventKind \<Rightarrow> instant \<Rightarrow> EnqueueMode \<Rightarrow> (QueueOverflow + unit) \<times> 'q"
    and pop :: "'q \<Rightarrow> instant \<Rightarrow> ScheduledEvent option \<times> 'q"
    and due :: "'q \<Rightarrow> instant option"
    and contents :: "'q \<Rightarrow> EventKind \<rightharpoonup> instant"
    and inv :: "'q \<Rightarrow> bool"
  assumes empty_contents: "contents empty = Map.empty" and empty_inv: "inv empty"
    and enq_ok: "inv q \<Longrightarrow> fst (enq q k t m) = Inr ()"
    and enq_inv: "inv q \<Longrightarrow> inv (snd (enq q k t m))"
    and enq_contents:
      "inv q \<Longrightarrow> contents (snd (enq q k t m)) = (contents q)(k \<mapsto> merge_time m (contents q k) t)"
    and pop_inv: "inv q \<Longrightarrow> inv (snd (pop q now))"
    and pop_None: "inv q \<Longrightarrow> fst (pop q now) = None \<Longrightarrow>
      (\<forall>k t. contents q k = Some t \<longrightarrow> now < t) \<and> snd (pop q now) = q"
    and pop_Some: "inv q \<Longrightarrow> fst (pop q now) = Some e \<Longrightarrow>
      contents q (ev_kind e) = Some (execution_time e) \<and> execution_time e \<le> now \<and>
      (\<forall>k t. contents q k = Some t \<longrightarrow> due_key (execution_time e) (ev_kind e) \<le> due_key t k) \<and>
      contents (snd (pop q now)) = (contents q)(ev_kind e := None)"
    and due_None: "inv q \<Longrightarrow> due q = None \<longleftrightarrow> contents q = Map.empty"
    and due_Some: "inv q \<Longrightarrow> due q = Some t \<Longrightarrow>
      (\<exists>k. contents q k = Some t) \<and> (\<forall>k t'. contents q k = Some t' \<longrightarrow> t \<le> t')"
begin

text \<open>The client's drain without new commands: pop until nothing is due.\<close>

fun pops :: "nat \<Rightarrow> 'q \<Rightarrow> instant \<Rightarrow> ScheduledEvent list \<times> 'q" where
  "pops 0 q now = ([], q)"
| "pops (Suc n) q now =
     (case pop q now of
        (None, q') \<Rightarrow> ([], q')
      | (Some e, q') \<Rightarrow> (let (es, q'') = pops n q' now in (e # es, q'')))"

lemma pop_dom: "inv q \<Longrightarrow> fst (pop q now) = Some e \<Longrightarrow>
    dom (contents (snd (pop q now))) = dom (contents q) - {ev_kind e}"
  by (auto dest!: pop_Some split: if_splits)

lemma requeue_dom:
  assumes "inv q" "fst (pop q now) = Some e"
  shows "dom (contents (snd (enq (snd (pop q now)) (ev_kind e) t m))) = dom (contents q)"
proof -
  have "ev_kind e \<in> dom (contents q)" using pop_Some [OF assms] by auto
  then show ?thesis
    using enq_contents [OF pop_inv [OF assms(1)], of now "ev_kind e" t m] pop_dom [OF assms]
    by auto
qed

lemma pops_inv: "inv q \<Longrightarrow> inv (snd (pops n q now))"
proof (induction n arbitrary: q)
  case 0
  then show ?case by simp
next
  case (Suc n)
  show ?case
    using pop_inv [OF Suc.prems, of now] Suc.IH [of "snd (pop q now)"]
    by (cases "pop q now") (auto split: option.splits prod.splits)
qed

text \<open>Popped events come out in order of due time, then priority, and all are due.\<close>

lemma pops_sorted:
  "inv q \<Longrightarrow> es = fst (pops n q now) \<Longrightarrow>
     sorted (map (\<lambda>e. due_key (execution_time e) (ev_kind e)) es) \<and>
     (\<forall>e \<in> set es. contents q (ev_kind e) = Some (execution_time e) \<and> execution_time e \<le> now) \<and>
     distinct (map ev_kind es)"
proof (induction n arbitrary: q es)
  case 0
  then show ?case by simp
next
  case (Suc n)
  obtain r q' where pop: "pop q now = (r, q')" by (cases "pop q now")
  show ?case
  proof (cases r)
    case None
    with pop Suc.prems show ?thesis by simp
  next
    case (Some e)
    let ?tl = "fst (pops n q' now)"
    have es: "es = e # ?tl" using pop Some Suc.prems(2) by (simp add: case_prod_beta Let_def)
    have q': "inv q'" using pop_inv [OF Suc.prems(1), of now] pop by simp
    have e: "contents q (ev_kind e) = Some (execution_time e)" "execution_time e \<le> now"
        "\<And>k t. contents q k = Some t \<Longrightarrow> due_key (execution_time e) (ev_kind e) \<le> due_key t k"
        "contents q' = (contents q)(ev_kind e := None)"
      using pop_Some [OF Suc.prems(1), of now e] pop Some by auto
    have IH: "sorted (map (\<lambda>e. due_key (execution_time e) (ev_kind e)) ?tl)"
        "\<And>x. x \<in> set ?tl \<Longrightarrow> contents q' (ev_kind x) = Some (execution_time x) \<and> execution_time x \<le> now"
        "distinct (map ev_kind ?tl)"
      using Suc.IH [OF q' refl] by auto
    have tl: "ev_kind x \<noteq> ev_kind e \<and> contents q (ev_kind x) = Some (execution_time x)"
      if "x \<in> set ?tl" for x
      using IH(2) [OF that] e(4) by (auto split: if_splits)
    have ne: "ev_kind e \<notin> ev_kind ` set ?tl" using tl by force
    have le: "\<forall>x \<in> set ?tl. due_key (execution_time e) (ev_kind e) \<le> due_key (execution_time x) (ev_kind x)"
      using e(3) tl by blast
    have all: "\<forall>x \<in> set ?tl. contents q (ev_kind x) = Some (execution_time x) \<and> execution_time x \<le> now"
      using IH(2) tl by blast
    show ?thesis
      unfolding es using IH(1,3) ne le all e(1,2) by simp
  qed
qed

text \<open>With six kinds, seven pops drain everything that is due.\<close>

lemma pops_complete:
  assumes "inv q" "card (dom (contents q)) < n" "contents (snd (pops n q now)) k = Some t"
  shows "now < t"
  using assms
proof (induction n arbitrary: q)
  case 0
  then show ?case by simp
next
  case (Suc n)
  obtain r q' where pop: "pop q now = (r, q')" by (cases "pop q now")
  show ?case
  proof (cases r)
    case None
    with pop_None [OF Suc.prems(1), of now] pop Suc.prems(3) show ?thesis by auto
  next
    case (Some e)
    have q': "inv q'" using pop_inv [OF Suc.prems(1), of now] pop by simp
    have dom: "dom (contents q') = dom (contents q) - {ev_kind e}"
      using pop_dom [OF Suc.prems(1), of now e] pop Some by simp
    have fin: "finite (dom (contents q))"
      by (rule finite_subset [of _ "{PollStatus, PollCurrentCook, PollRecipes, ApiStart, ApiStop, ApiNextStage}"])
         (auto intro: EventKind.exhaust)
    have "ev_kind e \<in> dom (contents q)"
      using pop_Some [OF Suc.prems(1), of now e] pop Some by auto
    then have "card (dom (contents q')) < n"
      using Suc.prems(2) fin dom by (simp add: card_Diff_singleton_if) (metis Suc_less_SucD Suc_pred card_gt_0_iff empty_iff)
    moreover have "contents (snd (pops n q' now)) k = Some t"
      using Suc.prems(3) pop Some by (simp add: case_prod_beta Let_def)
    ultimately show ?thesis using Suc.IH [OF q'] by simp
  qed
qed

end

section \<open>The vector implements the interface\<close>

definition queue_contents :: "EventQueue \<Rightarrow> EventKind \<rightharpoonup> instant" where
  "queue_contents q = map_of (map (\<lambda>e. (ev_kind e, execution_time e)) q)"

definition queue_inv :: "EventQueue \<Rightarrow> bool" where
  "queue_inv q \<longleftrightarrow> distinct (map ev_kind q) \<and> (\<forall>e \<in> set q. ev_priority e = priority_of (ev_kind e))"

lemma EventKind_UNIV:
  "(UNIV :: EventKind set) = {PollStatus, PollCurrentCook, PollRecipes, ApiStart, ApiStop, ApiNextStage}"
  by (auto intro: EventKind.exhaust)

lemma card_EventKind_le: "card (A :: EventKind set) \<le> 6"
proof -
  have "finite (UNIV :: EventKind set)" by (simp add: EventKind_UNIV)
  then have "card A \<le> card (UNIV :: EventKind set)" by (rule card_mono) (rule subset_UNIV)
  also have "\<dots> \<le> 6" by (simp add: EventKind_UNIV)
  finally show ?thesis .
qed

lemma queue_inv_length:
  assumes "queue_inv q"
  shows "length q \<le> 6"
proof -
  have "card (set (map ev_kind q)) = length (map ev_kind q)"
    using assms by (intro distinct_card) (simp add: queue_inv_def)
  with card_EventKind_le [of "set (map ev_kind q)"] show ?thesis by simp
qed

lemma queue_contents_Some:
  "queue_inv q \<Longrightarrow> queue_contents q k = Some t \<longleftrightarrow>
     (\<exists>e \<in> set q. ev_kind e = k \<and> execution_time e = t)"
  by (auto simp: queue_contents_def queue_inv_def map_of_eq_Some_iff comp_def)

lemma queue_contents_None: "queue_contents q k = None \<longleftrightarrow> k \<notin> ev_kind ` set q"
  by (simp add: queue_contents_def map_of_eq_None_iff image_image)

lemma has_pending_iff: "has_pending q k \<longleftrightarrow> k \<in> dom (queue_contents q)"
  by (force simp: has_pending_def list_ex_iff queue_contents_def dom_map_of_conv_image_fst)

text \<open>Rewriting one entry of a list with distinct kinds rewrites one entry of the map.\<close>

lemma contents_update:
  assumes "distinct (map ev_kind q)" "i < length q"
  shows "queue_contents (q[i := (q ! i)\<lparr>execution_time := t\<rparr>]) =
    (queue_contents q)(ev_kind (q ! i) \<mapsto> t)"
  using assms
proof (induction q arbitrary: i)
  case Nil
  then show ?case by simp
next
  case (Cons e q)
  show ?case
  proof (cases i)
    case 0
    then show ?thesis by (auto simp: queue_contents_def fun_eq_iff)
  next
    case (Suc j)
    have "ev_kind (q ! j) \<noteq> ev_kind e"
      using Cons.prems Suc by (metis (no_types, lifting) Suc_less_eq distinct.simps(2) length_Cons
          length_map list.simps(9) nth_map nth_mem)
    with Cons Suc show ?thesis
      by (auto simp: queue_contents_def fun_eq_iff)
  qed
qed

lemma map_kind_update:
  "i < length q \<Longrightarrow> map ev_kind (q[i := (q ! i)\<lparr>execution_time := t\<rparr>]) = map ev_kind q"
  by (simp add: map_update list_update_same_conv)

lemma enqueue_spec:
  assumes "queue_inv q"
  shows "fst (enqueue q k t m) = Inr ()" (is ?ok)
    and "queue_inv (snd (enqueue q k t m))" (is ?inv)
    and "queue_contents (snd (enqueue q k t m)) =
      (queue_contents q)(k \<mapsto> merge_time m (queue_contents q k) t)" (is ?map)
proof -
  have d: "distinct (map ev_kind q)" using assms by (simp add: queue_inv_def)
  have "?ok \<and> ?inv \<and> ?map"
  proof (cases "position (\<lambda>e. ev_kind e = k) q")
    case None
    then have k: "k \<notin> ev_kind ` set q" by auto
    then have n: "queue_contents q k = None" by (simp add: queue_contents_None)
    have "length q < EVENT_QUEUE_CAPACITY"
      using queue_inv_length [OF assms] by (simp add: EVENT_QUEUE_CAPACITY_def)
    with None have enq: "enqueue q k t m =
        (Inr (), q @ [\<lparr>ev_kind = k, execution_time = t, ev_priority = priority_of k\<rparr>])"
      unfolding enqueue_def by (simp only: option.case if_True)
    have "merge_time m (queue_contents q k) t = t"
      by (simp add: n merge_time_def split: EnqueueMode.split)
    with n k assms show ?thesis
      by (auto simp: enq queue_inv_def queue_contents_def fun_eq_iff map_add_def split: option.splits)
  next
    case (Some i)
    from position_Some [OF Some] have i: "i < length q" "ev_kind (q ! i) = k" by auto
    have c: "queue_contents q k = Some (execution_time (q ! i))"
      using i by (auto simp: queue_contents_Some [OF assms])
    let ?t = "case m of PreferEarlier \<Rightarrow> min (execution_time (q ! i)) t | Replace \<Rightarrow> t"
    have enq: "enqueue q k t m = (Inr (), q[i := (q ! i)\<lparr>execution_time := ?t\<rparr>])"
      by (simp add: enqueue_def Some)
    have "queue_inv (snd (enqueue q k t m))"
      using assms i by (auto simp: enq queue_inv_def map_kind_update dest!: subsetD [OF set_update_subset_insert])
    moreover have "?t = merge_time m (queue_contents q k) t"
      by (simp add: merge_time_def c split: EnqueueMode.split)
    ultimately show ?thesis
      using contents_update [OF d i(1), of ?t] i(2) by (simp add: enq)
  qed
  then show ?ok ?inv ?map by auto
qed

lemma sooner_key:
  "sooner a b \<longleftrightarrow> (execution_time a, ev_priority a) < (execution_time b, ev_priority b)"
  by (auto simp: sooner_def less_prod_def)

lemma soonest_spec:
  assumes "queue_inv q" "soonest_index q = Some i"
  shows "i < length q"
    and "e \<in> set q \<Longrightarrow> due_key (execution_time (q ! i)) (ev_kind (q ! i)) \<le>
        due_key (execution_time e) (ev_kind e)"
proof -
  from assms(2) have s: "first_min_index sooner q = Some i" by (simp add: soonest_index_def)
  from first_min_index_min(1) [OF sooner_key s] show i: "i < length q" .
  assume e: "e \<in> set q"
  with first_min_index_min(2) [OF sooner_key s]
  have "(execution_time (q ! i), ev_priority (q ! i)) \<le> (execution_time e, ev_priority e)" by blast
  with assms(1) i e show "due_key (execution_time (q ! i)) (ev_kind (q ! i)) \<le>
      due_key (execution_time e) (ev_kind e)"
    by (simp add: queue_inv_def due_key_def)
qed

lemma pop_due_cases:
  assumes "queue_inv q"
  obtains "pop_due q now = (None, q)" "\<forall>e \<in> set q. now < execution_time e"
  | i where "i < length q" "pop_due q now = (Some (q ! i), swap_remove i q)"
      "execution_time (q ! i) \<le> now"
      "\<forall>e \<in> set q. due_key (execution_time (q ! i)) (ev_kind (q ! i)) \<le>
         due_key (execution_time e) (ev_kind e)"
proof (cases "soonest_index q")
  case None
  then have "q = []" by (simp add: soonest_index_def)
  with None that(1) show thesis by (simp add: pop_due_def)
next
  case (Some i)
  note s = soonest_spec [OF assms Some]
  show thesis
  proof (cases "execution_time (q ! i) > now")
    case True
    have "now < execution_time e" if "e \<in> set q" for e
      using s(2) [OF that] True by (auto simp: due_key_def less_eq_prod_def)
    with Some True that(1) show thesis by (simp add: pop_due_def)
  next
    case False
    with Some s that(2) show thesis by (simp add: pop_due_def)
  qed
qed

lemma map_swap_remove: "i < length xs \<Longrightarrow> map f (swap_remove i xs) = swap_remove i (map f xs)"
proof (cases xs rule: rev_cases)
  case (snoc ys y)
  then show "i < length xs \<Longrightarrow> ?thesis" by (auto simp: swap_remove_def map_update)
qed simp

lemma swap_remove_queue:
  assumes "queue_inv q" "i < length q"
  shows "queue_inv (swap_remove i q)"
    and "queue_contents (swap_remove i q) = (queue_contents q)(ev_kind (q ! i) := None)"
proof -
  have d: "distinct (map ev_kind q)" using assms by (simp add: queue_inv_def)
  have set: "set (swap_remove i q) = set q - {q ! i}"
    using set_swap_remove(1) [OF assms(2)] d by (auto simp: distinct_map)
  have dk: "distinct (map ev_kind (swap_remove i q))"
    using set_swap_remove(2) [of i "map ev_kind q"] assms(2) d by (simp add: map_swap_remove)
  show inv: "queue_inv (swap_remove i q)"
    using assms(1) dk set by (auto simp: queue_inv_def)
  have inj: "e \<in> set q \<Longrightarrow> ev_kind e = ev_kind (q ! i) \<Longrightarrow> e = q ! i" for e
    using d assms(2) by (auto simp: distinct_map inj_on_def)
  have "queue_contents (swap_remove i q) k = Some t \<longleftrightarrow>
      ((queue_contents q)(ev_kind (q ! i) := None)) k = Some t" for k t
    using inj by (auto simp: queue_contents_Some [OF inv] queue_contents_Some [OF assms(1)] set)
  then show "queue_contents (swap_remove i q) = (queue_contents q)(ev_kind (q ! i) := None)"
    by (intro ext option.expand) (metis option.exhaust_sel option.sel option.distinct(1) | blast)+
qed

lemma pop_due_spec:
  assumes "queue_inv q"
  shows "queue_inv (snd (pop_due q now))"
    and "fst (pop_due q now) = None \<Longrightarrow>
      (\<forall>k t. queue_contents q k = Some t \<longrightarrow> now < t) \<and> snd (pop_due q now) = q"
    and "fst (pop_due q now) = Some e \<Longrightarrow>
      queue_contents q (ev_kind e) = Some (execution_time e) \<and> execution_time e \<le> now \<and>
      (\<forall>k t. queue_contents q k = Some t \<longrightarrow> due_key (execution_time e) (ev_kind e) \<le> due_key t k) \<and>
      queue_contents (snd (pop_due q now)) = (queue_contents q)(ev_kind e := None)"
  using pop_due_cases [OF assms, of now]
proof -
  show "queue_inv (snd (pop_due q now))"
    by (rule pop_due_cases [OF assms, of now]) (auto simp: assms swap_remove_queue)
  show "fst (pop_due q now) = None \<Longrightarrow>
      (\<forall>k t. queue_contents q k = Some t \<longrightarrow> now < t) \<and> snd (pop_due q now) = q"
    by (rule pop_due_cases [OF assms, of now]) (auto simp: queue_contents_Some [OF assms])
  show "fst (pop_due q now) = Some e \<Longrightarrow>
      queue_contents q (ev_kind e) = Some (execution_time e) \<and> execution_time e \<le> now \<and>
      (\<forall>k t. queue_contents q k = Some t \<longrightarrow> due_key (execution_time e) (ev_kind e) \<le> due_key t k) \<and>
      queue_contents (snd (pop_due q now)) = (queue_contents q)(ev_kind e := None)"
    by (rule pop_due_cases [OF assms, of now])
       (auto simp: queue_contents_Some [OF assms] swap_remove_queue [OF assms])
qed

interpretation vq: poll_queue queue_new enqueue pop_due next_due_at queue_contents queue_inv
proof unfold_locales
  show "queue_contents queue_new = Map.empty" by (simp add: queue_contents_def queue_new_def)
  show "queue_inv queue_new" by (simp add: queue_inv_def queue_new_def)
next
  fix q assume q: "queue_inv q"
  show "(next_due_at q = None) = (queue_contents q = Map.empty)"
    by (simp add: next_due_at_def soonest_index_def queue_contents_def)
  fix t assume "next_due_at q = Some t"
  then obtain i where i: "soonest_index q = Some i" "t = execution_time (q ! i)"
    by (auto simp: next_due_at_def)
  note s = soonest_spec [OF q i(1)]
  have "t \<le> execution_time e" if "e \<in> set q" for e
    using s(2) [OF that] i(2) by (auto simp: due_key_def less_eq_prod_def)
  moreover have "queue_contents q (ev_kind (q ! i)) = Some t"
    using nth_mem [OF s(1)] i(2) by (subst queue_contents_Some [OF q]) blast
  ultimately show
    "(\<exists>k. queue_contents q k = Some t) \<and> (\<forall>k t'. queue_contents q k = Some t' \<longrightarrow> t \<le> t')"
    by (auto simp: queue_contents_Some [OF q])
qed (simp_all add: enqueue_spec pop_due_spec)

section \<open>Reachable queues\<close>

datatype queue_op = Enq EventKind instant EnqueueMode | Pop instant

fun queue_apply :: "EventQueue \<Rightarrow> queue_op \<Rightarrow> EventQueue" where
  "queue_apply q (Enq k t m) = snd (enqueue q k t m)"
| "queue_apply q (Pop now) = snd (pop_due q now)"

lemma queue_apply_inv [inv_intros]: "queue_inv q \<Longrightarrow> queue_inv (queue_apply q x)"
  by (cases x) (simp_all add: vq.enq_inv vq.pop_inv)

lemma queue_reachable_inv: "queue_inv q \<Longrightarrow> queue_inv (foldl queue_apply q ops)"
  by (induction ops arbitrary: q) (simp_all add: inv_intros)

text \<open>
  However the client enqueues and pops, the queue holds one entry per kind, so six at most,
  and its capacity of 16 is never reached: \<open>enqueue\<close> never reports an overflow, and the entry it
  leaves for the kind is the earlier of the two times or the new one, as the mode says, every
  other kind untouched.
\<close>

theorem enqueue_never_overflows:
  fixes ops :: "queue_op list"
  defines "q \<equiv> foldl queue_apply queue_new ops"
  shows "length q \<le> 6 \<and> distinct (map ev_kind q) \<and> fst (enqueue q k t m) = Inr () \<and>
    queue_contents (snd (enqueue q k t m)) = (queue_contents q)(k \<mapsto> merge_time m (queue_contents q k) t)"
proof -
  have inv: "queue_inv q"
    unfolding q_def by (rule queue_reachable_inv [OF vq.empty_inv])
  then have "distinct (map ev_kind q)" by (simp add: queue_inv_def)
  with vq.enq_ok [OF inv, of k t m] vq.enq_contents [OF inv, of k t m] queue_inv_length [OF inv]
  show ?thesis by blast
qed

text \<open>The client's drain loop with no handler in between: pop until nothing is due.\<close>

fun queue_drain :: "nat \<Rightarrow> EventQueue \<Rightarrow> instant \<Rightarrow> ScheduledEvent list \<times> EventQueue" where
  "queue_drain 0 q now = ([], q)"
| "queue_drain (Suc n) q now =
     (case pop_due q now of
        (None, q') \<Rightarrow> ([], q')
      | (Some e, q') \<Rightarrow> (let (es, q'') = queue_drain n q' now in (e # es, q'')))"

lemma queue_drain_pops: "queue_drain n q now = vq.pops n q now"
  by (induction n arbitrary: q) (simp_all split: option.split prod.split)

text \<open>
  C34: Draining a reachable queue at one instant takes the due events out in order of due time,
  commands before polls at the same time, and seven pops leave nothing due: the scrambling of the
  vector by \<open>swap_remove\<close> never changes which event is next.
\<close>

theorem drain_in_order:
  fixes ops :: "queue_op list"
  defines "q \<equiv> foldl queue_apply queue_new ops"
  shows "sorted (map (\<lambda>e. (execution_time e, priority_of (ev_kind e))) (fst (queue_drain 7 q now))) \<and>
    (\<forall>e \<in> set (fst (queue_drain 7 q now)).
       queue_contents q (ev_kind e) = Some (execution_time e) \<and> execution_time e \<le> now) \<and>
    (\<forall>k t. queue_contents (snd (queue_drain 7 q now)) k = Some t \<longrightarrow> now < t)"
proof -
  have inv: "queue_inv q"
    unfolding q_def by (rule queue_reachable_inv [OF vq.empty_inv])
  note s = vq.pops_sorted [OF inv refl, of 7 now, folded queue_drain_pops]
  have "card (dom (queue_contents q)) < 7" by (rule le_less_trans [OF card_EventKind_le]) simp
  from vq.pops_complete [OF inv this, of now, folded queue_drain_pops] s show ?thesis
    by (simp add: due_key_def)
qed

theorem drain_in_order_witness:
  fixes q :: EventQueue
  defines "q \<equiv> foldl queue_apply queue_new [Enq PollStatus 5 PreferEarlier, Enq ApiStop 5 Replace]"
  shows "map ev_kind (fst (queue_drain 7 q 9)) = [ApiStop, PollStatus] \<and>
    queue_contents (snd (queue_drain 7 q 9)) PollStatus \<noteq> Some 5"
proof
  show "map ev_kind (fst (queue_drain 7 q 9)) = [ApiStop, PollStatus]"
    unfolding q_def by code_simp
  show "queue_contents (snd (queue_drain 7 q 9)) PollStatus \<noteq> Some 5"
    using drain_in_order [of "[Enq PollStatus 5 PreferEarlier, Enq ApiStop 5 Replace]" 9]
    unfolding q_def by fastforce
qed

end
