(* ===== verification/F32.thy ===== *)
theory F32
  imports Complex_Main Prelude
begin

text \<open>
  The code's \<open>f32\<close>, with IEEE 754 binary32 values: a NaN, the infinities and the finite values
  \<open>(-1)^s * m * 2^e\<close>. Comparisons are exact; addition, subtraction and multiplication compute the
  exact result on integers and round it to 24 significant bits, ties to even, with the
  subnormal exponent as the floor and overflow to infinity. Everything computes, and \<open>fval\<close>
  gives the rational value the lemmas argue with.
\<close>

datatype f32 = F_NaN | F_Inf bool | F_Fin bool nat int

text \<open>Signed mantissas on a common exponent.\<close>

definition signed :: "bool \<Rightarrow> nat \<Rightarrow> int" where
  "signed s m = (if s then - int m else int m)"

definition align :: "int \<Rightarrow> int \<Rightarrow> int \<Rightarrow> int" where
  "align m e e0 = m * 2 ^ nat (e - e0)"

fun f32_lt :: "f32 \<Rightarrow> f32 \<Rightarrow> bool" where
  "f32_lt F_NaN _ = False"
| "f32_lt _ F_NaN = False"
| "f32_lt (F_Inf s) (F_Inf t) = (s \<and> \<not> t)"
| "f32_lt (F_Inf s) (F_Fin _ _ _) = s"
| "f32_lt (F_Fin _ _ _) (F_Inf t) = (\<not> t)"
| "f32_lt (F_Fin s m e) (F_Fin t n f) =
     (align (signed s m) e (min e f) < align (signed t n) f (min e f))"

fun f32_le :: "f32 \<Rightarrow> f32 \<Rightarrow> bool" where
  "f32_le F_NaN _ = False"
| "f32_le _ F_NaN = False"
| "f32_le (F_Inf s) (F_Inf t) = (s \<or> \<not> t)"
| "f32_le (F_Inf s) (F_Fin _ _ _) = s"
| "f32_le (F_Fin _ _ _) (F_Inf t) = (\<not> t)"
| "f32_le (F_Fin s m e) (F_Fin t n f) =
     (align (signed s m) e (min e f) \<le> align (signed t n) f (min e f))"

abbreviation f32_ge :: "f32 \<Rightarrow> f32 \<Rightarrow> bool" where
  "f32_ge a b \<equiv> f32_le b a"

abbreviation f32_gt :: "f32 \<Rightarrow> f32 \<Rightarrow> bool" where
  "f32_gt a b \<equiv> f32_lt b a"

text \<open>\<open>f32::max\<close>: a NaN gives the other argument.\<close>

definition f32_max :: "f32 \<Rightarrow> f32 \<Rightarrow> f32" where
  "f32_max a b = (if a = F_NaN then b else if b = F_NaN then a else if f32_lt a b then b else a)"

fun f32_abs :: "f32 \<Rightarrow> f32" where
  "f32_abs F_NaN = F_NaN"
| "f32_abs (F_Inf _) = F_Inf False"
| "f32_abs (F_Fin _ m e) = F_Fin False m e"

fun f32_neg :: "f32 \<Rightarrow> f32" where
  "f32_neg F_NaN = F_NaN"
| "f32_neg (F_Inf s) = F_Inf (\<not> s)"
| "f32_neg (F_Fin s m e) = F_Fin (\<not> s) m e"

section \<open>Rounding\<close>

fun nat_bits :: "nat \<Rightarrow> nat" where
  "nat_bits n = (if n = 0 then 0 else Suc (nat_bits (n div 2)))"

declare nat_bits.simps [simp del]

text \<open>Divide by \<open>2^d\<close>, to the nearest integer, ties to even.\<close>

definition round_shift :: "nat \<Rightarrow> nat \<Rightarrow> nat" where
  "round_shift a d =
     (let q = a div 2 ^ d; r = a mod 2 ^ d
      in if 2 ^ d < 2 * r \<or> (2 * r = 2 ^ d \<and> odd q) then Suc q else q)"

definition f32_round :: "bool \<Rightarrow> nat \<Rightarrow> int \<Rightarrow> f32" where
  "f32_round s a e =
     (let d = max (int (nat_bits a) - 24) (-149 - e);
          m = (if d \<le> 0 then a else round_shift a (nat d));
          f = (if d \<le> 0 then e else e + d)
      in if m = 0 then F_Fin s 0 0
         else if 128 < f + int (nat_bits m) then F_Inf s
         else F_Fin s m f)"

definition f32_of_int_exp :: "int \<Rightarrow> int \<Rightarrow> f32" where
  "f32_of_int_exp m e = f32_round (m < 0) (nat \<bar>m\<bar>) e"

fun f32_add :: "f32 \<Rightarrow> f32 \<Rightarrow> f32" where
  "f32_add F_NaN _ = F_NaN"
| "f32_add _ F_NaN = F_NaN"
| "f32_add (F_Inf s) (F_Inf t) = (if s = t then F_Inf s else F_NaN)"
| "f32_add (F_Inf s) (F_Fin _ _ _) = F_Inf s"
| "f32_add (F_Fin _ _ _) (F_Inf t) = F_Inf t"
| "f32_add (F_Fin s m e) (F_Fin t n f) =
     (let e0 = min e f; x = align (signed s m) e e0 + align (signed t n) f e0
      in if x = 0 then F_Fin (s \<and> t) 0 0 else f32_of_int_exp x e0)"

definition f32_sub :: "f32 \<Rightarrow> f32 \<Rightarrow> f32" where
  "f32_sub a b = f32_add a (f32_neg b)"

fun f32_mul :: "f32 \<Rightarrow> f32 \<Rightarrow> f32" where
  "f32_mul F_NaN _ = F_NaN"
| "f32_mul _ F_NaN = F_NaN"
| "f32_mul (F_Inf s) (F_Inf t) = F_Inf (s \<noteq> t)"
| "f32_mul (F_Inf s) (F_Fin t n f) = (if n = 0 then F_NaN else F_Inf (s \<noteq> t))"
| "f32_mul (F_Fin s m e) (F_Inf t) = (if m = 0 then F_NaN else F_Inf (s \<noteq> t))"
| "f32_mul (F_Fin s m e) (F_Fin t n f) =
     (if m * n = 0 then F_Fin (s \<noteq> t) 0 0 else f32_round (s \<noteq> t) (m * n) (e + f))"

text \<open>Literals: an integer, and 1.8 (the nearest \<open>f32\<close>, \<open>15099494 * 2^-23\<close>).\<close>

definition f32_of_nat :: "nat \<Rightarrow> f32" where
  "f32_of_nat n = f32_round False n 0"

definition f32_1_8 :: f32 where
  "f32_1_8 = F_Fin False 15099494 (-23)"

section \<open>Values\<close>

definition pow2 :: "int \<Rightarrow> rat" where
  "pow2 e = (if 0 \<le> e then 2 ^ nat e else 1 / 2 ^ nat (- e))"

lemma pow2_pos [simp]: "0 < pow2 e"
  by (simp add: pow2_def)

lemma pow2_powi: "pow2 e = 2 powi e"
  by (simp add: pow2_def power_int_def inverse_eq_divide power_one_over)

lemma pow2_add: "pow2 (a + b) = pow2 a * pow2 b"
  by (simp add: pow2_powi power_int_add)

lemma pow2_split: "f \<le> e \<Longrightarrow> pow2 e = 2 ^ nat (e - f) * pow2 f"
proof -
  assume "f \<le> e"
  then have "pow2 (e - f) = 2 ^ nat (e - f)" by (simp add: pow2_def)
  then show ?thesis using pow2_add [of "e - f" f] by simp
qed

fun fval :: "f32 \<Rightarrow> rat option" where
  "fval (F_Fin s m e) = Some (of_int (signed s m) * pow2 e)"
| "fval _ = None"

lemma align_val: "e0 \<le> e \<Longrightarrow> of_int (align m e e0) * pow2 e0 = of_int m * pow2 e"
  by (simp add: align_def pow2_split [of e0 e])

lemma f32_lt_val: "fval a = Some x \<Longrightarrow> fval b = Some y \<Longrightarrow> f32_lt a b \<longleftrightarrow> x < y"
proof (cases a; cases b)
  fix s m e t n f
  assume ab: "a = F_Fin s m e" "b = F_Fin t n f" and xy: "fval a = Some x" "fval b = Some y"
  let ?e0 = "min e f"
  have x: "x = of_int (align (signed s m) e ?e0) * pow2 ?e0"
    and y: "y = of_int (align (signed t n) f ?e0) * pow2 ?e0"
    using xy ab by (simp_all add: align_val)
  show "f32_lt a b \<longleftrightarrow> x < y"
    unfolding x y by (simp add: ab)
qed simp_all

lemma f32_le_val: "fval a = Some x \<Longrightarrow> fval b = Some y \<Longrightarrow> f32_le a b \<longleftrightarrow> x \<le> y"
proof (cases a; cases b)
  fix s m e t n f
  assume ab: "a = F_Fin s m e" "b = F_Fin t n f" and xy: "fval a = Some x" "fval b = Some y"
  let ?e0 = "min e f"
  have x: "x = of_int (align (signed s m) e ?e0) * pow2 ?e0"
    and y: "y = of_int (align (signed t n) f ?e0) * pow2 ?e0"
    using xy ab by (simp_all add: align_val)
  show "f32_le a b \<longleftrightarrow> x \<le> y"
    unfolding x y by (simp add: ab)
qed simp_all

lemma f32_le_NaN [simp]: "\<not> f32_le a F_NaN" "\<not> f32_lt a F_NaN"
  by (cases a; simp)+

lemma not_f32_lt: "a \<noteq> F_NaN \<Longrightarrow> b \<noteq> F_NaN \<Longrightarrow> \<not> f32_lt a b \<longleftrightarrow> f32_le b a"
  by (cases a; cases b) (auto simp: min.commute)

lemma f32_lt_imp_le: "f32_lt a b \<Longrightarrow> f32_le a b"
  by (cases a; cases b) auto

lemma f32_le_refl: "a \<noteq> F_NaN \<Longrightarrow> f32_le a a"
  by (cases a) auto

lemma f32_le_trans: "f32_le a b \<Longrightarrow> f32_le b c \<Longrightarrow> f32_le a c"
proof (cases "\<exists>x y z. fval a = Some x \<and> fval b = Some y \<and> fval c = Some z")
  case True
  then show "f32_le a b \<Longrightarrow> f32_le b c \<Longrightarrow> ?thesis" by (auto simp: f32_le_val)
next
  case False
  then show "f32_le a b \<Longrightarrow> f32_le b c \<Longrightarrow> ?thesis"
    by (cases a; cases b; cases c) auto
qed

text \<open>Ten degrees below and above compare as they should; 90 F is exact in the code's formula.\<close>

lemma f32_examples:
  "f32_lt (f32_of_nat 10) (f32_of_nat 11)"
  "f32_add (f32_mul (f32_of_nat 100) f32_1_8) (f32_of_nat 32) = F_Fin False 13893632 (-16)"
  by code_simp+

section \<open>Printing with no decimals\<close>

text \<open>\<open>{:.0}\<close>: the nearest integer, ties to even, with the sign of the value.\<close>

fun show_f32_0 :: "f32 \<Rightarrow> string" where
  "show_f32_0 F_NaN = ''NaN''"
| "show_f32_0 (F_Inf s) = (if s then ''-inf'' else ''inf'')"
| "show_f32_0 (F_Fin s m e) =
     (if s then ''-'' else '''') @ show_nat (if 0 \<le> e then m * 2 ^ nat e else round_shift m (nat (- e)))"

end
