(* ===== verification/Oven_Api.thy ===== *)
theory Oven_Api
  imports F32
begin

text \<open>
  The data the server, the CLI and the firmware share (\<open>crates/anova-oven-api/src/lib.rs\<close>): the
  oven's status, recipes and stages, the cook in progress, and the derived readings (phase,
  current stage, seconds left, stage description, fan normalisation). Field names are the
  code's, with a prefix where a record shares a name with another.
\<close>

section \<open>Data\<close>

record CookProgress =
  cp_recipe_title :: string
  cp_current_stage_index :: nat
  cp_total_stage_count :: nat
  cp_current_stage_description :: string
  cp_current_stage_kind :: string
  cp_next_stage_ready :: bool
  cp_next_stage_description :: "string option"
  cp_next_stage_prompt :: "string option"

record UpstreamHealth =
  connected :: bool
  disconnected_secs :: u64
  oven_offline_secs :: "u64 option"

record OvenStatus =
  mode :: string
  temperature_unit :: string
  temperature_c :: f32
  target_temperature_c :: "f32 option"
  wet_target_temperature_c :: "f32 option"
  temperature_bulbs_mode :: string
  dry_top_temperature_c :: f32
  dry_bottom_temperature_c :: f32
  wet_bulb_temperature_c :: f32
  probe_temperature_c :: "f32 option"
  probe_target_temperature_c :: "f32 option"
  timer_current_secs :: u64
  timer_total_secs :: u64
  timer_mode :: string
  steam_pct :: f32
  steam_target_pct :: "f32 option"
  steam_generator_mode :: string
  boiler_celsius :: f32
  boiler_watts :: f32
  boiler_descale_required :: bool
  evaporator_celsius :: f32
  evaporator_watts :: f32
  fan_speed :: u32
  heating_element_top_on :: bool
  heating_element_top_watts :: f32
  heating_element_rear_on :: bool
  heating_element_rear_watts :: f32
  heating_element_bottom_on :: bool
  heating_element_bottom_watts :: f32
  lamp_on :: bool
  lamp_preference :: string
  vent_open :: bool
  door_open :: bool
  water_tank_empty :: bool
  active_stage_index :: "nat option"
  active_stage_id :: "string option"
  cook_done :: bool
  cook_id :: "string option"
  stage_transition_pending_user_action :: bool
  cook_progress :: "CookProgress option"
  upstream :: "UpstreamHealth option"


datatype RecipeSource = Own | Bookmarked

record Stage =
  st_id :: "string option"
  st_kind :: string
  st_temperature_c :: f32
  st_temperature_bulbs_mode :: "string option"
  st_duration_secs :: "u64 option"
  st_timer_added :: "bool option"
  st_probe_added :: "bool option"
  st_probe_target_c :: "f32 option"
  st_steam_pct :: f32
  st_fan_speed :: u8
  st_user_action_required :: "bool option"
  st_rack_position :: "u8 option"
  st_heating_element_top :: "bool option"
  st_heating_element_rear :: "bool option"
  st_heating_element_bottom :: "bool option"
  st_vent_open :: "bool option"
  st_title :: "string option"
  st_turn_off_at_end :: "bool option"
  st_prompt :: "string option"

record Recipe =
  rc_id :: string
  rc_title :: string
  rc_stage_count :: nat
  rc_stages :: "Stage list"
  rc_source :: RecipeSource

record HistoryEntry =
  he_recipe_title :: string
  he_ended_at :: string
  he_stage_count :: nat

record CurrentCook =
  cc_recipe_title :: string
  cc_recipe_id :: "string option"
  cc_started_at :: string
  cc_stages :: "Stage list"
  cc_cook_stage_count :: nat
  cc_total_stage_count :: nat

section \<open>Readings derived from the status\<close>

definition current_temperature_c :: "OvenStatus \<Rightarrow> f32" where
  "current_temperature_c s =
     (if temperature_bulbs_mode s = ''wet'' then wet_bulb_temperature_c s else temperature_c s)"

definition is_cooking :: "OvenStatus \<Rightarrow> bool" where
  "is_cooking s \<longleftrightarrow> mode s \<noteq> ''idle''"

definition phase :: "OvenStatus \<Rightarrow> string" where
  "phase s =
     (if mode s = ''idle'' then ''Idle''
      else if mode s = ''cook'' \<and> timer_mode s = ''idle'' \<and> timer_current_secs s = 0 then ''Preheating''
      else if mode s = ''cook'' then ''Cooking''
      else ''Unknown'')"

definition stage_kind :: "OvenStatus \<Rightarrow> string" where
  "stage_kind s =
     (if mode s = ''cook'' \<and> timer_mode s = ''idle'' \<and> timer_current_secs s = 0 then ''preheat''
      else ''cook'')"

definition current_stage :: "OvenStatus \<Rightarrow> Stage list \<Rightarrow> Stage option" where
  "current_stage s stages =
     Option.bind
       (case map_option cp_current_stage_index (cook_progress s) of
          Some i \<Rightarrow> Some i | None \<Rightarrow> active_stage_index s)
       (get_nth stages)"

definition timer_remaining_secs_after :: "OvenStatus \<Rightarrow> u64 \<Rightarrow> u64 option" where
  "timer_remaining_secs_after s elapsed_secs =
     (if timer_mode s = ''running'' \<and> 0 < timer_total_secs s
      then Some (sat_sub (timer_current_secs s) elapsed_secs) else None)"

definition timer_remaining_secs :: "OvenStatus \<Rightarrow> u64 option" where
  "timer_remaining_secs s = timer_remaining_secs_after s 0"

section \<open>Stages and recipes\<close>

text \<open>The degree sign and the middle dot, as the UTF-8 bytes a \<open>String\<close> holds.\<close>

definition degree_sign :: string where
  "degree_sign = [CHR 0xC2, CHR 0xB0]"

definition middle_dot :: string where
  "middle_dot = [CHR 0xC2, CHR 0xB7]"

fun join :: "string \<Rightarrow> string list \<Rightarrow> string" where
  "join sep [] = []"
| "join sep [x] = x"
| "join sep (x # y # xs) = x @ sep @ join sep (y # xs)"

definition description_parts :: "Stage \<Rightarrow> string list" where
  "description_parts st =
     (if st_kind st = ''preheat'' then [''Preheat''] else []) @
     (if f32_gt (st_temperature_c st) (f32_of_nat 0)
      then [show_f32_0 (st_temperature_c st) @ degree_sign] else []) @
     (if f32_gt (st_steam_pct st) (f32_of_nat 0)
      then [show_f32_0 (st_steam_pct st) @ ''% steam''] else []) @
     (case st_probe_target_c st of
        Some t \<Rightarrow> [''probe '' @ show_f32_0 t @ degree_sign] | None \<Rightarrow> []) @
     (case st_duration_secs st of
        Some secs \<Rightarrow> if 0 < secs then [show_nat (unat ((secs + 30) div 60)) @ ''m''] else []
      | None \<Rightarrow> [])"

definition short_description :: "Stage \<Rightarrow> string" where
  "short_description st =
     (case st_title st of
        Some (c # cs) \<Rightarrow> c # cs
      | _ \<Rightarrow>
          (let parts = description_parts st
           in if parts = [] then ''Next stage'' else join ('' '' @ middle_dot @ '' '') parts))"

definition normalize_fan_speed :: "Stage \<Rightarrow> Stage" where
  "normalize_fan_speed st =
     (let has_rear_heat = (case st_heating_element_rear st of Some b \<Rightarrow> b | None \<Rightarrow> False);
          has_steam = f32_gt (st_steam_pct st) (f32_of_nat 0)
      in if has_rear_heat \<or> has_steam then st\<lparr>st_fan_speed := 100\<rparr> else st)"

definition recipe_normalize :: "Recipe \<Rightarrow> Recipe" where
  "recipe_normalize r = r\<lparr>rc_stages := map normalize_fan_speed (rc_stages r)\<rparr>"

definition display_name :: "CurrentCook \<Rightarrow> string" where
  "display_name c =
     (if cc_recipe_title c = ''[manual]'' then ''Manual cook'' else cc_recipe_title c)"

section \<open>Lemmas\<close>

lemma phase_stage_kind: "stage_kind s = ''preheat'' \<longleftrightarrow> phase s = ''Preheating''"
  by (auto simp: stage_kind_def phase_def)

lemma current_stage_in: "current_stage s stages = Some st \<Longrightarrow> st \<in> set stages"
  by (auto simp: current_stage_def get_nth_Some_iff bind_eq_Some_conv split: option.splits)

lemma timer_remaining_le:
  "timer_remaining_secs_after s e = Some r \<Longrightarrow> r \<le> timer_current_secs s"
  by (auto simp: timer_remaining_secs_after_def sat_sub_le split: if_splits)

lemma join_nonempty: "xs \<noteq> [] \<Longrightarrow> \<forall>x \<in> set xs. x \<noteq> [] \<Longrightarrow> join sep xs \<noteq> []"
  by (induction sep xs rule: join.induct) auto

lemma description_parts_nonempty: "x \<in> set (description_parts st) \<Longrightarrow> x \<noteq> []"
  by (auto simp: description_parts_def degree_sign_def split: if_splits option.splits)

lemma short_description_nonempty: "short_description st \<noteq> []"
  by (auto simp: short_description_def Let_def join_nonempty description_parts_nonempty
      split: option.splits list.splits)

definition fan_ok :: "Stage \<Rightarrow> bool" where
  "fan_ok st \<longleftrightarrow>
     st_heating_element_rear st = Some True \<or> f32_gt (st_steam_pct st) (f32_of_nat 0) \<longrightarrow>
     st_fan_speed st = 100"

lemma normalize_fan_speed_ok [simp]: "fan_ok (normalize_fan_speed st)"
  by (auto simp: fan_ok_def normalize_fan_speed_def Let_def split: option.splits)

lemma normalize_fan_speed_id: "fan_ok st \<Longrightarrow> normalize_fan_speed st = st"
  by (auto simp: fan_ok_def normalize_fan_speed_def Let_def split: option.splits)

section \<open>Sample data for the concrete instances\<close>

definition demo_stage :: Stage where
  "demo_stage =
     \<lparr>st_id = Some ''s1'', st_kind = ''cook'', st_temperature_c = f32_of_nat 220,
      st_temperature_bulbs_mode = Some ''dry'', st_duration_secs = Some 600, st_timer_added = Some True,
      st_probe_added = None, st_probe_target_c = None, st_steam_pct = f32_of_nat 100,
      st_fan_speed = 50, st_user_action_required = None, st_rack_position = Some 3,
      st_heating_element_top = None, st_heating_element_rear = Some True,
      st_heating_element_bottom = None, st_vent_open = None, st_title = None,
      st_turn_off_at_end = None, st_prompt = None\<rparr>"

definition demo_recipe :: Recipe where
  "demo_recipe = \<lparr>rc_id = ''r1'', rc_title = ''Bread'', rc_stage_count = 1,
     rc_stages = [demo_stage], rc_source = Own\<rparr>"

definition demo_status :: OvenStatus where
  "demo_status =
     \<lparr>mode = ''cook'', temperature_unit = ''C'', temperature_c = f32_of_nat 200,
      target_temperature_c = Some (f32_of_nat 220), wet_target_temperature_c = None,
      temperature_bulbs_mode = ''dry'', dry_top_temperature_c = f32_of_nat 200,
      dry_bottom_temperature_c = f32_of_nat 200, wet_bulb_temperature_c = f32_of_nat 80,
      probe_temperature_c = None, probe_target_temperature_c = None,
      timer_current_secs = 300, timer_total_secs = 600, timer_mode = ''running'',
      steam_pct = f32_of_nat 0, steam_target_pct = None, steam_generator_mode = ''idle'',
      boiler_celsius = f32_of_nat 30, boiler_watts = f32_of_nat 0, boiler_descale_required = False,
      evaporator_celsius = f32_of_nat 30, evaporator_watts = f32_of_nat 0, fan_speed = 100,
      heating_element_top_on = False, heating_element_top_watts = f32_of_nat 0,
      heating_element_rear_on = True, heating_element_rear_watts = f32_of_nat 1600,
      heating_element_bottom_on = False, heating_element_bottom_watts = f32_of_nat 0,
      lamp_on = True, lamp_preference = ''on'', vent_open = False, door_open = False,
      water_tank_empty = False, active_stage_index = Some 0, active_stage_id = Some ''s1'',
      cook_done = False, cook_id = Some ''c1'', stage_transition_pending_user_action = False,
      cook_progress = None, upstream = None\<rparr>"

text \<open>
  Normalising a recipe makes every stage obey the oven's rule (full fan with rear heat or
  steam), changes nothing but fan speeds, and does nothing the second time.
\<close>

theorem recipe_normalize_correct:
  "(\<forall>st \<in> set (rc_stages (recipe_normalize r)). fan_ok st) \<and>
   recipe_normalize (recipe_normalize r) = recipe_normalize r \<and>
   map (\<lambda>st. st\<lparr>st_fan_speed := 0\<rparr>) (rc_stages (recipe_normalize r)) =
     map (\<lambda>st. st\<lparr>st_fan_speed := 0\<rparr>) (rc_stages r) \<and>
   (recipe_normalize r)\<lparr>rc_stages := rc_stages r\<rparr> = r"
proof (intro conjI)
  show "\<forall>st \<in> set (rc_stages (recipe_normalize r)). fan_ok st"
    by (simp add: recipe_normalize_def)
  show "recipe_normalize (recipe_normalize r) = recipe_normalize r"
    by (simp add: recipe_normalize_def normalize_fan_speed_id)
  show "map (\<lambda>st. st\<lparr>st_fan_speed := 0\<rparr>) (rc_stages (recipe_normalize r)) =
      map (\<lambda>st. st\<lparr>st_fan_speed := 0\<rparr>) (rc_stages r)"
    by (simp add: recipe_normalize_def normalize_fan_speed_def Let_def)
  show "(recipe_normalize r)\<lparr>rc_stages := rc_stages r\<rparr> = r"
    by (simp add: recipe_normalize_def)
qed

end
