(* ===== verification/Reset.thy ===== *)
theory Reset
  imports Prelude
begin

text \<open>
  Reset classification (\<open>crates/anova-oven-pico-core/src/reset.rs\<close>): the reset reasons with their
  stored numbers and names, the bring-up stages, and the decision that turns what was captured at
  boot into a reason.
\<close>

datatype ResetReason =
  UnknownReason | ColdBoot | Panic | WatchdogTimeout | WatchdogForced | OtherSoftReset | InitTimeout

text \<open>The \<open>as u32\<close> cast: the discriminants the enum declares.\<close>

fun reason_as_u32 :: "ResetReason \<Rightarrow> u32" where
  "reason_as_u32 UnknownReason = 0"
| "reason_as_u32 ColdBoot = 1"
| "reason_as_u32 Panic = 2"
| "reason_as_u32 WatchdogTimeout = 3"
| "reason_as_u32 WatchdogForced = 4"
| "reason_as_u32 OtherSoftReset = 5"
| "reason_as_u32 InitTimeout = 6"

definition reason_from_u32 :: "u32 \<Rightarrow> ResetReason" where
  "reason_from_u32 v =
     (if v = 1 then ColdBoot else if v = 2 then Panic else if v = 3 then WatchdogTimeout
      else if v = 4 then WatchdogForced else if v = 5 then OtherSoftReset
      else if v = 6 then InitTimeout else UnknownReason)"

fun reason_name :: "ResetReason \<Rightarrow> string" where
  "reason_name UnknownReason = ''Unknown''"
| "reason_name ColdBoot = ''ColdBoot''"
| "reason_name Panic = ''Panic''"
| "reason_name WatchdogTimeout = ''WatchdogTimeout''"
| "reason_name WatchdogForced = ''WatchdogForced''"
| "reason_name OtherSoftReset = ''OtherSoftReset''"
| "reason_name InitTimeout = ''InitTimeout''"

definition INIT_STAGE_WIFI :: u32 where
  "INIT_STAGE_WIFI = 100"

definition INIT_STAGE_DHCP :: u32 where
  "INIT_STAGE_DHCP = 101"

definition is_init_stage :: "u32 \<Rightarrow> bool" where
  "is_init_stage s = (s = INIT_STAGE_WIFI \<or> s = INIT_STAGE_DHCP)"

definition init_stage_name :: "u32 \<Rightarrow> string option" where
  "init_stage_name d =
     (if d = INIT_STAGE_WIFI then Some ''INIT_STAGE_WIFI''
      else if d = INIT_STAGE_DHCP then Some ''INIT_STAGE_DHCP''
      else None)"

definition classify_reset :: "bool \<Rightarrow> bool \<Rightarrow> u32 \<Rightarrow> bool \<Rightarrow> bool \<Rightarrow> ResetReason" where
  "classify_reset magic_was_valid panic_count_advanced last_app_state watchdog_timer watchdog_force =
     (if \<not> magic_was_valid then ColdBoot
      else if panic_count_advanced then Panic
      else if watchdog_timer then WatchdogTimeout
      else if watchdog_force then WatchdogForced
      else if is_init_stage last_app_state then InitTimeout
      else OtherSoftReset)"

lemma reason_roundtrip [simp]: "reason_from_u32 (reason_as_u32 r) = r"
  by (cases r) (simp_all add: reason_from_u32_def)

lemma reason_name_inj: "reason_name r = reason_name r' \<Longrightarrow> r = r'"
  by (cases r; cases r') simp_all

lemma is_init_stage_name: "is_init_stage d \<longleftrightarrow> init_stage_name d \<noteq> None"
  by (simp add: is_init_stage_def init_stage_name_def)

lemma classify_not_Unknown: "classify_reset m p s t f \<noteq> UnknownReason"
  by (simp add: classify_reset_def)

lemma classify_ColdBoot_iff: "classify_reset m p s t f = ColdBoot \<longleftrightarrow> \<not> m"
  by (simp add: classify_reset_def)

end
