(* ===== verification/Fsm.thy ===== *)
theory Fsm
  imports Oven_Api Reset
begin

text \<open>
  The user-facing state machine's data and decisions
  (\<open>crates/anova-oven-pico-core/src/fsm.rs\<close>): the API snapshot and its operations, the states with
  their persisted numbers and names, the backlight policy, the views, and the decision functions
  the handlers of \<open>Ui\<close> call.

  An \<open>Instant\<close> is its number of ticks (a \<open>nat\<close>), and the ticks per second are the parameter
  \<open>hz\<close>, embassy-time's \<open>TICK_HZ\<close>. Subtraction on \<open>nat\<close> is the saturating one the code uses.
\<close>

section \<open>Snapshot\<close>

type_synonym ticks = nat

definition IDLE :: string where
  "IDLE = ''idle''"

definition OFFLINE_THRESHOLD :: u64 where
  "OFFLINE_THRESHOLD = 3"

definition UPSTREAM_STALE_GRACE_SECS :: u64 where
  "UPSTREAM_STALE_GRACE_SECS = 60"

datatype StaleCause = AnovaLink | OvenOffline | NoOvenState

definition format_age :: "u64 \<Rightarrow> string" where
  "format_age secs =
     (if secs \<le> 59 then show_nat (unat secs) @ ''s''
      else if secs \<le> 3599 then show_nat (unat (secs div 60)) @ ''m''
      else if secs \<le> 172799 then show_nat (unat (secs div 3600)) @ ''h''
      else show_nat (unat (secs div 86400)) @ ''d'')"

record ApiSnapshot =
  sn_status :: "OvenStatus option"
  sn_current_cook :: "CurrentCook option"
  sn_recipes :: "Recipe list"
  sn_fail_count :: u64
  sn_last_success_at :: "ticks option"
  sn_timer_anchor :: "ticks option"
  sn_oven_missing_since :: "ticks option"

definition snapshot_default :: ApiSnapshot where
  "snapshot_default =
     \<lparr>sn_status = None, sn_current_cook = None, sn_recipes = [], sn_fail_count = 0,
      sn_last_success_at = None, sn_timer_anchor = None, sn_oven_missing_since = None\<rparr>"

text \<open>\<open>now.saturating_duration_since(t).as_secs()\<close>.\<close>

definition secs_since :: "nat \<Rightarrow> ticks \<Rightarrow> ticks \<Rightarrow> u64" where
  "secs_since hz now t = of_nat ((now - t) div hz)"

definition install_status :: "ApiSnapshot \<Rightarrow> OvenStatus \<Rightarrow> ticks \<Rightarrow> ApiSnapshot" where
  "install_status sn status now =
     (let moved = sn_timer_anchor sn = None \<or>
            \<not> (case sn_status sn of
                 None \<Rightarrow> False
               | Some prev \<Rightarrow> timer_mode prev = timer_mode status \<and>
                   timer_current_secs prev = timer_current_secs status \<and>
                   timer_total_secs prev = timer_total_secs status);
          sn = (if moved then sn\<lparr>sn_timer_anchor := Some now\<rparr> else sn)
      in sn\<lparr>sn_status := Some status, sn_oven_missing_since := None\<rparr>)"

definition mark_oven_missing :: "ApiSnapshot \<Rightarrow> ticks \<Rightarrow> ApiSnapshot" where
  "mark_oven_missing sn now =
     sn\<lparr>sn_status := None, sn_timer_anchor := None,
        sn_oven_missing_since :=
          Some (case sn_oven_missing_since sn of Some t \<Rightarrow> t | None \<Rightarrow> now)\<rparr>"

definition is_offline :: "ApiSnapshot \<Rightarrow> bool" where
  "is_offline sn \<longleftrightarrow> OFFLINE_THRESHOLD \<le> sn_fail_count sn"

definition has_first_data :: "ApiSnapshot \<Rightarrow> bool" where
  "has_first_data sn \<longleftrightarrow> sn_last_success_at sn \<noteq> None"

definition snap_is_cooking :: "ApiSnapshot \<Rightarrow> bool" where
  "snap_is_cooking sn \<longleftrightarrow>
     sn_current_cook sn \<noteq> None \<or>
     (case sn_status sn of None \<Rightarrow> False | Some status \<Rightarrow> mode status \<noteq> IDLE)"

definition upstream_stale :: "nat \<Rightarrow> ApiSnapshot \<Rightarrow> ticks \<Rightarrow> (StaleCause \<times> u64) option" where
  "upstream_stale hz sn now =
     (case sn_oven_missing_since sn of
        Some since \<Rightarrow>
          (let secs = secs_since hz now since
           in if UPSTREAM_STALE_GRACE_SECS \<le> secs then Some (NoOvenState, secs) else None)
      | None \<Rightarrow>
          (case Option.bind (sn_status sn) upstream of
             None \<Rightarrow> None
           | Some u \<Rightarrow>
               if connected u \<or> disconnected_secs u < UPSTREAM_STALE_GRACE_SECS then None
               else Some (case oven_offline_secs u of
                            Some secs \<Rightarrow> (OvenOffline, secs)
                          | None \<Rightarrow> (AnovaLink, disconnected_secs u))))"

section \<open>States\<close>

datatype AppState =
  Offline
| UpstreamStale
| AppIdle
| Cooking "string option"                \<comment> \<open>\<open>optimistic_recipe_title\<close>\<close>
| BrowseRecipes nat                      \<comment> \<open>\<open>index\<close>\<close>
| StartPending string string ticks       \<comment> \<open>\<open>recipe_title\<close>, \<open>recipe_id\<close>, \<open>since\<close>\<close>
| ConfirmStop
| StopPending ticks                      \<comment> \<open>\<open>since\<close>\<close>
| AwaitNextStage string                  \<comment> \<open>\<open>next_description\<close>\<close>

fun discriminant :: "AppState \<Rightarrow> u32" where
  "discriminant Offline = 1"
| "discriminant AppIdle = 2"
| "discriminant (Cooking _) = 3"
| "discriminant (BrowseRecipes _) = 4"
| "discriminant (StartPending _ _ _) = 5"
| "discriminant ConfirmStop = 6"
| "discriminant (StopPending _) = 7"
| "discriminant (AwaitNextStage _) = 8"
| "discriminant UpstreamStale = 9"

definition app_state_name :: "u32 \<Rightarrow> string option" where
  "app_state_name d =
     (if d = 0 then Some ''(unset / pre-init)''
      else if d = 1 then Some ''Offline''
      else if d = 2 then Some ''Idle''
      else if d = 3 then Some ''Cooking''
      else if d = 4 then Some ''BrowseRecipes''
      else if d = 5 then Some ''StartPending''
      else if d = 6 then Some ''ConfirmStop''
      else if d = 7 then Some ''StopPending''
      else if d = 8 then Some ''AwaitNextStage''
      else if d = 9 then Some ''UpstreamStale''
      else None)"

datatype BacklightPolicy = Full | Dim | FullThenDimAfter nat   \<comment> \<open>a delay in seconds\<close>

fun backlight_policy :: "AppState \<Rightarrow> BacklightPolicy" where
  "backlight_policy AppIdle = FullThenDimAfter 5"
| "backlight_policy (Cooking _) = FullThenDimAfter 5"
| "backlight_policy Offline = Full"
| "backlight_policy UpstreamStale = Full"
| "backlight_policy (BrowseRecipes _) = Full"
| "backlight_policy (StartPending _ _ _) = Full"
| "backlight_policy ConfirmStop = Full"
| "backlight_policy (StopPending _) = Full"
| "backlight_policy (AwaitNextStage _) = Full"

definition idle_dim_delay :: "AppState \<Rightarrow> nat" where
  "idle_dim_delay st =
     (case backlight_policy st of FullThenDimAfter delay \<Rightarrow> delay | Full \<Rightarrow> 5 | Dim \<Rightarrow> 5)"

section \<open>Views\<close>

datatype ViewSpec =
  WifiInit
| DhcpInit
| Connecting
| ServerOffline
| StaleView StaleCause u64
| StatusView "OvenStatus option" "CurrentCook option" "ticks option"
| RecipeBrowser RecipeSource nat nat string   \<comment> \<open>\<open>source\<close>, \<open>count\<close>, \<open>index\<close>, \<open>title\<close>\<close>
| StopConfirmation "OvenStatus option" "CurrentCook option"
| StartingCook string
| NextStagePrompt string
| Recovery u32 u32 "string option"

fun timer_age_secs :: "nat \<Rightarrow> ViewSpec \<Rightarrow> ticks \<Rightarrow> u64" where
  "timer_age_secs hz (StatusView _ _ (Some anchor)) now = secs_since hz now anchor"
| "timer_age_secs hz _ now = 0"

definition baseline_state_for :: "ApiSnapshot \<Rightarrow> AppState" where
  "baseline_state_for sn = (if snap_is_cooking sn then Cooking None else AppIdle)"

definition idle_view :: "ApiSnapshot \<Rightarrow> ViewSpec" where
  "idle_view sn =
     (if \<not> has_first_data sn \<or> sn_oven_missing_since sn \<noteq> None then Connecting
      else StatusView (sn_status sn) (sn_current_cook sn) (sn_timer_anchor sn))"

definition cooking_view :: "ApiSnapshot \<Rightarrow> string option \<Rightarrow> ViewSpec" where
  "cooking_view sn optimistic_recipe_title =
     (let cook =
        (if sn_current_cook sn \<noteq> None then sn_current_cook sn
         else if (case sn_status sn of None \<Rightarrow> False | Some status \<Rightarrow> is_cooking status)
         then map_option (\<lambda>title.
                \<lparr>cc_recipe_title = title, cc_recipe_id = None, cc_started_at = ''pending'',
                 cc_stages = [], cc_cook_stage_count = 0, cc_total_stage_count = 0\<rparr>)
              optimistic_recipe_title
         else None)
      in StatusView (sn_status sn) cook (sn_timer_anchor sn))"

text \<open>\<open>&recipes[index]\<close> panics out of range, so the view is an option.\<close>

definition recipe_browser_view :: "Recipe list \<Rightarrow> nat \<Rightarrow> ViewSpec option" where
  "recipe_browser_view recipes index =
     (if index < length recipes then
        (let recipe = recipes ! index;
             same_source = (\<lambda>r. rc_source r = rc_source recipe)
         in Some (RecipeBrowser (rc_source recipe)
              (length (filter same_source recipes))
              (length (filter same_source (take index recipes)))
              (rc_title recipe)))
      else None)"

definition optimistic_idle_view :: "ApiSnapshot \<Rightarrow> ViewSpec" where
  "optimistic_idle_view sn =
     StatusView
       (map_option (\<lambda>status. status
          \<lparr>mode := IDLE, timer_mode := IDLE, timer_current_secs := 0,
           target_temperature_c := None, steam_target_pct := None\<rparr>) (sn_status sn))
       None (sn_timer_anchor sn)"

definition next_stage_prompt :: "ApiSnapshot \<Rightarrow> string option" where
  "next_stage_prompt sn =
     (case Option.bind (sn_status sn) cook_progress of
        None \<Rightarrow> None
      | Some progress \<Rightarrow>
          if \<not> cp_next_stage_ready progress then None
          else Some (case cp_next_stage_description progress of
                       Some d \<Rightarrow> d | None \<Rightarrow> ''Next stage''))"

definition active_recipe_title :: "ApiSnapshot \<Rightarrow> string" where
  "active_recipe_title sn =
     (case sn_current_cook sn of
        Some cook \<Rightarrow> display_name cook
      | None \<Rightarrow>
          (case Option.bind (sn_status sn) cook_progress of
             Some progress \<Rightarrow>
               if cp_recipe_title progress \<noteq> [] \<and> cp_recipe_title progress \<noteq> ''[manual]''
               then cp_recipe_title progress else ''Active cook''
           | None \<Rightarrow> ''Active cook''))"

section \<open>Lemmas\<close>

lemma app_state_name_discriminant: "app_state_name (discriminant st) \<noteq> None"
  by (cases st) (simp_all add: app_state_name_def)

lemma discriminant_not_init: "\<not> is_init_stage (discriminant st)"
  by (cases st) (simp_all add: is_init_stage_def INIT_STAGE_WIFI_def INIT_STAGE_DHCP_def)

lemma app_state_name_not_init: "app_state_name d \<noteq> None \<Longrightarrow> init_stage_name d = None"
  by (auto simp: app_state_name_def init_stage_name_def INIT_STAGE_WIFI_def INIT_STAGE_DHCP_def
      split: if_splits)

definition same_screen :: "AppState \<Rightarrow> AppState \<Rightarrow> bool" where
  "same_screen a b = (case (a, b) of
     (Offline, Offline) \<Rightarrow> True | (UpstreamStale, UpstreamStale) \<Rightarrow> True
   | (AppIdle, AppIdle) \<Rightarrow> True | (Cooking _, Cooking _) \<Rightarrow> True
   | (BrowseRecipes _, BrowseRecipes _) \<Rightarrow> True | (StartPending _ _ _, StartPending _ _ _) \<Rightarrow> True
   | (ConfirmStop, ConfirmStop) \<Rightarrow> True | (StopPending _, StopPending _) \<Rightarrow> True
   | (AwaitNextStage _, AwaitNextStage _) \<Rightarrow> True | _ \<Rightarrow> False)"

text \<open>
  The breadcrumb a state leaves names that state and nothing else: two states share a number
  only when they are the same screen, every number has a name, distinct numbers have distinct
  names, and none is mistaken for a bring-up stage when the next boot classifies the reset.
\<close>

theorem breadcrumb_identifies_state:
  "(app_state_name (discriminant a) = app_state_name (discriminant b) \<longleftrightarrow> same_screen a b) \<and>
   app_state_name (discriminant a) \<noteq> None \<and>
   (m \<and> \<not> p \<and> \<not> t \<and> \<not> f \<longrightarrow> classify_reset m p (discriminant a) t f = OtherSoftReset)"
proof (intro conjI)
  show "app_state_name (discriminant a) = app_state_name (discriminant b) \<longleftrightarrow> same_screen a b"
    by (cases a; cases b) (simp_all add: app_state_name_def same_screen_def)
qed (auto simp: app_state_name_discriminant classify_reset_def discriminant_not_init)

text \<open>Polls that carry the same timer reading.\<close>

definition same_timer :: "OvenStatus \<Rightarrow> OvenStatus \<Rightarrow> bool" where
  "same_timer s s' \<longleftrightarrow> timer_mode s = timer_mode s' \<and>
     timer_current_secs s = timer_current_secs s' \<and> timer_total_secs s = timer_total_secs s'"

lemma install_status_fields [simp]:
  "sn_status (install_status sn s now) = Some s"
  "sn_oven_missing_since (install_status sn s now) = None"
  "sn_fail_count (install_status sn s now) = sn_fail_count sn"
  "sn_current_cook (install_status sn s now) = sn_current_cook sn"
  by (simp_all add: install_status_def Let_def)

lemma install_status_anchor:
  "sn_timer_anchor (install_status sn s now) =
     (case (sn_timer_anchor sn, sn_status sn) of
        (Some t, Some prev) \<Rightarrow> if same_timer prev s then Some t else Some now
      | _ \<Rightarrow> Some now)"
  by (auto simp: install_status_def same_timer_def Let_def split: option.splits)

definition install_all :: "ApiSnapshot \<Rightarrow> (OvenStatus \<times> ticks) list \<Rightarrow> ApiSnapshot" where
  "install_all sn ps = foldl (\<lambda>sn (s, now). install_status sn s now) sn ps"

lemma install_all_anchor:
  assumes "sn_status sn = Some s0" "sn_timer_anchor sn = Some t0" "\<forall>(s, now) \<in> set ps. same_timer s0 s"
  shows "sn_timer_anchor (install_all sn ps) = Some t0 \<and>
    (\<exists>s. sn_status (install_all sn ps) = Some s \<and> same_timer s0 s)"
  using assms
proof (induction ps arbitrary: sn s0)
  case Nil
  then show ?case by (simp add: install_all_def same_timer_def)
next
  case (Cons p ps)
  obtain s now where p: "p = (s, now)" by (cases p)
  have "sn_timer_anchor (install_status sn s now) = Some t0"
    using Cons.prems by (simp add: p install_status_anchor)
  moreover have "\<forall>(s', now) \<in> set ps. same_timer s s'" "same_timer s0 s"
    using Cons.prems(3) by (auto simp: p same_timer_def)
  ultimately show ?case
    using Cons.IH [of "install_status sn s now" s]
    by (auto simp: p install_all_def same_timer_def)
qed

text \<open>
  The timer counts at 1 Hz between readings: after a reading that moved at \<open>t0\<close>, any number
  of polls that repeat it keep the anchor, so the view's age is the whole time since \<open>t0\<close> and a
  running timer shows the reading less those seconds, down to zero.
\<close>

theorem timer_extrapolates:
  fixes t0 now :: ticks and s0 :: OvenStatus and sn :: ApiSnapshot and ps :: "(OvenStatus \<times> ticks) list"
  defines "sn' \<equiv> install_all (install_status sn s0 t0) ps"
  assumes "\<forall>(s, t) \<in> set ps. same_timer s0 s"
    and "sn_timer_anchor sn = None \<or> sn_status sn = None \<or> \<not> same_timer (the (sn_status sn)) s0"
    and "timer_mode s0 = ''running''" and "0 < timer_total_secs s0"
  shows "timer_age_secs hz (cooking_view sn' title) now = secs_since hz now t0 \<and>
    timer_remaining_secs_after (the (sn_status sn')) (secs_since hz now t0) =
      Some (sat_sub (timer_current_secs s0) (secs_since hz now t0))"
proof -
  have "sn_timer_anchor (install_status sn s0 t0) = Some t0"
    using assms(3) by (auto simp: install_status_anchor split: option.splits)
  then have a: "sn_timer_anchor sn' = Some t0" "\<exists>s. sn_status sn' = Some s \<and> same_timer s0 s"
    unfolding sn'_def using install_all_anchor [OF _ _ assms(2), of "install_status sn s0 t0" t0] by auto
  then show ?thesis
    using assms(4,5)
    by (auto simp: cooking_view_def timer_remaining_secs_after_def same_timer_def Let_def)
qed

text \<open>
  The data is called stale exactly when it has been past the grace period: with no oven state
  for a minute, or with the server's link or the oven down for a minute as the server counts it,
  blamed on the oven when the oven's own count is there.
\<close>

theorem upstream_stale_iff:
  "upstream_stale hz sn now = Some (cause, secs) \<longleftrightarrow>
     (\<exists>t. sn_oven_missing_since sn = Some t \<and> cause = NoOvenState \<and>
        secs = secs_since hz now t \<and> 60 \<le> secs) \<or>
     (\<exists>s u. sn_oven_missing_since sn = None \<and> sn_status sn = Some s \<and> upstream s = Some u \<and>
        \<not> connected u \<and> 60 \<le> disconnected_secs u \<and>
        (cause = OvenOffline \<and> oven_offline_secs u = Some secs \<or>
         cause = AnovaLink \<and> oven_offline_secs u = None \<and> secs = disconnected_secs u))"
  by (auto simp: upstream_stale_def UPSTREAM_STALE_GRACE_SECS_def Let_def bind_eq_Some_conv
      not_le not_less split: option.splits if_splits)

lemma filter_take_nth:
  "i < length xs \<Longrightarrow> P (xs ! i) \<Longrightarrow> filter P xs ! length (filter P (take i xs)) = xs ! i"
proof (induction xs arbitrary: i)
  case (Cons x xs)
  then show ?case by (cases i) auto
qed simp

lemma filter_take_less:
  "i < length xs \<Longrightarrow> P (xs ! i) \<Longrightarrow> length (filter P (take i xs)) < length (filter P xs)"
proof (induction xs arbitrary: i)
  case (Cons x xs)
  then show ?case by (cases i) auto
qed simp

text \<open>
  The browser's position is right within the recipe's own source: it is below the count, the
  counts of the two sources add up to the list, and walking the flat list shows each source's
  recipes at positions 0, 1, 2 and so on, in list order.
\<close>

theorem browser_position:
  assumes "index < length recipes"
  shows "\<exists>src count i title.
    recipe_browser_view recipes index = Some (RecipeBrowser src count i title) \<and> i < count \<and>
    count = length (filter (\<lambda>r. rc_source r = src) recipes) \<and>
    filter (\<lambda>r. rc_source r = src) recipes ! i = recipes ! index \<and>
    title = rc_title (recipes ! index)"
  using assms filter_take_nth [OF assms] filter_take_less [OF assms]
  by (simp add: recipe_browser_view_def Let_def)

end
