(* ===== verification/Core_Api.thy ===== *)
theory Core_Api
  imports F32
begin

text \<open>
  The pure helpers of the firmware's API layer (\<open>crates/anova-oven-pico-core/src/api.rs\<close>): the
  normalised server URL and the temperature conversion of the displays.
\<close>

definition normalize_server_url :: "string \<Rightarrow> string" where
  "normalize_server_url url =
     (let trimmed = trim_end_matches CHR ''/'' url
      in if starts_with trimmed ''http://'' \<or> starts_with trimmed ''https://'' then trimmed
         else ''http://'' @ trimmed)"

text \<open>\<open>c * 1.8 + 32.0\<close>, each operation rounded to \<open>f32\<close>.\<close>

definition celcius_to_fahrenheit :: "f32 \<Rightarrow> f32" where
  "celcius_to_fahrenheit c = f32_add (f32_mul c f32_1_8) (f32_of_nat 32)"

lemma normalize_has_scheme:
  "starts_with (normalize_server_url url) ''http://'' \<or> starts_with (normalize_server_url url) ''https://''"
  by (auto simp: normalize_server_url_def Let_def starts_with_iff)

text \<open>
  With a host, the base has no slash at the end, so a base and a path that starts with one join in
  a single slash. (Without one it is the bare scheme.)
\<close>

lemma normalize_no_trailing_slash:
  assumes "trim_end_matches CHR ''/'' url \<noteq> []"
  shows "last (normalize_server_url url) \<noteq> CHR ''/''"
  using assms trim_end_matches_last [of _ "CHR ''/''" url]
  by (auto simp: normalize_server_url_def Let_def)

text \<open>
  The server address is normalised once and for all: the result names a scheme, an address with
  a host does not end in a slash (so the API paths join it in exactly one), it is unchanged by a
  second normalisation, and an address that is already normal is kept as it is.
\<close>

theorem normalize_server_url_correct:
  assumes "trim_end_matches CHR ''/'' url \<noteq> []"
  shows "(\<exists>host. normalize_server_url url \<in> {''http://'' @ host, ''https://'' @ host}) \<and>
    last (normalize_server_url url) \<noteq> CHR ''/'' \<and>
    normalize_server_url (normalize_server_url url) = normalize_server_url url \<and>
    (starts_with url ''http://'' \<and> last url \<noteq> CHR ''/'' \<longrightarrow> normalize_server_url url = url)"
proof (intro conjI)
  show "\<exists>host. normalize_server_url url \<in> {''http://'' @ host, ''https://'' @ host}"
    using normalize_has_scheme [of url] by (auto simp: starts_with_iff)
  show l: "last (normalize_server_url url) \<noteq> CHR ''/''"
    by (rule normalize_no_trailing_slash [OF assms])
  have keep: "trim_end_matches CHR ''/'' u = u" if "last u \<noteq> CHR ''/''" for u
    using that by (cases u rule: rev_cases) auto
  show "normalize_server_url (normalize_server_url url) = normalize_server_url url"
    using normalize_has_scheme [of url] keep [OF l]
    by (subst (1) normalize_server_url_def) (simp add: Let_def)
  show "starts_with url ''http://'' \<and> last url \<noteq> CHR ''/'' \<longrightarrow> normalize_server_url url = url"
    using keep [of url] by (simp add: normalize_server_url_def Let_def)
qed

end
