(* ===== verification/Api_Client.thy ===== *)
theory Api_Client
  imports Scheduler Fsm Core_Api
begin

text \<open>
  The firmware's API client: the HTTP calls (\<open>crates/anova-oven-pico/src/api.rs\<close>) and the task that
  schedules them (\<open>crates/anova-oven-pico/src/api_client.rs\<close>).

  The transport (TCP, reqwless) and the JSON decoders (serde_json) are outside the repository: what
  a call's transport did is an input of the step, and the decoders are the parameter \<open>Decoders\<close>.
  A handler reads the clock before and after its call, so a step has two instants.
\<close>

section \<open>HTTP calls\<close>

type_synonym u16 = "16 word"

datatype ApiError = Connect | Send | BodyRead | Http u16 | Json

text \<open>What happened to one request: where it failed, or the status and the body.\<close>

datatype Transport = ConnectFailed | SendFailed | BodyReadFailed | Response u16 string

definition request :: "Transport \<Rightarrow> (u16 \<Rightarrow> string \<Rightarrow> ApiError + 'r) \<Rightarrow> ApiError + 'r" where
  "request tr handler =
     (case tr of
        ConnectFailed \<Rightarrow> Inl Connect
      | SendFailed \<Rightarrow> Inl Send
      | BodyReadFailed \<Rightarrow> Inl BodyRead
      | Response status body \<Rightarrow> handler status body)"

text \<open>\<open>serde_json::from_slice\<close> at the three types the client reads.\<close>

record Decoders =
  dec_status :: "string \<Rightarrow> OvenStatus option"
  dec_cook :: "string \<Rightarrow> CurrentCook option"
  dec_recipes :: "string \<Rightarrow> Recipe list option"

definition fetch_status :: "Decoders \<Rightarrow> Transport \<Rightarrow> ApiError + OvenStatus" where
  "fetch_status d tr = request tr (\<lambda>status body.
     if status \<noteq> 200 then Inl (Http status)
     else case dec_status d body of Some s \<Rightarrow> Inr s | None \<Rightarrow> Inl Json)"

definition fetch_current_cook :: "Decoders \<Rightarrow> Transport \<Rightarrow> ApiError + CurrentCook option" where
  "fetch_current_cook d tr = request tr (\<lambda>status body.
     if status = 204 then Inr None
     else if status = 200
     then (case dec_cook d body of Some cook \<Rightarrow> Inr (Some cook) | None \<Rightarrow> Inl Json)
     else Inl (Http status))"

definition fetch_recipes :: "Decoders \<Rightarrow> Transport \<Rightarrow> ApiError + Recipe list" where
  "fetch_recipes d tr = request tr (\<lambda>status body.
     if status \<noteq> 200 then Inl (Http status)
     else case dec_recipes d body of
       Some recipes \<Rightarrow> Inr (map recipe_normalize recipes) | None \<Rightarrow> Inl Json)"

definition post_handler :: "u16 \<Rightarrow> string \<Rightarrow> ApiError + unit" where
  "post_handler status body =
     (if 200 \<le> status \<and> status < 300 then Inr () else Inl (Http status))"

definition send_stop :: "Transport \<Rightarrow> ApiError + unit" where
  "send_stop tr = request tr post_handler"

definition send_next_stage :: "Transport \<Rightarrow> ApiError + unit" where
  "send_next_stage tr = request tr post_handler"

definition send_start :: "Transport \<Rightarrow> ApiError + unit" where
  "send_start tr = request tr post_handler"

text \<open>The requests the calls open: the method, the URL and the body.\<close>

datatype Method = GET | POST

record HttpRequest =
  rq_method :: Method
  rq_url :: string
  rq_body :: "string option"

definition start_body :: "string \<Rightarrow> string" where
  "start_body recipe_id = ''{\"recipe_id\":\"'' @ recipe_id @ ''\"}''"

definition get_request :: "string \<Rightarrow> string \<Rightarrow> HttpRequest" where
  "get_request server path = \<lparr>rq_method = GET, rq_url = server @ path, rq_body = None\<rparr>"

definition post_request :: "string \<Rightarrow> string \<Rightarrow> string option \<Rightarrow> HttpRequest" where
  "post_request server path body = \<lparr>rq_method = POST, rq_url = server @ path, rq_body = body\<rparr>"

section \<open>The client's state\<close>

definition API_CALL_TIMEOUT_SECS :: nat where "API_CALL_TIMEOUT_SECS = 5"
definition POST_ACTION_COOK_REFRESH_DELAY_SECS :: nat where
  "POST_ACTION_COOK_REFRESH_DELAY_SECS = 1"
definition POST_START_CURRENT_COOK_REFRESH_DELAY_SECS :: nat where
  "POST_START_CURRENT_COOK_REFRESH_DELAY_SECS = 3"
definition COOK_POLL_INTERVAL_SECS :: nat where "COOK_POLL_INTERVAL_SECS = 10"
definition RECIPE_POLL_INTERVAL_SECS :: nat where "RECIPE_POLL_INTERVAL_SECS = 3600"
definition NORMAL_POLL_INTERVAL_SECS :: nat where "NORMAL_POLL_INTERVAL_SECS = 1"
definition POLL_BACKOFF_TIER1_FAILS :: u64 where "POLL_BACKOFF_TIER1_FAILS = 5"
definition POLL_BACKOFF_TIER2_FAILS :: u64 where "POLL_BACKOFF_TIER2_FAILS = 10"
definition POLL_BACKOFF_TIER3_FAILS :: u64 where "POLL_BACKOFF_TIER3_FAILS = 15"
definition POLL_BACKOFF_TIER1_SECS :: nat where "POLL_BACKOFF_TIER1_SECS = 5"
definition POLL_BACKOFF_TIER2_SECS :: nat where "POLL_BACKOFF_TIER2_SECS = 15"
definition POLL_BACKOFF_TIER3_SECS :: nat where "POLL_BACKOFF_TIER3_SECS = 30"

definition COMMAND_CHANNEL_CAPACITY :: nat where "COMMAND_CHANNEL_CAPACITY = 4"

datatype ApiCommand = Start string | Stop | NextStage

text \<open>Where the task stands: at the outer \<open>select\<close>, or at the top of the inner drain loop.\<close>

datatype Phase = OuterSelect | DrainLoop

record ApiRuntime =
  rt_server_url :: string
  rt_snapshot :: ApiSnapshot
  event_queue :: EventQueue
  pending_start_recipe_id :: "string option"
  rt_published :: "ApiSnapshot option"     \<comment> \<open>the \<open>StateWatch\<close>\<close>
  rt_fail_count_crumb :: u32               \<comment> \<open>\<open>persist::record_api_fail_count\<close>\<close>
  rt_commands :: "ApiCommand list"         \<comment> \<open>the \<open>CommandChannel\<close>\<close>
  rt_phase :: Phase

definition try_send :: "ApiCommand \<Rightarrow> ApiRuntime \<Rightarrow> ApiRuntime" where
  "try_send c rt =
     (if length (rt_commands rt) < COMMAND_CHANNEL_CAPACITY
      then rt\<lparr>rt_commands := rt_commands rt @ [c]\<rparr> else rt)"

definition client_snapshot :: "ApiRuntime \<Rightarrow> ApiSnapshot" where
  "client_snapshot rt = (case rt_published rt of Some sn \<Rightarrow> sn | None \<Rightarrow> snapshot_default)"

definition rt_enqueue :: "EventKind \<Rightarrow> ticks \<Rightarrow> EnqueueMode \<Rightarrow> ApiRuntime \<Rightarrow> ApiRuntime" where
  "rt_enqueue k t m rt = rt\<lparr>event_queue := snd (enqueue (event_queue rt) k t m)\<rparr>"

definition millis :: "nat \<Rightarrow> nat \<Rightarrow> ticks" where
  "millis hz ms = ms * hz div 1000"

definition runtime_new :: "nat \<Rightarrow> ticks \<Rightarrow> string \<Rightarrow> ApiRuntime" where
  "runtime_new hz now server_url =
     (rt_enqueue PollRecipes (now + millis hz 500) PreferEarlier \<circ>
      rt_enqueue PollCurrentCook (now + millis hz 250) PreferEarlier \<circ>
      rt_enqueue PollStatus now PreferEarlier)
     \<lparr>rt_server_url = normalize_server_url server_url, rt_snapshot = snapshot_default, event_queue = queue_new,
      pending_start_recipe_id = None, rt_published = None, rt_fail_count_crumb = 0,
      rt_commands = [], rt_phase = OuterSelect\<rparr>"

definition next_poll_interval_secs :: "ApiRuntime \<Rightarrow> nat" where
  "next_poll_interval_secs rt =
     (let n = sn_fail_count (rt_snapshot rt)
      in if n \<ge> POLL_BACKOFF_TIER3_FAILS then POLL_BACKOFF_TIER3_SECS
         else if n \<ge> POLL_BACKOFF_TIER2_FAILS then POLL_BACKOFF_TIER2_SECS
         else if n \<ge> POLL_BACKOFF_TIER1_FAILS then POLL_BACKOFF_TIER1_SECS
         else NORMAL_POLL_INTERVAL_SECS)"

definition publish_snapshot :: "ApiRuntime \<Rightarrow> ApiRuntime" where
  "publish_snapshot rt = rt\<lparr>rt_published := Some (rt_snapshot rt)\<rparr>"

definition record_fast_poll_success :: "ticks \<Rightarrow> ApiRuntime \<Rightarrow> ApiRuntime" where
  "record_fast_poll_success now rt =
     rt\<lparr>rt_snapshot := (rt_snapshot rt)\<lparr>sn_fail_count := 0, sn_last_success_at := Some now\<rparr>,
        rt_fail_count_crumb := 0\<rparr>"

definition saturating_inc :: "u64 \<Rightarrow> u64" where
  "saturating_inc n = (if n = - 1 then n else n + 1)"

definition record_fast_poll_failure :: "ApiRuntime \<Rightarrow> ApiRuntime" where
  "record_fast_poll_failure rt =
     (let n = saturating_inc (sn_fail_count (rt_snapshot rt))
      in rt\<lparr>rt_snapshot := (rt_snapshot rt)\<lparr>sn_fail_count := n\<rparr>, rt_fail_count_crumb := ucast n\<rparr>)"

definition queue_post_action_refresh :: "nat \<Rightarrow> ticks \<Rightarrow> ApiRuntime \<Rightarrow> ApiRuntime" where
  "queue_post_action_refresh hz now =
     (let refresh_at = now + POST_ACTION_COOK_REFRESH_DELAY_SECS * hz
      in rt_enqueue PollCurrentCook refresh_at PreferEarlier \<circ>
         rt_enqueue PollStatus refresh_at PreferEarlier)"

definition poll_action_in_flight :: "ApiRuntime \<Rightarrow> bool" where
  "poll_action_in_flight rt \<longleftrightarrow>
     pending_start_recipe_id rt \<noteq> None \<or>
     has_pending (event_queue rt) ApiStart \<or>
     has_pending (event_queue rt) ApiStop \<or>
     has_pending (event_queue rt) ApiNextStage"

definition reconcile_current_cook_recipe_title :: "ApiRuntime \<Rightarrow> ApiRuntime" where
  "reconcile_current_cook_recipe_title rt =
     (case sn_current_cook (rt_snapshot rt) of
        None \<Rightarrow> rt
      | Some cook \<Rightarrow>
          (case cc_recipe_id cook of
             None \<Rightarrow> rt
           | Some recipe_id \<Rightarrow>
               (case find (\<lambda>r. rc_id r = recipe_id) (sn_recipes (rt_snapshot rt)) of
                  None \<Rightarrow> rt
                | Some recipe \<Rightarrow>
                    rt\<lparr>rt_snapshot := (rt_snapshot rt)\<lparr>sn_current_cook :=
                         Some (cook\<lparr>cc_recipe_title := rc_title recipe\<rparr>)\<rparr>\<rparr>)))"

section \<open>Event handlers\<close>

text \<open>
  One call: the instant before it, what \<open>with_timeout\<close> gave (\<open>None\<close> is the timeout) and the instant
  after it. Each handler returns the requests it opens and the new state.
\<close>

record Call =
  now_before :: ticks
  call_result :: "Transport option"
  now_after :: ticks

definition handle_api_start :: "nat \<Rightarrow> Call \<Rightarrow> ApiRuntime \<Rightarrow> HttpRequest list \<times> ApiRuntime" where
  "handle_api_start hz c rt =
     (case pending_start_recipe_id rt of
        None \<Rightarrow> ([], rt)
      | Some recipe_id \<Rightarrow>
          ([post_request (rt_server_url rt) ''/api/start'' (Some (start_body recipe_id))],
           (rt_enqueue PollCurrentCook
              (now_after c + POST_START_CURRENT_COOK_REFRESH_DELAY_SECS * hz) PreferEarlier \<circ>
            rt_enqueue PollStatus
              (now_after c + POST_ACTION_COOK_REFRESH_DELAY_SECS * hz) PreferEarlier)
           (rt\<lparr>pending_start_recipe_id := None\<rparr>)))"

definition handle_api_stop :: "ApiRuntime \<Rightarrow> HttpRequest list \<times> ApiRuntime" where
  "handle_api_stop rt = ([post_request (rt_server_url rt) ''/api/stop'' None], rt)"

definition handle_api_next_stage :: "ApiRuntime \<Rightarrow> HttpRequest list \<times> ApiRuntime" where
  "handle_api_next_stage rt = ([post_request (rt_server_url rt) ''/api/next-stage'' None], rt)"

definition status_result ::
  "Decoders \<Rightarrow> Call \<Rightarrow> ApiRuntime \<Rightarrow> ApiRuntime" where
  "status_result d c rt =
     (case call_result c of
        None \<Rightarrow> record_fast_poll_failure rt
      | Some tr \<Rightarrow>
          (case fetch_status d tr of
             Inr status \<Rightarrow> record_fast_poll_success (now_after c)
               (rt\<lparr>rt_snapshot := install_status (rt_snapshot rt) status (now_after c)\<rparr>)
           | Inl e \<Rightarrow>
               if e = Http 503 then record_fast_poll_success (now_after c)
                 (rt\<lparr>rt_snapshot := mark_oven_missing (rt_snapshot rt) (now_after c)\<rparr>)
               else record_fast_poll_failure rt))"

definition handle_poll_status ::
  "nat \<Rightarrow> Decoders \<Rightarrow> Call \<Rightarrow> ApiRuntime \<Rightarrow> HttpRequest list \<times> ApiRuntime" where
  "handle_poll_status hz d c rt =
     (if poll_action_in_flight rt
      then ([], rt_enqueue PollStatus (now_before c + POST_ACTION_COOK_REFRESH_DELAY_SECS * hz)
                  PreferEarlier rt)
      else
        (let rt = status_result d c rt;
             interval = max (next_poll_interval_secs rt) NORMAL_POLL_INTERVAL_SECS;
             rt = rt_enqueue PollStatus (now_after c + interval * hz) PreferEarlier rt
         in ([get_request (rt_server_url rt) ''/api/status''], publish_snapshot rt)))"

definition cook_result :: "Decoders \<Rightarrow> Call \<Rightarrow> ApiRuntime \<Rightarrow> ApiRuntime" where
  "cook_result d c rt =
     (case map_option (fetch_current_cook d) (call_result c) of
        Some (Inr (Some cook)) \<Rightarrow> reconcile_current_cook_recipe_title
          (rt\<lparr>rt_snapshot := (rt_snapshot rt)\<lparr>sn_current_cook := Some cook\<rparr>\<rparr>)
      | Some (Inr None) \<Rightarrow> rt\<lparr>rt_snapshot := (rt_snapshot rt)\<lparr>sn_current_cook := None\<rparr>\<rparr>
      | Some (Inl _) \<Rightarrow> rt
      | None \<Rightarrow> rt)"

definition handle_poll_current_cook ::
  "nat \<Rightarrow> Decoders \<Rightarrow> Call \<Rightarrow> ApiRuntime \<Rightarrow> HttpRequest list \<times> ApiRuntime" where
  "handle_poll_current_cook hz d c rt =
     (if poll_action_in_flight rt
      then ([], rt_enqueue PollCurrentCook
                  (now_before c + POST_ACTION_COOK_REFRESH_DELAY_SECS * hz) PreferEarlier rt)
      else
        (let rt = cook_result d c rt;
             interval = max (next_poll_interval_secs rt) COOK_POLL_INTERVAL_SECS;
             rt = rt_enqueue PollCurrentCook (now_after c + interval * hz) PreferEarlier rt
         in ([get_request (rt_server_url rt) ''/api/current-cook''], publish_snapshot rt)))"

definition recipes_result :: "Decoders \<Rightarrow> Call \<Rightarrow> ApiRuntime \<Rightarrow> ApiRuntime" where
  "recipes_result d c rt =
     (case map_option (fetch_recipes d) (call_result c) of
        Some (Inr recipes) \<Rightarrow> rt\<lparr>rt_snapshot := (rt_snapshot rt)\<lparr>sn_recipes := recipes\<rparr>\<rparr>
      | Some (Inl _) \<Rightarrow> rt
      | None \<Rightarrow> rt)"

definition handle_poll_recipes ::
  "nat \<Rightarrow> Decoders \<Rightarrow> Call \<Rightarrow> ApiRuntime \<Rightarrow> HttpRequest list \<times> ApiRuntime" where
  "handle_poll_recipes hz d c rt =
     (let rt = reconcile_current_cook_recipe_title (recipes_result d c rt);
          interval = max (next_poll_interval_secs rt) RECIPE_POLL_INTERVAL_SECS;
          rt = rt_enqueue PollRecipes (now_after c + interval * hz) PreferEarlier rt
      in ([get_request (rt_server_url rt) ''/api/recipes''], publish_snapshot rt))"

definition handle_event ::
  "nat \<Rightarrow> Decoders \<Rightarrow> Call \<Rightarrow> ScheduledEvent \<Rightarrow> ApiRuntime \<Rightarrow> HttpRequest list \<times> ApiRuntime" where
  "handle_event hz d c ev rt =
     (case ev_kind ev of
        PollStatus \<Rightarrow> handle_poll_status hz d c rt
      | PollCurrentCook \<Rightarrow> handle_poll_current_cook hz d c rt
      | PollRecipes \<Rightarrow> handle_poll_recipes hz d c rt
      | ApiStart \<Rightarrow> handle_api_start hz c rt
      | ApiStop \<Rightarrow> handle_api_stop rt
      | ApiNextStage \<Rightarrow> handle_api_next_stage rt)"

fun handle_command :: "nat \<Rightarrow> ticks \<Rightarrow> ApiCommand \<Rightarrow> ApiRuntime \<Rightarrow> ApiRuntime" where
  "handle_command hz now (Start recipe_id) rt =
     rt_enqueue ApiStart now PreferEarlier (rt\<lparr>pending_start_recipe_id := Some recipe_id\<rparr>)"
| "handle_command hz now Stop rt =
     queue_post_action_refresh hz now (rt_enqueue ApiStop now PreferEarlier rt)"
| "handle_command hz now NextStage rt =
     queue_post_action_refresh hz now (rt_enqueue ApiNextStage now PreferEarlier rt)"

section \<open>The task\<close>

text \<open>
  What runs between two suspensions of \<open>api_client_task\<close>. \<open>UiSend\<close> is a command from the screen's
  task, \<open>TimerElapsed\<close> and \<open>CommandReceived\<close> the two arms of the outer \<open>select\<close>, and \<open>Drain\<close> one round
  of the inner loop: every queued command, then the next due event, with its call. An input the task
  is not waiting for changes nothing.
\<close>

datatype ApiInput =
  UiSend ApiCommand
| TimerElapsed ticks
| CommandReceived ticks
| Drain Call

definition take_commands :: "nat \<Rightarrow> ticks \<Rightarrow> ApiRuntime \<Rightarrow> ApiRuntime" where
  "take_commands hz now rt =
     (fold (handle_command hz now) (rt_commands rt) rt)\<lparr>rt_commands := []\<rparr>"

definition drain_round ::
  "nat \<Rightarrow> Decoders \<Rightarrow> Call \<Rightarrow> ApiRuntime \<Rightarrow> HttpRequest list \<times> ApiRuntime" where
  "drain_round hz d c rt =
     (let rt = take_commands hz (now_before c) rt;
          (popped, q) = pop_due (event_queue rt) (now_before c);
          rt = rt\<lparr>event_queue := q\<rparr>
      in case popped of
           Some ev \<Rightarrow> handle_event hz d c ev rt
         | None \<Rightarrow> ([], rt\<lparr>rt_phase := OuterSelect\<rparr>))"

fun client_step ::
  "nat \<Rightarrow> Decoders \<Rightarrow> ApiInput \<Rightarrow> ApiRuntime \<Rightarrow> HttpRequest list \<times> ApiRuntime" where
  "client_step hz d (UiSend c) rt = ([], try_send c rt)"
| "client_step hz d (TimerElapsed now) rt =
     (if rt_phase rt = OuterSelect \<and>
         (case next_due_at (event_queue rt) of Some t \<Rightarrow> t \<le> now | None \<Rightarrow> False)
      then ([], rt\<lparr>rt_phase := DrainLoop\<rparr>) else ([], rt))"
| "client_step hz d (CommandReceived now) rt =
     (if rt_phase rt = OuterSelect then
        (case rt_commands rt of
           [] \<Rightarrow> ([], rt)
         | c # cs \<Rightarrow> ([], handle_command hz now c (rt\<lparr>rt_commands := cs\<rparr>)))
      else ([], rt))"
| "client_step hz d (Drain c) rt =
     (if rt_phase rt = DrainLoop then drain_round hz d c rt else ([], rt))"


text \<open>
  A run of the task: the clock never goes back, and a call ends after it began.
\<close>

fun input_times :: "ApiInput \<Rightarrow> ticks \<Rightarrow> ticks \<times> ticks" where
  "input_times (UiSend _) clock = (clock, clock)"
| "input_times (TimerElapsed now) clock = (now, now)"
| "input_times (CommandReceived now) clock = (now, now)"
| "input_times (Drain c) clock = (now_before c, now_after c)"

inductive client_reach :: "nat \<Rightarrow> Decoders \<Rightarrow> string \<Rightarrow> ticks \<Rightarrow> ApiRuntime \<Rightarrow> bool"
  for hz d server_url where
  boot: "0 < hz \<Longrightarrow> client_reach hz d server_url now (runtime_new hz now server_url)"
| step: "client_reach hz d server_url clock rt \<Longrightarrow> input_times i clock = (t, t') \<Longrightarrow>
    clock \<le> t \<Longrightarrow> t \<le> t' \<Longrightarrow> client_reach hz d server_url t' (snd (client_step hz d i rt))"

section \<open>The invariant\<close>

abbreviation qc :: "ApiRuntime \<Rightarrow> EventKind \<rightharpoonup> instant" where
  "qc rt \<equiv> queue_contents (event_queue rt)"

lemma rt_enqueue_fields [simp]:
  "rt_server_url (rt_enqueue k t m rt) = rt_server_url rt"
  "rt_snapshot (rt_enqueue k t m rt) = rt_snapshot rt"
  "pending_start_recipe_id (rt_enqueue k t m rt) = pending_start_recipe_id rt"
  "rt_published (rt_enqueue k t m rt) = rt_published rt"
  "rt_fail_count_crumb (rt_enqueue k t m rt) = rt_fail_count_crumb rt"
  "rt_commands (rt_enqueue k t m rt) = rt_commands rt"
  "rt_phase (rt_enqueue k t m rt) = rt_phase rt"
  by (simp_all add: rt_enqueue_def)

lemma rt_enqueue_queue [simp]:
  assumes "queue_inv (event_queue rt)"
  shows "queue_inv (event_queue (rt_enqueue k t m rt))"
    and "qc (rt_enqueue k t m rt) = (qc rt)(k \<mapsto> merge_time m (qc rt k) t)"
  using assms by (simp_all add: rt_enqueue_def vq.enq_inv vq.enq_contents)

lemma merge_earlier_le: "merge_time PreferEarlier old t \<le> t"
  by (simp add: merge_time_def split: option.split)

text \<open>How far ahead each poll may be scheduled, in seconds.\<close>

fun poll_bound :: "EventKind \<Rightarrow> nat" where
  "poll_bound PollStatus = 30"
| "poll_bound PollCurrentCook = 30"
| "poll_bound PollRecipes = 3600"
| "poll_bound _ = 0"

definition poll_due_by :: "nat \<Rightarrow> ticks \<Rightarrow> ApiRuntime \<Rightarrow> EventKind \<Rightarrow> bool" where
  "poll_due_by hz clock rt k \<longleftrightarrow>
     (case qc rt k of Some t \<Rightarrow> t \<le> clock + poll_bound k * hz | None \<Rightarrow> False)"

text \<open>
  The invariant, for the polls of \<open>ks\<close>: between events all three; inside the handler of a poll the
  other two.
\<close>

definition start_staged :: "ApiRuntime \<Rightarrow> bool" where
  "start_staged rt \<longleftrightarrow> (pending_start_recipe_id rt = None \<longleftrightarrow> qc rt ApiStart = None)"

definition api_inv :: "nat \<Rightarrow> ticks \<Rightarrow> EventKind set \<Rightarrow> ApiRuntime \<Rightarrow> bool" where
  "api_inv hz clock ks rt \<longleftrightarrow>
     queue_inv (event_queue rt) \<and> (\<forall>k \<in> ks. poll_due_by hz clock rt k) \<and> start_staged rt \<and>
     length (rt_commands rt) \<le> COMMAND_CHANNEL_CAPACITY"

definition polls :: "EventKind set" where
  "polls = {PollStatus, PollCurrentCook, PollRecipes}"

text \<open>Operations that leave the queue, the staged id and the channel alone.\<close>

definition same_queue :: "ApiRuntime \<Rightarrow> ApiRuntime \<Rightarrow> bool" where
  "same_queue rt rt' \<longleftrightarrow> event_queue rt' = event_queue rt \<and>
     pending_start_recipe_id rt' = pending_start_recipe_id rt \<and> rt_commands rt' = rt_commands rt"

lemma same_queue_inv: "same_queue rt rt' \<Longrightarrow> api_inv hz clock ks rt' = api_inv hz clock ks rt"
  by (simp add: same_queue_def api_inv_def poll_due_by_def start_staged_def)

lemma api_inv_later: "api_inv hz clock ks rt \<Longrightarrow> clock \<le> clock' \<Longrightarrow> api_inv hz clock' ks rt"
  by (force simp: api_inv_def poll_due_by_def split: option.splits)

lemma poll_due_by_enqueue:
  assumes "queue_inv (event_queue rt)" "poll_due_by hz clock rt k' \<or> k' = k"
    and "t \<le> clock + poll_bound k * hz \<or> k' \<noteq> k"
  shows "poll_due_by hz clock (rt_enqueue k t PreferEarlier rt) k'"
  using assms merge_earlier_le [of "qc rt k" t]
  by (auto simp: poll_due_by_def)

lemma api_inv_enqueue:
  assumes "api_inv hz clock ks rt" "t \<le> clock + poll_bound k * hz" "k \<noteq> ApiStart"
  shows "api_inv hz clock (insert k ks) (rt_enqueue k t PreferEarlier rt)"
  using assms poll_due_by_enqueue [of rt hz clock _ k t]
  by (auto simp: api_inv_def start_staged_def)

lemma api_inv_mono: "api_inv hz clock ks rt \<Longrightarrow> ks' \<subseteq> ks \<Longrightarrow> api_inv hz clock ks' rt"
  by (auto simp: api_inv_def)


lemma api_inv_start:
  assumes "api_inv hz clock ks rt" "ApiStart \<notin> ks"
  shows "api_inv hz clock ks
    (rt_enqueue ApiStart t PreferEarlier (rt\<lparr>pending_start_recipe_id := Some rid\<rparr>))"
  using assms by (auto simp: api_inv_def start_staged_def poll_due_by_def)

lemma api_inv_refresh:
  assumes "api_inv hz clock ks rt" "polls \<subseteq> ks" "now \<le> clock"
  shows "api_inv hz clock ks (queue_post_action_refresh hz now rt)"
proof -
  let ?t = "now + POST_ACTION_COOK_REFRESH_DELAY_SECS * hz"
  have t: "?t \<le> clock + poll_bound PollStatus * hz" "?t \<le> clock + poll_bound PollCurrentCook * hz"
    using assms(3) by (simp_all add: POST_ACTION_COOK_REFRESH_DELAY_SECS_def)
  from api_inv_enqueue [OF api_inv_enqueue [OF assms(1) t(1)] t(2)]
  have "api_inv hz clock (insert PollCurrentCook (insert PollStatus ks))
      (queue_post_action_refresh hz now rt)"
    by (simp add: queue_post_action_refresh_def Let_def)
  then show ?thesis by (rule api_inv_mono) auto
qed

lemma handle_command_inv:
  assumes "api_inv hz clock ks rt" "ks = polls" "now \<le> clock"
  shows "api_inv hz clock ks (handle_command hz now c rt)"
proof (cases c)
  case (Start rid)
  then show ?thesis using assms by (simp add: api_inv_start polls_def)
next
  case Stop
  have "api_inv hz clock ks (rt_enqueue ApiStop now PreferEarlier rt)"
    using api_inv_enqueue [OF assms(1), of now ApiStop] assms(3) by (auto intro: api_inv_mono)
  then show ?thesis using assms Stop by (simp add: api_inv_refresh)
next
  case NextStage
  have "api_inv hz clock ks (rt_enqueue ApiNextStage now PreferEarlier rt)"
    using api_inv_enqueue [OF assms(1), of now ApiNextStage] assms(3) by (auto intro: api_inv_mono)
  then show ?thesis using assms NextStage by (simp add: api_inv_refresh)
qed

lemma api_inv_commands:
  "api_inv hz clock ks rt \<Longrightarrow> length cs \<le> COMMAND_CHANNEL_CAPACITY \<Longrightarrow>
   api_inv hz clock ks (rt\<lparr>rt_commands := cs\<rparr>)"
  by (simp add: api_inv_def poll_due_by_def start_staged_def)

lemma api_inv_phase [simp]: "api_inv hz clock ks (rt\<lparr>rt_phase := p\<rparr>) = api_inv hz clock ks rt"
  by (simp add: api_inv_def poll_due_by_def start_staged_def)

lemma take_commands_inv:
  assumes "api_inv hz clock polls rt" "now \<le> clock"
  shows "api_inv hz clock polls (take_commands hz now rt)"
proof -
  have "api_inv hz clock polls (fold (handle_command hz now) cs rt)" for cs
    using assms by (induction cs arbitrary: rt) (simp_all add: handle_command_inv)
  then show ?thesis by (simp add: take_commands_def api_inv_commands)
qed

lemma pop_inv_rt:
  assumes "api_inv hz clock ks rt" "pop_due (event_queue rt) now = (Some ev, q)"
  shows "queue_inv q" and "queue_contents q = (qc rt)(ev_kind ev := None)"
    and "execution_time ev \<le> now" and "qc rt (ev_kind ev) = Some (execution_time ev)"
    and "api_inv hz clock (ks - {ev_kind ev}) (rt\<lparr>event_queue := q\<rparr>) \<or> ev_kind ev = ApiStart"
proof -
  have inv: "queue_inv (event_queue rt)" using assms(1) by (simp add: api_inv_def)
  show q: "queue_inv q" using vq.pop_inv [OF inv, of now] assms(2) by simp
  note p = vq.pop_Some [OF inv, of now ev]
  show c: "queue_contents q = (qc rt)(ev_kind ev := None)" using p assms(2) by simp
  show "execution_time ev \<le> now" "qc rt (ev_kind ev) = Some (execution_time ev)"
    using p assms(2) by simp_all
  show "api_inv hz clock (ks - {ev_kind ev}) (rt\<lparr>event_queue := q\<rparr>) \<or> ev_kind ev = ApiStart"
    using assms(1) q c by (auto simp: api_inv_def start_staged_def poll_due_by_def)
qed

lemma next_poll_interval_le: "next_poll_interval_secs rt \<le> 30" "next_poll_interval_secs rt \<le> 3600"
  by (auto simp: next_poll_interval_secs_def Let_def POLL_BACKOFF_TIER1_SECS_def
      POLL_BACKOFF_TIER2_SECS_def POLL_BACKOFF_TIER3_SECS_def NORMAL_POLL_INTERVAL_SECS_def)

lemma same_queue_results:
  "same_queue rt (status_result d c rt)" "same_queue rt (cook_result d c rt)"
  "same_queue rt (reconcile_current_cook_recipe_title (recipes_result d c rt))"
  by (auto simp: same_queue_def status_result_def cook_result_def recipes_result_def
      record_fast_poll_success_def record_fast_poll_failure_def Let_def
      reconcile_current_cook_recipe_title_def split: option.splits sum.splits)

lemma same_queue_publish [simp]: "same_queue rt (publish_snapshot rt)"
  by (simp add: same_queue_def publish_snapshot_def)

lemma api_inv_publish [simp]:
  "api_inv hz clock ks (publish_snapshot rt) = api_inv hz clock ks rt"
  by (rule same_queue_inv) simp

text \<open>A poll's handler puts the poll back, within its bound.\<close>

lemma scaled_le: "(n :: nat) \<le> m \<Longrightarrow> t \<le> t' \<Longrightarrow> t + n * hz \<le> t' + m * hz"
  by (simp add: add_mono)

lemma handle_poll_inv:
  assumes "api_inv hz clock (polls - {ev_kind ev}) rt" "ev_kind ev \<in> polls"
    and "now_before c \<le> now_after c" "clock = now_after c"
  shows "api_inv hz clock polls (snd (handle_event hz d c ev rt))"
proof -
  have requeue: "api_inv hz clock polls (rt_enqueue k t PreferEarlier rt')"
    if "api_inv hz clock (polls - {k}) rt'" "t \<le> clock + poll_bound k * hz" "k \<in> polls" for k t rt'
  proof -
    have "insert k (polls - {k}) = polls" "k \<noteq> ApiStart" using that(3) by (auto simp: polls_def)
    then show ?thesis using api_inv_enqueue [OF that(1,2)] by simp
  qed
  note requeue = requeue [unfolded assms(4)]
  note res = same_queue_results [THEN same_queue_inv]
  have mem: "PollStatus \<in> polls" "PollCurrentCook \<in> polls" "PollRecipes \<in> polls"
    by (simp_all add: polls_def)
  have le: "max (next_poll_interval_secs rt') (Suc 0) * hz \<le> 30 * hz"
    "max (next_poll_interval_secs rt') 10 * hz \<le> 30 * hz"
    "max (next_poll_interval_secs rt') 3600 * hz \<le> 3600 * hz" for rt'
    using next_poll_interval_le(1) [of rt'] by (simp_all add: mult_le_mono1 del: mult_le_cancel2)
  from assms(2) consider "ev_kind ev = PollStatus" | "ev_kind ev = PollCurrentCook"
    | "ev_kind ev = PollRecipes" by (auto simp: polls_def)
  then show ?thesis
  proof cases
    case 1
    with assms show ?thesis
      by (auto simp: handle_event_def handle_poll_status_def Let_def res mem le next_poll_interval_le
          NORMAL_POLL_INTERVAL_SECS_def POST_ACTION_COOK_REFRESH_DELAY_SECS_def intro!: requeue)
  next
    case 2
    with assms show ?thesis
      by (auto simp: handle_event_def handle_poll_current_cook_def Let_def res mem le next_poll_interval_le
          COOK_POLL_INTERVAL_SECS_def POST_ACTION_COOK_REFRESH_DELAY_SECS_def intro!: requeue)
  next
    case 3
    with assms show ?thesis
      by (auto simp: handle_event_def handle_poll_recipes_def Let_def res mem le next_poll_interval_le
          RECIPE_POLL_INTERVAL_SECS_def intro!: requeue)
  qed
qed


text \<open>An action's handler leaves the polls scheduled; a start clears the staged recipe.\<close>

lemma handle_action_inv:
  assumes "api_inv hz clock polls rt" "pop_due (event_queue rt) now = (Some ev, q)"
    and "ev_kind ev \<notin> polls" "clock \<le> now_after c"
  shows "api_inv hz (now_after c) polls (snd (handle_event hz d c ev (rt\<lparr>event_queue := q\<rparr>)))"
proof -
  note pop = pop_inv_rt [OF assms(1,2)]
  note later = api_inv_later [OF _ assms(4)]
  have cases: "ev_kind ev = ApiStart \<or> ev_kind ev = ApiStop \<or> ev_kind ev = ApiNextStage"
    using assms(3) by (cases "ev_kind ev") (auto simp: polls_def)
  show ?thesis
  proof (cases "ev_kind ev = ApiStart")
    case False
    with cases have other: "ev_kind ev = ApiStop \<or> ev_kind ev = ApiNextStage" by blast
    have "polls - {ev_kind ev} = polls" using assms(3) by auto
    then have "api_inv hz clock polls (rt\<lparr>event_queue := q\<rparr>)" using pop(5) False by auto
    with other later show ?thesis
      by (auto simp: handle_event_def handle_api_stop_def handle_api_next_stage_def)
  next
    case True
    from pop(4) True have "pending_start_recipe_id rt \<noteq> None"
      using assms(1) by (simp add: api_inv_def start_staged_def)
    then obtain rid where rid: "pending_start_recipe_id rt = Some rid" by blast
    let ?rt = "rt\<lparr>event_queue := q, pending_start_recipe_id := None\<rparr>"
    have "api_inv hz clock polls ?rt"
      using assms(1) pop(1,2) True by (auto simp: api_inv_def start_staged_def poll_due_by_def polls_def)
    from later [OF this] have i: "api_inv hz (now_after c) polls ?rt" .
    have ins: "insert PollCurrentCook (insert PollStatus polls) = polls" by (auto simp: polls_def)
    have "api_inv hz (now_after c) (insert PollCurrentCook (insert PollStatus polls))
        (rt_enqueue PollCurrentCook (now_after c + 3 * hz) PreferEarlier
          (rt_enqueue PollStatus (now_after c + 1 * hz) PreferEarlier ?rt))"
      by (intro api_inv_enqueue i) simp_all
    then show ?thesis
      by (simp add: handle_event_def handle_api_start_def rid True ins
          POST_START_CURRENT_COOK_REFRESH_DELAY_SECS_def POST_ACTION_COOK_REFRESH_DELAY_SECS_def)
  qed
qed

lemma drain_round_inv:
  assumes "api_inv hz clock polls rt" "clock \<le> now_before c" "now_before c \<le> now_after c"
  shows "api_inv hz (now_after c) polls (snd (drain_round hz d c rt))"
proof -
  let ?rt = "take_commands hz (now_before c) rt"
  have i: "api_inv hz (now_before c) polls ?rt"
    using api_inv_later [OF assms(1,2)] by (simp add: take_commands_inv)
  obtain r q where pop: "pop_due (event_queue ?rt) (now_before c) = (r, q)" by fastforce
  show ?thesis
  proof (cases r)
    case None
    have "queue_inv (event_queue ?rt)" using i by (simp add: api_inv_def)
    from vq.pop_None [OF this, of "now_before c"] pop None have "q = event_queue ?rt" by simp
    with i pop None api_inv_later [OF i assms(3)] show ?thesis by (simp add: drain_round_def Let_def)
  next
    case (Some ev)
    have step: "snd (drain_round hz d c rt) =
        snd (handle_event hz d c ev (?rt\<lparr>event_queue := q\<rparr>))"
      by (simp add: drain_round_def Let_def pop Some)
    show ?thesis
    proof (cases "ev_kind ev \<in> polls")
      case True
      then have "api_inv hz (now_before c) (polls - {ev_kind ev}) (?rt\<lparr>event_queue := q\<rparr>)"
        using pop_inv_rt(5) [OF i pop [unfolded Some]] by (auto simp: polls_def)
      from handle_poll_inv [OF api_inv_later [OF this assms(3)] True assms(3) refl]
      show ?thesis by (simp add: step)
    next
      case False
      from handle_action_inv [OF i pop [unfolded Some] False assms(3)] show ?thesis by (simp add: step)
    qed
  qed
qed

lemma client_step_inv:
  assumes "api_inv hz clock polls rt" "input_times i clock = (t, t')" "clock \<le> t" "t \<le> t'"
  shows "api_inv hz t' polls (snd (client_step hz d i rt))"
proof (cases i)
  case (UiSend c)
  then show ?thesis using assms by (auto simp: try_send_def api_inv_commands)
next
  case (TimerElapsed now)
  then show ?thesis using assms api_inv_later [OF assms(1), of now] by auto
next
  case (CommandReceived now)
  note later = api_inv_later [OF assms(1), of now]
  show ?thesis
  proof (cases "rt_commands rt")
    case Nil
    with CommandReceived assms later show ?thesis by auto
  next
    case (Cons c cs)
    then have "length cs \<le> COMMAND_CHANNEL_CAPACITY" using assms(1) by (simp add: api_inv_def)
    with later have "clock \<le> now \<Longrightarrow> api_inv hz now polls (rt\<lparr>rt_commands := cs\<rparr>)"
      by (simp add: api_inv_commands)
    with CommandReceived assms later Cons show ?thesis by (auto simp: handle_command_inv)
  qed
next
  case (Drain c)
  then show ?thesis using assms drain_round_inv [of hz clock rt c] api_inv_later [OF assms(1), of t'] by auto
qed

lemma runtime_new_inv: "0 < hz \<Longrightarrow> api_inv hz now polls (runtime_new hz now url)"
  by (auto simp: runtime_new_def api_inv_def vq.empty_inv vq.empty_contents start_staged_def
      poll_due_by_def merge_time_def polls_def millis_def)

lemma client_reach_inv: "client_reach hz d url clock rt \<Longrightarrow> api_inv hz clock polls rt"
proof (induction rule: client_reach.induct)
  case (boot now)
  then show ?case by (rule runtime_new_inv)
next
  case (step clock rt i t t')
  show ?case by (rule client_step_inv [OF step.IH step.hyps(2-4)])
qed


section \<open>The client keeps polling\<close>

text \<open>
  C19: The client never goes silent: whatever the server answers and whatever commands arrive, the
  status, the current cook and the recipes are each scheduled, at most 30 s, 30 s and an hour ahead
  of the clock, the task always has a time to wake up at, and a recipe id is staged exactly while a
  start is queued.
\<close>

theorem client_never_silent:
  assumes "client_reach hz d server_url clock rt"
  shows "(\<forall>k \<in> {PollStatus, PollCurrentCook, PollRecipes}. \<exists>t.
      queue_contents (event_queue rt) k = Some t \<and>
      t \<le> clock + (if k = PollRecipes then 3600 else 30) * hz) \<and>
    (\<exists>t \<le> clock + 30 * hz. next_due_at (event_queue rt) = Some t) \<and>
    (pending_start_recipe_id rt \<noteq> None \<longleftrightarrow> has_pending (event_queue rt) ApiStart)"
proof -
  from client_reach_inv [OF assms] have i: "queue_inv (event_queue rt)" "start_staged rt"
      "poll_due_by hz clock rt PollStatus" "poll_due_by hz clock rt PollCurrentCook"
      "poll_due_by hz clock rt PollRecipes"
    by (auto simp: api_inv_def polls_def)
  from i(3) obtain t0 where t0: "qc rt PollStatus = Some t0" "t0 \<le> clock + 30 * hz"
    by (auto simp: poll_due_by_def split: option.splits)
  then have "next_due_at (event_queue rt) \<noteq> None" using vq.due_None [OF i(1)] by auto
  then obtain t where t: "next_due_at (event_queue rt) = Some t" by blast
  with vq.due_Some [OF i(1) t] t0 have "t \<le> clock + 30 * hz" by (meson le_trans)
  moreover have "pending_start_recipe_id rt \<noteq> None \<longleftrightarrow> has_pending (event_queue rt) ApiStart"
    using i(2) by (auto simp: start_staged_def has_pending_iff)
  moreover have "\<forall>k \<in> {PollStatus, PollCurrentCook, PollRecipes}. \<exists>t.
      qc rt k = Some t \<and> t \<le> clock + (if k = PollRecipes then 3600 else 30) * hz"
    using i(3-5) by (auto simp: poll_due_by_def split: option.splits)
  ultimately show ?thesis using t by blast
qed

definition demo_decoders :: Decoders where
  "demo_decoders =
     \<lparr>dec_status = (\<lambda>b. if b = ''status'' then Some demo_status else None),
      dec_cook = (\<lambda>b. None), dec_recipes = (\<lambda>b. if b = ''[]'' then Some [] else None)\<rparr>"

theorem client_never_silent_witness:
  "\<exists>t \<le> 37. next_due_at (event_queue (runtime_new 1 7 ''http://pi'')) = Some t"
  using client_never_silent [OF client_reach.boot [of 1 demo_decoders "''http://pi''" 7]] by auto

section \<open>Actions before polls\<close>

lemma url_eqs [simp]:
  "(get_request s p = get_request s q) = (p = q)" "get_request s p \<noteq> post_request s q b"
  "(post_request s p b = post_request s q b') = (p = q \<and> b = b')"
  "post_request s q b \<noteq> get_request s p"
  by (simp_all add: get_request_def post_request_def)

lemma handler_requests:
  "fst (handle_poll_status hz d c rt) =
     (if poll_action_in_flight rt then [] else [get_request (rt_server_url rt) ''/api/status''])"
  "fst (handle_poll_current_cook hz d c rt) =
     (if poll_action_in_flight rt then [] else [get_request (rt_server_url rt) ''/api/current-cook''])"
  "fst (handle_poll_recipes hz d c rt) = [get_request (rt_server_url rt') ''/api/recipes''] \<longleftrightarrow>
     rt_server_url rt = rt_server_url rt'"
  "fst (handle_api_stop rt) = [post_request (rt_server_url rt) ''/api/stop'' None]"
  "fst (handle_api_next_stage rt) = [post_request (rt_server_url rt) ''/api/next-stage'' None]"
  by (auto simp: handle_poll_status_def handle_poll_current_cook_def handle_poll_recipes_def
      handle_api_stop_def handle_api_next_stage_def Let_def get_request_def
      status_result_def cook_result_def recipes_result_def record_fast_poll_success_def
      record_fast_poll_failure_def reconcile_current_cook_recipe_title_def
      split: option.splits sum.splits)

text \<open>The route of each action, and the requests that went to one.\<close>

definition action_path :: "EventKind \<Rightarrow> string" where
  "action_path a = (case a of ApiStart \<Rightarrow> ''/api/start'' | ApiStop \<Rightarrow> ''/api/stop''
     | ApiNextStage \<Rightarrow> ''/api/next-stage'' | _ \<Rightarrow> [])"

definition requests_to :: "string \<Rightarrow> HttpRequest list \<Rightarrow> HttpRequest list" where
  "requests_to url rs = filter (\<lambda>r. rq_url r = url) rs"

lemma requests_to_append [simp]:
  "requests_to url [] = []" "requests_to url (rs @ rs') = requests_to url rs @ requests_to url rs'"
  by (simp_all add: requests_to_def)

text \<open>The one request of an action; a start carries the staged recipe.\<close>

definition action_request :: "EventKind \<Rightarrow> string option \<Rightarrow> string \<Rightarrow> HttpRequest" where
  "action_request a staged server =
     post_request server (action_path a) (if a = ApiStart then map_option start_body staged else None)"

text \<open>The kinds that go before (or tie with) an action due at \<open>ta\<close>.\<close>

definition ahead :: "ApiRuntime \<Rightarrow> EventKind \<Rightarrow> ticks \<Rightarrow> EventKind set" where
  "ahead rt a ta = {k. k \<noteq> a \<and> (\<exists>t. qc rt k = Some t \<and> due_key t k \<le> due_key ta a)}"

lemma ahead_enqueue:
  assumes "queue_inv (event_queue rt)" "ta < t"
  shows "ahead (rt_enqueue k t PreferEarlier rt) a ta \<subseteq> ahead rt a ta"
  using assms by (auto simp: ahead_def due_key_def merge_time_def less_eq_prod_def min_def
      split: option.splits if_splits)

lemma ahead_same_queue: "same_queue rt rt' \<Longrightarrow> ahead rt' a ta = ahead rt a ta"
  by (simp add: ahead_def same_queue_def)

definition waiting_action :: "EventKind \<Rightarrow> ticks \<Rightarrow> ApiRuntime \<Rightarrow> bool" where
  "waiting_action a ta rt \<longleftrightarrow> a \<notin> polls \<and> qc rt a = Some ta \<and>
     rt_commands rt = [] \<and> rt_phase rt = DrainLoop"

text \<open>What a handler of another kind does to a waiting action.\<close>

lemma result_fields [simp]:
  "rt_phase (status_result d c rt) = rt_phase rt" "rt_phase (cook_result d c rt) = rt_phase rt"
  "rt_phase (reconcile_current_cook_recipe_title (recipes_result d c rt)) = rt_phase rt"
  "rt_server_url (status_result d c rt) = rt_server_url rt"
  "rt_server_url (cook_result d c rt) = rt_server_url rt"
  "rt_server_url (reconcile_current_cook_recipe_title (recipes_result d c rt)) = rt_server_url rt"
  by (auto simp: status_result_def cook_result_def recipes_result_def record_fast_poll_success_def
      record_fast_poll_failure_def Let_def reconcile_current_cook_recipe_title_def
      split: option.splits sum.splits)

lemma publish_fields [simp]:
  "event_queue (publish_snapshot rt) = event_queue rt" "rt_phase (publish_snapshot rt) = rt_phase rt"
  "rt_commands (publish_snapshot rt) = rt_commands rt"
  "pending_start_recipe_id (publish_snapshot rt) = pending_start_recipe_id rt"
  "rt_server_url (publish_snapshot rt) = rt_server_url rt"
  "rt_snapshot (publish_snapshot rt) = rt_snapshot rt"
  by (simp_all add: publish_snapshot_def)

lemma ahead_publish [simp]: "ahead (publish_snapshot rt) a ta = ahead rt a ta"
  by (simp add: ahead_def)

lemma waiting_publish [simp]: "waiting_action a ta (publish_snapshot rt) = waiting_action a ta rt"
  by (simp add: waiting_action_def)

lemma waiting_enqueue:
  "queue_inv (event_queue rt) \<Longrightarrow> k \<noteq> a \<Longrightarrow>
   waiting_action a ta (rt_enqueue k t m rt) = waiting_action a ta rt"
  by (simp add: waiting_action_def)

lemma waiting_same_queue:
  "same_queue rt rt' \<Longrightarrow> rt_phase rt' = rt_phase rt \<Longrightarrow>
   waiting_action a ta rt' = waiting_action a ta rt"
  by (simp add: waiting_action_def same_queue_def)


definition keeps_action :: "EventKind \<Rightarrow> ticks \<Rightarrow> ApiRuntime \<Rightarrow> ApiRuntime \<Rightarrow> bool" where
  "keeps_action a ta rt rt' \<longleftrightarrow>
     (queue_inv (event_queue rt) \<and> waiting_action a ta rt \<longrightarrow>
      queue_inv (event_queue rt') \<and> waiting_action a ta rt' \<and> ahead rt' a ta \<subseteq> ahead rt a ta)"

lemma keeps_trans: "keeps_action a ta rt rt' \<Longrightarrow> keeps_action a ta rt' rt'' \<Longrightarrow> keeps_action a ta rt rt''"
  by (auto simp: keeps_action_def)

lemma keeps_enqueue:
  "k \<noteq> a \<Longrightarrow> ta < t \<Longrightarrow> keeps_action a ta rt (rt_enqueue k t PreferEarlier rt)"
  by (simp add: keeps_action_def waiting_enqueue ahead_enqueue)

lemma keeps_same_queue:
  "same_queue rt rt' \<Longrightarrow> rt_phase rt' = rt_phase rt \<Longrightarrow> keeps_action a ta rt rt'"
  using ahead_same_queue [of rt rt' a ta] waiting_same_queue [of rt rt' a ta]
  by (simp add: keeps_action_def) (simp add: same_queue_def)

lemma handle_event_keeps:
  assumes "ev_kind ev \<noteq> a" "ta \<le> now_before c" "now_before c \<le> now_after c" "0 < hz" "a \<notin> polls"
  shows "keeps_action a ta rt (snd (handle_event hz d c ev rt))"
proof -
  have ne: "PollStatus \<noteq> a" "PollCurrentCook \<noteq> a" "PollRecipes \<noteq> a"
    using assms(5) by (auto simp: polls_def)
  have res: "keeps_action a ta rt (status_result d c rt)" "keeps_action a ta rt (cook_result d c rt)"
    "keeps_action a ta rt (reconcile_current_cook_recipe_title (recipes_result d c rt))"
    by (auto intro: keeps_same_queue same_queue_results)
  have pub: "keeps_action a ta rt' (publish_snapshot rt')" for rt'
    by (simp add: keeps_same_queue)
  have late: "ta < now_before c + hz" "0 < n \<Longrightarrow> ta < now_after c + n * hz" for n
    using assms(2-4) by (simp, metis add.right_neutral add_le_less_mono le_trans nat_0_less_mult_iff)
  have after: "keeps_action a ta rt (publish_snapshot (rt_enqueue k (now_after c + n * hz) PreferEarlier rt'))"
    if "keeps_action a ta rt rt'" "0 < n" "k \<noteq> a" for rt' k n
    using keeps_trans [OF that(1) keeps_enqueue [OF that(3) late(2) [OF that(2)]]]
    by (rule keeps_trans [OF _ pub])
  show ?thesis
  proof (cases "ev_kind ev")
    case PollStatus
    then show ?thesis using ne late(1) res(1)
      by (auto simp: handle_event_def handle_poll_status_def Let_def POST_ACTION_COOK_REFRESH_DELAY_SECS_def
          NORMAL_POLL_INTERVAL_SECS_def intro: keeps_enqueue after)
  next
    case PollCurrentCook
    then show ?thesis using ne late(1) res(2)
      by (auto simp: handle_event_def handle_poll_current_cook_def Let_def
          POST_ACTION_COOK_REFRESH_DELAY_SECS_def COOK_POLL_INTERVAL_SECS_def intro: keeps_enqueue after)
  next
    case PollRecipes
    then show ?thesis using ne res(3)
      by (auto simp: handle_event_def handle_poll_recipes_def Let_def RECIPE_POLL_INTERVAL_SECS_def
          intro: after)
  next
    case ApiStart
    have clear: "keeps_action a ta rt (rt\<lparr>pending_start_recipe_id := None\<rparr>)"
      by (simp add: keeps_action_def waiting_action_def ahead_def)
    have s: "ta < now_after c + 1 * hz" "ta < now_after c + 3 * hz" by (rule late(2), simp)+
    show ?thesis
      using keeps_trans [OF keeps_trans [OF clear keeps_enqueue [OF ne(1) s(1)]]
          keeps_enqueue [OF ne(2) s(2)]] ApiStart
      by (auto simp: handle_event_def handle_api_start_def POST_ACTION_COOK_REFRESH_DELAY_SECS_def
          POST_START_CURRENT_COOK_REFRESH_DELAY_SECS_def keeps_same_queue same_queue_def
          split: option.splits)
  qed (simp_all add: handle_event_def handle_api_stop_def handle_api_next_stage_def
      keeps_same_queue same_queue_def)
qed

lemma handle_event_requests:
  assumes "a \<notin> polls" "ev_kind ev = ApiStart \<longrightarrow> pending_start_recipe_id rt \<noteq> None"
  shows "requests_to (rt_server_url rt @ action_path a) (fst (handle_event hz d c ev rt)) =
    (if ev_kind ev = a then [action_request a (pending_start_recipe_id rt) (rt_server_url rt)] else [])"
  using assms
  by (cases "ev_kind ev"; cases a) (auto simp: polls_def handle_event_def handle_poll_status_def
      handle_poll_current_cook_def handle_poll_recipes_def handle_api_start_def handle_api_stop_def
      handle_api_next_stage_def Let_def requests_to_def action_request_def action_path_def
      get_request_def post_request_def)

text \<open>A handler leaves the actions' entries and the channel alone.\<close>

lemma same_queue_simps [simp]:
  "event_queue (status_result d c rt) = event_queue rt"
  "event_queue (cook_result d c rt) = event_queue rt"
  "event_queue (reconcile_current_cook_recipe_title (recipes_result d c rt)) = event_queue rt"
  "rt_commands (status_result d c rt) = rt_commands rt"
  "rt_commands (cook_result d c rt) = rt_commands rt"
  "rt_commands (reconcile_current_cook_recipe_title (recipes_result d c rt)) = rt_commands rt"
  "pending_start_recipe_id (status_result d c rt) = pending_start_recipe_id rt"
  "pending_start_recipe_id (cook_result d c rt) = pending_start_recipe_id rt"
  "pending_start_recipe_id (reconcile_current_cook_recipe_title (recipes_result d c rt)) =
     pending_start_recipe_id rt"
  using same_queue_results [of rt d c] by (simp_all add: same_queue_def)

lemma handle_event_frame:
  assumes "queue_inv (event_queue rt)"
  shows "queue_inv (event_queue (snd (handle_event hz d c ev rt)))"
    and "a \<notin> polls \<Longrightarrow> qc (snd (handle_event hz d c ev rt)) a = qc rt a"
    and "rt_commands (snd (handle_event hz d c ev rt)) = rt_commands rt"
    and "pending_start_recipe_id (snd (handle_event hz d c ev rt)) \<in>
      {pending_start_recipe_id rt, None}"
  using assms
  by (cases "ev_kind ev"; auto simp: handle_event_def handle_poll_status_def handle_api_start_def
      handle_poll_current_cook_def handle_poll_recipes_def handle_api_stop_def
      handle_api_next_stage_def Let_def polls_def split: option.splits)+

lemma handle_event_pending:
  "ev_kind ev \<noteq> ApiStart \<Longrightarrow>
   pending_start_recipe_id (snd (handle_event hz d c ev rt)) = pending_start_recipe_id rt"
  by (cases "ev_kind ev") (auto simp: handle_event_def handle_poll_status_def
      handle_poll_current_cook_def handle_poll_recipes_def handle_api_stop_def
      handle_api_next_stage_def Let_def)

lemma handle_event_url [simp]: "rt_server_url (snd (handle_event hz d c ev rt)) = rt_server_url rt"
  by (auto simp: handle_event_def handle_poll_status_def handle_poll_current_cook_def
      handle_poll_recipes_def handle_api_start_def handle_api_stop_def handle_api_next_stage_def
      Let_def split: EventKind.splits option.splits)

text \<open>An action that is over: it neither waits nor is in the channel.\<close>

definition action_over :: "EventKind \<Rightarrow> ApiRuntime \<Rightarrow> bool" where
  "action_over a rt \<longleftrightarrow> a \<notin> polls \<and> qc rt a = None \<and> rt_commands rt = []"

lemma ahead_pop:
  assumes "queue_inv (event_queue rt)" "pop_due (event_queue rt) now = (Some ev, q)"
    and "qc rt a = Some ta" "ev_kind ev \<noteq> a"
  shows "ev_kind ev \<in> ahead rt a ta" "ahead (rt\<lparr>event_queue := q\<rparr>) a ta = ahead rt a ta - {ev_kind ev}"
  using vq.pop_Some [OF assms(1), of now ev] assms(2-4) by (auto simp: ahead_def split: if_splits)

lemma handle_command_fields [simp]:
  "rt_phase (handle_command hz now c rt) = rt_phase rt"
  "rt_server_url (handle_command hz now c rt) = rt_server_url rt"
  by (cases c; simp add: queue_post_action_refresh_def Let_def)+

lemma take_commands_fields [simp]:
  "rt_commands (take_commands hz now rt) = []"
  "rt_phase (take_commands hz now rt) = rt_phase rt"
  "rt_server_url (take_commands hz now rt) = rt_server_url rt"
proof -
  have "rt_phase (fold (handle_command hz now) cs rt) = rt_phase rt \<and>
      rt_server_url (fold (handle_command hz now) cs rt) = rt_server_url rt" for cs
    by (induction cs arbitrary: rt) simp_all
  then show "rt_commands (take_commands hz now rt) = []"
    "rt_phase (take_commands hz now rt) = rt_phase rt"
    "rt_server_url (take_commands hz now rt) = rt_server_url rt"
    by (simp_all add: take_commands_def)
qed

text \<open>A staged start is staged for a recipe.\<close>

lemma staged_start: "api_inv hz clock ks rt \<Longrightarrow> qc rt ApiStart \<noteq> None \<Longrightarrow> pending_start_recipe_id rt \<noteq> None"
  by (simp add: api_inv_def start_staged_def)

lemma drain_pop:
  assumes "rt_commands rt = []" "pop_due (event_queue rt) (now_before c) = (Some ev, q)"
  shows "drain_round hz d c rt = handle_event hz d c ev (rt\<lparr>event_queue := q\<rparr>)"
proof -
  have "take_commands hz now rt = rt" for now using assms(1) by (simp add: take_commands_def)
  with assms(2) show ?thesis by (simp add: drain_round_def)
qed

lemma drain_progress:
  fixes d :: Decoders
  assumes inv: "api_inv hz clock polls rt" and w: "waiting_action a ta rt"
    and t: "ta \<le> now_before c" "clock \<le> now_before c" "now_before c \<le> now_after c" and hz: "0 < hz"
  defines "rs \<equiv> requests_to (rt_server_url rt @ action_path a) (fst (drain_round hz d c rt))"
    and "rt' \<equiv> snd (drain_round hz d c rt)"
  shows "rs = [action_request a (pending_start_recipe_id rt) (rt_server_url rt)] \<and> action_over a rt' \<or>
    rs = [] \<and> waiting_action a ta rt' \<and> ahead rt' a ta \<subset> ahead rt a ta \<and>
    (a = ApiStart \<longrightarrow> pending_start_recipe_id rt' = pending_start_recipe_id rt)"
proof -
  have q: "queue_inv (event_queue rt)" using inv by (simp add: api_inv_def)
  have a: "a \<notin> polls" "qc rt a = Some ta" "rt_commands rt = []" using w by (auto simp: waiting_action_def)
  obtain r q' where pop: "pop_due (event_queue rt) (now_before c) = (r, q')" by fastforce
  have "\<not> now_before c < ta" using t(1) by simp
  with vq.pop_None [OF q, of "now_before c"] pop a(2) have "r \<noteq> None" by (metis fst_conv)
  then obtain ev where ev: "r = Some ev" by blast
  let ?rt = "rt\<lparr>event_queue := q'\<rparr>"
  note step = drain_pop [OF a(3) pop [unfolded ev], of hz d]
  have popped: "queue_contents q' = (qc rt)(ev_kind ev := None)" "qc rt (ev_kind ev) \<noteq> None"
    using vq.pop_Some [OF q, of "now_before c" ev] pop ev by auto
  have q': "queue_inv (event_queue ?rt)" using vq.pop_inv [OF q, of "now_before c"] pop by simp
  have "ev_kind ev = ApiStart \<longrightarrow> pending_start_recipe_id ?rt \<noteq> None"
    using staged_start [OF inv] popped(2) by auto
  note sent = handle_event_requests [OF a(1) this, of hz d c, simplified]
  note frame = handle_event_frame [OF q', where hz = hz and d = d and c = c and ev = ev]
  show ?thesis
  proof (cases "ev_kind ev = a")
    case True
    then show ?thesis using sent frame(2) [OF a(1)] frame(3) popped(1) a
      by (simp add: rs_def rt'_def step action_over_def)
  next
    case False
    note pop' = pop_inv_rt [OF inv pop [unfolded ev]]
    have w': "waiting_action a ta ?rt" using w pop'(2) False by (simp add: waiting_action_def)
    have "keeps_action a ta ?rt rt'"
      unfolding rt'_def step by (rule handle_event_keeps [OF False t(1,3) hz a(1)])
    with w' pop'(1) ahead_pop [OF q pop [unfolded ev] a(2) False] have
      "waiting_action a ta rt' \<and> ahead rt' a ta \<subset> ahead rt a ta"
      by (auto simp: keeps_action_def)
    moreover have "a = ApiStart \<longrightarrow> pending_start_recipe_id rt' = pending_start_recipe_id rt"
      using handle_event_pending [of ev hz d c ?rt] False by (auto simp: rt'_def step)
    moreover have "rs = []" using sent False by (simp add: rs_def step)
    ultimately show ?thesis by blast
  qed
qed

lemma drain_over:
  assumes inv: "api_inv hz clock polls rt" and a: "action_over a rt"
  shows "requests_to (rt_server_url rt @ action_path a) (fst (drain_round hz d c rt)) = []"
    and "action_over a (snd (drain_round hz d c rt))"
proof -
  have q: "queue_inv (event_queue rt)" using inv by (simp add: api_inv_def)
  have o: "a \<notin> polls" "qc rt a = None" "rt_commands rt = []" using a by (auto simp: action_over_def)
  obtain r q' where pop: "pop_due (event_queue rt) (now_before c) = (r, q')" by fastforce
  have "requests_to (rt_server_url rt @ action_path a) (fst (drain_round hz d c rt)) = [] \<and>
      action_over a (snd (drain_round hz d c rt))"
  proof (cases r)
    case None
    with vq.pop_None [OF q, of "now_before c"] pop have "q' = event_queue rt" by simp
    then show ?thesis using o pop None
      by (simp add: drain_round_def take_commands_def action_over_def Let_def)
  next
    case (Some ev)
    let ?rt = "rt\<lparr>event_queue := q'\<rparr>"
    have p: "queue_contents q' = (qc rt)(ev_kind ev := None)" "qc rt (ev_kind ev) \<noteq> None"
      using vq.pop_Some [OF q, of "now_before c" ev] pop Some by auto
    have q': "queue_inv (event_queue ?rt)" using vq.pop_inv [OF q, of "now_before c"] pop by simp
    have "ev_kind ev = ApiStart \<longrightarrow> pending_start_recipe_id ?rt \<noteq> None"
      using staged_start [OF inv] p(2) by auto
    note sent = handle_event_requests [OF o(1) this, of hz d c, simplified]
    have "ev_kind ev \<noteq> a" using p(2) o(2) by auto
    then show ?thesis
      using sent handle_event_frame(2) [OF q' o(1)] handle_event_frame(3) [OF q'] o p(1)
      by (simp add: drain_pop [OF o(3) pop [unfolded Some]] action_over_def)
  qed
  then show "requests_to (rt_server_url rt @ action_path a) (fst (drain_round hz d c rt)) = []"
    "action_over a (snd (drain_round hz d c rt))" by auto
qed

lemma drain_round_url [simp]: "rt_server_url (snd (drain_round hz d c rt)) = rt_server_url rt"
  by (simp add: drain_round_def Let_def case_prod_beta split: option.split)

text \<open>Successive rounds of the inner loop, while no command arrives.\<close>

fun drain_rounds ::
  "nat \<Rightarrow> Decoders \<Rightarrow> Call list \<Rightarrow> ApiRuntime \<Rightarrow> HttpRequest list \<times> ApiRuntime" where
  "drain_rounds hz d [] rt = ([], rt)"
| "drain_rounds hz d (c # cs) rt =
     (let (rs, rt') = drain_round hz d c rt; (rs', rt'') = drain_rounds hz d cs rt'
      in (rs @ rs', rt''))"

fun calls_ordered :: "ticks \<Rightarrow> Call list \<Rightarrow> bool" where
  "calls_ordered clock [] = True"
| "calls_ordered clock (c # cs) =
     (clock \<le> now_before c \<and> now_before c \<le> now_after c \<and> calls_ordered (now_after c) cs)"

lemma drain_rounds_over:
  assumes "api_inv hz clock polls rt" "action_over a rt" "calls_ordered clock cs"
  shows "requests_to (rt_server_url rt @ action_path a) (fst (drain_rounds hz d cs rt)) = []"
  using assms
proof (induction cs arbitrary: rt clock)
  case (Cons c cs)
  have t: "clock \<le> now_before c" "now_before c \<le> now_after c" "calls_ordered (now_after c) cs"
    using Cons.prems by auto
  from Cons.IH [OF drain_round_inv [OF Cons.prems(1) t(1,2)] drain_over(2) [OF Cons.prems(1,2)] t(3)]
    drain_over(1) [OF Cons.prems(1,2)]
  show ?case by (simp add: Let_def case_prod_beta)
qed simp

lemma drain_rounds_send:
  assumes "api_inv hz clock polls rt" "waiting_action a ta rt" "ta \<le> clock" "0 < hz"
    and "calls_ordered clock cs" "card (ahead rt a ta) < length cs"
  shows "requests_to (rt_server_url rt @ action_path a) (fst (drain_rounds hz d cs rt)) =
    [action_request a (pending_start_recipe_id rt) (rt_server_url rt)]"
  using assms
proof (induction cs arbitrary: rt clock)
  case Nil
  then show ?case by simp
next
  case (Cons c cs)
  have t: "ta \<le> now_before c" "clock \<le> now_before c" "now_before c \<le> now_after c"
    "calls_ordered (now_after c) cs" using Cons.prems by auto
  let ?r = "drain_round hz d c rt" and ?url = "rt_server_url rt @ action_path a"
  note inv = drain_round_inv [OF Cons.prems(1) t(2,3), of d]
  from drain_progress [OF Cons.prems(1,2) t(1-3) Cons.prems(4), of d]
  consider "requests_to ?url (fst ?r) = [action_request a (pending_start_recipe_id rt) (rt_server_url rt)]"
        "action_over a (snd ?r)"
    | "requests_to ?url (fst ?r) = []" "waiting_action a ta (snd ?r)" "ahead (snd ?r) a ta \<subset> ahead rt a ta"
        "a = ApiStart \<longrightarrow> pending_start_recipe_id (snd ?r) = pending_start_recipe_id rt"
    by blast
  then show ?case
  proof cases
    case 1
    from drain_rounds_over [OF inv 1(2) t(4)] 1(1) show ?thesis by (simp add: Let_def case_prod_beta)
  next
    case 2
    have "finite (ahead rt a ta)" by (rule finite_subset [OF subset_UNIV]) (simp add: EventKind_UNIV)
    with 2(3) have "card (ahead (snd ?r) a ta) < card (ahead rt a ta)" by (rule psubset_card_mono [rotated])
    with Cons.prems(6) have "card (ahead (snd ?r) a ta) < length cs" by simp
    from Cons.IH [OF inv 2(2) _ Cons.prems(4) t(4) this] t 2(1,4)
    show ?thesis by (auto simp: Let_def case_prod_beta action_request_def)
  qed
qed

fun command_kind :: "ApiCommand \<Rightarrow> EventKind" where
  "command_kind (Start _) = ApiStart"
| "command_kind Stop = ApiStop"
| "command_kind NextStage = ApiNextStage"

lemma command_kind_action: "command_kind c \<notin> polls"
  by (cases c) (simp_all add: polls_def)

definition queued_by :: "EventKind \<Rightarrow> ticks \<Rightarrow> ApiRuntime \<Rightarrow> bool" where
  "queued_by k now rt \<longleftrightarrow> (\<exists>t \<le> now. qc rt k = Some t)"

lemma queued_by_enqueue:
  "queue_inv (event_queue rt) \<Longrightarrow> queued_by k now rt \<or> k = k' \<and> t \<le> now \<Longrightarrow>
   queued_by k now (rt_enqueue k' t PreferEarlier rt)"
  by (auto simp: queued_by_def merge_time_def min_def split: option.splits)

lemma queued_by_refresh:
  "queue_inv (event_queue rt) \<Longrightarrow> queued_by k now rt \<Longrightarrow>
   queued_by k now (queue_post_action_refresh hz now rt)"
  by (simp add: queue_post_action_refresh_def Let_def queued_by_enqueue)

lemma handle_command_queued:
  assumes "queue_inv (event_queue rt)" "queued_by k now rt \<or> k = command_kind c"
  shows "queued_by k now (handle_command hz now c rt)"
proof (cases c)
  case (Start rid)
  have "queued_by k now (rt\<lparr>pending_start_recipe_id := Some rid\<rparr>) = queued_by k now rt"
    by (simp add: queued_by_def)
  with Start assms show ?thesis by (auto intro!: queued_by_enqueue)
qed (use assms in \<open>auto intro!: queued_by_refresh queued_by_enqueue\<close>)

lemma fold_commands_queued:
  assumes "api_inv hz clock polls rt" "now \<le> clock" "c \<in> set cs \<or> queued_by (command_kind c) now rt"
  shows "queued_by (command_kind c) now (fold (handle_command hz now) cs rt)"
  using assms
proof (induction cs arbitrary: rt)
  case (Cons c' cs)
  have "queue_inv (event_queue rt)" using Cons.prems(1) by (simp add: api_inv_def)
  then have "c \<in> set cs \<or> queued_by (command_kind c) now (handle_command hz now c' rt)"
    using Cons.prems(3) handle_command_queued [of rt "command_kind c" now c' hz] by auto
  with Cons.IH [OF handle_command_inv [OF Cons.prems(1) refl Cons.prems(2)] Cons.prems(2)]
  show ?case by simp
qed simp

lemma drain_round_take:
  "drain_round hz d c (take_commands hz (now_before c) rt) = drain_round hz d c rt"
proof -
  have "take_commands hz (now_before c) (take_commands hz (now_before c) rt) =
      take_commands hz (now_before c) rt"
    by (simp add: take_commands_def)
  then show ?thesis by (simp add: drain_round_def)
qed

lemma card_ahead: "card (ahead rt a ta) \<le> 5"
proof -
  have "a \<in> {PollStatus, PollCurrentCook, PollRecipes, ApiStart, ApiStop, ApiNextStage}"
    using EventKind_UNIV by blast
  then have "card ({PollStatus, PollCurrentCook, PollRecipes, ApiStart, ApiStop, ApiNextStage} - {a}) = 5"
    by auto
  moreover have "ahead rt a ta \<subseteq>
      {PollStatus, PollCurrentCook, PollRecipes, ApiStart, ApiStop, ApiNextStage} - {a}"
    using EventKind_UNIV by (auto simp: ahead_def)
  ultimately show ?thesis
    using card_mono [of "{PollStatus, PollCurrentCook, PollRecipes, ApiStart, ApiStop, ApiNextStage} - {a}"
        "ahead rt a ta"] by simp
qed

lemma client_step_url [simp]: "rt_server_url (snd (client_step hz d i rt)) = rt_server_url rt"
proof (cases i)
  case (Drain c)
  then show ?thesis
    by (auto simp: drain_round_def handle_event_def handle_poll_status_def handle_poll_current_cook_def
        handle_poll_recipes_def handle_api_start_def handle_api_stop_def handle_api_next_stage_def
        Let_def split: EventKind.splits option.splits prod.splits)
qed (auto simp: try_send_def split: option.splits list.splits)

lemma client_reach_hz: "client_reach hz d url clock rt \<Longrightarrow> 0 < hz \<and> rt_server_url rt = normalize_server_url url"
  by (induction rule: client_reach.induct) (simp_all add: runtime_new_def)

text \<open>The recipes the starts among some commands ask for, and the request a command stands for.\<close>

fun start_ids :: "ApiCommand list \<Rightarrow> string list" where
  "start_ids [] = []"
| "start_ids (Start rid # cs) = rid # start_ids cs"
| "start_ids (_ # cs) = start_ids cs"

fun command_request :: "string \<Rightarrow> ApiCommand list \<Rightarrow> ApiCommand \<Rightarrow> HttpRequest" where
  "command_request server cmds (Start _) =
     \<lparr>rq_method = POST, rq_url = server @ ''/api/start'',
      rq_body = Some (''{\"recipe_id\":\"'' @ last (start_ids cmds) @ ''\"}'')\<rparr>"
| "command_request server cmds Stop = \<lparr>rq_method = POST, rq_url = server @ ''/api/stop'', rq_body = None\<rparr>"
| "command_request server cmds NextStage =
     \<lparr>rq_method = POST, rq_url = server @ ''/api/next-stage'', rq_body = None\<rparr>"

lemma take_commands_staged:
  "start_ids (rt_commands rt) \<noteq> [] \<Longrightarrow>
   pending_start_recipe_id (take_commands hz now rt) = Some (last (start_ids (rt_commands rt)))"
proof -
  have "pending_start_recipe_id (fold (handle_command hz now) cs rt) =
      (if start_ids cs = [] then pending_start_recipe_id rt else Some (last (start_ids cs)))" for cs
    by (induction cs arbitrary: rt rule: start_ids.induct)
      (simp_all add: queue_post_action_refresh_def Let_def)
  then show "start_ids (rt_commands rt) \<noteq> [] \<Longrightarrow> ?thesis" by (simp add: take_commands_def)
qed

lemma start_ids_nonempty: "Start rid \<in> set cs \<Longrightarrow> start_ids cs \<noteq> []"
  by (induction cs rule: start_ids.induct) auto

lemma command_request_is_action:
  assumes "cmd \<in> set cmds" "start_ids cmds \<noteq> [] \<Longrightarrow> staged = Some (last (start_ids cmds))"
  shows "action_request (command_kind cmd) staged server = command_request server cmds cmd"
proof (cases cmd)
  case (Start rid)
  with assms start_ids_nonempty [of rid cmds] show ?thesis
    by (simp add: action_request_def action_path_def post_request_def start_body_def)
qed (simp_all add: action_request_def action_path_def post_request_def)

text \<open>
  C20: A command is on the wire within six rounds of the drain loop, exactly once and as it was
  meant. Take any commands in the channel when the loop comes round, and let no further one arrive:
  among the next six calls (polls that were overdue included, however long each takes and whatever
  fails) there is exactly one request to the command's route, and it is its POST. A start's carries
  the recipe of the last start in the channel: an earlier one that was not yet sent is replaced, as
  the code says. Overdue polls cannot starve a command, because every poll that goes first comes
  back later than the command.
\<close>

theorem action_sent_soon:
  assumes "client_reach hz d server_url clock rt" "cmd \<in> set (rt_commands rt)"
    and "calls_ordered clock cs" "length cs = 6"
  shows "requests_to (normalize_server_url server_url @ action_path (command_kind cmd))
      (fst (drain_rounds hz d cs (rt\<lparr>rt_phase := DrainLoop\<rparr>))) =
    [command_request (normalize_server_url server_url) (rt_commands rt) cmd]"
proof -
  obtain c cs' where cs: "cs = c # cs'" using assms(4) by (cases cs) auto
  let ?now = "now_before c" and ?a = "command_kind cmd"
  let ?start = "rt\<lparr>rt_phase := DrainLoop\<rparr>"
  let ?rt = "take_commands hz ?now ?start"
  have now: "clock \<le> ?now" using assms(3) by (simp add: cs)
  note hz = client_reach_hz [OF assms(1)]
  have i0: "api_inv hz ?now polls ?start"
    using api_inv_later [OF client_reach_inv [OF assms(1)] now] by simp
  from take_commands_inv [OF i0 order_refl] have i: "api_inv hz ?now polls ?rt" .
  have "queued_by ?a ?now (fold (handle_command hz ?now) (rt_commands ?start) ?start)"
    using fold_commands_queued [OF i0 order_refl] assms(2) by auto
  then obtain ta where ta: "ta \<le> ?now" "qc ?rt ?a = Some ta"
    by (auto simp: queued_by_def take_commands_def)
  have w: "waiting_action ?a ta ?rt"
    using ta(2) by (simp add: waiting_action_def command_kind_action)
  have ord: "calls_ordered ?now cs" using assms(3) by (simp add: cs)
  have "action_request ?a (pending_start_recipe_id ?rt) server = command_request server (rt_commands rt) cmd" for server
    using command_request_is_action [OF assms(2)] take_commands_staged [of ?start hz ?now] by simp
  with drain_rounds_send [OF i w ta(1) hz [THEN conjunct1] ord, of d] card_ahead [of ?rt ?a ta] assms(4) hz
  have "requests_to (normalize_server_url server_url @ action_path ?a) (fst (drain_rounds hz d cs ?rt)) =
      [command_request (normalize_server_url server_url) (rt_commands rt) cmd]" by simp
  then show ?thesis by (simp add: cs drain_round_take)
qed

definition demo_call :: "nat \<Rightarrow> Transport option \<Rightarrow> Call" where
  "demo_call t r = \<lparr>now_before = t, call_result = r, now_after = t + 1\<rparr>"

theorem action_sent_soon_witness:
  "let server = normalize_server_url ''http://pi'';
       send = (\<lambda>c rt. snd (client_step 1 demo_decoders (UiSend c) rt));
       rt = send Stop (send (Start ''b'') (send (Start ''a'') (runtime_new 1 7 ''http://pi'')));
       rs = fst (drain_rounds 1 demo_decoders (map (\<lambda>i. demo_call (10 * i) None) [1, 2, 3, 4, 5, 6])
              (rt\<lparr>rt_phase := DrainLoop\<rparr>))
   in requests_to (server @ ''/api/start'') rs = [command_request server [Start ''b''] (Start ''b'')] \<and>
      requests_to (server @ ''/api/stop'') rs = [command_request server [] Stop]"
proof -
  let ?send = "\<lambda>c rt. snd (client_step 1 demo_decoders (UiSend c) rt)"
  let ?rt = "?send Stop (?send (Start ''b'') (?send (Start ''a'') (runtime_new 1 7 ''http://pi'')))"
  let ?cs = "map (\<lambda>i. demo_call (10 * i) None) [1, 2, 3, 4, 5, 6]"
  have s: "client_reach 1 demo_decoders ''http://pi'' 7 (?send c rt)"
    if "client_reach 1 demo_decoders ''http://pi'' 7 rt" for c rt
    by (rule client_reach.step [OF that, of _ 7]) simp_all
  have r: "client_reach 1 demo_decoders ''http://pi'' 7 ?rt" by (intro s client_reach.boot) simp
  have cmds: "rt_commands ?rt = [Start ''a'', Start ''b'', Stop]"
    by (simp add: runtime_new_def try_send_def COMMAND_CHANNEL_CAPACITY_def)
  have o: "calls_ordered 7 ?cs" by (simp add: demo_call_def)
  from action_sent_soon [OF r, of "Start ''b''" ?cs] action_sent_soon [OF r, of Stop ?cs] cmds o
  show ?thesis by (simp add: Let_def action_path_def)
qed

section \<open>Offline after three failures\<close>

text \<open>A status poll that counts against the server: not a 503, which says only that the oven is missing.\<close>

definition status_failed :: "Decoders \<Rightarrow> Call \<Rightarrow> bool" where
  "status_failed d c =
     (case call_result c of
        None \<Rightarrow> True
      | Some tr \<Rightarrow> (case fetch_status d tr of Inr _ \<Rightarrow> False | Inl e \<Rightarrow> e \<noteq> Http 503))"

text \<open>A run of the task, with the calls that were status polls, newest first.\<close>

definition polled_status :: "string \<Rightarrow> ApiInput \<Rightarrow> HttpRequest list \<Rightarrow> Call list" where
  "polled_status url i rs =
     (case i of Drain c \<Rightarrow> if get_request url ''/api/status'' \<in> set rs then [c] else [] | _ \<Rightarrow> [])"

fun client_run ::
  "nat \<Rightarrow> Decoders \<Rightarrow> ApiInput list \<Rightarrow> ApiRuntime \<Rightarrow> Call list \<Rightarrow> ApiRuntime \<times> Call list" where
  "client_run hz d [] rt cs = (rt, cs)"
| "client_run hz d (i # is) rt cs =
     (let (rs, rt') = client_step hz d i rt
      in client_run hz d is rt' (polled_status (rt_server_url rt) i rs @ cs))"

lemma status_result_fail:
  "sn_fail_count (rt_snapshot (status_result d c rt)) =
     (if status_failed d c then saturating_inc (sn_fail_count (rt_snapshot rt)) else 0) \<and>
   rt_fail_count_crumb (status_result d c rt) = ucast (sn_fail_count (rt_snapshot (status_result d c rt)))"
  by (auto simp: status_result_def status_failed_def record_fast_poll_success_def
      record_fast_poll_failure_def Let_def split: option.splits sum.splits)

lemma other_results_fail [simp]:
  "sn_fail_count (rt_snapshot (cook_result d c rt)) = sn_fail_count (rt_snapshot rt)"
  "sn_fail_count (rt_snapshot (reconcile_current_cook_recipe_title (recipes_result d c rt))) =
     sn_fail_count (rt_snapshot rt)"
  "rt_fail_count_crumb (cook_result d c rt) = rt_fail_count_crumb rt"
  "rt_fail_count_crumb (reconcile_current_cook_recipe_title (recipes_result d c rt)) =
     rt_fail_count_crumb rt"
  by (auto simp: cook_result_def recipes_result_def reconcile_current_cook_recipe_title_def
      split: option.splits sum.splits)

lemma publish_crumb [simp]: "rt_fail_count_crumb (publish_snapshot rt) = rt_fail_count_crumb rt"
  by (simp add: publish_snapshot_def)

definition fail_state :: "ApiRuntime \<Rightarrow> u64 \<times> u32" where
  "fail_state rt = (sn_fail_count (rt_snapshot rt), rt_fail_count_crumb rt)"

lemma handle_event_fail:
  "fail_state (snd (handle_event hz d c ev rt)) =
     (if get_request (rt_server_url rt) ''/api/status'' \<in> set (fst (handle_event hz d c ev rt))
      then (let n = if status_failed d c then saturating_inc (sn_fail_count (rt_snapshot rt)) else 0
            in (n, ucast n))
      else fail_state rt)"
proof (cases "ev_kind ev")
  case PollRecipes
  have "fst (handle_poll_recipes hz d c rt) = [get_request (rt_server_url rt) ''/api/recipes'']"
    using handler_requests(3) [of hz d c rt rt] by simp
  then show ?thesis
    using PollRecipes by (simp add: handle_event_def fail_state_def handle_poll_recipes_def Let_def)
qed (auto simp: handle_event_def fail_state_def handle_poll_status_def handle_poll_current_cook_def
      handle_api_start_def handle_api_stop_def handle_api_next_stage_def Let_def status_result_fail
      split: option.splits)

lemma command_fail [simp]: "fail_state (handle_command hz now c rt) = fail_state rt"
  by (cases c) (simp_all add: fail_state_def queue_post_action_refresh_def Let_def)

lemma take_commands_fail [simp]:
  "fail_state (take_commands hz now rt) = fail_state rt"
proof -
  have "fail_state (fold (handle_command hz now) cs rt) = fail_state rt" for cs
    by (induction cs arbitrary: rt) simp_all
  then show ?thesis by (simp add: take_commands_def fail_state_def)
qed

lemma client_step_fail:
  "fail_state (snd (client_step hz d i rt)) =
     (case polled_status (rt_server_url rt) i (fst (client_step hz d i rt)) of
        [] \<Rightarrow> fail_state rt
      | c # _ \<Rightarrow> (let n = if status_failed d c then saturating_inc (sn_fail_count (rt_snapshot rt)) else 0
                 in (n, ucast n)))"
proof (cases i)
  case (Drain c)
  let ?rt = "take_commands hz (now_before c) rt"
  obtain r q where pop: "pop_due (event_queue ?rt) (now_before c) = (r, q)" by fastforce
  have same: "sn_fail_count (rt_snapshot ?rt) = sn_fail_count (rt_snapshot rt)"
    "fail_state (?rt\<lparr>event_queue := q\<rparr>) = fail_state rt"
    using take_commands_fail [of hz "now_before c" rt] by (simp_all add: fail_state_def)
  show ?thesis
  proof (cases r)
    case None
    then show ?thesis using Drain pop same(2)
      by (simp add: polled_status_def drain_round_def Let_def fail_state_def)
  next
    case (Some ev)
    then show ?thesis
      using Drain pop same handle_event_fail [of hz d c ev "?rt\<lparr>event_queue := q\<rparr>"]
      by (auto simp: polled_status_def drain_round_def Let_def)
  qed
next
  case (CommandReceived now)
  have "fail_state (rt\<lparr>rt_commands := cs\<rparr>) = fail_state rt" for cs by (simp add: fail_state_def)
  with CommandReceived show ?thesis by (simp add: polled_status_def split: list.split)
qed (auto simp: polled_status_def try_send_def fail_state_def)

definition trailing_failures :: "Decoders \<Rightarrow> Call list \<Rightarrow> nat" where
  "trailing_failures d cs = length (takeWhile (status_failed d) cs)"

lemma unat_max_u64: "unat (- 1 :: u64) = 2 ^ 64 - 1"
  by code_simp

lemma unat_saturating_inc:
  "unat (saturating_inc n) = min (unat n + 1) (2 ^ 64 - 1)"
proof (cases "n = - 1")
  case True
  then show ?thesis by (simp add: saturating_inc_def unat_max_u64)
next
  case False
  have "unat n \<noteq> 2 ^ 64 - 1"
  proof
    assume "unat n = 2 ^ 64 - 1"
    then have "unat n = unat (- 1 :: u64)" by (simp add: unat_max_u64)
    then have "n = - 1" by (simp only: word_unat_eq_iff)
    with False show False by simp
  qed
  moreover have "unat n < 2 ^ 64" using unsigned_less [of n] by simp
  ultimately have "unat n + 1 < 2 ^ 64" by simp
  then have "unat (n + 1) = unat n + 1" by (simp add: unat_word_ariths)
  with False \<open>unat n + 1 < 2 ^ 64\<close> show ?thesis by (simp add: saturating_inc_def)
qed

definition counts_failures :: "Decoders \<Rightarrow> ApiRuntime \<Rightarrow> Call list \<Rightarrow> bool" where
  "counts_failures d rt cs \<longleftrightarrow>
     unat (sn_fail_count (rt_snapshot rt)) = min (trailing_failures d cs) (2 ^ 64 - 1) \<and>
     rt_fail_count_crumb rt = ucast (sn_fail_count (rt_snapshot rt))"

lemma counts_failures_step:
  assumes "counts_failures d rt cs"
  shows "counts_failures d (snd (client_step hz d i rt))
    (polled_status (rt_server_url rt) i (fst (client_step hz d i rt)) @ cs)"
proof (cases "polled_status (rt_server_url rt) i (fst (client_step hz d i rt))")
  case Nil
  with client_step_fail [of hz d i rt] assms show ?thesis
    by (simp add: counts_failures_def fail_state_def)
next
  case (Cons c tl)
  then have "tl = []" by (auto simp: polled_status_def split: ApiInput.splits if_splits)
  with Cons client_step_fail [of hz d i rt] assms show ?thesis
    by (simp add: counts_failures_def fail_state_def Let_def trailing_failures_def
        unat_saturating_inc min_def)
qed

lemma client_run_counts:
  "counts_failures d rt cs \<Longrightarrow> client_run hz d is rt cs = (rt', cs') \<Longrightarrow> counts_failures d rt' cs'"
proof (induction "is" arbitrary: rt cs)
  case (Cons i "is")
  from Cons.IH [OF counts_failures_step [OF Cons.prems(1), of hz i]] Cons.prems(2) show ?case
    by (simp add: split_beta Let_def)
qed simp

text \<open>
  The screen calls the server offline exactly when the last three status polls all failed: over
  any run, the failure count is the number of failures since the last good poll (a 503 counts as
  good, the server answered), the other polls and the commands never touch it, and the persisted
  copy is its low 32 bits.
\<close>

theorem offline_iff_three_failures:
  assumes "client_run hz d is (runtime_new hz now url) [] = (rt, cs)"
  shows "(is_offline (rt_snapshot rt) \<longleftrightarrow> 3 \<le> length cs \<and> (\<forall>c \<in> set (take 3 cs). status_failed d c)) \<and>
    unat (sn_fail_count (rt_snapshot rt)) = min (trailing_failures d cs) (2 ^ 64 - 1) \<and>
    rt_fail_count_crumb rt = ucast (sn_fail_count (rt_snapshot rt))"
proof -
  have "counts_failures d (runtime_new hz now url) []"
    by (simp add: counts_failures_def trailing_failures_def runtime_new_def snapshot_default_def)
  from client_run_counts [OF this assms] have c: "counts_failures d rt cs" .
  have "3 \<le> length (takeWhile P xs) \<longleftrightarrow> 3 \<le> length xs \<and> (\<forall>x \<in> set (take 3 xs). P x)"
    for P :: "Call \<Rightarrow> bool" and xs
    by (auto simp: numeral_3_eq_3 split: list.splits)
      (cases xs; cases "tl xs"; cases "tl (tl xs)"; auto split: if_splits)+
  moreover have "is_offline (rt_snapshot rt) \<longleftrightarrow> 3 \<le> trailing_failures d cs"
    using c by (simp add: is_offline_def OFFLINE_THRESHOLD_def counts_failures_def word_le_nat_alt)
  ultimately show ?thesis using c by (simp add: counts_failures_def trailing_failures_def)
qed


section \<open>Each command at most once\<close>

definition posts :: "EventKind \<Rightarrow> HttpRequest list \<Rightarrow> nat" where
  "posts a rs = length (filter (\<lambda>r. rq_method r = POST \<and>
     (\<exists>server. rq_url r = server @ action_path a)) rs)"

definition pending_count :: "EventKind \<Rightarrow> ApiRuntime \<Rightarrow> nat" where
  "pending_count a rt = (if qc rt a = None then 0 else 1)"

definition channel_count :: "EventKind \<Rightarrow> ApiRuntime \<Rightarrow> nat" where
  "channel_count a rt = length (filter (\<lambda>c. command_kind c = a) (rt_commands rt))"

definition commanded :: "EventKind \<Rightarrow> ApiInput list \<Rightarrow> nat" where
  "commanded a is = length (filter (\<lambda>i. case i of UiSend c \<Rightarrow> command_kind c = a | _ \<Rightarrow> False) is)"

fun client_log ::
  "nat \<Rightarrow> Decoders \<Rightarrow> ApiInput list \<Rightarrow> ApiRuntime \<Rightarrow> HttpRequest list \<times> ApiRuntime" where
  "client_log hz d [] rt = ([], rt)"
| "client_log hz d (i # is) rt =
     (let (rs, rt') = client_step hz d i rt; (rs', rt'') = client_log hz d is rt' in (rs @ rs', rt''))"

lemma last_distinct:
  "last xs \<noteq> last ys \<Longrightarrow> xs \<noteq> [] \<Longrightarrow> ys \<noteq> [] \<Longrightarrow> s @ xs \<noteq> s' @ ys"
  by (metis last_appendR)

lemma path_distinct:
  "s @ ''/api/start'' \<noteq> s' @ ''/api/stop''" "s @ ''/api/start'' \<noteq> s' @ ''/api/next-stage''"
  "s @ ''/api/stop'' \<noteq> s' @ ''/api/next-stage''"
  by (rule last_distinct; simp)+

lemma posts_simps [simp]:
  "posts a [] = 0" "posts a (rs @ rs') = posts a rs + posts a rs'"
  "posts a [get_request s p] = 0"
  "a \<notin> polls \<Longrightarrow> posts a [post_request s ''/api/start'' b] = (if a = ApiStart then 1 else 0)"
  "a \<notin> polls \<Longrightarrow> posts a [post_request s ''/api/stop'' b] = (if a = ApiStop then 1 else 0)"
  "a \<notin> polls \<Longrightarrow> posts a [post_request s ''/api/next-stage'' b] = (if a = ApiNextStage then 1 else 0)"
  by (cases a; auto simp: posts_def get_request_def post_request_def action_path_def polls_def
      path_distinct path_distinct [symmetric])+

lemma posts_handle_event:
  "a \<notin> polls \<Longrightarrow> posts a (fst (handle_event hz d c ev rt)) \<le> (if ev_kind ev = a then 1 else 0)"
  by (cases "ev_kind ev") (auto simp: handle_event_def handle_poll_status_def handle_api_start_def
      handle_poll_current_cook_def handle_poll_recipes_def handle_api_stop_def
      handle_api_next_stage_def Let_def polls_def split: option.splits)

lemma refresh_frame:
  assumes "queue_inv (event_queue rt)"
  shows "queue_inv (event_queue (queue_post_action_refresh hz now rt))"
    and "a \<notin> polls \<Longrightarrow> qc (queue_post_action_refresh hz now rt) a = qc rt a"
    and "rt_commands (queue_post_action_refresh hz now rt) = rt_commands rt"
    and "pending_start_recipe_id (queue_post_action_refresh hz now rt) = pending_start_recipe_id rt"
  using assms by (auto simp: queue_post_action_refresh_def Let_def polls_def)

lemma handle_command_frame:
  assumes "queue_inv (event_queue rt)"
  shows "queue_inv (event_queue (handle_command hz now c rt))"
    and "a \<notin> polls \<Longrightarrow> pending_count a (handle_command hz now c rt) \<le>
      pending_count a rt + (if command_kind c = a then 1 else 0)"
    and "rt_commands (handle_command hz now c rt) = rt_commands rt"
    and "pending_start_recipe_id (handle_command hz now c rt) =
      (case c of Start rid \<Rightarrow> Some rid | _ \<Rightarrow> pending_start_recipe_id rt)"
  using assms by (cases c; auto simp: refresh_frame pending_count_def)+

lemma fold_commands_frame:
  assumes "queue_inv (event_queue rt)"
  shows "queue_inv (event_queue (fold (handle_command hz now) cs rt)) \<and>
    (a \<notin> polls \<longrightarrow> pending_count a (fold (handle_command hz now) cs rt) \<le>
      pending_count a rt + length (filter (\<lambda>c. command_kind c = a) cs))"
  using assms
proof (induction cs arbitrary: rt)
  case (Cons c cs)
  note f = handle_command_frame [OF Cons.prems, where hz = hz and now = now and c = c]
  from Cons.IH [OF f(1)] f(2) [where a = a] show ?case by (auto split: if_splits)
qed simp

lemma take_commands_frame:
  assumes "queue_inv (event_queue rt)"
  shows "queue_inv (event_queue (take_commands hz now rt))"
    and "a \<notin> polls \<Longrightarrow> pending_count a (take_commands hz now rt) \<le> pending_count a rt + channel_count a rt"
  using fold_commands_frame [OF assms, of hz now "rt_commands rt" a]
  by (simp_all add: take_commands_def channel_count_def pending_count_def)

lemma drain_round_posts:
  assumes "queue_inv (event_queue rt)" "a \<notin> polls"
  shows "queue_inv (event_queue (snd (drain_round hz d c rt)))"
    and "posts a (fst (drain_round hz d c rt)) + pending_count a (snd (drain_round hz d c rt)) +
      channel_count a (snd (drain_round hz d c rt)) \<le> pending_count a rt + channel_count a rt"
proof -
  let ?rt = "take_commands hz (now_before c) rt"
  note t = take_commands_frame [OF assms(1), where hz = hz and now = "now_before c"]
  have ch: "channel_count a ?rt = 0" by (simp add: channel_count_def)
  obtain r q where pop: "pop_due (event_queue ?rt) (now_before c) = (r, q)" by fastforce
  have q: "queue_inv q" using vq.pop_inv [OF t(1), of "now_before c"] pop by simp
  let ?rq = "?rt\<lparr>event_queue := q\<rparr>"
  have "queue_inv (event_queue (snd (drain_round hz d c rt))) \<and>
    posts a (fst (drain_round hz d c rt)) + pending_count a (snd (drain_round hz d c rt)) +
      channel_count a (snd (drain_round hz d c rt)) \<le> pending_count a ?rt"
  proof (cases r)
    case None
    with vq.pop_None [OF t(1), of "now_before c"] pop have "q = event_queue ?rt" by simp
    then show ?thesis using t(1) pop None ch
      by (simp add: drain_round_def Let_def pending_count_def channel_count_def)
  next
    case (Some ev)
    have step: "drain_round hz d c rt = handle_event hz d c ev ?rq"
      by (simp add: drain_round_def Let_def pop Some)
    have qa: "queue_contents q = (qc ?rt)(ev_kind ev := None)" "qc ?rt (ev_kind ev) \<noteq> None"
      using vq.pop_Some [OF t(1), of "now_before c" ev] pop Some by auto
    have "queue_inv (event_queue ?rq)" using q by simp
    note f = handle_event_frame [OF this, where hz = hz and d = d and c = c and ev = ev]
    have "pending_count a (snd (handle_event hz d c ev ?rq)) = pending_count a ?rq"
      using f(2) [OF assms(2)] by (simp add: pending_count_def)
    moreover have "channel_count a (snd (handle_event hz d c ev ?rq)) = 0"
      using f(3) by (simp add: channel_count_def)
    moreover have "pending_count a ?rq + (if ev_kind ev = a then 1 else 0) \<le> pending_count a ?rt"
      using qa by (auto simp: pending_count_def)
    ultimately show ?thesis
      using f(1) posts_handle_event [OF assms(2), of hz d c ev ?rq] by (simp add: step)
  qed
  then show "queue_inv (event_queue (snd (drain_round hz d c rt)))"
    and "posts a (fst (drain_round hz d c rt)) + pending_count a (snd (drain_round hz d c rt)) +
      channel_count a (snd (drain_round hz d c rt)) \<le> pending_count a rt + channel_count a rt"
    using t(2) [OF assms(2)] by auto
qed

lemma client_step_posts:
  assumes "queue_inv (event_queue rt)" "a \<notin> polls"
  shows "queue_inv (event_queue (snd (client_step hz d i rt)))"
    and "posts a (fst (client_step hz d i rt)) + pending_count a (snd (client_step hz d i rt)) +
      channel_count a (snd (client_step hz d i rt)) \<le>
      pending_count a rt + channel_count a rt + commanded a [i]"
proof -
  have "queue_inv (event_queue (snd (client_step hz d i rt))) \<and>
    posts a (fst (client_step hz d i rt)) + pending_count a (snd (client_step hz d i rt)) +
      channel_count a (snd (client_step hz d i rt)) \<le>
      pending_count a rt + channel_count a rt + commanded a [i]"
  proof (cases i)
    case (Drain c)
    then show ?thesis using assms drain_round_posts [OF assms, of hz d c] by (auto simp: commanded_def)
  next
    case (CommandReceived now)
    have "queue_inv (event_queue (rt\<lparr>rt_commands := cs\<rparr>))" for cs using assms(1) by simp
    note f = handle_command_frame [OF this, where hz = hz and now = now]
    have "pending_count a (rt\<lparr>rt_commands := cs\<rparr>) = pending_count a rt" for cs
      by (simp add: pending_count_def)
    then have p: "pending_count a (handle_command hz now c (rt\<lparr>rt_commands := cs\<rparr>)) \<le>
        pending_count a rt + (if command_kind c = a then 1 else 0)" for c cs
      using handle_command_frame(2) [OF _ assms(2), of "rt\<lparr>rt_commands := cs\<rparr>" hz now c] assms(1)
      by simp
    show ?thesis
    proof (cases "rt_commands rt")
      case Nil
      with CommandReceived assms show ?thesis by (simp add: commanded_def)
    next
      case (Cons c cs)
      with CommandReceived assms f(1,3) p [of c cs] show ?thesis
        by (auto simp: commanded_def channel_count_def)
    qed
  qed (use assms in \<open>auto simp: try_send_def commanded_def pending_count_def channel_count_def\<close>)
  then show "queue_inv (event_queue (snd (client_step hz d i rt)))"
    "posts a (fst (client_step hz d i rt)) + pending_count a (snd (client_step hz d i rt)) +
      channel_count a (snd (client_step hz d i rt)) \<le>
      pending_count a rt + channel_count a rt + commanded a [i]" by auto
qed

lemma client_log_posts:
  assumes "queue_inv (event_queue rt)" "a \<notin> polls"
  shows "posts a (fst (client_log hz d is rt)) \<le>
    pending_count a rt + channel_count a rt + commanded a is"
  using assms(1)
proof (induction "is" arbitrary: rt)
  case Nil
  then show ?case by simp
next
  case (Cons i "is")
  note s = client_step_posts [OF Cons.prems assms(2), of hz d i]
  have "commanded a (i # is) = commanded a [i] + commanded a is" by (simp add: commanded_def)
  with s(2) Cons.IH [OF s(1)] show ?case by (simp add: split_beta Let_def)
qed

text \<open>
  No command is ever duplicated or invented: over any run from boot, the client sends at most as
  many start, stop and next-stage POSTs as the screen asked for, whatever times out or fails.
\<close>

theorem commands_at_most_once:
  assumes "a \<in> {ApiStart, ApiStop, ApiNextStage}"
  shows "posts a (fst (client_log hz d is (runtime_new hz now url))) \<le> commanded a is"
proof -
  have a: "a \<notin> polls" using assms by (auto simp: polls_def)
  have i: "queue_inv (event_queue (runtime_new hz now url))"
    and "pending_count a (runtime_new hz now url) = 0" "channel_count a (runtime_new hz now url) = 0"
    using assms by (auto simp: runtime_new_def vq.empty_inv vq.empty_contents pending_count_def
        channel_count_def)
  with client_log_posts [OF i a, of hz d "is"] show ?thesis by simp
qed

end
