(* ===== verification/Ui.thy ===== *)
theory Ui
  imports Fsm
begin

text \<open>
  The handlers of the user-facing state machine (\<open>crates/anova-oven-pico/src/state.rs\<close>), run by
  the main task. A handler is a loop: at its head it reads the API snapshot, may leave for another
  state and otherwise renders; then it waits on a \<open>select\<close> of the knob, the API notification and,
  in some states, a timer; and each arm leaves for another state or goes round again.

  The executor is cooperative and only \<open>select(...).await\<close> suspends, so a handler is modelled by
  where it is parked: \<open>Parked\<close> holds the locals of the loop at its \<open>select\<close>. \<open>ui_step\<close> is what runs
  between two suspensions: the arm of the event, then the heads of whatever states are entered,
  until one parks again. One \<open>Instant\<close> and one snapshot serve all the code of a step.
\<close>

section \<open>Events, effects and parked handlers\<close>

datatype InputEvent = EncoderCW | EncoderCCW | EncoderButton

datatype UiEvent = Input InputEvent | ApiChanged | TimerFired

datatype UiEffect =
  RecordState u32                 \<comment> \<open>\<open>persist::record_app_state\<close>\<close>
| BacklightApply BacklightPolicy  \<comment> \<open>\<open>ctx.backlight.apply\<close>\<close>
| BacklightFull                   \<comment> \<open>\<open>ctx.backlight.set_full\<close>\<close>
| BacklightDim                    \<comment> \<open>\<open>ctx.backlight.set_dim\<close>\<close>
| DisplayBacklight BacklightPolicy
| Render ViewSpec
| SendStart string                \<comment> \<open>\<open>ctx.api.start(recipe_id)\<close>\<close>
| SendStop
| SendNextStage

datatype Parked =
  POffline
| PUpstreamStale
| PIdle ApiSnapshot ticks bool    \<comment> \<open>\<open>snap\<close>, \<open>dim_at\<close>, \<open>dimmed\<close>\<close>
| PCooking "string option"
| PAwaitNextStage
| PBrowse ApiSnapshot nat ticks   \<comment> \<open>\<open>snap\<close>, \<open>index\<close>, \<open>deadline\<close>\<close>
| PStartPending string ticks      \<comment> \<open>\<open>recipe_title\<close>, \<open>deadline\<close>\<close>
| PConfirmStop ticks              \<comment> \<open>\<open>deadline\<close>\<close>
| PStopPending ticks              \<comment> \<open>\<open>deadline\<close>\<close>
| PPanicked                       \<comment> \<open>an index out of range\<close>

text \<open>Where the code of a handler goes: it parks, or returns the next state.\<close>

datatype Outcome = Park Parked | Return AppState

definition MENU_INACTIVITY_TIMEOUT_SECS :: nat where "MENU_INACTIVITY_TIMEOUT_SECS = 15"
definition STOP_CONFIRM_TIMEOUT_SECS :: nat where "STOP_CONFIRM_TIMEOUT_SECS = 5"
definition START_STOP_CONFIRM_TIMEOUT_SECS :: nat where "START_STOP_CONFIRM_TIMEOUT_SECS = 10"

section \<open>Loop heads\<close>

text \<open>
  Each is the code from the top of a handler's loop to its \<open>select\<close>; the locals are arguments.
\<close>

definition stale_head :: "nat \<Rightarrow> ticks \<Rightarrow> ApiSnapshot \<Rightarrow> UiEffect list \<times> Outcome" where
  "stale_head hz now snap =
     (if is_offline snap then ([], Return Offline)
      else case upstream_stale hz snap now of
        None \<Rightarrow> ([], Return (baseline_state_for snap))
      | Some (cause, secs) \<Rightarrow> ([Render (StaleView cause secs)], Park PUpstreamStale))"

definition idle_head ::
  "nat \<Rightarrow> ticks \<Rightarrow> ApiSnapshot \<Rightarrow> ticks \<Rightarrow> bool \<Rightarrow> UiEffect list \<times> Outcome" where
  "idle_head hz now snap dim_at dimmed =
     (if is_offline snap then ([], Return Offline)
      else if upstream_stale hz snap now \<noteq> None then ([], Return UpstreamStale)
      else if snap_is_cooking snap then ([], Return (Cooking None))
      else ([Render (idle_view snap)], Park (PIdle snap dim_at dimmed)))"

definition cooking_head ::
  "nat \<Rightarrow> ticks \<Rightarrow> ApiSnapshot \<Rightarrow> string option \<Rightarrow> UiEffect list \<times> Outcome" where
  "cooking_head hz now snap optimistic_recipe_title =
     (if is_offline snap then ([], Return Offline)
      else if upstream_stale hz snap now \<noteq> None then ([], Return UpstreamStale)
      else if \<not> snap_is_cooking snap then ([], Return AppIdle)
      else case next_stage_prompt snap of
        Some description \<Rightarrow> ([], Return (AwaitNextStage description))
      | None \<Rightarrow>
          (let title = (if sn_current_cook snap \<noteq> None then None else optimistic_recipe_title)
           in ([Render (cooking_view snap title)], Park (PCooking title))))"

definition await_head :: "nat \<Rightarrow> ticks \<Rightarrow> ApiSnapshot \<Rightarrow> UiEffect list \<times> Outcome" where
  "await_head hz now snap =
     (if is_offline snap then ([], Return Offline)
      else if upstream_stale hz snap now \<noteq> None then ([], Return UpstreamStale)
      else if \<not> snap_is_cooking snap then ([], Return AppIdle)
      else if next_stage_prompt snap = None then ([], Return (Cooking None))
      else ([Render (NextStagePrompt (active_recipe_title snap))], Park PAwaitNextStage))"

definition browse_head :: "ApiSnapshot \<Rightarrow> nat \<Rightarrow> ticks \<Rightarrow> UiEffect list \<times> Outcome" where
  "browse_head snap index deadline =
     (if is_offline snap then ([], Return Offline)
      else if snap_is_cooking snap then ([], Return (Cooking None))
      else if sn_recipes snap = [] then ([], Return AppIdle)
      else
        (let index = min index (length (sn_recipes snap) - 1)
         in case recipe_browser_view (sn_recipes snap) index of
              None \<Rightarrow> ([], Park PPanicked)
            | Some view \<Rightarrow> ([Render view], Park (PBrowse snap index deadline))))"

definition confirm_stop_head :: "ApiSnapshot \<Rightarrow> ticks \<Rightarrow> UiEffect list \<times> Outcome" where
  "confirm_stop_head snap deadline =
     (if is_offline snap then ([], Return Offline)
      else if \<not> snap_is_cooking snap then ([], Return AppIdle)
      else ([Render (StopConfirmation (sn_status snap) (sn_current_cook snap))],
            Park (PConfirmStop deadline)))"

section \<open>Entering a state\<close>

text \<open>\<open>execute\<close> up to the first \<open>select\<close> of the handler it dispatches to.\<close>

fun execute_handler ::
  "nat \<Rightarrow> ticks \<Rightarrow> ApiSnapshot \<Rightarrow> AppState \<Rightarrow> UiEffect list \<times> Outcome" where
  "execute_handler hz now snap Offline = ([Render ServerOffline], Park POffline)"
| "execute_handler hz now snap UpstreamStale = stale_head hz now snap"
| "execute_handler hz now snap AppIdle =
     idle_head hz now snap (now + idle_dim_delay AppIdle * hz) False"
| "execute_handler hz now snap (Cooking title) = cooking_head hz now snap title"
| "execute_handler hz now snap (BrowseRecipes index) =
     browse_head snap index (now + MENU_INACTIVITY_TIMEOUT_SECS * hz)"
| "execute_handler hz now snap (StartPending title recipe_id since) =
     ([SendStart recipe_id, Render (StartingCook title)],
      Park (PStartPending title (since + START_STOP_CONFIRM_TIMEOUT_SECS * hz)))"
| "execute_handler hz now snap ConfirmStop =
     confirm_stop_head snap (now + STOP_CONFIRM_TIMEOUT_SECS * hz)"
| "execute_handler hz now snap (StopPending since) =
     ([SendStop, Render (optimistic_idle_view snap)],
      Park (PStopPending (since + START_STOP_CONFIRM_TIMEOUT_SECS * hz)))"
| "execute_handler hz now snap (AwaitNextStage description) = await_head hz now snap"

definition execute :: "nat \<Rightarrow> ticks \<Rightarrow> ApiSnapshot \<Rightarrow> AppState \<Rightarrow> UiEffect list \<times> Outcome" where
  "execute hz now snap st =
     (let (effs, out) = execute_handler hz now snap st
      in (RecordState (discriminant st) # BacklightApply (backlight_policy st) #
          DisplayBacklight (backlight_policy st) # effs, out))"

section \<open>The select arms\<close>

text \<open>
  \<open>arm_X ... e\<close> is the arm of event \<open>e\<close> and, where the loop goes round, the head after it. \<open>snap\<close>
  is the snapshot of the last head, \<open>snap'\<close> the one the code reads after the event. An event a
  \<open>select\<close> does not wait for (a timer where there is none) leaves the handler parked.
\<close>

definition arm_offline :: "UiEvent \<Rightarrow> ApiSnapshot \<Rightarrow> UiEffect list \<times> Outcome" where
  "arm_offline e snap' =
     (case e of
        ApiChanged \<Rightarrow>
          if \<not> is_offline snap' then ([], Return (baseline_state_for snap'))
          else ([], Park POffline)
      | _ \<Rightarrow> ([], Park POffline))"

definition arm_stale :: "nat \<Rightarrow> ticks \<Rightarrow> UiEvent \<Rightarrow> ApiSnapshot \<Rightarrow> UiEffect list \<times> Outcome" where
  "arm_stale hz now e snap' =
     (case e of TimerFired \<Rightarrow> ([], Park PUpstreamStale) | _ \<Rightarrow> stale_head hz now snap')"

definition full_backlight :: "UiEffect list" where
  "full_backlight = [BacklightFull, DisplayBacklight Full]"

definition arm_idle ::
  "nat \<Rightarrow> ticks \<Rightarrow> ApiSnapshot \<Rightarrow> ticks \<Rightarrow> bool \<Rightarrow> UiEvent \<Rightarrow> ApiSnapshot \<Rightarrow> UiEffect list \<times> Outcome"
  where
  "arm_idle hz now snap dim_at dimmed e snap' =
     (case e of
        Input ev \<Rightarrow>
          if ev = EncoderCW \<and> sn_recipes snap \<noteq> [] then (full_backlight, Return (BrowseRecipes 0))
          else
            (let (effs, out) = idle_head hz now snap' (now + idle_dim_delay AppIdle * hz) False
             in (full_backlight @ effs, out))
      | ApiChanged \<Rightarrow> idle_head hz now snap' dim_at dimmed
      | TimerFired \<Rightarrow>
          if dimmed then ([], Park (PIdle snap dim_at dimmed))
          else
            (let (effs, out) = idle_head hz now snap' dim_at True
             in ([BacklightDim, DisplayBacklight Dim] @ effs, out)))"

definition arm_cooking ::
  "nat \<Rightarrow> ticks \<Rightarrow> string option \<Rightarrow> UiEvent \<Rightarrow> ApiSnapshot \<Rightarrow> UiEffect list \<times> Outcome" where
  "arm_cooking hz now title e snap' =
     (case e of
        Input ev \<Rightarrow>
          if ev = EncoderCCW then ([], Return ConfirmStop) else cooking_head hz now snap' title
      | ApiChanged \<Rightarrow> cooking_head hz now snap' title
      | TimerFired \<Rightarrow> ([], Park (PCooking title)))"

definition arm_await :: "nat \<Rightarrow> ticks \<Rightarrow> UiEvent \<Rightarrow> ApiSnapshot \<Rightarrow> UiEffect list \<times> Outcome" where
  "arm_await hz now e snap' =
     (case e of
        Input EncoderCCW \<Rightarrow> ([], Return ConfirmStop)
      | Input EncoderButton \<Rightarrow>
          (let (effs, out) = await_head hz now snap' in (SendNextStage # effs, out))
      | Input EncoderCW \<Rightarrow> await_head hz now snap'
      | ApiChanged \<Rightarrow> await_head hz now snap'
      | TimerFired \<Rightarrow> ([], Park PAwaitNextStage))"

definition arm_browse ::
  "nat \<Rightarrow> ticks \<Rightarrow> ApiSnapshot \<Rightarrow> nat \<Rightarrow> ticks \<Rightarrow> UiEvent \<Rightarrow> ApiSnapshot \<Rightarrow> UiEffect list \<times> Outcome"
  where
  "arm_browse hz now snap index deadline e snap' =
     (case e of
        Input EncoderCW \<Rightarrow>
          browse_head snap' (min (index + 1) (length (sn_recipes snap) - 1))
            (now + MENU_INACTIVITY_TIMEOUT_SECS * hz)
      | Input EncoderCCW \<Rightarrow>
          if index = 0 then ([], Return AppIdle)
          else browse_head snap' (index - 1) (now + MENU_INACTIVITY_TIMEOUT_SECS * hz)
      | Input EncoderButton \<Rightarrow>
          (case get_nth (sn_recipes snap) index of
             Some recipe \<Rightarrow> ([], Return (StartPending (rc_title recipe) (rc_id recipe) now))
           | None \<Rightarrow> browse_head snap' index deadline)
      | ApiChanged \<Rightarrow> browse_head snap' index deadline
      | TimerFired \<Rightarrow> ([], Return AppIdle))"

definition arm_start_pending ::
  "string \<Rightarrow> ticks \<Rightarrow> UiEvent \<Rightarrow> ApiSnapshot \<Rightarrow> UiEffect list \<times> Outcome" where
  "arm_start_pending title deadline e snap' =
     (case e of
        Input _ \<Rightarrow> ([], Park (PStartPending title deadline))
      | ApiChanged \<Rightarrow>
          if is_offline snap' then ([], Return Offline)
          else if snap_is_cooking snap' then ([], Return (Cooking (Some title)))
          else ([], Park (PStartPending title deadline))
      | TimerFired \<Rightarrow> ([], Return AppIdle))"

definition arm_confirm_stop ::
  "nat \<Rightarrow> ticks \<Rightarrow> ticks \<Rightarrow> UiEvent \<Rightarrow> ApiSnapshot \<Rightarrow> UiEffect list \<times> Outcome" where
  "arm_confirm_stop hz now deadline e snap' =
     (case e of
        Input EncoderButton \<Rightarrow> ([], Return (StopPending now))
      | Input EncoderCW \<Rightarrow> ([], Return (Cooking None))
      | Input EncoderCCW \<Rightarrow> confirm_stop_head snap' (now + STOP_CONFIRM_TIMEOUT_SECS * hz)
      | ApiChanged \<Rightarrow> confirm_stop_head snap' deadline
      | TimerFired \<Rightarrow> ([], Return (Cooking None)))"

definition arm_stop_pending :: "ticks \<Rightarrow> UiEvent \<Rightarrow> ApiSnapshot \<Rightarrow> UiEffect list \<times> Outcome" where
  "arm_stop_pending deadline e snap' =
     (case e of
        Input _ \<Rightarrow> ([], Park (PStopPending deadline))
      | ApiChanged \<Rightarrow>
          if is_offline snap' then ([], Return Offline)
          else if \<not> snap_is_cooking snap' then ([], Return AppIdle)
          else ([], Park (PStopPending deadline))
      | TimerFired \<Rightarrow> ([], Return (Cooking None)))"

fun wake ::
  "nat \<Rightarrow> ticks \<Rightarrow> Parked \<Rightarrow> UiEvent \<Rightarrow> ApiSnapshot \<Rightarrow> UiEffect list \<times> Outcome" where
  "wake hz now POffline e snap' = arm_offline e snap'"
| "wake hz now PUpstreamStale e snap' = arm_stale hz now e snap'"
| "wake hz now (PIdle snap dim_at dimmed) e snap' = arm_idle hz now snap dim_at dimmed e snap'"
| "wake hz now (PCooking title) e snap' = arm_cooking hz now title e snap'"
| "wake hz now PAwaitNextStage e snap' = arm_await hz now e snap'"
| "wake hz now (PBrowse snap index deadline) e snap' =
     arm_browse hz now snap index deadline e snap'"
| "wake hz now (PStartPending title deadline) e snap' = arm_start_pending title deadline e snap'"
| "wake hz now (PConfirmStop deadline) e snap' = arm_confirm_stop hz now deadline e snap'"
| "wake hz now (PStopPending deadline) e snap' = arm_stop_pending deadline e snap'"
| "wake hz now PPanicked e snap' = ([], Park PPanicked)"


section \<open>The main loop\<close>

text \<open>
  How many more states are entered before a handler parks, for one snapshot and one instant. The
  server's state decides; the order of the tests in the heads is what makes the chain end.
\<close>

definition hops :: "nat \<Rightarrow> ticks \<Rightarrow> ApiSnapshot \<Rightarrow> AppState \<Rightarrow> nat" where
  "hops hz now snap st =
     (let stale = upstream_stale hz snap now \<noteq> None;
          cooking = snap_is_cooking snap;
          prompt = next_stage_prompt snap \<noteq> None
      in case st of
           Offline \<Rightarrow> 0
         | StartPending _ _ _ \<Rightarrow> 0
         | StopPending _ \<Rightarrow> 0
         | UpstreamStale \<Rightarrow> if is_offline snap then 1 else if stale then 0
             else if cooking \<and> prompt then 2 else 1
         | AppIdle \<Rightarrow> if is_offline snap then 1 else if stale then 1
             else if \<not> cooking then 0 else if prompt then 2 else 1
         | Cooking _ \<Rightarrow> if is_offline snap then 1 else if stale then 1
             else if \<not> cooking then 1 else if prompt then 1 else 0
         | AwaitNextStage _ \<Rightarrow> if is_offline snap then 1 else if stale then 1
             else if \<not> cooking then 1 else if prompt then 0 else 1
         | BrowseRecipes _ \<Rightarrow> if is_offline snap then 1 else if stale then 2
             else if cooking then 2 else if sn_recipes snap = [] then 1 else 0
         | ConfirmStop \<Rightarrow> if is_offline snap then 1 else if cooking then 0
             else if stale then 2 else 1)"

lemmas head_defs = execute_def stale_head_def idle_head_def cooking_head_def await_head_def
  browse_head_def confirm_stop_head_def

lemma execute_hops:
  "execute hz now snap st = (effs, Return st') \<Longrightarrow> hops hz now snap st' < hops hz now snap st"
  by (cases st) (auto simp: head_defs hops_def baseline_state_for_def Let_def
      split: if_splits option.splits)

function settle :: "nat \<Rightarrow> ticks \<Rightarrow> ApiSnapshot \<Rightarrow> AppState \<Rightarrow> UiEffect list \<times> Parked" where
  "settle hz now snap st =
     (case execute hz now snap st of
        (effs, Park h) \<Rightarrow> (effs, h)
      | (effs, Return st') \<Rightarrow>
          (let (effs', h) = settle hz now snap st' in (effs @ effs', h)))"
  by pat_completeness auto
termination
  by (relation "measure (\<lambda>(hz, now, snap, st). hops hz now snap st)") (auto dest: sym execute_hops)

declare settle.simps [simp del]

text \<open>One wake-up of the main task.\<close>

definition ui_step ::
  "nat \<Rightarrow> ticks \<Rightarrow> Parked \<Rightarrow> UiEvent \<Rightarrow> ApiSnapshot \<Rightarrow> UiEffect list \<times> Parked" where
  "ui_step hz now h e snap' =
     (case wake hz now h e snap' of
        (effs, Park h') \<Rightarrow> (effs, h')
      | (effs, Return st) \<Rightarrow> (let (effs', h') = settle hz now snap' st in (effs @ effs', h')))"

text \<open>
  What the effects leave behind: the view on the display, whether the backlight is at its full
  level, and the breadcrumb in the persisted region.
\<close>

record UiState =
  ui_parked :: Parked
  ui_shown :: ViewSpec
  ui_lit :: bool
  ui_crumb :: u32

fun apply_effect :: "UiEffect \<Rightarrow> UiState \<Rightarrow> UiState" where
  "apply_effect (RecordState d) s = s\<lparr>ui_crumb := d\<rparr>"
| "apply_effect (BacklightApply p) s = s\<lparr>ui_lit := (p \<noteq> Dim)\<rparr>"
| "apply_effect BacklightFull s = s\<lparr>ui_lit := True\<rparr>"
| "apply_effect BacklightDim s = s\<lparr>ui_lit := False\<rparr>"
| "apply_effect (Render v) s = s\<lparr>ui_shown := v\<rparr>"
| "apply_effect _ s = s"

definition apply_effects :: "UiEffect list \<Rightarrow> UiState \<Rightarrow> UiState" where
  "apply_effects effs s = fold apply_effect effs s"

definition land :: "UiState \<Rightarrow> UiEffect list \<times> Parked \<Rightarrow> UiState" where
  "land s = (\<lambda>(effs, h). (apply_effects effs s)\<lparr>ui_parked := h\<rparr>)"

text \<open>
  The start of the main loop: \<open>AppState::default()\<close>, after the bring-up that showed \<open>DhcpInit\<close> and
  left its breadcrumb.
\<close>

definition ui_boot :: "nat \<Rightarrow> ticks \<Rightarrow> ApiSnapshot \<Rightarrow> UiState" where
  "ui_boot hz now snap =
     land \<lparr>ui_parked = POffline, ui_shown = DhcpInit, ui_lit = True, ui_crumb = INIT_STAGE_DHCP\<rparr>
       (settle hz now snap AppIdle)"

inductive ui_reachable :: "nat \<Rightarrow> UiState \<Rightarrow> bool" for hz where
  boot: "ui_reachable hz (ui_boot hz now snap)"
| step: "ui_reachable hz s \<Longrightarrow>
    ui_reachable hz (land s (ui_step hz now (ui_parked s) e snap))"

section \<open>Which screen a wake-up ends on\<close>

text \<open>The screen of a parked handler, as a number of \<open>AppState::discriminant\<close>.\<close>

fun parked_screen :: "Parked \<Rightarrow> u32" where
  "parked_screen POffline = discriminant Offline"
| "parked_screen PUpstreamStale = discriminant UpstreamStale"
| "parked_screen (PIdle _ _ _) = discriminant AppIdle"
| "parked_screen (PCooking t) = discriminant (Cooking t)"
| "parked_screen PAwaitNextStage = discriminant (AwaitNextStage [])"
| "parked_screen (PBrowse _ _ _) = discriminant (BrowseRecipes 0)"
| "parked_screen (PStartPending _ _) = discriminant (StartPending [] [] 0)"
| "parked_screen (PConfirmStop _) = discriminant ConfirmStop"
| "parked_screen (PStopPending _) = discriminant (StopPending 0)"
| "parked_screen PPanicked = 0"

text \<open>What the server's state calls for.\<close>

definition screen_for :: "nat \<Rightarrow> ticks \<Rightarrow> ApiSnapshot \<Rightarrow> AppState" where
  "screen_for hz now snap =
     (if is_offline snap then Offline
      else if upstream_stale hz snap now \<noteq> None then UpstreamStale
      else if \<not> snap_is_cooking snap then AppIdle
      else if next_stage_prompt snap \<noteq> None then AwaitNextStage []
      else Cooking None)"


lemma idle_dim_delay_AppIdle [simp]: "idle_dim_delay AppIdle = 5"
  by (simp add: idle_dim_delay_def)

lemma settle_Park:
  "execute hz now snap st = (effs, Park h) \<Longrightarrow> settle hz now snap st = (effs, h)"
  by (subst settle.simps) simp

lemma settle_Return:
  "execute hz now snap st = (effs, Return st') \<Longrightarrow>
   settle hz now snap st =
     (effs @ fst (settle hz now snap st'), snd (settle hz now snap st'))"
  by (subst settle.simps) (simp add: split_beta)

text \<open>\<open>settle\<close> by the chain it follows: a property of what parks that every hop keeps.\<close>

lemma settle_induct [case_names Park Return]:
  assumes "\<And>st effs h. execute hz now snap st = (effs, Park h) \<Longrightarrow> P st (effs, h)"
    and "\<And>st effs st' effs' h. execute hz now snap st = (effs, Return st') \<Longrightarrow>
      settle hz now snap st' = (effs', h) \<Longrightarrow> P st' (effs', h) \<Longrightarrow> P st (effs @ effs', h)"
  shows "P st (settle hz now snap st)"
proof (induction "hops hz now snap st" arbitrary: st rule: less_induct)
  case less
  obtain effs out where ex: "execute hz now snap st = (effs, out)" by fastforce
  show ?case
  proof (cases out)
    case (Park h)
    then show ?thesis using ex assms(1) settle_Park by metis
  next
    case (Return st')
    obtain effs' h where s: "settle hz now snap st' = (effs', h)" by fastforce
    have "P st' (effs', h)" using less execute_hops ex Return s by metis
    with assms(2) ex Return s show ?thesis using settle_Return by fastforce
  qed
qed

definition follows_server :: "AppState \<Rightarrow> bool" where
  "follows_server st = (case st of
     UpstreamStale \<Rightarrow> True | AppIdle \<Rightarrow> True | Cooking _ \<Rightarrow> True | AwaitNextStage _ \<Rightarrow> True
   | _ \<Rightarrow> False)"

lemma settle_screen:
  "follows_server st \<or> st = Offline \<and> is_offline snap \<Longrightarrow>
   parked_screen (snd (settle hz now snap st)) = discriminant (screen_for hz now snap)"
proof (rule settle_induct [of hz now snap "\<lambda>st r. follows_server st \<or> st = Offline \<and> is_offline snap \<longrightarrow>
    parked_screen (snd r) = discriminant (screen_for hz now snap)", THEN mp])
  fix st effs h
  assume "execute hz now snap st = (effs, Park h)"
  then show "follows_server st \<or> st = Offline \<and> is_offline snap \<longrightarrow>
    parked_screen (snd (effs, h)) = discriminant (screen_for hz now snap)"
    by (cases st) (auto simp: follows_server_def head_defs screen_for_def Let_def
        split: if_splits option.splits)
next
  fix st st' h and effs effs' :: "UiEffect list"
  assume "execute hz now snap st = (effs, Return st')"
    "follows_server st' \<or> st' = Offline \<and> is_offline snap \<longrightarrow>
      parked_screen (snd (effs', h)) = discriminant (screen_for hz now snap)"
  then show "follows_server st \<or> st = Offline \<and> is_offline snap \<longrightarrow>
    parked_screen (snd (effs @ effs', h)) = discriminant (screen_for hz now snap)"
    by (cases st) (auto simp: follows_server_def head_defs Let_def baseline_state_for_def
        split: if_splits option.splits)
qed

text \<open>The commands among the effects.\<close>

fun is_command :: "UiEffect \<Rightarrow> bool" where
  "is_command (SendStart _) = True"
| "is_command SendStop = True"
| "is_command SendNextStage = True"
| "is_command _ = False"

definition state_commands :: "AppState \<Rightarrow> UiEffect list" where
  "state_commands st = (case st of
     StartPending _ recipe_id _ \<Rightarrow> [SendStart recipe_id] | StopPending _ \<Rightarrow> [SendStop] | _ \<Rightarrow> [])"

lemma execute_commands:
  "filter is_command (fst (execute hz now snap st)) = state_commands st"
  by (cases st) (auto simp: head_defs state_commands_def Let_def split: option.splits)

lemma execute_Return_no_command:
  "execute hz now snap st = (effs, Return st') \<Longrightarrow> state_commands st' = []"
  by (cases st) (auto simp: head_defs state_commands_def Let_def baseline_state_for_def
      split: if_splits option.splits)

lemma settle_commands:
  "filter is_command (fst (settle hz now snap st)) = state_commands st"
proof (rule settle_induct [of hz now snap "\<lambda>st r. filter is_command (fst r) = state_commands st"])
  fix st effs h
  assume "execute hz now snap st = (effs, Park h)"
  then show "filter is_command (fst (effs, h)) = state_commands st"
    using execute_commands [of hz now snap st] by simp
next
  fix st st' h and effs effs' :: "UiEffect list"
  assume "execute hz now snap st = (effs, Return st')"
    "filter is_command (fst (effs', h)) = state_commands st'"
  then show "filter is_command (fst (effs @ effs', h)) = state_commands st"
    using execute_commands [of hz now snap st] execute_Return_no_command by fastforce
qed

text \<open>The command an event stands for on each screen.\<close>

fun command_of :: "Parked \<Rightarrow> UiEvent \<Rightarrow> UiEffect list" where
  "command_of (PBrowse snap index deadline) (Input EncoderButton) =
     (case get_nth (sn_recipes snap) index of Some r \<Rightarrow> [SendStart (rc_id r)] | None \<Rightarrow> [])"
| "command_of (PConfirmStop deadline) (Input EncoderButton) = [SendStop]"
| "command_of PAwaitNextStage (Input EncoderButton) = [SendNextStage]"
| "command_of _ _ = []"

definition out_commands :: "Outcome \<Rightarrow> UiEffect list" where
  "out_commands r = (case r of Park _ \<Rightarrow> [] | Return st \<Rightarrow> state_commands st)"

lemmas arm_defs = arm_offline_def arm_stale_def arm_idle_def arm_cooking_def arm_await_def
  arm_browse_def arm_start_pending_def arm_confirm_stop_def arm_stop_pending_def full_backlight_def

lemma wake_commands:
  "wake hz now h e snap = (effs, out) \<Longrightarrow>
   filter is_command effs @ out_commands out = command_of h e"
proof -
  assume "wake hz now h e snap = (effs, out)"
  then show ?thesis
    by (cases h; cases e)
      (auto simp: arm_defs head_defs out_commands_def state_commands_def baseline_state_for_def Let_def
        simp del: get_nth_None_iff split: if_splits option.splits InputEvent.splits)
qed


text \<open>
  C16: The commands the screen sends to the oven, over every screen and event: a recipe is started
  only by pressing on it in the browser, a cook is stopped only by pressing on the stop
  confirmation, the next stage is asked for only by pressing on its prompt, each exactly once per
  press, and no other wake-up sends anything, whatever the server reports.
\<close>

theorem ui_commands:
  "filter is_command (fst (ui_step hz now h e snap)) = command_of h e"
proof -
  obtain effs out where w: "wake hz now h e snap = (effs, out)" by fastforce
  show ?thesis
    using wake_commands [OF w] settle_commands [of hz now snap]
    by (cases out) (simp_all add: ui_step_def w out_commands_def split_beta)
qed

lemma ui_step_Return:
  "wake hz now h e snap = (effs, Return st) \<Longrightarrow>
   snd (ui_step hz now h e snap) = snd (settle hz now snap st)"
  by (simp add: ui_step_def split_beta)

lemma ui_step_Park:
  "wake hz now h e snap = (effs, Park h') \<Longrightarrow> snd (ui_step hz now h e snap) = h'"
  by (simp add: ui_step_def)

text \<open>The screens that show what the oven does, and the ones that wait for a while.\<close>

fun readout :: "Parked \<Rightarrow> bool" where
  "readout POffline = True" | "readout PUpstreamStale = True" | "readout (PIdle _ _ _) = True"
| "readout (PCooking _) = True" | "readout PAwaitNextStage = True" | "readout _ = False"

fun waiting :: "Parked \<Rightarrow> ticks option" where
  "waiting (PBrowse _ _ deadline) = Some deadline"
| "waiting (PStartPending _ deadline) = Some deadline"
| "waiting (PConfirmStop deadline) = Some deadline"
| "waiting (PStopPending deadline) = Some deadline"
| "waiting _ = None"

lemma baseline_follows: "follows_server (baseline_state_for snap)"
  by (simp add: baseline_state_for_def follows_server_def)

lemma readout_wake:
  assumes "readout h"
  shows "case wake hz now h ApiChanged snap of
      (_, Park h') \<Rightarrow> parked_screen h' = discriminant (screen_for hz now snap)
    | (_, Return st) \<Rightarrow> follows_server st \<or> st = Offline \<and> is_offline snap"
  using assms
  by (cases h) (auto simp: arm_defs head_defs screen_for_def follows_server_def Let_def
      baseline_state_for_def split: if_splits option.splits)

lemma waiting_wake:
  "waiting h \<noteq> None \<Longrightarrow> \<exists>st. follows_server st \<and> wake hz now h TimerFired snap = ([], Return st)"
  by (cases h) (auto simp: arm_defs follows_server_def)

text \<open>
  The screen follows the server: a notification on any readout screen, or the timer of a
  screen that waits (the browser, the stop confirmation, a pending start or stop), ends in the same
  wake-up on the screen the snapshot calls for: no connection first, then stale data, then idle,
  the next-stage prompt, and cooking.
\<close>

theorem screen_follows_server:
  assumes "readout h \<and> e = ApiChanged \<or> waiting h \<noteq> None \<and> e = TimerFired"
  shows "parked_screen (snd (ui_step hz now h e snap)) = discriminant (screen_for hz now snap)"
  using assms
proof
  assume "readout h \<and> e = ApiChanged"
  then have h: "readout h" and e: "e = ApiChanged" by auto
  show ?thesis
  proof (cases "wake hz now h ApiChanged snap")
    case (Pair effs out)
    with readout_wake [OF h, of hz now snap] show ?thesis
      by (cases out) (auto simp: e ui_step_Park ui_step_Return settle_screen)
  qed
next
  assume "waiting h \<noteq> None \<and> e = TimerFired"
  with waiting_wake [of h hz now snap] show ?thesis
    by (auto simp: ui_step_Return settle_screen)
qed

section \<open>Runs\<close>

lemma apply_effects_Nil [simp]: "apply_effects [] s = s"
  by (simp add: apply_effects_def)

lemma apply_effects_Cons [simp]:
  "apply_effects (e # es) s = apply_effects es (apply_effect e s)"
  by (simp add: apply_effects_def)

lemma apply_effects_append [simp]:
  "apply_effects (es @ es') s = apply_effects es' (apply_effects es s)"
  by (simp add: apply_effects_def)

text \<open>What is on the display while a handler is parked.\<close>

fun view_of :: "Parked \<Rightarrow> ViewSpec \<Rightarrow> bool" where
  "view_of POffline v = (v = ServerOffline)"
| "view_of PUpstreamStale v = (\<exists>cause secs. v = StaleView cause secs)"
| "view_of (PIdle snap _ _) v = (v = idle_view snap)"
| "view_of (PCooking title) v = (\<exists>status cook anchor. v = StatusView status cook anchor)"
| "view_of PAwaitNextStage v = (\<exists>title. v = NextStagePrompt title)"
| "view_of (PBrowse snap index _) v = (recipe_browser_view (sn_recipes snap) index = Some v)"
| "view_of (PStartPending title _) v = (v = StartingCook title)"
| "view_of (PConfirmStop _) v = (\<exists>status cook. v = StopConfirmation status cook)"
| "view_of (PStopPending _) v = (\<exists>status cook anchor. v = StatusView status cook anchor)"
| "view_of PPanicked v = False"

fun dimmed_in :: "Parked \<Rightarrow> bool" where
  "dimmed_in (PIdle _ _ dimmed) = dimmed"
| "dimmed_in _ = False"

definition ui_inv :: "UiState \<Rightarrow> bool" where
  "ui_inv s \<longleftrightarrow>
     view_of (ui_parked s) (ui_shown s) \<and>
     ui_lit s = (\<not> dimmed_in (ui_parked s)) \<and>
     ui_crumb s = parked_screen (ui_parked s)"

lemma browser_view_in_range:
  "recipes \<noteq> [] \<Longrightarrow> recipe_browser_view recipes (min i (length recipes - Suc 0)) \<noteq> None"
  "recipes \<noteq> [] \<Longrightarrow> recipe_browser_view recipes 0 \<noteq> None"
  by (cases recipes; auto simp: recipe_browser_view_def Let_def min_def)+

lemma execute_Park_inv:
  "execute hz now snap st = (effs, Park h) \<Longrightarrow> ui_inv (land s (effs, h))"
  by (cases st)
    (auto simp: head_defs ui_inv_def land_def Let_def browser_view_in_range cooking_view_def
      optimistic_idle_view_def split: if_splits option.splits)

lemma settle_inv: "ui_inv (land s (settle hz now snap st))"
proof -
  have "\<forall>s. ui_inv (land s (settle hz now snap st))"
    by (rule settle_induct [of hz now snap "\<lambda>st r. \<forall>s. ui_inv (land s r)"])
      (auto simp: land_def dest: execute_Park_inv [unfolded land_def])
  then show ?thesis by blast
qed


lemma wake_Park_inv:
  "wake hz now h0 e snap = (effs, Park h) \<Longrightarrow> ui_parked s = h0 \<Longrightarrow> ui_inv s \<Longrightarrow>
   ui_inv (land s (effs, h))"
  by (cases s; cases h0; cases e)
    (auto simp: arm_defs head_defs ui_inv_def land_def Let_def browser_view_in_range cooking_view_def
      split: if_splits option.splits InputEvent.splits)

lemma ui_step_inv:
  assumes "ui_inv s"
  shows "ui_inv (land s (ui_step hz now (ui_parked s) e snap))"
proof -
  obtain effs out where w: "wake hz now (ui_parked s) e snap = (effs, out)" by fastforce
  show ?thesis
  proof (cases out)
    case (Park h)
    with w assms show ?thesis by (simp add: ui_step_def wake_Park_inv)
  next
    case (Return st)
    obtain effs' h where "settle hz now snap st = (effs', h)" by fastforce
    with settle_inv [of "apply_effects effs s" hz now snap st] w Return show ?thesis
      by (simp add: ui_step_def land_def)
  qed
qed

text \<open>
  C17: Whatever the server reports and whatever the user does, the screen, the backlight and the
  breadcrumb always agree with the handler that runs: the display shows that handler's view, the
  backlight is at full level except on an idle screen that has dimmed, the persisted number is the
  screen's, and the recipe index never leaves the list, so no handler panics.
\<close>

theorem ui_consistent:
  assumes "ui_reachable hz s"
  shows "view_of (ui_parked s) (ui_shown s) \<and> ui_parked s \<noteq> PPanicked \<and>
    ui_lit s = (\<not> dimmed_in (ui_parked s)) \<and> ui_crumb s = parked_screen (ui_parked s)"
proof -
  have "ui_inv s"
    using assms by induction (auto simp: ui_boot_def settle_inv ui_step_inv)
  then show ?thesis by (cases "ui_parked s") (auto simp: ui_inv_def)
qed

theorem ui_consistent_witness:
  "ui_lit (ui_boot 1000 5 snapshot_default) = (\<not> dimmed_in (ui_parked (ui_boot 1000 5 snapshot_default)))"
  using ui_consistent [OF ui_reachable.boot [of 1000 5 snapshot_default]] by simp

lemma reachable_inv: "ui_reachable hz s \<Longrightarrow> ui_inv s"
  by (induction rule: ui_reachable.induct) (auto simp: ui_boot_def settle_inv ui_step_inv)

lemma browser_view_at:
  assumes "recipe_browser_view recipes index = Some v" "get_nth recipes index = Some r"
  shows "\<exists>src count i. v = RecipeBrowser src count i (rc_title r) \<and>
    filter (\<lambda>r. rc_source r = src) recipes ! i = r"
  using assms filter_take_nth [of index recipes "\<lambda>r'. rc_source r' = rc_source r"]
  by (auto simp: recipe_browser_view_def Let_def get_nth_Some_iff split: if_splits)

lemma command_of_start:
  "SendStart rid \<in> set (command_of h e) \<Longrightarrow>
   \<exists>snap index deadline r. h = PBrowse snap index deadline \<and> e = Input EncoderButton \<and>
     get_nth (sn_recipes snap) index = Some r \<and> rc_id r = rid"
  by (cases "(h, e)" rule: command_of.cases) (auto split: option.splits dest: sym)

lemma step_command_iff:
  "is_command c \<Longrightarrow> c \<in> set (fst (ui_step hz now h e snap)) \<longleftrightarrow> c \<in> set (command_of h e)"
proof -
  assume "is_command c"
  obtain effs out where w: "wake hz now h e snap = (effs, out)" by fastforce
  have "filter is_command (fst (ui_step hz now h e snap)) = command_of h e"
    using wake_commands [OF w] settle_commands [of hz now snap]
    by (cases out) (simp_all add: ui_step_def w out_commands_def split_beta)
  with \<open>is_command c\<close> show ?thesis by (metis (mono_tags, lifting) mem_Collect_eq set_filter)
qed

text \<open>
  The recipe that is started is the recipe on the display: when a wake-up sends a start, the
  browser is on the screen, and the recipe at the shown position of the shown source has the shown
  title and the id that is sent.
\<close>

theorem started_recipe_is_shown:
  assumes "ui_reachable hz s"
    and "SendStart rid \<in> set (fst (ui_step hz now (ui_parked s) e snap'))"
  shows "\<exists>snap index deadline src count i title.
    ui_parked s = PBrowse snap index deadline \<and> e = Input EncoderButton \<and>
    ui_shown s = RecipeBrowser src count i title \<and>
    rc_id (filter (\<lambda>r. rc_source r = src) (sn_recipes snap) ! i) = rid \<and>
    rc_title (filter (\<lambda>r. rc_source r = src) (sn_recipes snap) ! i) = title"
proof -
  from assms(2) have "SendStart rid \<in> set (command_of (ui_parked s) e)"
    by (simp add: step_command_iff)
  then obtain snap index deadline r where h: "ui_parked s = PBrowse snap index deadline"
      "e = Input EncoderButton" "get_nth (sn_recipes snap) index = Some r" "rc_id r = rid"
    using command_of_start by blast
  from reachable_inv [OF assms(1)] h(1)
  have "recipe_browser_view (sn_recipes snap) index = Some (ui_shown s)"
    by (simp add: ui_inv_def)
  from browser_view_at [OF this h(3)] h show ?thesis by auto
qed


definition demo_snapshot :: ApiSnapshot where
  "demo_snapshot = snapshot_default\<lparr>sn_recipes := [demo_recipe], sn_last_success_at := Some 1\<rparr>"

section \<open>Stopping takes two gestures\<close>

type_synonym Wake = "ticks \<times> UiEvent \<times> ApiSnapshot"

definition ui_next :: "nat \<Rightarrow> Wake \<Rightarrow> Parked \<Rightarrow> Parked" where
  "ui_next hz = (\<lambda>(now, e, snap) h. snd (ui_step hz now h e snap))"

definition ui_run :: "nat \<Rightarrow> Wake list \<Rightarrow> Parked \<Rightarrow> Parked" where
  "ui_run hz = fold (ui_next hz)"

definition wake_event :: "Wake \<Rightarrow> UiEvent" where
  "wake_event = (\<lambda>(now, e, snap). e)"

fun is_confirm :: "Parked \<Rightarrow> bool" where
  "is_confirm (PConfirmStop _) = True"
| "is_confirm _ = False"

lemma settle_confirm:
  "is_confirm (snd (settle hz now snap st)) \<Longrightarrow>
   st = ConfirmStop \<and> snd (settle hz now snap st) = PConfirmStop (now + 5 * hz)"
proof (rule settle_induct [of hz now snap "\<lambda>st (r :: UiEffect list \<times> Parked).
    is_confirm (snd r) \<longrightarrow> st = ConfirmStop \<and> snd r = PConfirmStop (now + 5 * hz)", THEN mp])
  fix st h and effs :: "UiEffect list"
  assume "execute hz now snap st = (effs, Park h)"
  then show "is_confirm (snd (effs, h)) \<longrightarrow>
      st = ConfirmStop \<and> snd (effs, h) = PConfirmStop (now + 5 * hz)"
    by (cases st) (auto simp: head_defs Let_def STOP_CONFIRM_TIMEOUT_SECS_def
        split: if_splits option.splits)
next
  fix st st' h and effs effs' :: "UiEffect list"
  assume "execute hz now snap st = (effs, Return st')"
    "is_confirm (snd (effs', h)) \<longrightarrow> st' = ConfirmStop \<and> snd (effs', h) = PConfirmStop (now + 5 * hz)"
  then show "is_confirm (snd (effs @ effs', h)) \<longrightarrow>
      st = ConfirmStop \<and> snd (effs @ effs', h) = PConfirmStop (now + 5 * hz)"
    by (cases st) (auto simp: head_defs Let_def baseline_state_for_def
        split: if_splits option.splits)
qed

lemma wake_to_confirm:
  "wake hz now h e snap = (effs, Return ConfirmStop) \<Longrightarrow>
   e = Input EncoderCCW \<and> (h = PAwaitNextStage \<or> (\<exists>title. h = PCooking title))"
  by (cases h; cases e) (auto simp: arm_defs head_defs Let_def baseline_state_for_def
      split: if_splits option.splits InputEvent.splits)

lemma wake_stays_confirm:
  "wake hz now h e snap = (effs, Park (PConfirmStop d)) \<Longrightarrow>
   is_confirm h \<and> (e = ApiChanged \<and> h = PConfirmStop d \<or> e = Input EncoderCCW \<and> d = now + 5 * hz)"
  by (cases h; cases e) (auto simp: arm_defs head_defs Let_def STOP_CONFIRM_TIMEOUT_SECS_def
      split: if_splits option.splits InputEvent.splits)

lemma ui_next_confirm:
  assumes "is_confirm (ui_next hz (now, e, snap) h)"
  shows "e = Input EncoderCCW \<and> ui_next hz (now, e, snap) h = PConfirmStop (now + 5 * hz) \<and>
      (is_confirm h \<or> h = PAwaitNextStage \<or> (\<exists>title. h = PCooking title)) \<or>
    e = ApiChanged \<and> is_confirm h \<and> ui_next hz (now, e, snap) h = h"
proof -
  obtain effs out where w: "wake hz now h e snap = (effs, out)" by fastforce
  show ?thesis
  proof (cases out)
    case (Park h')
    with assms w obtain d where "h' = PConfirmStop d"
      by (cases h') (auto simp: ui_next_def ui_step_Park)
    with w Park wake_stays_confirm [of hz now h e snap effs d] show ?thesis
      by (auto simp: ui_next_def ui_step_Park)
  next
    case (Return st)
    with assms w settle_confirm [of hz now snap st] wake_to_confirm [of hz now h e snap effs]
    show ?thesis by (auto simp: ui_next_def ui_step_Return)
  qed
qed


lemma confirm_run:
  assumes "\<not> is_confirm h" "is_confirm (ui_run hz ws h)"
  shows "\<exists>ws1 now snap ws2. ws = ws1 @ (now, Input EncoderCCW, snap) # ws2 \<and>
    (ui_run hz ws1 h = PAwaitNextStage \<or> (\<exists>title. ui_run hz ws1 h = PCooking title)) \<and>
    (\<forall>w \<in> set ws2. wake_event w \<in> {Input EncoderCCW, ApiChanged})"
  using assms(2)
proof (induction ws rule: rev_induct)
  case Nil
  then show ?case using assms(1) by (simp add: ui_run_def)
next
  case (snoc w ws)
  obtain now e snap where w: "w = (now, e, snap)" by (cases w)
  let ?g = "ui_run hz ws h"
  have "is_confirm (ui_next hz (now, e, snap) ?g)" using snoc.prems by (simp add: ui_run_def w)
  note step = ui_next_confirm [OF this]
  show ?case
  proof (cases "is_confirm ?g")
    case True
    from snoc.IH [OF this] obtain ws1 n sn ws2 where IH: "ws = ws1 @ (n, Input EncoderCCW, sn) # ws2"
      "ui_run hz ws1 h = PAwaitNextStage \<or> (\<exists>title. ui_run hz ws1 h = PCooking title)"
      "\<forall>w \<in> set ws2. wake_event w \<in> {Input EncoderCCW, ApiChanged}" by blast
    with step have "ws @ [w] = ws1 @ (n, Input EncoderCCW, sn) # (ws2 @ [w])"
      "\<forall>w \<in> set (ws2 @ [w]). wake_event w \<in> {Input EncoderCCW, ApiChanged}"
      by (auto simp: w wake_event_def)
    with IH(2) show ?thesis by blast
  next
    case False
    with step show ?thesis by (intro exI [of _ ws] exI [of _ now] exI [of _ snap] exI [of _ "[]"])
      (auto simp: w)
  qed
qed

lemma command_of_stop: "SendStop \<in> set (command_of h e) \<longleftrightarrow> is_confirm h \<and> e = Input EncoderButton"
  by (cases "(h, e)" rule: command_of.cases) (auto split: option.splits)

text \<open>
  C18: A cook is stopped only by two gestures: if the wake-up after a run sends a stop, it is a
  press, and the run has a counter-clockwise turn on the cooking screen or on the next-stage prompt
  after which nothing but further counter-clockwise turns and server notifications happened.
\<close>

theorem stop_needs_two_gestures:
  assumes "\<not> is_confirm h" "SendStop \<in> set (fst (ui_step hz now (ui_run hz ws h) e snap))"
  shows "e = Input EncoderButton \<and>
    (\<exists>ws1 n sn ws2. ws = ws1 @ (n, Input EncoderCCW, sn) # ws2 \<and>
      (ui_run hz ws1 h = PAwaitNextStage \<or> (\<exists>title. ui_run hz ws1 h = PCooking title)) \<and>
      (\<forall>w \<in> set ws2. wake_event w \<in> {Input EncoderCCW, ApiChanged}))"
proof -
  have "SendStop \<in> set (command_of (ui_run hz ws h) e)"
    using assms(2) by (simp add: step_command_iff)
  then show ?thesis using confirm_run [OF assms(1)] by (simp add: command_of_stop)
qed

definition demo_cooking :: ApiSnapshot where
  "demo_cooking = snapshot_default\<lparr>sn_last_success_at := Some 1, sn_current_cook :=
     Some \<lparr>cc_recipe_title = ''Bread'', cc_recipe_id = None, cc_started_at = [], cc_stages = [],
           cc_cook_stage_count = 0, cc_total_stage_count = 0\<rparr>\<rparr>"

theorem stop_needs_two_gestures_witness:
  "SendStop \<in> set (fst (ui_step 1000 20
     (ui_run 1000 [(10, Input EncoderCCW, demo_cooking)] (PCooking None)) (Input EncoderButton)
     demo_cooking)) \<and>
   (\<exists>ws1 n sn ws2. [(10 :: ticks, Input EncoderCCW, demo_cooking)] = ws1 @ (n, Input EncoderCCW, sn) # ws2)"
proof -
  have "ui_run 1000 [(10, Input EncoderCCW, demo_cooking)] (PCooking None) = PConfirmStop 5010"
    by code_simp
  then have s: "SendStop \<in> set (fst (ui_step 1000 20
     (ui_run 1000 [(10, Input EncoderCCW, demo_cooking)] (PCooking None)) (Input EncoderButton)
     demo_cooking))"
    by (simp add: step_command_iff)
  with stop_needs_two_gestures [OF _ s] show ?thesis by auto
qed

section \<open>Waits are bounded\<close>

text \<open>
  How long a waiting screen may stay without the user's turning the knob: the deadline is set on
  entry, and only a turn in the browser or a counter-clockwise turn in the stop confirmation moves it.
\<close>

fun turn_extends :: "Parked \<Rightarrow> UiEvent \<Rightarrow> bool" where
  "turn_extends (PBrowse _ _ _) (Input EncoderCW) = True"
| "turn_extends (PBrowse _ _ _) (Input EncoderCCW) = True"
| "turn_extends (PConfirmStop _) (Input EncoderCCW) = True"
| "turn_extends _ _ = False"

fun wait_secs :: "Parked \<Rightarrow> nat" where
  "wait_secs (PBrowse _ _ _) = 15"
| "wait_secs (PStartPending _ _) = 10"
| "wait_secs (PConfirmStop _) = 5"
| "wait_secs (PStopPending _) = 10"
| "wait_secs _ = 0"

lemmas timeout_defs = MENU_INACTIVITY_TIMEOUT_SECS_def STOP_CONFIRM_TIMEOUT_SECS_def
  START_STOP_CONFIRM_TIMEOUT_SECS_def

text \<open>A pending state carries the instant it was entered.\<close>

definition entered_at :: "ticks \<Rightarrow> AppState \<Rightarrow> bool" where
  "entered_at now st = (case st of
     StartPending _ _ since \<Rightarrow> since = now | StopPending since \<Rightarrow> since = now | _ \<Rightarrow> True)"

lemma settle_deadline:
  "entered_at now st \<Longrightarrow> waiting (snd (settle hz now snap st)) = Some d \<Longrightarrow>
   d = now + wait_secs (snd (settle hz now snap st)) * hz"
proof -
  have "entered_at now st \<longrightarrow> (\<forall>d. waiting (snd (settle hz now snap st)) = Some d \<longrightarrow>
      d = now + wait_secs (snd (settle hz now snap st)) * hz)"
  proof (rule settle_induct [of hz now snap "\<lambda>st (r :: UiEffect list \<times> Parked).
      entered_at now st \<longrightarrow>
        (\<forall>d. waiting (snd r) = Some d \<longrightarrow> d = now + wait_secs (snd r) * hz)"])
    fix st h and effs :: "UiEffect list"
    assume "execute hz now snap st = (effs, Park h)"
    then show "entered_at now st \<longrightarrow> (\<forall>d. waiting (snd (effs, h)) = Some d \<longrightarrow>
        d = now + wait_secs (snd (effs, h)) * hz)"
      by (cases st) (auto simp: head_defs Let_def timeout_defs entered_at_def
          split: if_splits option.splits)
  next
    fix st st' h and effs effs' :: "UiEffect list"
    assume "execute hz now snap st = (effs, Return st')"
      "entered_at now st' \<longrightarrow>
        (\<forall>d. waiting (snd (effs', h)) = Some d \<longrightarrow> d = now + wait_secs (snd (effs', h)) * hz)"
    then show "entered_at now st \<longrightarrow> (\<forall>d. waiting (snd (effs @ effs', h)) = Some d \<longrightarrow>
        d = now + wait_secs (snd (effs @ effs', h)) * hz)"
      by (cases st) (auto simp: head_defs Let_def entered_at_def baseline_state_for_def
          split: if_splits option.splits)
  qed
  then show "entered_at now st \<Longrightarrow> waiting (snd (settle hz now snap st)) = Some d \<Longrightarrow>
    d = now + wait_secs (snd (settle hz now snap st)) * hz" by blast
qed

lemma wake_Return_entered:
  "wake hz now h e snap = (effs, Return st) \<Longrightarrow> entered_at now st"
  by (cases h; cases e) (auto simp: arm_defs head_defs Let_def entered_at_def
      baseline_state_for_def split: if_splits option.splits InputEvent.splits)

lemma wake_Park_deadline:
  "wake hz now h e snap = (effs, Park h') \<Longrightarrow> waiting h' = Some d \<Longrightarrow>
   (if turn_extends h e then d = now + wait_secs h' * hz else waiting h = Some d)"
  by (cases h; cases e) (auto simp: arm_defs head_defs Let_def timeout_defs
      split: if_splits option.splits InputEvent.splits)

text \<open>
  Waits are bounded: after any wake-up that ends on a waiting screen, the deadline is either the
  one that screen had already, or this instant plus the screen's own time (15 s for the browser, 5 s
  for the stop confirmation, 10 s for a pending start or stop); and it is renewed without leaving
  the screen only by a turn of the knob.
\<close>

theorem waits_bounded:
  assumes "waiting (snd (ui_step hz now h e snap)) = Some d"
  shows "waiting h = Some d \<or> d = now + wait_secs (snd (ui_step hz now h e snap)) * hz \<and>
    (turn_extends h e \<or> (\<exists>effs st. wake hz now h e snap = (effs, Return st)))"
proof -
  obtain effs out where w: "wake hz now h e snap = (effs, out)" by fastforce
  show ?thesis
  proof (cases out)
    case (Park h')
    with w wake_Park_deadline [of hz now h e snap effs h' d] assms show ?thesis
      by (auto simp: ui_step_Park split: if_splits)
  next
    case (Return st)
    with w assms wake_Return_entered [of hz now h e snap effs st] settle_deadline [of now st hz snap d]
    show ?thesis by (auto simp: ui_step_Return)
  qed
qed

end
