(* ===== verification/Persist.thy ===== *)
theory Persist
  imports Fsm
begin

text \<open>
  The crash record that survives resets: its decoded form
  (\<open>crates/anova-oven-pico-core/src/persist_data.rs\<close>) and the region in SRAM with the code that
  reads and writes it (\<open>crates/anova-oven-pico/src/persist.rs\<close>).

  The static region is the record \<open>PersistRegion\<close>, a volatile write is a field update, and the
  region before the first boot is arbitrary. A message is the list of its bytes; the pieces a
  \<open>fmt::Arguments\<close> writes are a parameter. The bits of WATCHDOG.REASON and the uptime are inputs.
\<close>

unbundle bit_operations_syntax

section \<open>Decoded data\<close>

definition MSG_BUF_SIZE :: nat where "MSG_BUF_SIZE = 512"
definition RING_SIZE :: nat where "RING_SIZE = 8"

record ResetHistoryEntry =
  rh_reset_reason :: ResetReason
  rh_uptime_secs :: u32
  rh_api_heartbeat :: u32
  rh_free_heap :: u32
  rh_network_up :: bool
  rh_api_fail_count :: u32

record AppStateLabel =
  label_id :: u32
  label_name :: string

definition from_discriminant :: "u32 \<Rightarrow> AppStateLabel" where
  "from_discriminant d =
     \<lparr>label_id = d,
      label_name =
        (case app_state_name d of
           Some n \<Rightarrow> n
         | None \<Rightarrow> (case init_stage_name d of Some n \<Rightarrow> n | None \<Rightarrow> ''Unknown''))\<rparr>"

record Heartbeats =
  hb_api :: u32
  hb_display :: u32
  hb_watchdog :: u32

record Snapshot =
  ps_magic_valid :: bool
  ps_uptime_secs :: u64
  ps_reset_count :: u32
  ps_panic_count :: u32
  ps_last_displayed_panic_count :: u32
  ps_message_is_new :: bool
  ps_reset_reason :: ResetReason
  ps_last_app_state :: AppStateLabel
  ps_last_uptime_secs :: u32
  ps_heartbeats :: Heartbeats
  ps_last_free_heap :: u32
  ps_network_up :: bool
  ps_last_api_fail_count :: u32
  ps_ring_head :: u32
  ps_reset_history :: "ResetHistoryEntry list"
  ps_message :: "u8 list option"

section \<open>UTF-8\<close>

text \<open>
  \<open>core::str::from_utf8\<close>: the length of the well-formed character a byte string starts with, and
  how far it is well formed (\<open>valid_up_to\<close>).
\<close>

definition cont_byte :: "u8 \<Rightarrow> bool" where
  "cont_byte b \<longleftrightarrow> 0x80 \<le> b \<and> b \<le> 0xBF"

definition second_ok :: "u8 \<Rightarrow> u8 \<Rightarrow> bool" where
  "second_ok a b \<longleftrightarrow>
     (if a = 0xE0 then 0xA0 \<le> b \<and> b \<le> 0xBF
      else if a = 0xED then 0x80 \<le> b \<and> b \<le> 0x9F
      else if a = 0xF0 then 0x90 \<le> b \<and> b \<le> 0xBF
      else if a = 0xF4 then 0x80 \<le> b \<and> b \<le> 0x8F
      else cont_byte b)"

definition utf8_width :: "u8 \<Rightarrow> nat" where
  "utf8_width a =
     (if a < 0x80 then 1
      else if 0xC2 \<le> a \<and> a \<le> 0xDF then 2
      else if 0xE0 \<le> a \<and> a \<le> 0xEF then 3
      else if 0xF0 \<le> a \<and> a \<le> 0xF4 then 4
      else 0)"

definition char_ok :: "u8 list \<Rightarrow> bool" where
  "char_ok bs \<longleftrightarrow>
     (case bs of
        [] \<Rightarrow> False
      | a # rest \<Rightarrow>
          utf8_width a \<noteq> 0 \<and> utf8_width a \<le> length bs \<and>
          (1 < utf8_width a \<longrightarrow> second_ok a (rest ! 0)) \<and>
          (2 < utf8_width a \<longrightarrow> cont_byte (rest ! 1)) \<and>
          (3 < utf8_width a \<longrightarrow> cont_byte (rest ! 2)))"

definition char_len :: "u8 list \<Rightarrow> nat" where
  "char_len bs = utf8_width (hd bs)"

lemma char_ok_pos: "char_ok bs \<Longrightarrow> 0 < char_len bs \<and> char_len bs \<le> length bs"
  by (cases bs) (auto simp: char_ok_def char_len_def)

function valid_up_to :: "u8 list \<Rightarrow> nat" where
  "valid_up_to bs = (if char_ok bs then char_len bs + valid_up_to (drop (char_len bs) bs) else 0)"
  by pat_completeness auto
termination
  by (relation "measure length") (use char_ok_pos in fastforce)+

declare valid_up_to.simps [simp del]

section \<open>The region\<close>

definition MAGIC :: u32 where "MAGIC = 0xA9B0C1D4"

record RingEntry =
  re_reset_reason :: u32
  re_uptime_secs :: u32
  re_api_heartbeat :: u32
  re_free_heap :: u32
  re_network_up :: u32
  re_api_fail_count :: u32

record PersistRegion =
  magic :: u32
  reset_count :: u32
  panic_count :: u32
  last_displayed_panic_count :: u32
  reset_reason :: u32
  last_app_state :: u32
  last_uptime_secs :: u32
  api_heartbeat :: u32
  display_heartbeat :: u32
  watchdog_heartbeat :: u32
  last_free_heap :: u32
  network_up :: u32
  last_api_fail_count :: u32
  ring_head :: u32
  ring :: "RingEntry list"
  msg_len :: u32
  msg_buf :: "u8 list"

definition magic_valid :: "PersistRegion \<Rightarrow> bool" where
  "magic_valid r \<longleftrightarrow> magic r = MAGIC"

definition zero_entry :: RingEntry where
  "zero_entry = \<lparr>re_reset_reason = 0, re_uptime_secs = 0, re_api_heartbeat = 0, re_free_heap = 0,
     re_network_up = 0, re_api_fail_count = 0\<rparr>"

text \<open>Everything but the message buffer.\<close>

definition zero_region :: "PersistRegion \<Rightarrow> PersistRegion" where
  "zero_region r =
     r\<lparr>magic := MAGIC, reset_count := 0, panic_count := 0, last_displayed_panic_count := 0,
       reset_reason := 0, last_app_state := 0, last_uptime_secs := 0, api_heartbeat := 0,
       display_heartbeat := 0, watchdog_heartbeat := 0, last_free_heap := 0, network_up := 0,
       last_api_fail_count := 0, ring_head := 0, ring := replicate RING_SIZE zero_entry,
       msg_len := 0\<rparr>"

definition ring_append :: "ResetReason \<Rightarrow> u32 \<Rightarrow> PersistRegion \<Rightarrow> PersistRegion" where
  "ring_append reason uptime r =
     (let head = ring_head r;
          idx = unat head mod RING_SIZE
      in r\<lparr>ring := (ring r)[idx :=
             \<lparr>re_reset_reason = reason_as_u32 reason, re_uptime_secs = uptime,
              re_api_heartbeat = api_heartbeat r, re_free_heap = last_free_heap r,
              re_network_up = network_up r, re_api_fail_count = last_api_fail_count r\<rparr>],
           ring_head := head + 1\<rparr>)"

definition decode_entry :: "RingEntry \<Rightarrow> ResetHistoryEntry" where
  "decode_entry e =
     \<lparr>rh_reset_reason = reason_from_u32 (re_reset_reason e), rh_uptime_secs = re_uptime_secs e,
      rh_api_heartbeat = re_api_heartbeat e, rh_free_heap = re_free_heap e,
      rh_network_up = (re_network_up e \<noteq> 0), rh_api_fail_count = re_api_fail_count e\<rparr>"

text \<open>
  \<open>usize\<close> is 32 bits on the RP2040, so \<open>head + RING_SIZE - 1 - i\<close> is a word; \<open>out\<close> has room for the
  at most \<open>RING_SIZE\<close> entries pushed.
\<close>

definition ring_read :: "PersistRegion \<Rightarrow> ResetHistoryEntry list" where
  "ring_read r =
     (let head = ring_head r;
          count = min (unat head) RING_SIZE
      in map (\<lambda>i. decode_entry (ring r ! (unat (head + of_nat RING_SIZE - 1 - of_nat i) mod RING_SIZE)))
           [0..<count])"

definition watchdog_bits :: "u32 \<Rightarrow> bool \<times> bool" where
  "watchdog_bits raw = (raw AND 1 \<noteq> 0, raw AND 2 \<noteq> 0)"

definition read_message :: "PersistRegion \<Rightarrow> u8 list option" where
  "read_message r =
     (let len = unat (msg_len r)
      in if magic_valid r \<and> 0 < len \<and> len \<le> MSG_BUF_SIZE
         then (let bytes = take len (msg_buf r) in Some (take (valid_up_to bytes) bytes))
         else None)"

definition read_live :: "u64 \<Rightarrow> PersistRegion \<Rightarrow> Snapshot" where
  "read_live uptime r =
     \<lparr>ps_magic_valid = magic_valid r,
      ps_uptime_secs = uptime,
      ps_reset_count = reset_count r,
      ps_panic_count = panic_count r,
      ps_last_displayed_panic_count = last_displayed_panic_count r,
      ps_message_is_new = (panic_count r > last_displayed_panic_count r),
      ps_reset_reason = reason_from_u32 (reset_reason r),
      ps_last_app_state = from_discriminant (last_app_state r),
      ps_last_uptime_secs = last_uptime_secs r,
      ps_heartbeats = \<lparr>hb_api = api_heartbeat r, hb_display = display_heartbeat r,
                       hb_watchdog = watchdog_heartbeat r\<rparr>,
      ps_last_free_heap = last_free_heap r,
      ps_network_up = (network_up r \<noteq> 0),
      ps_last_api_fail_count = last_api_fail_count r,
      ps_ring_head = ring_head r,
      ps_reset_history = ring_read r,
      ps_message = read_message r\<rparr>"

definition init_at_boot :: "u32 \<Rightarrow> u64 \<Rightarrow> PersistRegion \<Rightarrow> Snapshot \<times> PersistRegion" where
  "init_at_boot watchdog_reason uptime r0 =
     (let magic_was_valid = magic_valid r0;
          r = (if \<not> magic_was_valid then zero_region r0 else r0);
          r = r\<lparr>reset_count := reset_count r + 1\<rparr>;
          app_state = last_app_state r;
          uptime_secs = last_uptime_secs r;
          panic_count_advanced = (panic_count r > last_displayed_panic_count r);
          (timer, force) = watchdog_bits watchdog_reason;
          reason = classify_reset magic_was_valid panic_count_advanced app_state timer force;
          r = r\<lparr>reset_reason := reason_as_u32 reason\<rparr>;
          r = (if reason \<noteq> ColdBoot then ring_append reason uptime_secs r else r);
          r = r\<lparr>network_up := 0, last_api_fail_count := 0, last_free_heap := 0\<rparr>
      in (read_live uptime r, r))"

definition mark_displayed :: "PersistRegion \<Rightarrow> PersistRegion" where
  "mark_displayed r =
     (if \<not> magic_valid r then r else r\<lparr>last_displayed_panic_count := panic_count r\<rparr>)"

definition record_app_state :: "u32 \<Rightarrow> PersistRegion \<Rightarrow> PersistRegion" where
  "record_app_state d r = r\<lparr>last_app_state := d\<rparr>"

definition record_uptime_secs :: "u32 \<Rightarrow> PersistRegion \<Rightarrow> PersistRegion" where
  "record_uptime_secs secs r = r\<lparr>last_uptime_secs := secs\<rparr>"

definition record_free_heap :: "u32 \<Rightarrow> PersistRegion \<Rightarrow> PersistRegion" where
  "record_free_heap bytes r = r\<lparr>last_free_heap := bytes\<rparr>"

definition record_network_up :: "PersistRegion \<Rightarrow> PersistRegion" where
  "record_network_up r = r\<lparr>network_up := 1\<rparr>"

definition record_api_fail_count :: "u32 \<Rightarrow> PersistRegion \<Rightarrow> PersistRegion" where
  "record_api_fail_count n r = r\<lparr>last_api_fail_count := n\<rparr>"

definition bump_api_heartbeat :: "PersistRegion \<Rightarrow> PersistRegion" where
  "bump_api_heartbeat r = r\<lparr>api_heartbeat := api_heartbeat r + 1\<rparr>"

definition bump_display_heartbeat :: "PersistRegion \<Rightarrow> PersistRegion" where
  "bump_display_heartbeat r = r\<lparr>display_heartbeat := display_heartbeat r + 1\<rparr>"

definition bump_watchdog_heartbeat :: "PersistRegion \<Rightarrow> PersistRegion" where
  "bump_watchdog_heartbeat r = r\<lparr>watchdog_heartbeat := watchdog_heartbeat r + 1\<rparr>"

text \<open>\<open>MsgWriter::write_str\<close>: the writer is its position.\<close>

definition write_bytes :: "nat \<Rightarrow> u8 list \<Rightarrow> u8 list \<Rightarrow> u8 list" where
  "write_bytes pos bytes buf = take pos buf @ bytes @ drop (pos + length bytes) buf"

definition write_str :: "u8 list \<Rightarrow> nat \<times> PersistRegion \<Rightarrow> nat \<times> PersistRegion" where
  "write_str bytes = (\<lambda>(pos, r).
     (let remaining = MSG_BUF_SIZE - pos;
          n = min (length bytes) remaining
      in (pos + n, r\<lparr>msg_buf := write_bytes pos (take n bytes) (msg_buf r)\<rparr>)))"

definition record_and_reset :: "u8 list list \<Rightarrow> PersistRegion \<Rightarrow> PersistRegion" where
  "record_and_reset pieces r =
     (let r = (if \<not> magic_valid r then zero_region r else r);
          r = r\<lparr>panic_count := panic_count r + 1\<rparr>;
          (pos, r) = fold write_str pieces (0, r)
      in r\<lparr>msg_len := of_nat pos\<rparr>)"


section \<open>The ring is the last eight resets\<close>

text \<open>The region has the sizes of its declaration.\<close>

definition region_wf :: "PersistRegion \<Rightarrow> bool" where
  "region_wf r \<longleftrightarrow> length (ring r) = RING_SIZE \<and> length (msg_buf r) = MSG_BUF_SIZE"

text \<open>The ring holds the history \<open>hist\<close>, newest first.\<close>

definition ring_abs :: "PersistRegion \<Rightarrow> ResetHistoryEntry list \<Rightarrow> bool" where
  "ring_abs r hist \<longleftrightarrow>
     length (ring r) = 8 \<and> unat (ring_head r) = length hist \<and>
     (\<forall>i < min 8 (length hist). decode_entry (ring r ! ((length hist - 1 - i) mod 8)) = hist ! i)"

definition appended :: "ResetReason \<Rightarrow> u32 \<Rightarrow> PersistRegion \<Rightarrow> ResetHistoryEntry" where
  "appended reason uptime r =
     \<lparr>rh_reset_reason = reason, rh_uptime_secs = uptime, rh_api_heartbeat = api_heartbeat r,
      rh_free_heap = last_free_heap r, rh_network_up = (network_up r \<noteq> 0),
      rh_api_fail_count = last_api_fail_count r\<rparr>"

lemma slot_other:
  fixes n i :: nat
  assumes "i < n" "i < 7"
  shows "(n - 1 - i) mod 8 \<noteq> n mod 8"
proof
  assume "(n - 1 - i) mod 8 = n mod 8"
  then have "n mod 8 = (n - 1 - i) mod 8" by (rule sym)
  then have "8 dvd n - (n - 1 - i)" by (subst (asm) mod_eq_dvd_iff_nat) auto
  moreover have "n - (n - 1 - i) = i + 1" using assms by simp
  ultimately show False using assms by (auto dest: dvd_imp_le)
qed

lemma ring_append_abs:
  assumes "ring_abs r hist" "length hist + 1 < 2 ^ 32"
  shows "ring_abs (ring_append reason uptime r) (appended reason uptime r # hist)"
proof -
  have h: "unat (ring_head r + 1) = length hist + 1"
    using assms by (simp add: ring_abs_def unat_add_no_wrap)
  have "decode_entry (ring (ring_append reason uptime r) ! ((length hist - i) mod 8)) =
      (appended reason uptime r # hist) ! i" if i: "i < min 8 (Suc (length hist))" for i
  proof (cases i)
    case 0
    then show ?thesis using assms(1)
      by (simp add: ring_append_def Let_def ring_abs_def RING_SIZE_def decode_entry_def appended_def)
  next
    case (Suc j)
    then have j: "j < length hist" "j < 7" using i by simp_all
    have idx: "length hist - i = length hist - 1 - j" using Suc by simp
    have "decode_entry (ring r ! ((length hist - 1 - j) mod 8)) = hist ! j"
      using assms(1) j by (simp add: ring_abs_def)
    then show ?thesis
      using assms(1) slot_other [OF j] Suc
      by (simp add: idx ring_append_def Let_def ring_abs_def RING_SIZE_def)
  qed
  then show ?thesis
    using assms(1) h by (simp add: ring_abs_def ring_append_def Let_def)
qed

lemma unat_add_mod8: "unat (a + b :: u32) mod 8 = (unat a + unat b) mod 8"
  by (simp add: unat_word_ariths mod_mod_cancel)

lemma ring_read_abs:
  assumes "ring_abs r hist"
  shows "ring_read r = take 8 hist"
proof (rule nth_equalityI)
  have h: "unat (ring_head r) = length hist" using assms by (simp add: ring_abs_def)
  then show "length (ring_read r) = length (take 8 hist)"
    by (simp add: ring_read_def Let_def RING_SIZE_def min.commute)
  fix i assume "i < length (ring_read r)"
  then have i: "i < length hist" "i < 8" by (simp_all add: ring_read_def Let_def RING_SIZE_def h)
  have e: "ring_head r + of_nat RING_SIZE - 1 - of_nat i = ring_head r + of_nat (7 - i)"
    using i(2) by (simp add: RING_SIZE_def of_nat_diff)
  have u: "unat (of_nat (7 - i) :: u32) = 7 - i"
    by (simp add: unat_of_nat)
  have "unat (ring_head r + of_nat RING_SIZE - 1 - of_nat i) mod 8 = (length hist + (7 - i)) mod 8"
    unfolding e unat_add_mod8 u h ..
  also have "length hist + (7 - i) = (length hist - 1 - i) + 8" using i by simp
  finally have idx: "unat (ring_head r + of_nat RING_SIZE - 1 - of_nat i) mod RING_SIZE =
      (length hist - 1 - i) mod 8"
    by (simp add: RING_SIZE_def)
  have hi: "i < min (unat (ring_head r)) RING_SIZE" using i by (simp add: h RING_SIZE_def)
  have "ring_read r ! i = decode_entry
      (ring r ! (unat (ring_head r + of_nat RING_SIZE - 1 - of_nat i) mod RING_SIZE))"
    unfolding ring_read_def Let_def using hi by (subst nth_map) simp_all
  also have "\<dots> = hist ! i" unfolding idx using assms i by (simp add: ring_abs_def)
  finally show "ring_read r ! i = take 8 hist ! i" using i by simp
qed

text \<open>Everything that happens to the region, in any order.\<close>

datatype PersistOp =
  Boot u32 u64 | PanicReset "u8 list list" | MarkDisplayed | RecordAppState u32
| RecordUptime u32 | RecordFreeHeap u32 | RecordNetworkUp | RecordFailCount u32
| BumpApi | BumpDisplay | BumpWatchdog

fun persist_apply :: "PersistOp \<Rightarrow> PersistRegion \<Rightarrow> PersistRegion" where
  "persist_apply (Boot wd uptime) r = snd (init_at_boot wd uptime r)"
| "persist_apply (PanicReset pieces) r = record_and_reset pieces r"
| "persist_apply MarkDisplayed r = mark_displayed r"
| "persist_apply (RecordAppState d) r = record_app_state d r"
| "persist_apply (RecordUptime n) r = record_uptime_secs n r"
| "persist_apply (RecordFreeHeap n) r = record_free_heap n r"
| "persist_apply RecordNetworkUp r = record_network_up r"
| "persist_apply (RecordFailCount n) r = record_api_fail_count n r"
| "persist_apply BumpApi r = bump_api_heartbeat r"
| "persist_apply BumpDisplay r = bump_display_heartbeat r"
| "persist_apply BumpWatchdog r = bump_watchdog_heartbeat r"

text \<open>What a warm boot adds to the history.\<close>

definition boot_reason :: "u32 \<Rightarrow> PersistRegion \<Rightarrow> ResetReason" where
  "boot_reason wd r =
     classify_reset True (panic_count r > last_displayed_panic_count r) (last_app_state r)
       (fst (watchdog_bits wd)) (snd (watchdog_bits wd))"

fun history_step :: "PersistOp \<Rightarrow> PersistRegion \<times> ResetHistoryEntry list \<Rightarrow>
    PersistRegion \<times> ResetHistoryEntry list" where
  "history_step op (r, hist) =
     (persist_apply op r,
      case op of Boot wd _ \<Rightarrow> appended (boot_reason wd r) (last_uptime_secs r) r # hist | _ \<Rightarrow> hist)"

lemma fold_write_str_frame:
  "ring (snd (fold write_str pieces (pos, r))) = ring r \<and>
   ring_head (snd (fold write_str pieces (pos, r))) = ring_head r \<and>
   magic (snd (fold write_str pieces (pos, r))) = magic r \<and>
   panic_count (snd (fold write_str pieces (pos, r))) = panic_count r \<and>
   last_displayed_panic_count (snd (fold write_str pieces (pos, r))) = last_displayed_panic_count r \<and>
   last_app_state (snd (fold write_str pieces (pos, r))) = last_app_state r \<and>
   last_uptime_secs (snd (fold write_str pieces (pos, r))) = last_uptime_secs r"
  by (induction pieces arbitrary: pos r) (simp_all add: write_str_def Let_def)

lemma boot_warm:
  "magic_valid r \<Longrightarrow> snd (init_at_boot wd uptime r) =
     (ring_append (boot_reason wd r) (last_uptime_secs r)
        (r\<lparr>reset_count := reset_count r + 1, reset_reason := reason_as_u32 (boot_reason wd r)\<rparr>))
     \<lparr>network_up := 0, last_api_fail_count := 0, last_free_heap := 0\<rparr>"
  by (auto simp: init_at_boot_def Let_def boot_reason_def split_beta classify_reset_def)

lemma ring_abs_cong:
  "ring r' = ring r \<Longrightarrow> ring_head r' = ring_head r \<Longrightarrow> ring_abs r' hist = ring_abs r hist"
  by (simp add: ring_abs_def)

lemma history_step_abs:
  assumes "ring_abs r hist" "magic_valid r" "history_step op (r, hist) = (r', hist')"
    and "length hist + 1 < 2 ^ 32"
  shows "ring_abs r' hist' \<and> magic_valid r' \<and> length hist' \<le> length hist + 1"
proof (cases op)
  case (Boot wd uptime)
  let ?r = "r\<lparr>reset_count := reset_count r + 1, reset_reason := reason_as_u32 (boot_reason wd r)\<rparr>"
  have "ring_abs ?r hist" using assms(1) by (simp add: ring_abs_def)
  from ring_append_abs [OF this assms(4), of "boot_reason wd r" "last_uptime_secs r"]
  show ?thesis
    using assms(2,3) Boot
    by (auto simp: boot_warm ring_abs_def appended_def magic_valid_def ring_append_def Let_def)
next
  case (PanicReset pieces)
  then show ?thesis using assms fold_write_str_frame [of pieces 0 "r\<lparr>panic_count := panic_count r + 1\<rparr>"]
    by (auto simp: record_and_reset_def Let_def split_beta magic_valid_def ring_abs_def)
qed (use assms in \<open>auto simp: mark_displayed_def record_app_state_def record_uptime_secs_def
      record_free_heap_def record_network_up_def record_api_fail_count_def bump_api_heartbeat_def
      bump_display_heartbeat_def bump_watchdog_heartbeat_def ring_abs_def magic_valid_def\<close>)

lemma history_run_abs:
  "ring_abs r hist \<Longrightarrow> magic_valid r \<Longrightarrow> fold history_step ops (r, hist) = (r', hist') \<Longrightarrow>
   length hist + length ops < 2 ^ 32 \<Longrightarrow> ring_abs r' hist'"
proof (induction ops arbitrary: r hist)
  case (Cons op ops)
  obtain r1 hist1 where s: "history_step op (r, hist) = (r1, hist1)" by fastforce
  from history_step_abs [OF Cons.prems(1,2) s] Cons.prems(3,4) Cons.IH [of r1 hist1] s
  show ?case by simp
qed simp

text \<open>
  C35: The boot history is the last eight resets: after a power-on, any sequence of boots, panics and
  breadcrumb writes leaves in the ring, newest first, exactly the latest eight of the records that
  the warm boots made (their reason, and the values the run before had left), for fewer than
  $2^{32}$ operations.
\<close>

theorem ring_is_recent_history:
  assumes "\<not> magic_valid r" and "length ops < 2 ^ 32"
    and "fold history_step ops (snd (init_at_boot wd uptime r), []) = (r', hist)"
  shows "ring_read r' = take 8 hist"
proof -
  have "ring_abs (snd (init_at_boot wd uptime r)) []" "magic_valid (snd (init_at_boot wd uptime r))"
    using assms(1) by (simp_all add: init_at_boot_def Let_def split_beta classify_reset_def
        ring_abs_def zero_region_def RING_SIZE_def magic_valid_def)
  from history_run_abs [OF this assms(3)] assms(2) show ?thesis by (simp add: ring_read_abs)
qed

definition demo_region :: PersistRegion where
  "demo_region =
     \<lparr>magic = 0, reset_count = 77, panic_count = 5, last_displayed_panic_count = 9, reset_reason = 9,
      last_app_state = 1, last_uptime_secs = 7, api_heartbeat = 0, display_heartbeat = 0,
      watchdog_heartbeat = 0, last_free_heap = 0, network_up = 0, last_api_fail_count = 0,
      ring_head = 3, ring = replicate 8 zero_entry, msg_len = 3, msg_buf = replicate 512 0\<rparr>"

theorem ring_is_recent_history_witness:
  "map rh_uptime_secs (ring_read (fst (fold history_step
     (concat (map (\<lambda>n. [RecordUptime n, Boot 1 0]) [1, 2]))
     (snd (init_at_boot 0 0 demo_region), [])))) = [2, 1]"
proof -
  let ?ops = "concat (map (\<lambda>n. [RecordUptime n, Boot 1 0]) [1, 2])"
  let ?run = "fold history_step ?ops (snd (init_at_boot 0 0 demo_region), [])"
  obtain r' hist where run: "?run = (r', hist)" by (rule prod.exhaust)
  have a: "\<not> magic_valid demo_region" by (simp add: magic_valid_def demo_region_def MAGIC_def)
  have b: "length ?ops < 2 ^ 32" by simp
  note ring_is_recent_history [OF a b run]
  moreover have "map rh_uptime_secs (take 8 (snd ?run)) = [2, 1]" by code_simp
  ultimately show ?thesis by (simp only: run fst_conv snd_conv)
qed


section \<open>A panic is reported at the next boot, once\<close>

lemma valid_up_to_le: "valid_up_to bs \<le> length bs"
proof (induction bs rule: valid_up_to.induct)
  case (1 bs)
  show ?case
  proof (cases "char_ok bs")
    case True
    then have "valid_up_to bs = char_len bs + valid_up_to (drop (char_len bs) bs)"
      by (subst valid_up_to.simps) simp
    moreover have "valid_up_to (drop (char_len bs) bs) \<le> length bs - char_len bs"
      using 1 [OF True] by simp
    ultimately show ?thesis using char_ok_pos [OF True] by linarith
  next
    case False
    then show ?thesis by (subst valid_up_to.simps) simp
  qed
qed

lemma utf8_width_le: "utf8_width a \<le> 4"
  by (simp add: utf8_width_def)

lemma char_ok_take:
  "char_ok bs \<Longrightarrow> char_len bs \<le> n \<Longrightarrow> char_ok (take n bs) \<and> char_len (take n bs) = char_len bs"
  by (cases bs; cases n) (auto simp: char_ok_def char_len_def utf8_width_def split: if_splits)

text \<open>Cutting well-formed text loses at most the character that was cut.\<close>

lemma valid_up_to_take:
  "valid_up_to bs = length bs \<Longrightarrow> n \<le> length bs \<Longrightarrow> n \<le> valid_up_to (take n bs) + 3"
proof (induction bs arbitrary: n rule: valid_up_to.induct)
  case (1 bs)
  show ?case
  proof (cases "bs = []")
    case True
    with "1.prems" show ?thesis by simp
  next
    case False
    have ok: "char_ok bs"
      using "1.prems"(1) False by (subst (asm) valid_up_to.simps) (simp split: if_splits)
    let ?w = "char_len bs"
    have w: "0 < ?w" "?w \<le> length bs" "?w \<le> 4"
      using char_ok_pos [OF ok] utf8_width_le by (simp_all add: char_len_def)
    have rest: "valid_up_to (drop ?w bs) = length (drop ?w bs)"
      using "1.prems"(1) ok w by (subst (asm) valid_up_to.simps) simp
    show ?thesis
    proof (cases "n < ?w")
      case True
      with w show ?thesis by simp
    next
      case False
      with char_ok_take [OF ok, of n] have t: "char_ok (take n bs)" "char_len (take n bs) = ?w" by auto
      have "valid_up_to (take n bs) = ?w + valid_up_to (take (n - ?w) (drop ?w bs))"
        using t by (subst valid_up_to.simps) (simp add: drop_take)
      moreover have "n - ?w \<le> valid_up_to (take (n - ?w) (drop ?w bs)) + 3"
        using "1.IH" [OF ok rest, of "n - ?w"] "1.prems"(2) by simp
      ultimately show ?thesis using False by simp
    qed
  qed
qed

lemma length_write_bytes:
  "pos + length bytes \<le> length buf \<Longrightarrow> length (write_bytes pos bytes buf) = length buf"
  by (simp add: write_bytes_def)

lemma take_write_bytes:
  "pos \<le> length buf \<Longrightarrow> take (pos + length bytes) (write_bytes pos bytes buf) = take pos buf @ bytes"
  by (simp add: write_bytes_def)

lemma fold_write_str:
  assumes "length (msg_buf r) = MSG_BUF_SIZE" "pos \<le> MSG_BUF_SIZE"
  shows "fst (fold write_str pieces (pos, r)) = min MSG_BUF_SIZE (pos + length (concat pieces)) \<and>
    take (fst (fold write_str pieces (pos, r))) (msg_buf (snd (fold write_str pieces (pos, r)))) =
      take MSG_BUF_SIZE (take pos (msg_buf r) @ concat pieces) \<and>
    length (msg_buf (snd (fold write_str pieces (pos, r)))) = MSG_BUF_SIZE"
  using assms
proof (induction pieces arbitrary: pos r)
  case Nil
  then show ?case by simp
next
  case (Cons p ps)
  let ?n = "min (length p) (MSG_BUF_SIZE - pos)"
  let ?r = "r\<lparr>msg_buf := write_bytes pos (take ?n p) (msg_buf r)\<rparr>"
  have step: "write_str p (pos, r) = (pos + ?n, ?r)" by (simp add: write_str_def Let_def)
  have len: "length (msg_buf ?r) = MSG_BUF_SIZE"
    using Cons.prems by (simp add: length_write_bytes)
  have pos: "pos + ?n \<le> MSG_BUF_SIZE" using Cons.prems by simp
  have t: "take (pos + ?n) (msg_buf ?r) = take pos (msg_buf r) @ take ?n p"
    using take_write_bytes [of pos "msg_buf r" "take ?n p"] Cons.prems by simp
  note IH = Cons.IH [OF len pos, unfolded t]
  have fold_step: "fold write_str (p # ps) (pos, r) = fold write_str ps (pos + ?n, ?r)"
    by (simp only: fold.simps comp_apply step)
  have lp: "length (take pos (msg_buf r)) = pos" using Cons.prems by simp
  have "min MSG_BUF_SIZE (pos + ?n + length (concat ps)) =
      min MSG_BUF_SIZE (pos + length (concat (p # ps)))"
    using Cons.prems(2) by simp
  moreover have "take MSG_BUF_SIZE ((take pos (msg_buf r) @ take ?n p) @ concat ps) =
      take MSG_BUF_SIZE (take pos (msg_buf r) @ concat (p # ps))"
  proof (cases "length p \<le> MSG_BUF_SIZE - pos")
    case True
    then show ?thesis by simp
  next
    case False
    then show ?thesis using lp Cons.prems(2) by simp
  qed
  ultimately show ?case unfolding fold_step using IH by argo
qed


lemma region_after_panic:
  fixes pieces :: "u8 list list" and r :: PersistRegion
  assumes "length (msg_buf r) = MSG_BUF_SIZE"
  defines "r' \<equiv> record_and_reset pieces r"
  defines "B \<equiv> take MSG_BUF_SIZE (concat pieces)"
  shows "magic_valid r'"
    and "unat (msg_len r') = length B" and "take (length B) (msg_buf r') = B"
    and "panic_count r' = (if magic_valid r then panic_count r else 0) + 1"
    and "last_displayed_panic_count r' = (if magic_valid r then last_displayed_panic_count r else 0)"
    and "last_app_state r' = (if magic_valid r then last_app_state r else 0)"
proof -
  let ?z = "if \<not> magic_valid r then zero_region r else r"
  let ?s = "?z\<lparr>panic_count := panic_count ?z + 1\<rparr>"
  let ?w = "fold write_str pieces (0, ?s)"
  have r': "r' = (snd ?w)\<lparr>msg_len := of_nat (fst ?w)\<rparr>"
    by (simp add: r'_def record_and_reset_def Let_def split_beta)
  have buf: "length (msg_buf ?s) = MSG_BUF_SIZE" using assms(1) by (simp add: zero_region_def)
  note w = fold_write_str [OF buf, of 0 pieces]
  have lenB: "fst ?w = length B" using w by (simp add: B_def)
  have small: "length B < 2 ^ 32" by (simp add: B_def MSG_BUF_SIZE_def)
  show "unat (msg_len r') = length B"
    using small by (simp add: r' lenB unat_of_nat)
  show "take (length B) (msg_buf r') = B"
  proof -
    have "msg_buf r' = msg_buf (snd ?w)" by (simp add: r')
    moreover have "take (fst ?w) (msg_buf (snd ?w)) = B"
      using w [THEN conjunct2, THEN conjunct1] unfolding B_def by (simp only: take_0 append_Nil)
    ultimately show ?thesis unfolding lenB by (simp only:)
  qed
  note f = fold_write_str_frame [of pieces 0 ?s]
  show "magic_valid r'" using f by (simp add: r' magic_valid_def zero_region_def)
  show "panic_count r' = (if magic_valid r then panic_count r else 0) + 1"
    using f by (simp add: r' zero_region_def)
  show "last_displayed_panic_count r' = (if magic_valid r then last_displayed_panic_count r else 0)"
    using f by (simp add: r' zero_region_def)
  show "last_app_state r' = (if magic_valid r then last_app_state r else 0)"
    using f by (simp add: r' zero_region_def)
qed

lemma boot_message: "read_message (snd (init_at_boot wd uptime r)) =
    (if magic_valid r then read_message r else None)"
  by (cases "magic_valid r")
    (simp_all add: init_at_boot_def Let_def split_beta read_message_def magic_valid_def
      ring_append_def zero_region_def)

lemma boot_snapshot: "fst (init_at_boot wd uptime r) = read_live uptime (snd (init_at_boot wd uptime r))"
  by (simp add: init_at_boot_def Let_def split_beta)

lemma boot_fields:
  assumes "magic_valid r"
  shows "panic_count (snd (init_at_boot wd uptime r)) = panic_count r"
    and "last_displayed_panic_count (snd (init_at_boot wd uptime r)) = last_displayed_panic_count r"
    and "reason_from_u32 (reset_reason (snd (init_at_boot wd uptime r))) = boot_reason wd r"
    and "magic_valid (snd (init_at_boot wd uptime r))"
  using assms by (simp_all add: boot_warm ring_append_def Let_def magic_valid_def)

text \<open>
  A panic is reported by the next boot: whatever was in memory before, the boot after a panic
  says \<open>Panic\<close> (over a watchdog reset), flags the message as new, and shows it up to the last whole
  character of its first 512 bytes, so a well-formed text loses at most three bytes to the cut.
\<close>

theorem panic_is_reported:
  fixes pieces :: "u8 list list" and r :: PersistRegion and wd :: u32 and uptime :: u64
  defines "full \<equiv> concat pieces"
  assumes "region_wf r" "full \<noteq> []"
    and "magic_valid r \<longrightarrow> last_displayed_panic_count r \<le> panic_count r \<and> panic_count r \<noteq> - 1"
  defines "s \<equiv> fst (init_at_boot wd uptime (record_and_reset pieces r))"
  shows "ps_reset_reason s = Panic \<and> ps_message_is_new s \<and>
    (\<exists>m. ps_message s = Some m \<and> m = take (length m) full \<and> length m \<le> 512 \<and>
      (valid_up_to full = length full \<longrightarrow> min 512 (length full) \<le> length m + 3))"
proof -
  let ?r = "record_and_reset pieces r"
  have buf: "length (msg_buf r) = MSG_BUF_SIZE" using assms(2) by (simp add: region_wf_def)
  note p = region_after_panic [OF buf, of pieces]
  have new: "last_displayed_panic_count ?r < panic_count ?r"
  proof (cases "magic_valid r")
    case True
    with assms(4) have "last_displayed_panic_count r < panic_count r + 1"
      by (metis inc_less_eq_self_iff_eq less_le_not_le linorder_not_le order_le_less_trans)
    with True p(4,5) show ?thesis by simp
  next
    case False
    with p(4,5) show ?thesis by simp
  qed
  note b = boot_fields [OF p(1), of wd uptime]
  have reason: "ps_reset_reason s = Panic" "ps_message_is_new s"
    using new b by (simp_all add: s_def boot_snapshot read_live_def boot_reason_def classify_reset_def)
  let ?B = "take MSG_BUF_SIZE full"
  have B: "0 < length ?B" "length ?B \<le> MSG_BUF_SIZE" using assms(3) by (simp_all add: MSG_BUF_SIZE_def)
  have "ps_message s = read_message ?r"
    using boot_message [of wd uptime ?r] p(1) by (simp add: s_def boot_snapshot read_live_def)
  also have "\<dots> = Some (take (valid_up_to ?B) ?B)"
    using p(1-3) B unfolding read_message_def Let_def full_def by simp
  finally have msg: "ps_message s = Some (take (valid_up_to ?B) ?B)" .
  have v: "valid_up_to ?B \<le> length ?B" by (rule valid_up_to_le)
  have cut: "valid_up_to full = length full \<longrightarrow> min 512 (length full) \<le> valid_up_to ?B + 3"
    using valid_up_to_take [of full 512]
    by (cases "512 \<le> length full") (simp_all add: MSG_BUF_SIZE_def)
  have "\<exists>m. ps_message s = Some m \<and> m = take (length m) full \<and> length m \<le> 512 \<and>
      (valid_up_to full = length full \<longrightarrow> min 512 (length full) \<le> length m + 3)"
    using v cut by (intro exI [of _ "take (valid_up_to ?B) ?B"])
      (auto simp: msg MSG_BUF_SIZE_def min_def)
  with reason show ?thesis by blast
qed

text \<open>What a run does to the region, short of panicking or booting.\<close>

definition quiet_op :: "PersistOp \<Rightarrow> bool" where
  "quiet_op op \<longleftrightarrow> (case op of Boot _ _ \<Rightarrow> False | PanicReset _ \<Rightarrow> False | _ \<Rightarrow> True)"

lemma quiet_frame:
  "quiet_op op \<Longrightarrow> magic_valid (persist_apply op r) = magic_valid r \<and>
   (magic_valid r \<and> panic_count r = last_displayed_panic_count r \<longrightarrow>
     panic_count (persist_apply op r) = last_displayed_panic_count (persist_apply op r)) \<and>
   read_message (persist_apply op r) = read_message r"
  by (cases op) (auto simp: quiet_op_def mark_displayed_def record_app_state_def
      record_uptime_secs_def record_free_heap_def record_network_up_def record_api_fail_count_def
      bump_api_heartbeat_def bump_display_heartbeat_def bump_watchdog_heartbeat_def magic_valid_def
      read_message_def Let_def)

lemma quiet_run:
  "\<forall>op \<in> set ops. quiet_op op \<Longrightarrow> magic_valid r \<Longrightarrow>
   panic_count r = last_displayed_panic_count r \<Longrightarrow>
   magic_valid (fold persist_apply ops r) \<and>
   panic_count (fold persist_apply ops r) = last_displayed_panic_count (fold persist_apply ops r) \<and>
   read_message (fold persist_apply ops r) = read_message r"
proof (induction ops arbitrary: r)
  case (Cons op ops)
  then show ?case using quiet_frame [of op r] by simp
qed simp

text \<open>
  A panic is shown once: after the recovery view has been marked as displayed, a run that does
  not panic ends in a boot that neither blames a panic nor shows the view again, while the message
  itself stays readable.
\<close>

theorem panic_is_shown_once:
  fixes ops :: "PersistOp list" and r :: PersistRegion and wd :: u32 and uptime :: u64
  assumes "magic_valid r" "\<forall>op \<in> set ops. quiet_op op"
  defines "s \<equiv> fst (init_at_boot wd uptime (fold persist_apply ops (mark_displayed r)))"
  shows "\<not> ps_message_is_new s \<and> ps_reset_reason s \<noteq> Panic \<and> ps_message s = read_message r"
proof -
  have m: "magic_valid (mark_displayed r)" "read_message (mark_displayed r) = read_message r"
    "panic_count (mark_displayed r) = last_displayed_panic_count (mark_displayed r)"
    using assms(1) by (simp_all add: mark_displayed_def magic_valid_def read_message_def Let_def)
  note q = quiet_run [OF assms(2) m(1,3)]
  note b = boot_fields [OF conjunct1 [OF q], of wd uptime]
  have "ps_reset_reason s \<noteq> Panic"
    using b(3) q by (simp add: s_def boot_snapshot read_live_def boot_reason_def classify_reset_def)
  moreover have "\<not> ps_message_is_new s"
    using b q by (simp add: s_def boot_snapshot read_live_def)
  moreover have "ps_message s = read_message r"
    using q m by (simp add: s_def boot_snapshot read_live_def boot_message)
  ultimately show ?thesis by blast
qed

end
