(* ===== verification/Text.thy ===== *)
theory Text
  imports Prelude
begin

text \<open>
  What the code asks of \<open>str\<close> beyond its bytes: the \<open>char\<close>s of a string, words, ASCII case and
  zero-padded numbers. A \<open>char\<close> is the bytes that encode it: a leading byte and the continuation
  bytes after it.
\<close>

section \<open>Chars\<close>

definition is_cont :: "char \<Rightarrow> bool" where
  "is_cont c \<longleftrightarrow> 128 \<le> (of_char c :: nat) \<and> (of_char c :: nat) < 192"

function utf8_chars :: "string \<Rightarrow> string list" where
  "utf8_chars [] = []"
| "utf8_chars (c # cs) = (c # takeWhile is_cont cs) # utf8_chars (dropWhile is_cont cs)"
  by pat_completeness auto
termination
  by (relation "measure length") (auto simp: le_imp_less_Suc length_dropWhile_le)

definition valid_char :: "string \<Rightarrow> bool" where
  "valid_char c \<longleftrightarrow> c \<noteq> [] \<and> \<not> is_cont (hd c) \<and> (\<forall>b \<in> set (tl c). is_cont b)"

text \<open>A string does not start inside a char, which is all the lemmas need of UTF-8.\<close>

definition utf8_ok :: "string \<Rightarrow> bool" where
  "utf8_ok s \<longleftrightarrow> s = [] \<or> \<not> is_cont (hd s)"

lemma concat_utf8_chars [simp]: "concat (utf8_chars s) = s"
  by (induction s rule: utf8_chars.induct) simp_all

lemma utf8_ok_dropWhile: "utf8_ok (dropWhile is_cont cs)"
  using hd_dropWhile [of is_cont cs] by (auto simp: utf8_ok_def)

lemma utf8_chars_valid: "utf8_ok s \<Longrightarrow> \<forall>c \<in> set (utf8_chars s). valid_char c"
proof (induction s rule: utf8_chars.induct)
  case 1
  then show ?case by simp
next
  case (2 c cs)
  then show ?case
    by (auto simp: valid_char_def utf8_ok_def [of "c # cs"] utf8_ok_dropWhile dest: set_takeWhileD)
qed

lemma utf8_chars_append:
  assumes "valid_char c" "utf8_ok s"
  shows "utf8_chars (c @ s) = c # utf8_chars s"
proof -
  obtain b bs where c: "c = b # bs" "\<forall>x \<in> set bs. is_cont x"
    using assms(1) by (cases c) (auto simp: valid_char_def)
  have "takeWhile is_cont (bs @ s) = bs" "dropWhile is_cont (bs @ s) = s"
    using c(2) assms(2) by (cases s; auto simp: utf8_ok_def takeWhile_append dropWhile_append)+
  then show ?thesis by (simp add: c)
qed

lemma utf8_ok_concat: "\<forall>c \<in> set cs. valid_char c \<Longrightarrow> utf8_ok (concat cs)"
  by (cases cs) (auto simp: utf8_ok_def valid_char_def)

lemma utf8_chars_concat: "\<forall>c \<in> set cs. valid_char c \<Longrightarrow> utf8_chars (concat cs) = cs"
  by (induction cs) (auto simp: utf8_chars_append utf8_ok_concat)

section \<open>Words and case\<close>

text \<open>\<open>char::is_whitespace\<close>: Unicode's \<open>White_Space\<close>, by encoding.\<close>

fun white_space :: "string \<Rightarrow> bool" where
  "white_space [a] = (let n = (of_char a :: nat) in n = 32 \<or> (9 \<le> n \<and> n \<le> 13))"
| "white_space [a, b] = (a = CHR 0xC2 \<and> (b = CHR 0x85 \<or> b = CHR 0xA0))"
| "white_space [a, b, c] =
     (let n = (of_char c :: nat)
      in a = CHR 0xE1 \<and> b = CHR 0x9A \<and> n = 0x80 \<or>
         a = CHR 0xE2 \<and> b = CHR 0x80 \<and> (0x80 \<le> n \<and> n \<le> 0x8A \<or> n = 0xA8 \<or> n = 0xA9 \<or> n = 0xAF) \<or>
         a = CHR 0xE2 \<and> b = CHR 0x81 \<and> n = 0x9F \<or>
         a = CHR 0xE3 \<and> b = CHR 0x80 \<and> n = 0x80)"
| "white_space _ = False"

function split_words :: "string list \<Rightarrow> string list" where
  "split_words cs =
     (let cs = dropWhile white_space cs
      in if cs = [] then [] else
           concat (takeWhile (\<lambda>c. \<not> white_space c) cs) # split_words (dropWhile (\<lambda>c. \<not> white_space c) cs))"
  by pat_completeness auto
termination
proof (relation "measure length")
  fix s x :: "string list"
  assume x: "x = dropWhile white_space s" "x \<noteq> []"
  then have "\<not> white_space (hd x)" using hd_dropWhile [of white_space s] by simp
  with x(2) have "length (dropWhile (\<lambda>c. \<not> white_space c) x) < length x"
    by (cases x) (auto simp: le_imp_less_Suc length_dropWhile_le)
  moreover have "length x \<le> length s" using x(1) by (simp add: length_dropWhile_le)
  ultimately show "(dropWhile (\<lambda>c. \<not> white_space c) x, s) \<in> measure length" by simp
qed simp

declare split_words.simps [simp del]

definition split_whitespace :: "string \<Rightarrow> string list" where
  "split_whitespace s = split_words (utf8_chars s)"

section \<open>Trimming\<close>

text \<open>\<open>str::trim\<close>.\<close>

definition trim :: "string \<Rightarrow> string" where
  "trim s = concat (rev (dropWhile white_space (rev (dropWhile white_space (utf8_chars s)))))"

text \<open>A run of \<open>char\<close>s of a string: every \<open>char\<close> but the first starts one.\<close>

definition chars_ok :: "string list \<Rightarrow> bool" where
  "chars_ok cs \<longleftrightarrow> (\<forall>c \<in> set cs. c \<noteq> [] \<and> (\<forall>b \<in> set (tl c). is_cont b)) \<and> (\<forall>c \<in> set (tl cs). \<not> is_cont (hd c))"

lemma chars_ok_utf8_chars [simp]: "chars_ok (utf8_chars s)"
proof (cases s)
  case (Cons c cs)
  have "\<forall>x \<in> set (utf8_chars (dropWhile is_cont cs)). valid_char x"
    by (rule utf8_chars_valid [OF utf8_ok_dropWhile])
  then show ?thesis by (auto simp: Cons chars_ok_def valid_char_def dest: set_takeWhileD)
qed (simp add: chars_ok_def)

lemma utf8_chars_concat_ok: "chars_ok cs \<Longrightarrow> utf8_chars (concat cs) = cs"
proof (cases cs)
  case (Cons c ds)
  assume ok: "chars_ok cs"
  then have v: "\<forall>d \<in> set ds. valid_char d" by (auto simp: Cons chars_ok_def valid_char_def)
  obtain b bs where c: "c = b # bs" "\<forall>x \<in> set bs. is_cont x"
    using ok by (cases c) (auto simp: Cons chars_ok_def)
  have "takeWhile is_cont (bs @ concat ds) = bs" "dropWhile is_cont (bs @ concat ds) = concat ds"
    using c(2) utf8_ok_concat [OF v]
    by (cases "concat ds"; auto simp: utf8_ok_def takeWhile_append dropWhile_append
      simp del: concat_eq_Nil_conv)+
  then show ?thesis by (simp add: Cons c utf8_chars_concat [OF v])
qed simp

lemma chars_ok_sub: "chars_ok (xs @ ys @ zs) \<Longrightarrow> chars_ok ys"
  by (cases xs; cases ys) (auto simp: chars_ok_def)

definition trim_chars :: "string list \<Rightarrow> string list" where
  "trim_chars cs = rev (dropWhile white_space (rev (dropWhile white_space cs)))"

lemma trim_eq: "trim s = concat (trim_chars (utf8_chars s))"
  by (simp add: trim_def trim_chars_def)

lemma trim_chars_sub: "\<exists>xs zs. cs = xs @ trim_chars cs @ zs"
proof -
  let ?d = "dropWhile white_space cs"
  have "rev ?d = takeWhile white_space (rev ?d) @ dropWhile white_space (rev ?d)" by simp
  then have "?d = trim_chars cs @ rev (takeWhile white_space (rev ?d))"
    unfolding trim_chars_def by (metis rev_append rev_rev_ident)
  then have "cs = takeWhile white_space cs @ trim_chars cs @ rev (takeWhile white_space (rev ?d))"
    by (metis takeWhile_dropWhile_id)
  then show ?thesis by blast
qed

lemma trim_chars_ends:
  "trim_chars cs \<noteq> [] \<Longrightarrow> \<not> white_space (hd (trim_chars cs)) \<and> \<not> white_space (last (trim_chars cs))"
proof -
  assume ne: "trim_chars cs \<noteq> []"
  let ?d = "dropWhile white_space cs"
  have l: "\<not> white_space (last (trim_chars cs))"
    using ne hd_dropWhile [of white_space "rev ?d"] by (auto simp: trim_chars_def last_rev)
  have d: "?d \<noteq> []"
  proof
    assume "?d = []"
    then show False using ne by (simp only: trim_chars_def) simp
  qed
  have "?d = trim_chars cs @ rev (takeWhile white_space (rev ?d))"
    unfolding trim_chars_def by (metis rev_append rev_rev_ident takeWhile_dropWhile_id)
  then have "hd ?d = hd (trim_chars cs)" using ne by (metis hd_append2)
  moreover have "\<not> white_space (hd ?d)" using d by (rule hd_dropWhile)
  ultimately show ?thesis using l by simp
qed

lemma trim_chars_idem [simp]: "trim_chars (trim_chars cs) = trim_chars cs"
proof (cases "trim_chars cs = []")
  case False
  have "dropWhile white_space (trim_chars cs) = trim_chars cs"
    using trim_chars_ends [OF False] False by (cases "trim_chars cs") auto
  moreover have "dropWhile white_space (rev (trim_chars cs)) = rev (trim_chars cs)"
    using trim_chars_ends [OF False] False by (cases "rev (trim_chars cs)") (auto simp: last_rev dest: rev_eq_Cons_iff [THEN iffD1])
  ultimately show ?thesis by (simp add: trim_chars_def)
next
  case True
  then show ?thesis by (simp only: True) (simp add: trim_chars_def)
qed

lemma utf8_chars_trim: "utf8_chars (trim s) = trim_chars (utf8_chars s)"
proof -
  obtain xs zs where "utf8_chars s = xs @ trim_chars (utf8_chars s) @ zs"
    using trim_chars_sub [of "utf8_chars s"] by blast
  then have "chars_ok (trim_chars (utf8_chars s))" by (metis chars_ok_sub chars_ok_utf8_chars)
  then show ?thesis by (simp add: trim_eq utf8_chars_concat_ok)
qed

lemma trim_idem [simp]: "trim (trim s) = trim s"
  unfolding trim_eq [of "trim s"] utf8_chars_trim trim_chars_idem by (rule trim_eq [symmetric])

section \<open>ASCII case and padding\<close>

definition to_ascii_lowercase :: "char \<Rightarrow> char" where
  "to_ascii_lowercase c =
     (let n = (of_char c :: nat) in if 65 \<le> n \<and> n \<le> 90 then char_of (n + 32) else c)"

definition to_ascii_uppercase :: "char \<Rightarrow> char" where
  "to_ascii_uppercase c =
     (let n = (of_char c :: nat) in if 97 \<le> n \<and> n \<le> 122 then char_of (n - 32) else c)"

definition eq_ignore_ascii_case :: "string \<Rightarrow> string \<Rightarrow> bool" where
  "eq_ignore_ascii_case a b = (map to_ascii_lowercase a = map to_ascii_lowercase b)"

text \<open>\<open>str::strip_prefix\<close>.\<close>

definition strip_prefix :: "string \<Rightarrow> string \<Rightarrow> string option" where
  "strip_prefix p s = (if starts_with s p then Some (drop (length p) s) else None)"

text \<open>\<open>{:02}\<close>.\<close>

definition show_nat_2 :: "nat \<Rightarrow> string" where
  "show_nat_2 n = (if n < 10 then CHR ''0'' # show_nat n else show_nat n)"

end
