(* ===== verification/Lcd_Plan.thy ===== *)
theory Lcd_Plan
  imports Fsm Core_Api Text
begin

text \<open>
  The 16x2 character display (\<open>crates/anova-oven-pico-core/src/lcd_plan.rs\<close> and the controller of
  \<open>anova-oven-pico/src/lcd.rs\<close>): what a view shows, the marquee and the rotation of the bottom row,
  the runs of cells to write, and the panel's cells after them. An \<open>Instant\<close> is its ticks, \<open>hz\<close>
  the ticks per second; the clock does not run backwards, so \<open>duration_since\<close> does not panic.
\<close>

section \<open>Plans\<close>

definition LCD_WIDTH :: nat where "LCD_WIDTH = 16"

definition from_millis :: "nat \<Rightarrow> nat \<Rightarrow> ticks" where
  "from_millis hz ms = (ms * hz + 999) div 1000"

definition MIN_SLOT_HOLD :: "nat \<Rightarrow> ticks" where "MIN_SLOT_HOLD hz = from_millis hz 3000"
definition SCROLL_STEP :: "nat \<Rightarrow> ticks" where "SCROLL_STEP hz = from_millis hz 350"
definition CHAR_SCROLL_COUNT :: nat where "CHAR_SCROLL_COUNT = 3"
definition END_PAUSE :: "nat \<Rightarrow> ticks" where "END_PAUSE hz = from_millis hz 1200"

record LcdPlan =
  row0_text :: string
  row1_slots :: "string list"

definition rows :: "string \<Rightarrow> string \<Rightarrow> LcdPlan" where
  "rows r0 r1 = \<lparr>row0_text = r0, row1_slots = [r1]\<rparr>"

definition recipe_browser_header :: "RecipeSource \<Rightarrow> nat \<Rightarrow> nat \<Rightarrow> string" where
  "recipe_browser_header source index count =
     (case source of Own \<Rightarrow> ''My recipe'' | Bookmarked \<Rightarrow> ''Bookmark'') @
     '' '' @ show_nat (index + 1) @ ''/'' @ show_nat count"

definition show_hms :: "u64 \<Rightarrow> string" where
  "show_hms remaining =
     (let h = unat (remaining div 3600); m = unat ((remaining mod 3600) div 60);
          s = unat (remaining mod 60)
      in if 0 < h then show_nat h @ '':'' @ show_nat_2 m @ '':'' @ show_nat_2 s
         else show_nat_2 m @ '':'' @ show_nat_2 s)"

definition fahrenheit :: "f32 \<Rightarrow> string" where
  "fahrenheit c = show_f32_0 (celcius_to_fahrenheit c)"

definition lcd_plan_cook :: "OvenStatus \<Rightarrow> CurrentCook \<Rightarrow> u64 \<Rightarrow> LcdPlan" where
  "lcd_plan_cook status cook age =
     (let stage = current_stage status (cc_stages cook);
          ph = phase status;
          stage_title = Option.bind stage st_title;
          stage_slot = (case stage_title of
              Some title \<Rightarrow> [''Stage: '' @ title]
            | None \<Rightarrow> if cc_recipe_title cook = ''[manual]'' then [] else [''Stage: '' @ ph]);
          temp = fahrenheit (current_temperature_c status) @ ''F'' @
            (case target_temperature_c status of
               Some t \<Rightarrow> ''>'' @ fahrenheit t @ ''F'' | None \<Rightarrow> []);
          phase_slot = (case stage_title of
              Some title \<Rightarrow> if eq_ignore_ascii_case title ph then [] else [''Phase: '' @ ph]
            | None \<Rightarrow> []);
          last_slot = (case timer_remaining_secs_after status age of
              Some remaining \<Rightarrow> [''Timer: '' @ show_hms remaining]
            | None \<Rightarrow>
                (case probe_temperature_c status of
                   Some p \<Rightarrow> [''P:'' @ fahrenheit p @ ''F'' @
                     (case Option.bind stage st_probe_target_c of
                        Some t \<Rightarrow> ''>'' @ fahrenheit t @ ''F'' | None \<Rightarrow> [])]
                 | None \<Rightarrow> []))
      in \<lparr>row0_text = display_name cook, row1_slots = stage_slot @ [temp] @ phase_slot @ last_slot\<rparr>)"

definition lcd_plan_status :: "OvenStatus option \<Rightarrow> CurrentCook option \<Rightarrow> u64 \<Rightarrow> LcdPlan" where
  "lcd_plan_status status cook age =
     (case status of
        None \<Rightarrow> rows [] ''Status: N/A''
      | Some status \<Rightarrow>
          (case cook of
             Some cook \<Rightarrow> lcd_plan_cook status cook age
           | None \<Rightarrow>
               if is_cooking status then
                 rows ''Manual cook''
                   (case steam_target_pct status of
                      Some steam \<Rightarrow> phase status @ '' S:'' @ show_f32_0 steam @ ''%''
                    | None \<Rightarrow> phase status)
               else
                 rows
                   (fahrenheit (current_temperature_c status) @ degree_sign @ ''F'' @
                     (case probe_temperature_c status of
                        Some p \<Rightarrow> '' P:'' @ fahrenheit p @ degree_sign @ ''F'' | None \<Rightarrow> []))
                   (case steam_target_pct status of
                      Some steam \<Rightarrow> mode status @ '' S:'' @ show_f32_0 steam @ ''%''
                    | None \<Rightarrow> mode status)))"

fun plan_lcd :: "ViewSpec \<Rightarrow> u64 \<Rightarrow> LcdPlan" where
  "plan_lcd WifiInit age = rows ''Anova Oven'' ''Init: WIFI...''"
| "plan_lcd DhcpInit age = rows ''Anova Oven'' ''Init: DHCP...''"
| "plan_lcd Connecting age = rows ''Anova Oven'' ''Connecting...''"
| "plan_lcd ServerOffline age = rows ''Server Offline'' ''Check backend''"
| "plan_lcd (StaleView AnovaLink secs) age =
     rows ''Anova Link Down'' (''Stale '' @ format_age secs @ '' - check'')"
| "plan_lcd (StaleView OvenOffline secs) age =
     rows ''Oven Offline'' (format_age secs @ '' - check its WiFi'')"
| "plan_lcd (StaleView NoOvenState secs) age =
     rows ''Waiting for Oven'' (format_age secs @ '' - no data yet'')"
| "plan_lcd (StatusView status cook anchor) age = lcd_plan_status status cook age"
| "plan_lcd (RecipeBrowser source count index title) age =
     (if count = 0 then rows ''No recipes'' []
      else rows (recipe_browser_header source index count) title)"
| "plan_lcd (StopConfirmation status cook) age =
     rows (case cook of Some c \<Rightarrow> display_name c
           | None \<Rightarrow> (case status of Some s \<Rightarrow> phase s | None \<Rightarrow> ''Active cook''))
       ''Stop cooking?''"
| "plan_lcd (StartingCook title) age = rows title ''Starting...''"
| "plan_lcd (NextStagePrompt title) age =
     rows (if title = [] then ''Active cook'' else title) ''Next stage ready''"
| "plan_lcd (Recovery reset_count panic_count message) age =
     rows ((if 0 < panic_count then ''Panic'' else ''Reset'') @ '' p='' @ show_nat (unat panic_count) @
           '' r='' @ show_nat (unat reset_count))
       (case message of Some (c # cs) \<Rightarrow> c # cs | _ \<Rightarrow> ''no msg'')"

definition pad_to_width :: "string \<Rightarrow> string" where
  "pad_to_width s =
     (let out = take LCD_WIDTH (utf8_chars s)
      in concat out @ replicate (LCD_WIDTH - length out) CHR '' '')"

section \<open>Marquee\<close>

record RowAnim =
  ra_text :: string
  offset :: nat
  last_step_at :: ticks
  pause_until :: ticks
  shown_at :: ticks
  cycle_complete :: bool

definition row_anim_new :: "nat \<Rightarrow> string \<Rightarrow> ticks \<Rightarrow> RowAnim" where
  "row_anim_new hz text now =
     \<lparr>ra_text = text, offset = 0, last_step_at = now, pause_until = now + END_PAUSE hz,
      shown_at = now, cycle_complete = False\<rparr>"

definition scrolls :: "RowAnim \<Rightarrow> bool" where
  "scrolls a \<longleftrightarrow> LCD_WIDTH < length (utf8_chars (ra_text a))"

definition visible_window :: "nat \<Rightarrow> ticks \<Rightarrow> RowAnim \<Rightarrow> (string \<times> bool) \<times> RowAnim" where
  "visible_window hz now a =
     (let chars = utf8_chars (ra_text a); len = length chars
      in if len \<le> LCD_WIDTH then
           ((ra_text a, True),
            a\<lparr>offset := 0, last_step_at := now, pause_until := now,
              cycle_complete := cycle_complete a \<or> MIN_SLOT_HOLD hz \<le> now - shown_at a\<rparr>)
         else
           (let overflow = len - LCD_WIDTH;
                stepped = (pause_until a \<le> now \<and> SCROLL_STEP hz \<le> now - last_step_at a);
                a = (if \<not> stepped then a
                     else
                       (let a = a\<lparr>last_step_at := now\<rparr>
                        in if offset a < overflow then
                             (let a = a\<lparr>offset := min (offset a + CHAR_SCROLL_COUNT) overflow\<rparr>
                              in if overflow \<le> offset a
                                 then a\<lparr>pause_until := now + END_PAUSE hz, cycle_complete := True\<rparr> else a)
                           else a\<lparr>offset := 0, pause_until := now + END_PAUSE hz\<rparr>))
            in ((concat (take LCD_WIDTH (drop (offset a) chars)), stepped), a)))"

definition anim_cycle_done :: "ticks \<Rightarrow> RowAnim \<Rightarrow> bool" where
  "anim_cycle_done now a \<longleftrightarrow> cycle_complete a \<and> pause_until a \<le> now"

section \<open>Spans\<close>

record CellSpan =
  col :: u8
  span_text :: string

text \<open>The loop of \<open>changed_spans\<close>: at cell \<open>i\<close>, with the open run.\<close>

fun spans_from :: "nat \<Rightarrow> CellSpan option \<Rightarrow> (string \<times> string) list \<Rightarrow> CellSpan list" where
  "spans_from i run [] = (case run of Some sp \<Rightarrow> [sp] | None \<Rightarrow> [])"
| "spans_from i run ((p, n) # cells) =
     (if p \<noteq> n then
        (let sp = (case run of Some sp \<Rightarrow> sp | None \<Rightarrow> \<lparr>col = of_nat i, span_text = []\<rparr>)
         in spans_from (i + 1) (Some (sp\<lparr>span_text := span_text sp @ n\<rparr>)) cells)
      else (case run of Some sp \<Rightarrow> [sp] | None \<Rightarrow> []) @ spans_from (i + 1) None cells)"

definition changed_spans :: "string \<Rightarrow> string \<Rightarrow> CellSpan list" where
  "changed_spans prev next =
     (if length (utf8_chars prev) \<noteq> length (utf8_chars next) then [\<lparr>col = 0, span_text = next\<rparr>]
      else spans_from 0 None (zip (utf8_chars prev) (utf8_chars next)))"

record RowState =
  anim :: "RowAnim option"
  last_rendered :: "string option"

definition advance :: "nat \<Rightarrow> string \<Rightarrow> ticks \<Rightarrow> RowState \<Rightarrow> CellSpan list \<times> RowState" where
  "advance hz text now r =
     (let text_changed = (case anim r of Some a \<Rightarrow> ra_text a \<noteq> text | None \<Rightarrow> True);
          a = (if text_changed then row_anim_new hz text now else the (anim r));
          ((visible, stepped), a') = visible_window hz now a
      in if scrolls a \<and> \<not> text_changed \<and> \<not> stepped then ([], r\<lparr>anim := Some a'\<rparr>)
         else
           (let rendered = pad_to_width visible;
                spans = (case last_rendered r of
                    Some prev \<Rightarrow> changed_spans prev rendered
                  | None \<Rightarrow> [\<lparr>col = 0, span_text = rendered\<rparr>])
            in (spans, \<lparr>anim = Some a', last_rendered = Some rendered\<rparr>)))"

definition row_cycle_done :: "ticks \<Rightarrow> RowState \<Rightarrow> bool" where
  "row_cycle_done now r = (case anim r of Some a \<Rightarrow> anim_cycle_done now a | None \<Rightarrow> False)"

definition restart :: "RowState \<Rightarrow> RowState" where
  "restart r = r\<lparr>anim := None\<rparr>"

section \<open>Animator and panel\<close>

record LcdFrame =
  frame_row0 :: "CellSpan list"
  frame_row1 :: "CellSpan list"

record LcdAnimator =
  an_row0 :: RowState
  an_row1 :: RowState
  slot :: nat

definition animator_new :: LcdAnimator where
  "animator_new =
     \<lparr>an_row0 = \<lparr>anim = None, last_rendered = None\<rparr>, an_row1 = \<lparr>anim = None, last_rendered = None\<rparr>,
      slot = 0\<rparr>"

text \<open>The slot to show, and whether the bottom row starts over.\<close>

definition choose_slot :: "nat \<Rightarrow> ticks \<Rightarrow> LcdAnimator \<Rightarrow> LcdAnimator" where
  "choose_slot n now an =
     (let slots = max n 1
      in if 1 < slots \<and> row_cycle_done now (an_row1 an)
         then an\<lparr>slot := (slot an + 1) mod slots, an_row1 := restart (an_row1 an)\<rparr>
         else if slots \<le> slot an
         then an\<lparr>slot := slots - 1, an_row1 := restart (an_row1 an)\<rparr> else an)"

definition tick :: "nat \<Rightarrow> LcdPlan \<Rightarrow> ticks \<Rightarrow> LcdAnimator \<Rightarrow> LcdFrame \<times> LcdAnimator" where
  "tick hz plan now an =
     (let an = choose_slot (length (row1_slots plan)) now an;
          row1_text = (case get_nth (row1_slots plan) (slot an) of Some t \<Rightarrow> t | None \<Rightarrow> []);
          (f0, r0) = advance hz (row0_text plan) now (an_row0 an);
          (f1, r1) = advance hz row1_text now (an_row1 an)
      in (\<lparr>frame_row0 = f0, frame_row1 = f1\<rparr>, an\<lparr>an_row0 := r0, an_row1 := r1\<rparr>))"

text \<open>A row of the panel: \<open>write_span\<close> seeks to a column and writes one cell per char.\<close>

definition write_span :: "string list \<Rightarrow> CellSpan \<Rightarrow> string list" where
  "write_span cells sp =
     (let c = unat (col sp); cs = utf8_chars (span_text sp)
      in take c cells @ cs @ drop (c + length cs) cells)"

definition write_row :: "string list \<Rightarrow> CellSpan list \<Rightarrow> string list" where
  "write_row = foldl write_span"

text \<open>\<open>render\<close>: plan, animate, write.\<close>

record Panel =
  animator :: LcdAnimator
  cells0 :: "string list"
  cells1 :: "string list"

definition render :: "nat \<Rightarrow> Panel \<Rightarrow> ticks \<times> ViewSpec \<Rightarrow> Panel" where
  "render hz p = (\<lambda>(now, view).
     (let plan = plan_lcd view (timer_age_secs hz view now);
          (frame, an) = tick hz plan now (animator p)
      in \<lparr>animator = an, cells0 = write_row (cells0 p) (frame_row0 frame),
          cells1 = write_row (cells1 p) (frame_row1 frame)\<rparr>))"

section \<open>Cells\<close>

abbreviation valid_cells :: "string list \<Rightarrow> bool" where
  "valid_cells cs \<equiv> \<forall>c \<in> set cs. valid_char c"

lemma valid_space [simp]: "valid_char [CHR '' '']"
  by (simp add: valid_char_def is_cont_def)

lemma concat_spaces [simp]: "concat (replicate n [CHR '' '']) = replicate n CHR '' ''"
  by (induction n) simp_all

text \<open>The row a text is cut and padded to.\<close>

definition row_cells :: "string list \<Rightarrow> string list" where
  "row_cells cs = take 16 cs @ replicate (16 - length cs) [CHR '' '']"

lemma length_row_cells [simp]: "length (row_cells cs) = 16"
  by (simp add: row_cells_def)

lemma valid_row_cells: "valid_cells cs \<Longrightarrow> valid_cells (row_cells cs)"
  by (auto simp: row_cells_def dest: in_set_takeD)

lemma pad_to_width_eq: "pad_to_width s = concat (row_cells (utf8_chars s))"
  by (simp add: pad_to_width_def row_cells_def LCD_WIDTH_def Let_def min_def)

lemma pad_to_width_cells:
  assumes "utf8_ok s"
  shows "utf8_chars (pad_to_width s) = row_cells (utf8_chars s)" and "utf8_ok (pad_to_width s)"
proof -
  have v: "valid_cells (row_cells (utf8_chars s))"
    using assms by (intro valid_row_cells utf8_chars_valid)
  then show "utf8_chars (pad_to_width s) = row_cells (utf8_chars s)" "utf8_ok (pad_to_width s)"
    unfolding pad_to_width_eq by (rule utf8_chars_concat, rule utf8_ok_concat)
qed

section \<open>Writing the changed cells\<close>

lemma write_span_at:
  assumes "length old = length ts" "valid_cells ts" "length pre < 256"
  shows "write_span (pre @ old @ post) \<lparr>col = of_nat (length pre), span_text = concat ts\<rparr> = pre @ ts @ post"
proof -
  have "unat (of_nat (length pre) :: u8) = length pre"
    using assms(3) by (simp add: unat_of_nat)
  with assms show ?thesis by (simp add: write_span_def utf8_chars_concat Let_def)
qed

lemma write_row_simps [simp]:
  "write_row cells [] = cells" "write_row cells (sp # sps) = write_row (write_span cells sp) sps"
  by (simp_all add: write_row_def)

lemma write_spans_from:
  assumes "valid_cells (map snd cells)"
  shows "length pre + length cells < 256 \<Longrightarrow>
      write_row (pre @ map fst cells) (spans_from (length pre) None cells) = pre @ map snd cells"
    and "length pre + length old + length cells < 256 \<Longrightarrow> length old = length ts \<Longrightarrow> valid_cells ts \<Longrightarrow>
      write_row (pre @ old @ map fst cells)
        (spans_from (length pre + length old) (Some \<lparr>col = of_nat (length pre), span_text = concat ts\<rparr>) cells) =
      pre @ ts @ map snd cells"
  using assms
proof (induction cells arbitrary: pre old ts)
  case Nil
  {
    case 1
    then show ?case by simp
  next
    case 2
    then show ?case using write_span_at [of old ts pre "[]"] by simp
  }
next
  case (Cons c cells)
  obtain p n where c: "c = (p, n)" by (rule prod.exhaust)
  {
    case 1
    show ?case
    proof (cases "p = n")
      case True
      with Cons.IH(1) [of "pre @ [p]"] 1 c show ?thesis by simp
    next
      case False
      with Cons.IH(2) [of pre "[p]" "[n]"] 1 c show ?thesis by simp
    qed
  next
    case 2
    show ?case
    proof (cases "p = n")
      case True
      with Cons.IH(1) [of "pre @ ts @ [p]"] 2 c write_span_at [of old ts pre "p # map fst cells"]
      show ?thesis by (simp add: add.commute)
    next
      case False
      with Cons.IH(2) [of pre "old @ [p]" "ts @ [n]"] 2 c show ?thesis by simp
    qed
  }
qed

definition cells_written :: "CellSpan list \<Rightarrow> nat" where
  "cells_written sps = sum_list (map (\<lambda>sp. length (utf8_chars (span_text sp))) sps)"

lemma cells_written_from:
  assumes "valid_cells (map snd cells)" "\<And>sp. run = Some sp \<Longrightarrow> \<exists>ts. span_text sp = concat ts \<and> valid_cells ts"
  shows "cells_written (spans_from i run cells) =
    length (filter (\<lambda>(p, n). p \<noteq> n) cells) +
    (case run of Some sp \<Rightarrow> length (utf8_chars (span_text sp)) | None \<Rightarrow> 0)"
  using assms
proof (induction cells arbitrary: i run)
  case Nil
  then show ?case by (simp add: cells_written_def split: option.split)
next
  case (Cons c cells)
  obtain p n where c: "c = (p, n)" by (rule prod.exhaust)
  show ?case
  proof (cases "p = n")
    case True
    with Cons.IH [of None "Suc i"] Cons.prems c show ?thesis
      by (auto simp: cells_written_def split: option.split)
  next
    case False
    have n: "valid_char n" using Cons.prems(1) c by simp
    have rest: "valid_cells (map snd cells)" using Cons.prems(1) by simp
    show ?thesis
    proof (cases run)
      case None
      have "utf8_chars n = [n]" using utf8_chars_concat [of "[n]"] n by simp
      with Cons.IH [OF rest, of "Some \<lparr>col = of_nat i, span_text = n\<rparr>" "Suc i"] None False c n show ?thesis
        by (fastforce intro: exI [of _ "[n]"])
    next
      case (Some sp)
      with Cons.prems(2) obtain ts where ts: "span_text sp = concat ts" "valid_cells ts" by blast
      have "utf8_chars (concat ts) = ts" "utf8_chars (concat (ts @ [n])) = ts @ [n]"
        using ts(2) n by (intro utf8_chars_concat; auto)+
      with Cons.IH [OF rest, of "Some (sp\<lparr>span_text := concat (ts @ [n])\<rparr>)" "Suc i"] Some False c n ts
      show ?thesis
        by (fastforce intro: exI [of _ "ts @ [n]"])
    qed
  qed
qed

lemma write_changed_spans:
  assumes "utf8_ok prev" "utf8_ok next" "length (utf8_chars prev) = length (utf8_chars next)"
    and "length (utf8_chars prev) < 256"
  shows "write_row (utf8_chars prev) (changed_spans prev next) = utf8_chars next"
    and "cells_written (changed_spans prev next) =
      length (filter (\<lambda>(p, n). p \<noteq> n) (zip (utf8_chars prev) (utf8_chars next)))"
proof -
  let ?z = "zip (utf8_chars prev) (utf8_chars next)"
  have z: "map fst ?z = utf8_chars prev" "map snd ?z = utf8_chars next"
    using assms(3) by simp_all
  have v: "valid_cells (map snd ?z)" using utf8_chars_valid [OF assms(2)] by (simp add: z)
  from write_spans_from(1) [OF v, of "[]"] assms(3,4) z
  show "write_row (utf8_chars prev) (changed_spans prev next) = utf8_chars next"
    by (simp add: changed_spans_def)
  from cells_written_from [OF v, of None 0] assms(3)
  show "cells_written (changed_spans prev next) = length (filter (\<lambda>(p, n). p \<noteq> n) ?z)"
    by (simp add: changed_spans_def)
qed

section \<open>A row of the panel\<close>

definition overflow :: "RowAnim \<Rightarrow> nat" where
  "overflow a = length (utf8_chars (ra_text a)) - LCD_WIDTH"

definition window :: "RowAnim \<Rightarrow> string" where
  "window a = (if scrolls a then concat (take LCD_WIDTH (drop (offset a) (utf8_chars (ra_text a))))
     else ra_text a)"

text \<open>The cells that show a text from a position on.\<close>

definition shows_from :: "nat \<Rightarrow> string \<Rightarrow> string list" where
  "shows_from n text = row_cells (drop n (utf8_chars text))"

lemma length_shows_from [simp]: "length (shows_from n text) = 16"
  by (simp add: shows_from_def)

lemma visible_window_result:
  assumes "visible_window hz now a = ((visible, stepped), a')" "offset a \<le> overflow a"
  shows "visible = window a'" "ra_text a' = ra_text a" "offset a' \<le> overflow a'"
    "scrolls a \<Longrightarrow> \<not> stepped \<Longrightarrow> a' = a"
  using assms by (auto simp: visible_window_def Let_def window_def scrolls_def overflow_def split: if_splits)

lemma utf8_ok_window: "utf8_ok (ra_text a) \<Longrightarrow> utf8_ok (window a)"
proof -
  assume ok: "utf8_ok (ra_text a)"
  then have "valid_cells (take LCD_WIDTH (drop (offset a) (utf8_chars (ra_text a))))"
    using utf8_chars_valid by (auto dest!: in_set_takeD in_set_dropD)
  with ok show ?thesis by (simp add: window_def utf8_ok_concat)
qed

lemma window_cells:
  assumes "utf8_ok (ra_text a)" "offset a \<le> overflow a"
  shows "utf8_chars (pad_to_width (window a)) = shows_from (offset a) (ra_text a)"
proof (cases "scrolls a")
  case True
  let ?cs = "take 16 (drop (offset a) (utf8_chars (ra_text a)))"
  have "valid_cells ?cs" using utf8_chars_valid [OF assms(1)] by (auto dest!: in_set_takeD in_set_dropD)
  then have "utf8_chars (window a) = ?cs" "length ?cs = 16"
    using True assms(2)
    by (auto simp: window_def LCD_WIDTH_def utf8_chars_concat scrolls_def overflow_def)
  with True assms show ?thesis
    by (simp add: pad_to_width_cells utf8_ok_window shows_from_def row_cells_def min_def split: if_splits)
next
  case False
  with assms show ?thesis
    by (simp add: pad_to_width_cells utf8_ok_window shows_from_def window_def scrolls_def overflow_def)
qed

definition row_ok :: "string list \<Rightarrow> RowState \<Rightarrow> bool" where
  "row_ok cells r \<longleftrightarrow> length cells = 16 \<and>
     (\<forall>s. last_rendered r = Some s \<longrightarrow> utf8_ok s \<and> cells = utf8_chars s) \<and>
     (\<forall>a. anim r = Some a \<longrightarrow> utf8_ok (ra_text a) \<and> offset a \<le> overflow a \<and>
        last_rendered r = Some (pad_to_width (window a)))"

lemma advance_ok:
  assumes "row_ok cells r" "utf8_ok text" "advance hz text now r = (spans, r')"
  shows "row_ok (write_row cells spans) r' \<and>
    (\<exists>a. anim r' = Some a \<and> ra_text a = text \<and>
       write_row cells spans = shows_from (offset a) text \<and> offset a \<le> overflow a)"
proof -
  let ?changed = "case anim r of Some a \<Rightarrow> ra_text a \<noteq> text | None \<Rightarrow> True"
  define a where "a = (if ?changed then row_anim_new hz text now else the (anim r))"
  obtain visible stepped a' where v: "visible_window hz now a = ((visible, stepped), a')"
    by (metis prod.exhaust)
  have a: "ra_text a = text" "offset a \<le> overflow a"
    using assms(1) by (auto simp: a_def row_anim_new_def row_ok_def split: option.splits)
  note w = visible_window_result [OF v a(2)]
  show ?thesis
  proof (cases "scrolls a \<and> \<not> ?changed \<and> \<not> stepped")
    case True
    with assms(3) v have "spans = []" "r' = r\<lparr>anim := Some a'\<rparr>"
      by (auto simp: advance_def a_def Let_def)
    moreover from True w(4) have "a' = a" by blast
    moreover from True have "anim r = Some a" by (auto simp: a_def split: option.splits)
    moreover from this have "r\<lparr>anim := Some a\<rparr> = r" by (cases r) simp
    ultimately have r': "spans = []" "r' = r" "anim r = Some a" by simp_all
    with assms(1) have "cells = utf8_chars (pad_to_width (window a))" by (auto simp: row_ok_def)
    also from assms(2) a have "\<dots> = shows_from (offset a) text" using window_cells [of a] by simp
    finally show ?thesis using assms(1) r' a by simp
  next
    case False
    let ?new = "pad_to_width (window a')"
    from w a assms(2) have a': "ra_text a' = text" "offset a' \<le> overflow a'" "utf8_ok (ra_text a')"
      by simp_all
    have new: "utf8_ok ?new" "length (utf8_chars ?new) = 16" "utf8_chars ?new = shows_from (offset a') text"
      using utf8_ok_window [OF a'(3)] window_cells [OF a'(3,2)] a'(1)
      by (simp_all add: pad_to_width_cells(2))
    from False assms(3) v w(1) have r': "r' = \<lparr>anim = Some a', last_rendered = Some ?new\<rparr>"
      and spans: "spans = (case last_rendered r of Some prev \<Rightarrow> changed_spans prev ?new
        | None \<Rightarrow> [\<lparr>col = 0, span_text = ?new\<rparr>])"
      by (auto simp: advance_def a_def Let_def split: if_splits)
    have "write_row cells spans = utf8_chars ?new"
    proof (cases "last_rendered r")
      case None
      with assms(1) new(2) show ?thesis by (simp add: spans write_span_def Let_def row_ok_def)
    next
      case (Some prev)
      with assms(1) have "utf8_ok prev" "cells = utf8_chars prev" "length (utf8_chars prev) = 16"
        by (auto simp: row_ok_def)
      with write_changed_spans(1) [of prev ?new] new(1,2) Some show ?thesis by (simp add: spans)
    qed
    with r' a' new show ?thesis by (auto simp: row_ok_def)
  qed
qed

lemma row_ok_restart: "row_ok cells r \<Longrightarrow> row_ok cells (restart r)"
  by (simp add: row_ok_def restart_def)

section \<open>The panel\<close>

definition plan_texts_ok :: "LcdPlan \<Rightarrow> bool" where
  "plan_texts_ok plan \<longleftrightarrow> utf8_ok (row0_text plan) \<and> (\<forall>t \<in> set (row1_slots plan). utf8_ok t)"

definition panel_ok :: "Panel \<Rightarrow> bool" where
  "panel_ok p \<longleftrightarrow> row_ok (cells0 p) (an_row0 (animator p)) \<and> row_ok (cells1 p) (an_row1 (animator p))"

lemma choose_slot_rows:
  "an_row0 (choose_slot n now an) = an_row0 an"
  "an_row1 (choose_slot n now an) \<in> {an_row1 an, restart (an_row1 an)}"
  by (simp_all add: choose_slot_def Let_def)

lemma choose_slot_lt: "0 < n \<Longrightarrow> slot (choose_slot n now an) < n"
  by (auto simp: choose_slot_def Let_def max_def split: if_splits)

lemma plan_lcd_slots: "row1_slots (plan_lcd view age) \<noteq> []"
  by (induction view age rule: plan_lcd.induct)
    (auto simp: rows_def lcd_plan_status_def lcd_plan_cook_def Let_def split: option.split)

lemma render_ok:
  assumes "panel_ok p" "plan = plan_lcd view (timer_age_secs hz view now)" "plan_texts_ok plan"
  shows "panel_ok (render hz p (now, view)) \<and>
    (\<exists>n. cells0 (render hz p (now, view)) = shows_from n (row0_text plan) \<and>
       n \<le> length (utf8_chars (row0_text plan)) - 16) \<and>
    (\<exists>n text. text \<in> set (row1_slots plan) \<and> cells1 (render hz p (now, view)) = shows_from n text \<and>
       n \<le> length (utf8_chars text) - 16)"
proof -
  let ?an = "choose_slot (length (row1_slots plan)) now (animator p)"
  let ?text = "row1_slots plan ! slot ?an"
  have slot: "slot ?an < length (row1_slots plan)"
    using plan_lcd_slots [of view "timer_age_secs hz view now"] assms(2) by (intro choose_slot_lt) simp
  then have mem: "?text \<in> set (row1_slots plan)" by simp
  obtain f0 r0 where a0: "advance hz (row0_text plan) now (an_row0 ?an) = (f0, r0)" by (rule prod.exhaust)
  obtain f1 r1 where a1: "advance hz ?text now (an_row1 ?an) = (f1, r1)" by (rule prod.exhaust)
  have "row_ok (cells0 p) (an_row0 ?an)" using assms(1) by (simp add: panel_ok_def choose_slot_rows)
  from advance_ok [OF this _ a0] assms(3) have 0: "row_ok (write_row (cells0 p) f0) r0"
    "\<exists>n. write_row (cells0 p) f0 = shows_from n (row0_text plan) \<and>
       n \<le> length (utf8_chars (row0_text plan)) - 16"
    by (auto simp: plan_texts_ok_def overflow_def LCD_WIDTH_def)
  have "row_ok (cells1 p) (an_row1 ?an)"
    using assms(1) choose_slot_rows(2) [of "length (row1_slots plan)" now "animator p"]
    by (auto simp: panel_ok_def row_ok_restart)
  from advance_ok [OF this _ a1] assms(3) mem have 1: "row_ok (write_row (cells1 p) f1) r1"
    "\<exists>n. write_row (cells1 p) f1 = shows_from n ?text \<and> n \<le> length (utf8_chars ?text) - 16"
    by (auto simp: plan_texts_ok_def overflow_def LCD_WIDTH_def)
  have "render hz p (now, view) =
      \<lparr>animator = ?an\<lparr>an_row0 := r0, an_row1 := r1\<rparr>, cells0 = write_row (cells0 p) f0,
       cells1 = write_row (cells1 p) f1\<rparr>"
    using a0 a1 slot by (simp add: render_def tick_def assms(2) [symmetric] get_nth_def Let_def)
  with 0 1 mem show ?thesis by (auto simp: panel_ok_def)
qed

definition panel_new :: "string list \<Rightarrow> string list \<Rightarrow> Panel" where
  "panel_new c0 c1 = \<lparr>animator = animator_new, cells0 = c0, cells1 = c1\<rparr>"

lemma render_run_ok:
  assumes "\<forall>(now, view) \<in> set vs. plan_texts_ok (plan_lcd view (timer_age_secs hz view now))"
    and "panel_ok p"
  shows "panel_ok (foldl (render hz) p vs)"
  using assms
proof (induction vs arbitrary: p)
  case (Cons v vs)
  then show ?case using render_ok [of p _ "snd v" hz "fst v"] by (cases v) auto
qed simp

text \<open>
  C33: whatever was shown before, and although only the cells that change are written, after each
  render both rows of the display read exactly what the plan says: the top row and one of the
  bottom row's texts, each from its start if it fits and otherwise as sixteen of its characters in
  a row, padded with spaces.
\<close>

theorem display_shows_the_plan:
  assumes "length c0 = 16" and "length c1 = 16"
    and "\<forall>(now, view) \<in> set (vs @ [(now, view)]). plan_texts_ok (plan_lcd view (timer_age_secs hz view now))"
    and "p = foldl (render hz) (panel_new c0 c1) (vs @ [(now, view)])"
    and "plan = plan_lcd view (timer_age_secs hz view now)"
  shows "(\<exists>n. cells0 p = shows_from n (row0_text plan) \<and>
      n \<le> length (utf8_chars (row0_text plan)) - 16) \<and>
    (\<exists>n text. text \<in> set (row1_slots plan) \<and> cells1 p = shows_from n text \<and>
      n \<le> length (utf8_chars text) - 16)"
proof -
  have "panel_ok (panel_new c0 c1)"
    using assms(1,2) by (simp add: panel_ok_def panel_new_def animator_new_def row_ok_def)
  then have "panel_ok (foldl (render hz) (panel_new c0 c1) vs)"
    using assms(3) by (intro render_run_ok) auto
  from render_ok [OF this assms(5)] assms(3-5) show ?thesis by auto
qed

section \<open>A row's turn\<close>

definition anim_run :: "nat \<Rightarrow> RowAnim \<Rightarrow> ticks list \<Rightarrow> RowAnim" where
  "anim_run hz = foldl (\<lambda>a now. snd (visible_window hz now a))"

lemma anim_run_snoc [simp]:
  "anim_run hz a (ts @ [t]) = snd (visible_window hz t (anim_run hz a ts))" "anim_run hz a [] = a"
  by (simp_all add: anim_run_def)

text \<open>The characters that were on show after some of the ticks.\<close>

definition seen :: "nat \<Rightarrow> RowAnim \<Rightarrow> ticks list \<Rightarrow> nat set" where
  "seen hz a ts = {i. \<exists>n. 0 < n \<and> n \<le> length ts \<and> offset (anim_run hz a (take n ts)) \<le> i \<and>
     i < offset (anim_run hz a (take n ts)) + 16}"

lemma seen_snoc:
  "seen hz a (ts @ [t]) = seen hz a ts \<union>
     {offset (anim_run hz a (ts @ [t]))..<offset (anim_run hz a (ts @ [t])) + 16}"
  by (auto simp: seen_def le_Suc_eq)

lemma anim_run_frame [simp]:
  "ra_text (anim_run hz a ts) = ra_text a" "shown_at (anim_run hz a ts) = shown_at a"
  by (induction ts rule: rev_induct) (auto simp: visible_window_def Let_def anim_run_def)

text \<open>What holds of a row's state after the ticks \<open>ts\<close>.\<close>

definition turn_ok :: "nat \<Rightarrow> RowAnim \<Rightarrow> ticks list \<Rightarrow> RowAnim \<Rightarrow> bool" where
  "turn_ok hz a0 ts a \<longleftrightarrow>
     (if scrolls a0 then
        offset a \<le> overflow a0 \<and> {..<offset a + 16} \<subseteq> seen hz a0 ts \<and>
        (cycle_complete a \<longrightarrow> {..<length (utf8_chars (ra_text a0))} \<subseteq> seen hz a0 ts)
      else offset a = 0 \<and> (cycle_complete a \<longrightarrow> (\<exists>t \<in> set ts. shown_at a0 + MIN_SLOT_HOLD hz \<le> t)))"

lemma visible_window_step:
  assumes "scrolls a"
  shows "offset (snd (visible_window hz now a)) \<le> offset a + 3 \<and>
    (cycle_complete (snd (visible_window hz now a)) \<longrightarrow> cycle_complete a \<or>
       overflow a \<le> offset (snd (visible_window hz now a)))"
  using assms by (auto simp: visible_window_def Let_def scrolls_def CHAR_SCROLL_COUNT_def overflow_def)

lemma turn_ok_step:
  assumes "turn_ok hz a0 ts (anim_run hz a0 ts)" "shown_at a0 \<le> t"
  shows "turn_ok hz a0 (ts @ [t]) (anim_run hz a0 (ts @ [t]))"
proof -
  let ?a = "anim_run hz a0 ts"
  let ?a' = "anim_run hz a0 (ts @ [t])"
  show ?thesis
  proof (cases "scrolls a0")
    case True
    then have s: "scrolls ?a" by (simp add: scrolls_def)
    from assms(1) True have ok: "offset ?a \<le> overflow ?a" "{..<offset ?a + 16} \<subseteq> seen hz a0 ts"
      "cycle_complete ?a \<longrightarrow> {..<length (utf8_chars (ra_text a0))} \<subseteq> seen hz a0 ts"
      by (simp_all add: turn_ok_def overflow_def)
    obtain v st where "visible_window hz t ?a = ((v, st), ?a')"
      by (simp add: prod_eq_iff)
    from visible_window_result(3) [OF this ok(1)] have o': "offset ?a' \<le> overflow a0"
      unfolding overflow_def anim_run_frame .
    from visible_window_step [OF s, of hz t] have step: "offset ?a' \<le> offset ?a + 3"
      "cycle_complete ?a' \<longrightarrow> cycle_complete ?a \<or> overflow a0 \<le> offset ?a'"
      by (simp_all add: overflow_def)
    have all: "{..<offset ?a' + 16} \<subseteq> seen hz a0 (ts @ [t])"
    proof
      fix i assume "i \<in> {..<offset ?a' + 16}"
      then show "i \<in> seen hz a0 (ts @ [t])"
        using ok(2) step(1) unfolding seen_snoc by (cases "i < offset ?a + 16") auto
    qed
    moreover have "{..<length (utf8_chars (ra_text a0))} \<subseteq> seen hz a0 (ts @ [t])" if "cycle_complete ?a'"
      using step(2) that
    proof (elim impE disjE)
      assume "cycle_complete ?a"
      with ok(3) show ?thesis unfolding seen_snoc by blast
    next
      assume "overflow a0 \<le> offset ?a'"
      with True have "length (utf8_chars (ra_text a0)) \<le> offset ?a' + 16"
        by (simp add: overflow_def scrolls_def LCD_WIDTH_def)
      with all show ?thesis by auto
    qed simp_all
    ultimately show ?thesis using True o' by (simp add: turn_ok_def)
  next
    case False
    then have "offset ?a' = 0" "cycle_complete ?a' \<longleftrightarrow> cycle_complete ?a \<or> MIN_SLOT_HOLD hz \<le> t - shown_at a0"
      by (auto simp: visible_window_def scrolls_def Let_def)
    with False assms show ?thesis by (auto simp: turn_ok_def)
  qed
qed

lemma turn_ok_run:
  assumes "0 < hz" "\<forall>t \<in> set ts. t0 \<le> t"
  shows "turn_ok hz (row_anim_new hz text t0) (t0 # ts) (anim_run hz (row_anim_new hz text t0) (t0 # ts))"
  using assms(2)
proof (induction ts rule: rev_induct)
  case Nil
  let ?a0 = "row_anim_new hz text t0"
  have hz: "0 < END_PAUSE hz" "0 < MIN_SLOT_HOLD hz"
    using assms(1) by (simp_all add: END_PAUSE_def MIN_SLOT_HOLD_def from_millis_def)
  have run: "anim_run hz ?a0 [t0] = snd (visible_window hz t0 ?a0)" by (simp add: anim_run_def)
  have s: "seen hz ?a0 [t0] = {offset (anim_run hz ?a0 [t0])..<offset (anim_run hz ?a0 [t0]) + 16}"
    using seen_snoc [of hz ?a0 "[]" t0] by (simp add: seen_def)
  have "offset (snd (visible_window hz t0 ?a0)) = 0 \<and> \<not> cycle_complete (snd (visible_window hz t0 ?a0))"
    using hz by (cases "length (utf8_chars text) \<le> LCD_WIDTH") (simp_all add: visible_window_def row_anim_new_def)
  then have "offset (anim_run hz ?a0 [t0]) = 0" "\<not> cycle_complete (anim_run hz ?a0 [t0])"
    unfolding run by blast+
  with s have "seen hz ?a0 [t0] = {..<16}" by (simp only: add_0 atLeast0LessThan)
  with \<open>offset (anim_run hz ?a0 [t0]) = 0\<close> \<open>\<not> cycle_complete (anim_run hz ?a0 [t0])\<close>
  show ?case by (simp add: turn_ok_def del: lessThan_Suc)
next
  case (snoc t ts)
  then have IH: "turn_ok hz (row_anim_new hz text t0) (t0 # ts) (anim_run hz (row_anim_new hz text t0) (t0 # ts))"
    by simp
  from turn_ok_step [OF IH, of t] snoc.prems show ?case by (simp add: row_anim_new_def)
qed

text \<open>
  a row of the rotation gives way only after it was shown in full: one that fits after three
  seconds, a longer one after each of its characters has been on the panel.
\<close>

theorem turn_shows_the_whole_row:
  assumes "0 < hz" and "\<forall>t \<in> set ts. t0 \<le> t"
    and "anim_cycle_done now (anim_run hz (row_anim_new hz text t0) (t0 # ts))"
  shows "if length (utf8_chars text) \<le> 16 then \<exists>t \<in> set (t0 # ts). t0 + MIN_SLOT_HOLD hz \<le> t
    else {..<length (utf8_chars text)} \<subseteq> seen hz (row_anim_new hz text t0) (t0 # ts)"
  using turn_ok_run [OF assms(1,2), of "text"] assms(3)
  by (auto simp: turn_ok_def anim_cycle_done_def scrolls_def row_anim_new_def LCD_WIDTH_def)

section \<open>Examples\<close>

definition demo_views :: "(ticks \<times> ViewSpec) list" where
  "demo_views = [(0, Connecting), (50, StartingCook ''Sourdough with seeds'')]"

theorem display_shows_the_plan_witness:
  "\<exists>n. cells0 (foldl (render 1000) (panel_new (replicate 16 ''?'') (replicate 16 ''?'')) demo_views) =
    shows_from n ''Sourdough with seeds''"
proof -
  have views: "demo_views = [(0, Connecting)] @ [(50, StartingCook ''Sourdough with seeds'')]"
    by (simp add: demo_views_def)
  have "list_all (\<lambda>(now, view). plan_texts_ok (plan_lcd view (timer_age_secs 1000 view now))) demo_views"
    by code_simp
  then have ok: "\<forall>(now, view) \<in> set ([(0, Connecting)] @ [(50, StartingCook ''Sourdough with seeds'')]).
      plan_texts_ok (plan_lcd view (timer_age_secs 1000 view now))"
    unfolding views list_all_iff .
  have l: "length (replicate 16 ''?'') = 16" by simp
  have r: "row0_text (plan_lcd (StartingCook title) age) = title" for title age
    by (simp add: rows_def)
  from display_shows_the_plan [OF l l ok refl refl] show ?thesis
    unfolding views r by blast
qed

end
