(* ===== verification/View_Plan.thy ===== *)
theory View_Plan
  imports Lcd_Plan
begin

text \<open>
  The graphical panels' planner (\<open>crates/anova-oven-pico-core/src/view_plan.rs\<close>): the lines of a
  view, how titles are wrapped, and how many lines a panel has room for. The text measure and the
  font metrics are arguments, as in the code; lengths are \<open>u32\<close> and heights \<open>i32\<close>.
\<close>

section \<open>Lines\<close>

datatype FontRole = Giant | Hero | Title | Body

datatype Placement = Centered | TopStacked

record PlanLine =
  pl_role :: FontRole
  pl_text :: string

record ScreenPlan =
  placement :: Placement
  sp_lines :: "PlanLine list"

record LineMetrics =
  line_height :: "32 word"
  ink_height :: "32 word"

definition planline :: "FontRole \<Rightarrow> string \<Rightarrow> PlanLine" where
  "planline r t = \<lparr>pl_role = r, pl_text = t\<rparr>"

text \<open>\<open>fit_line_count\<close>: the loop, with its \<open>used\<close> and \<open>kept\<close>; \<open>i32\<close> sums compare signed.\<close>

fun fit_from :: "(FontRole \<Rightarrow> LineMetrics) \<Rightarrow> 32 word \<Rightarrow> 32 word \<Rightarrow> nat \<Rightarrow> PlanLine list \<Rightarrow> nat" where
  "fit_from metrics avail used kept [] = kept"
| "fit_from metrics avail used kept (line # lines) =
     (let m = metrics (pl_role line)
      in if 0 < kept \<and> sint avail < sint (used + ink_height m) then kept
         else fit_from metrics avail (used + line_height m) (kept + 1) lines)"

definition fit_line_count :: "PlanLine list \<Rightarrow> 32 word \<Rightarrow> (FontRole \<Rightarrow> LineMetrics) \<Rightarrow> nat" where
  "fit_line_count lines avail metrics = fit_from metrics avail 0 0 lines"

section \<open>Wrapping\<close>

type_synonym measure_fn = "FontRole \<Rightarrow> string \<Rightarrow> u32"

text \<open>The greedy loop over the words, with the line being filled.\<close>

fun wrap_words :: "(string \<Rightarrow> u32) \<Rightarrow> u32 \<Rightarrow> string \<Rightarrow> string list \<Rightarrow> string list" where
  "wrap_words width max_w cur [] = (if cur = [] then [] else [cur])"
| "wrap_words width max_w cur (word # words) =
     (let candidate = (if cur = [] then word else cur @ '' '' @ word)
      in if cur = [] \<or> width candidate \<le> max_w then wrap_words width max_w candidate words
         else cur # wrap_words width max_w word words)"

definition ellipsis :: string where
  "ellipsis = [CHR 0xE2, CHR 0x80, CHR 0xA6]"

text \<open>The loop that shortens the last line, on its chars from the back.\<close>

fun ellipsize :: "(string \<Rightarrow> u32) \<Rightarrow> u32 \<Rightarrow> string list \<Rightarrow> string" where
  "ellipsize width max_w [] = ellipsis"
| "ellipsize width max_w (c # rest) =
     (let last = concat (rev (c # rest)) @ ellipsis
      in if max_w < width last then ellipsize width max_w rest else last)"

definition wrap_lines :: "measure_fn \<Rightarrow> FontRole \<Rightarrow> string \<Rightarrow> u32 \<Rightarrow> nat \<Rightarrow> string list" where
  "wrap_lines meas role str max_w max_lines =
     (let ls = wrap_words (meas role) max_w [] (split_whitespace str);
          ls = (if ls = [] then [[]] else ls)
      in if max_lines < length ls \<and> 0 < max_lines then
           (let ls = take max_lines ls
            in butlast ls @ [ellipsize (meas role) max_w (rev (utf8_chars (last ls)))])
         else if max_lines < length ls then [] else ls)"

definition push_wrapped :: "measure_fn \<Rightarrow> FontRole \<Rightarrow> string \<Rightarrow> u32 \<Rightarrow> nat \<Rightarrow> PlanLine list" where
  "push_wrapped meas role str max_w max_lines =
     map (planline role) (wrap_lines meas role str max_w max_lines)"

definition centered_wrapped :: "measure_fn \<Rightarrow> FontRole \<Rightarrow> string \<Rightarrow> u32 \<Rightarrow> nat \<Rightarrow> ScreenPlan" where
  "centered_wrapped meas role str max_w max_lines =
     \<lparr>placement = Centered, sp_lines = push_wrapped meas role str max_w max_lines\<rparr>"

section \<open>Plans\<close>

definition detail_rows :: "OvenStatus \<Rightarrow> bool \<Rightarrow> u64 \<Rightarrow> PlanLine list" where
  "detail_rows status cooking age =
     (case timer_remaining_secs_after status age of
        Some remaining \<Rightarrow> [planline Body (''Timer  '' @ show_hms remaining)] | None \<Rightarrow> []) @
     (case probe_temperature_c status of
        Some p \<Rightarrow> [planline Body (''Probe  '' @ fahrenheit p @ ''F'')] | None \<Rightarrow> []) @
     (if cooking then
        (case steam_target_pct status of
           Some steam \<Rightarrow> [planline Body (''Steam  '' @ show_f32_0 steam @ ''%'')] | None \<Rightarrow> []) @
        [planline Body (''Phase  '' @ phase status)]
      else [])"

definition plan_status ::
  "OvenStatus option \<Rightarrow> CurrentCook option \<Rightarrow> u32 \<Rightarrow> u64 \<Rightarrow> measure_fn \<Rightarrow> ScreenPlan" where
  "plan_status status cook width age meas =
     (case status of
        None \<Rightarrow> \<lparr>placement = Centered, sp_lines = [planline Title ''Status: N/A'']\<rparr>
      | Some status \<Rightarrow>
          (let cooking = is_cooking status;
               cur = fahrenheit (current_temperature_c status)
           in if \<not> cooking then
                \<lparr>placement = Centered,
                 sp_lines = [planline Giant (cur @ ''F''), planline Hero (phase status)] @
                   detail_rows status cooking age\<rparr>
              else
                (let title = (case cook of Some cook \<Rightarrow> display_name cook | None \<Rightarrow> ''Manual cook'');
                     temp = cur @ ''F'' @ (case target_temperature_c status of
                       Some t \<Rightarrow> '' -> '' @ fahrenheit t @ ''F'' | None \<Rightarrow> [])
                 in \<lparr>placement = TopStacked,
                     sp_lines = push_wrapped meas Title title width 2 @ [planline Hero temp] @
                       detail_rows status cooking age\<rparr>)))"

definition stale_texts :: "StaleCause \<Rightarrow> u64 \<Rightarrow> string \<times> string" where
  "stale_texts cause secs =
     (case cause of
        AnovaLink \<Rightarrow> (''Anova link down'', format_age secs @ '' ago'')
      | OvenOffline \<Rightarrow> (''Oven offline'', ''for '' @ format_age secs)
      | NoOvenState \<Rightarrow> (''Waiting for oven'', ''for '' @ format_age secs))"

fun plan_view :: "ViewSpec \<Rightarrow> u32 \<Rightarrow> u64 \<Rightarrow> measure_fn \<Rightarrow> ScreenPlan" where
  "plan_view WifiInit w age meas = centered_wrapped meas Title ''Connecting to Wi-Fi'' w 2"
| "plan_view DhcpInit w age meas = centered_wrapped meas Title ''Getting an IP address'' w 2"
| "plan_view Connecting w age meas = centered_wrapped meas Title ''Connecting'' w 2"
| "plan_view ServerOffline w age meas = centered_wrapped meas Title ''Server offline'' w 2"
| "plan_view (StaleView cause secs) w age meas =
     (let (title, detail) = stale_texts cause secs
      in \<lparr>placement = Centered,
          sp_lines = push_wrapped meas Title title w 2 @ [planline Body detail] @
            (if cause = OvenOffline then [planline Body ''Check its WiFi''] else [])\<rparr>)"
| "plan_view (StartingCook recipe_title) w age meas =
     \<lparr>placement = Centered,
      sp_lines = planline Title ''Starting cook'' # push_wrapped meas Body recipe_title w 2\<rparr>"
| "plan_view (NextStagePrompt recipe_title) w age meas =
     \<lparr>placement = Centered,
      sp_lines = planline Title ''Next stage?'' # push_wrapped meas Body recipe_title w 2\<rparr>"
| "plan_view (RecipeBrowser source count index title) w age meas =
     (if count = 0 then \<lparr>placement = Centered, sp_lines = [planline Title ''No recipes'']\<rparr>
      else \<lparr>placement = TopStacked,
            sp_lines = planline Body (recipe_browser_header source index count) #
              push_wrapped meas Title title w 3\<rparr>)"
| "plan_view (StopConfirmation status cook) w age meas =
     (let title = (case cook of Some c \<Rightarrow> display_name c
            | None \<Rightarrow> (case status of Some s \<Rightarrow> phase s | None \<Rightarrow> ''Active cook''))
      in \<lparr>placement = Centered,
          sp_lines = push_wrapped meas Title title w 2 @ [planline Title ''Stop cooking?'']\<rparr>)"
| "plan_view (Recovery reset_count panic_count message) w age meas =
     \<lparr>placement = TopStacked,
      sp_lines = [planline Title ''Recovery'',
          planline Body (''resets '' @ show_nat (unat reset_count) @ ''  panics '' @
            show_nat (unat panic_count))] @
        (case message of Some msg \<Rightarrow> push_wrapped meas Body msg w 2 | None \<Rightarrow> [])\<rparr>"
| "plan_view (StatusView status cook anchor) w age meas = plan_status status cook w age meas"

section \<open>Wrapped lines fit\<close>

lemma join_Cons: "xs \<noteq> [] \<Longrightarrow> join sep (x # xs) = x @ sep @ join sep xs"
  by (cases xs) simp_all

lemma wrap_words_ne: "cur \<noteq> [] \<Longrightarrow> wrap_words width max_w cur words \<noteq> []"
  by (induction words arbitrary: cur) (simp_all add: Let_def)

lemma join_wrap_words:
  assumes "\<forall>w \<in> set words. w \<noteq> []"
  shows "cur \<noteq> [] \<Longrightarrow> join '' '' (wrap_words width max_w cur words) = join '' '' (cur # words)"
    and "join '' '' (wrap_words width max_w [] words) = join '' '' words"
proof -
  have 1: "join '' '' (wrap_words width max_w cur words) = join '' '' (cur # words)"
    if "cur \<noteq> []" "\<forall>w \<in> set words. w \<noteq> []" for cur words
    using that
  proof (induction words arbitrary: cur)
    case Nil
    then show ?case by simp
  next
    case (Cons w ws)
    have "join '' '' ((cur @ '' '' @ w) # ws) = join '' '' (cur # w # ws)"
      by (cases ws) (simp_all add: join_Cons)
    with Cons show ?case by (simp add: Let_def join_Cons wrap_words_ne)
  qed
  then show "cur \<noteq> [] \<Longrightarrow> join '' '' (wrap_words width max_w cur words) = join '' '' (cur # words)"
    using assms by blast
  show "join '' '' (wrap_words width max_w [] words) = join '' '' words"
    using 1 assms by (cases words) simp_all
qed

lemma wrap_words_fit:
  assumes "\<forall>w \<in> set words. width w \<le> max_w" "cur = [] \<or> width cur \<le> max_w"
  shows "\<forall>l \<in> set (wrap_words width max_w cur words). width l \<le> max_w"
  using assms by (induction words arbitrary: cur) (auto simp: Let_def)

lemma ellipsize_prefix:
  "\<exists>n \<le> length rest. ellipsize width max_w rest = concat (rev (drop n rest)) @ ellipsis"
proof (induction rest)
  case Nil
  then show ?case by simp
next
  case (Cons c rest)
  then obtain n where "n \<le> length rest" "ellipsize width max_w rest = concat (rev (drop n rest)) @ ellipsis" by blast
  then show ?case by (cases "max_w < width (concat (rev (c # rest)) @ ellipsis)")
      (auto simp: Let_def intro: exI [of _ "Suc n"] exI [of _ 0])
qed

lemma ellipsize_fits: "width ellipsis \<le> max_w \<Longrightarrow> width (ellipsize width max_w rest) \<le> max_w"
  by (induction rest) (simp_all add: Let_def not_less)

lemma split_words_ne: "\<forall>c \<in> set cs. c \<noteq> [] \<Longrightarrow> w \<in> set (split_words cs) \<Longrightarrow> w \<noteq> []"
proof (induction cs rule: split_words.induct)
  case (1 cs)
  let ?x = "dropWhile white_space cs"
  show ?case
  proof (cases "?x = []")
    case True
    with "1.prems" show ?thesis by (simp add: split_words.simps)
  next
    case False
    have ne: "\<forall>c \<in> set ?x. c \<noteq> []" using "1.prems"(1) by (auto dest: set_dropWhileD)
    have ws: "\<not> white_space (hd ?x)" using hd_dropWhile [OF False] by simp
    from "1.prems"(2) False have "w = concat (takeWhile (\<lambda>c. \<not> white_space c) ?x) \<or>
        w \<in> set (split_words (dropWhile (\<lambda>c. \<not> white_space c) ?x))"
      by (subst (asm) split_words.simps) (auto simp: Let_def simp del: dropWhile_eq_Nil_conv split: if_splits)
    then show ?thesis
    proof
      assume "w = concat (takeWhile (\<lambda>c. \<not> white_space c) ?x)"
      with False ne ws show ?thesis by (cases ?x) auto
    next
      assume "w \<in> set (split_words (dropWhile (\<lambda>c. \<not> white_space c) ?x))"
      moreover have "\<forall>c \<in> set (dropWhile (\<lambda>c. \<not> white_space c) ?x). c \<noteq> []"
        using ne by (auto dest: set_dropWhileD)
      ultimately show ?thesis using "1.IH" [OF refl False] by blast
    qed
  qed
qed

lemma utf8_chars_ne: "c \<in> set (utf8_chars s) \<Longrightarrow> c \<noteq> []"
  by (induction s rule: utf8_chars.induct) auto

lemma split_whitespace_ne: "w \<in> set (split_whitespace s) \<Longrightarrow> w \<noteq> []"
  unfolding split_whitespace_def by (rule split_words_ne) (simp_all add: utf8_chars_ne)

text \<open>
  a wrapped title takes at most the lines it may, and when each of its words and the ellipsis fit
  the width, so does every line; no word is lost or moved as long as the lines suffice, and
  otherwise the first lines are kept and the last one is a beginning of its own with an ellipsis.
\<close>

theorem wrapped_title_fits:
  assumes "0 < max_lines" and "\<forall>w \<in> set (split_whitespace str). meas role w \<le> max_w"
    and "meas role ellipsis \<le> max_w" and "meas role [] \<le> max_w"
    and "lines = wrap_lines meas role str max_w max_lines"
  shows "length lines \<le> max_lines \<and> (\<forall>l \<in> set lines. meas role l \<le> max_w) \<and>
    (\<exists>full. join '' '' full = join '' '' (split_whitespace str) \<and>
       (if length full \<le> max_lines then lines = full
        else butlast lines = take (max_lines - 1) full \<and>
          (\<exists>n. last lines = concat (take n (utf8_chars (full ! (max_lines - 1)))) @ ellipsis)))"
proof -
  let ?words = "split_whitespace str"
  let ?w = "wrap_words (meas role) max_w [] ?words"
  define full where "full = (if ?w = [] then [[]] else ?w)"
  have j: "join '' '' ?w = join '' '' ?words"
    using split_whitespace_ne by (intro join_wrap_words(2)) blast
  then have join: "join '' '' full = join '' '' ?words" by (auto simp: full_def)
  have "\<forall>l \<in> set ?w. meas role l \<le> max_w" by (rule wrap_words_fit) (use assms(2) in auto)
  then have fit: "\<forall>l \<in> set full. meas role l \<le> max_w" using assms(4) by (simp add: full_def)
  show ?thesis
  proof (cases "length full \<le> max_lines")
    case True
    with assms(1,5) have "lines = full" by (auto simp: wrap_lines_def full_def Let_def split: if_splits)
    with True fit join show ?thesis by auto
  next
    case False
    let ?last = "full ! (max_lines - 1)"
    let ?e = "ellipsize (meas role) max_w (rev (utf8_chars ?last))"
    have "take max_lines full = take (max_lines - 1) full @ [?last]"
      using assms(1) False take_Suc_conv_app_nth [of "max_lines - 1" full] by simp
    then have lines: "lines = take (max_lines - 1) full @ [?e]"
      using assms(1,5) False by (simp add: wrap_lines_def full_def [symmetric] Let_def)
    obtain n where "?e = concat (rev (drop n (rev (utf8_chars ?last)))) @ ellipsis"
      using ellipsize_prefix [of "rev (utf8_chars ?last)" "meas role" max_w] by blast
    then have e: "?e = concat (take (length (utf8_chars ?last) - n) (utf8_chars ?last)) @ ellipsis"
      by (simp add: rev_drop)
    have "meas role ?e \<le> max_w" using assms(3) by (rule ellipsize_fits)
    with fit have "\<forall>l \<in> set lines. meas role l \<le> max_w" by (auto simp: lines dest: in_set_takeD)
    moreover have "length lines \<le> max_lines" using assms(1) by (simp add: lines)
    moreover have "butlast lines = take (max_lines - 1) full" "last lines = ?e" by (simp_all add: lines)
    ultimately show ?thesis using False join e by auto
  qed
qed


section \<open>Lines that fit\<close>

text \<open>The height of a block: every line's advance but the last, and the last one's ink.\<close>

definition block_height :: "(FontRole \<Rightarrow> LineMetrics) \<Rightarrow> PlanLine list \<Rightarrow> int" where
  "block_height metrics ls =
     (if ls = [] then 0
      else sum_list (map (\<lambda>l. sint (line_height (metrics (pl_role l)))) (butlast ls)) +
        sint (ink_height (metrics (pl_role (last ls)))))"

definition advances :: "(FontRole \<Rightarrow> LineMetrics) \<Rightarrow> PlanLine list \<Rightarrow> int" where
  "advances metrics ls = sum_list (map (\<lambda>l. sint (line_height (metrics (pl_role l)))) ls)"

text \<open>Font metrics of a real panel: no height above a thousand pixels.\<close>

definition metrics_ok :: "(FontRole \<Rightarrow> LineMetrics) \<Rightarrow> bool" where
  "metrics_ok metrics \<longleftrightarrow> (\<forall>r. 0 \<le> sint (line_height (metrics r)) \<and> sint (line_height (metrics r)) \<le> 1000 \<and>
     0 \<le> sint (ink_height (metrics r)) \<and> sint (ink_height (metrics r)) \<le> 1000)"

lemma sint_add_small:
  fixes a b :: "32 word"
  assumes "0 \<le> sint a" "0 \<le> sint b" "sint a + sint b < 2 ^ 31"
  shows "sint (a + b) = sint a + sint b"
proof -
  have "sint (a + b) = signed_take_bit 31 (sint a + sint b)"
    by (simp add: sint_word_ariths(1))
  with assms show ?thesis by (simp add: signed_take_bit_int_eq_self)
qed

lemma advances_bound: "metrics_ok metrics \<Longrightarrow> 0 \<le> advances metrics ls \<and> advances metrics ls \<le> 1000 * int (length ls)"
  by (induction ls) (auto simp: advances_def metrics_ok_def algebra_simps add_mono)

lemma fit_from_fits:
  assumes "metrics_ok metrics" "length (pre @ ls) \<le> 1000000" "sint used = advances metrics pre"
    and "length pre \<le> 1 \<or> block_height metrics pre \<le> sint avail"
  shows "\<exists>n. fit_from metrics avail used (length pre) ls = length pre + n \<and> n \<le> length ls \<and>
    (pre @ ls \<noteq> [] \<longrightarrow> 0 < length pre + n) \<and>
    (length pre + n \<le> 1 \<or> block_height metrics (pre @ take n ls) \<le> sint avail) \<and>
    (n < length ls \<longrightarrow> sint avail < block_height metrics (pre @ take (n + 1) ls))"
  using assms(2-)
proof (induction ls arbitrary: pre used)
  case Nil
  then show ?case by simp
next
  case (Cons l ls)
  let ?m = "metrics (pl_role l)"
  have m: "0 \<le> sint (line_height ?m)" "sint (line_height ?m) \<le> 1000"
    "0 \<le> sint (ink_height ?m)" "sint (ink_height ?m) \<le> 1000"
    using assms(1) by (simp_all add: metrics_ok_def)
  have adv: "0 \<le> advances metrics pre" "advances metrics pre \<le> 1000 * int (length pre)"
    using advances_bound [OF assms(1)] by blast+
  have ink: "sint (used + ink_height ?m) = block_height metrics (pre @ [l])"
    using sint_add_small [of used "ink_height ?m"] Cons.prems(1,2) adv m
    by (simp add: block_height_def advances_def)
  have lh: "sint (used + line_height ?m) = advances metrics (pre @ [l])"
    using sint_add_small [of used "line_height ?m"] Cons.prems(1,2) adv m
    by (simp add: advances_def)
  show ?case
  proof (cases "0 < length pre \<and> sint avail < sint (used + ink_height ?m)")
    case True
    with Cons.prems(3) ink show ?thesis by (intro exI [of _ 0]) auto
  next
    case False
    have "length (pre @ [l]) \<le> 1 \<or> block_height metrics (pre @ [l]) \<le> sint avail"
      using False ink by auto
    from Cons.IH [OF _ lh this] Cons.prems(1) obtain n where
      n: "fit_from metrics avail (used + line_height ?m) (length (pre @ [l])) ls = length (pre @ [l]) + n"
        "n \<le> length ls" "length (pre @ [l]) + n \<le> 1 \<or> block_height metrics ((pre @ [l]) @ take n ls) \<le> sint avail"
        "n < length ls \<longrightarrow> sint avail < block_height metrics ((pre @ [l]) @ take (n + 1) ls)"
      by auto
    then show ?thesis using False by (intro exI [of _ "Suc n"]) (auto simp: Let_def)
  qed
qed

text \<open>
  the lines a panel draws are the first ones of the plan, at least one; all of their ink is on
  the panel if there is more than one, and one line more would not fit.
\<close>

theorem drawn_lines_fit:
  assumes "metrics_ok metrics" and "length ls \<le> 1000000" and "n = fit_line_count ls avail metrics"
  shows "n \<le> length ls \<and> (ls \<noteq> [] \<longrightarrow> 0 < n) \<and>
    (n \<le> 1 \<or> block_height metrics (take n ls) \<le> sint avail) \<and>
    (n < length ls \<longrightarrow> sint avail < block_height metrics (take (n + 1) ls))"
  using fit_from_fits [OF assms(1), of "[]" ls 0 avail] assms(2,3)
  by (auto simp: fit_line_count_def advances_def)

section \<open>Examples\<close>

definition demo_measure :: measure_fn where
  "demo_measure role s = of_nat (10 * length s)"

definition demo_metrics :: "FontRole \<Rightarrow> LineMetrics" where
  "demo_metrics role = \<lparr>line_height = 20, ink_height = 16\<rparr>"

end
