(* ===== verification/Runtime_Types.thy ===== *)
theory Runtime_Types
  imports Oven_Api Text
begin

text \<open>
  The messages of the server's runtime (\<open>crates/anova-oven-server/src/runtime/types.rs\<close>) and the
  stage helpers its state machine calls: \<open>rewrite_preheat_stage_ids\<close> (\<open>recipe.rs\<close>) and
  \<open>normalize_stage_id_for_ws\<close>, \<open>restore_end_flags\<close> (\<open>protocol/stages.rs\<close>).

  A raw stage is a \<open>serde_json::Value\<close>, which the server edits only through three functions of
  \<open>protocol/stages.rs\<close>; its type is the parameter \<open>'j\<close> and the three functions the parameter
  \<open>RawOps\<close>. The reply channel of a command is the result its reducer returns.
\<close>

section \<open>Errors and requests\<close>

datatype StoreError = StUnauthorized | StTimeout | StUnsupported | StOther string

datatype SmError =
  ErrNotCooking | ErrDisconnected | ErrRecipeNotFound string | ErrUnsupported string
| ErrConflict string | ErrStore StoreError | ErrInternal string

fun store_error_message :: "StoreError \<Rightarrow> string" where
  "store_error_message StUnauthorized = ''unauthorized''"
| "store_error_message StTimeout = ''timeout''"
| "store_error_message StUnsupported = ''not supported by this store''"
| "store_error_message (StOther e) = e"

fun sm_error_message :: "SmError \<Rightarrow> string" where
  "sm_error_message ErrNotCooking = ''not cooking''"
| "sm_error_message ErrDisconnected = ''oven disconnected''"
| "sm_error_message (ErrRecipeNotFound i) = ''recipe not found: '' @ i"
| "sm_error_message (ErrUnsupported e) = ''unsupported: '' @ e"
| "sm_error_message (ErrConflict e) = e"
| "sm_error_message (ErrStore e) = ''store: '' @ store_error_message e"
| "sm_error_message (ErrInternal e) = ''internal: '' @ e"

datatype ControlRequest =
  RqNextStage | RqTimer u64 | RqTemperature f32 | RqLamp bool | RqTemperatureUnit string

fun control_name :: "ControlRequest \<Rightarrow> string" where
  "control_name RqNextStage = ''next_stage''"
| "control_name (RqTimer _) = ''timer''"
| "control_name (RqTemperature _) = ''temperature''"
| "control_name (RqLamp _) = ''lamp''"
| "control_name (RqTemperatureUnit _) = ''temperature_unit''"

datatype StateMachineCommand =
  GetStatus | GetCurrentCook | GetRecipes | GetHistory | CmdRefreshRecipes
| StartCook string
| StartManualCook string "Stage list"
| StopCook
| LinkCurrentCook string string        \<comment> \<open>\<open>recipe_id\<close>, \<open>title\<close>\<close>
| Control ControlRequest

record CommandFailure =
  cf_command :: string
  cf_reason :: string

datatype 'j OvenControl =
  StartStage string
| SetTimer u64
| SetTemperatureBulbs string f32
| SetLamp bool
| SetTemperatureUnit string
| UpdateCookStages "'j list"

section \<open>The oven's cook\<close>

record 'j OvenCook =
  oc_cook_id :: string
  oc_stages :: "Stage list"
  oc_raw_stages :: "'j list"
  oc_seconds_elapsed :: u64

text \<open>The edits of \<open>protocol/stages.rs\<close> on a raw stage.\<close>

record 'j RawOps =
  with_temperature :: "'j \<Rightarrow> f32 \<Rightarrow> 'j"
  with_timer :: "'j \<Rightarrow> u64 \<Rightarrow> 'j"
  for_update :: "'j \<Rightarrow> 'j"

record CookExtras =
  turn_off_at_end :: bool
  prompts :: "(string \<times> string) list"   \<comment> \<open>a \<open>BTreeMap\<close>; only looked up\<close>

definition extras_from_stages :: "Stage list \<Rightarrow> CookExtras" where
  "extras_from_stages stages =
     \<lparr>turn_off_at_end = (stages \<noteq> [] \<and> st_turn_off_at_end (last stages) = Some True),
      prompts = rev (concat (map (\<lambda>s.
        case (st_id s, st_prompt s) of (Some i, Some p) \<Rightarrow> [(i, p)] | _ \<Rightarrow> []) stages))\<rparr>"

definition apply_extras :: "CookExtras \<Rightarrow> Stage list \<Rightarrow> Stage list" where
  "apply_extras ex stages =
     (let stages = (if stages = [] then [] else
            butlast stages @ [(last stages)\<lparr>st_turn_off_at_end :=
              (if turn_off_at_end ex then Some True else None)\<rparr>])
      in map (\<lambda>s. s\<lparr>st_prompt := Option.bind (st_id s) (map_of (prompts ex))\<rparr>) stages)"

datatype StartedFrom = FromRecipe string | FromManual string nat

fun started_recipe_id :: "StartedFrom \<Rightarrow> string option" where
  "started_recipe_id (FromRecipe i) = Some i"
| "started_recipe_id (FromManual _ _) = None"

section \<open>Processor messages\<close>

datatype 'j WsCommand =
  SendStop string                              \<comment> \<open>\<open>request_id\<close>\<close>
| SendStart string string string "Stage list"  \<comment> \<open>\<open>request_id\<close>, \<open>cook_id\<close>, \<open>recipe_id\<close>, \<open>stages\<close>\<close>
| WsControl string "'j OvenControl"

datatype 'j WsEvent =
  EvConnected | EvDisconnected
| ApoState OvenStatus "'j OvenCook option"
| CookerDiscovered string
| CommandAck string string                     \<comment> \<open>\<open>request_id\<close>, \<open>status\<close>\<close>
| ParseError string

datatype HistoryReason =
  HrPeriodic | HrStartup | HrWsIdleToCooking | HrWsCookToIdle | HrWsStageTransition

datatype CurrentCookReason =
  CrPeriodic | CrStartup | CrWsIdleToCooking | CrWsConnectedCookingState | CrWsStageTransition
| CrStartCommandAccepted

datatype 'j StoreCommand =
  RefreshRecipes
| RefreshHistory HistoryReason
| FetchCurrentCook CurrentCookReason "'j OvenCook option"
| OvenReported "'j OvenCook option"
| PatchCookRecipeRef string StartedFrom CookExtras
| ResolveManualCookTitle CurrentCook
| LinkCookToRecipe string string

datatype StoreEvent =
  RecipesRefreshed "StoreError + Recipe list"
| HistoryRefreshed "StoreError + HistoryEntry list"
| CurrentCookFetched CurrentCookReason "StoreError + CurrentCook option"
| RecipeRefPatched string "string option" "StoreError + unit"
| ManualCookTitleResolved string "StoreError + (string \<times> string) option"

datatype TickKind = CurrentCookRefresh | RecipesRefresh | HistoryRefresh | PendingTimeout

datatype 'j StateMachineEvent = Ws "'j WsEvent" | Store StoreEvent | Tick TickKind

datatype TransitionOrigin =
  LocalCommand | WsExternal | WsReconciliation | AckConfirmed | TimeoutRecovery | StartupSync

section \<open>Stage ids\<close>

text \<open>
  \<open>rewrite_preheat_stage_ids\<close>: the loop looks at a stage and its successor, and only ever writes the
  stage it is at, so the successor is still as it was.
\<close>

definition preheat_pair_id :: "Stage \<Rightarrow> Stage \<Rightarrow> Stage" where
  "preheat_pair_id s next =
     (if st_kind s \<noteq> ''preheat'' then s
      else if st_kind next = ''preheat'' then s
      else case st_id next of
        None \<Rightarrow> s
      | Some next_id \<Rightarrow>
          (let new_id = next_id @ ''-preheat''
           in if st_id s = Some new_id then s else s\<lparr>st_id := Some new_id\<rparr>))"

fun rewrite_preheat_stage_ids :: "Stage list \<Rightarrow> Stage list" where
  "rewrite_preheat_stage_ids (s # next # rest) =
     preheat_pair_id s next # rewrite_preheat_stage_ids (next # rest)"
| "rewrite_preheat_stage_ids stages = stages"

text \<open>\<open>str::trim_start_matches\<close> for a pattern string: as often as it is there.\<close>

function trim_start_matches :: "string \<Rightarrow> string \<Rightarrow> string" where
  "trim_start_matches p s =
     (if p \<noteq> [] \<and> starts_with s p then trim_start_matches p (drop (length p) s) else s)"
  by pat_completeness auto
termination
  by (relation "measure (\<lambda>(p, s). length s)") (auto simp: starts_with_iff)

declare trim_start_matches.simps [simp del]

text \<open>
  \<open>normalize_stage_id_for_ws\<close>; \<open>None\<close> stands for the branch that makes up a fresh id, whose UUID the
  caller draws.
\<close>

definition normalize_stage_id_for_ws :: "string \<Rightarrow> string option \<Rightarrow> string" where
  "normalize_stage_id_for_ws fresh i =
     (case i of
        Some raw \<Rightarrow>
          if starts_with raw ''ios-'' then raw
          else if starts_with raw ''android-'' then ''ios-'' @ trim_start_matches ''android-'' raw
          else if raw \<noteq> [] then ''ios-'' @ raw
          else ''ios-'' @ fresh
      | None \<Rightarrow> ''ios-'' @ fresh)"

definition needs_fresh_id :: "string option \<Rightarrow> bool" where
  "needs_fresh_id i \<longleftrightarrow> i = None \<or> i = Some []"

definition restore_end_flags :: "Stage \<Rightarrow> Stage" where
  "restore_end_flags s =
     (if st_kind s = ''preheat'' \<or> st_timer_added s \<noteq> None \<or> st_probe_added s \<noteq> None then s
      else
        (let timer = (case st_duration_secs s of Some d \<Rightarrow> 0 < d | None \<Rightarrow> False);
             probe = (\<not> timer \<and> st_probe_target_c s \<noteq> None)
         in s\<lparr>st_timer_added := Some timer, st_probe_added := Some probe\<rparr>))"

section \<open>Lemmas\<close>

lemma length_rewrite_preheat [simp]:
  "length (rewrite_preheat_stage_ids stages) = length stages"
  by (induction stages rule: rewrite_preheat_stage_ids.induct) simp_all

lemma preheat_pair_id_frame [simp]: "(preheat_pair_id s next)\<lparr>st_id := i\<rparr> = s\<lparr>st_id := i\<rparr>"
  by (simp add: preheat_pair_id_def Let_def split: option.split)

lemma preheat_pair_kind [simp]: "st_kind (preheat_pair_id s next) = st_kind s"
  by (simp add: preheat_pair_id_def Let_def split: option.split)

lemma rewrite_preheat_frame:
  "map (\<lambda>s. s\<lparr>st_id := None\<rparr>) (rewrite_preheat_stage_ids stages) = map (\<lambda>s. s\<lparr>st_id := None\<rparr>) stages"
  by (induction stages rule: rewrite_preheat_stage_ids.induct) simp_all

lemma normalized_id_prefix: "starts_with (normalize_stage_id_for_ws fresh i) ''ios-''"
  by (auto simp: normalize_stage_id_for_ws_def split: option.splits)

lemma normalize_stage_id_idem:
  "normalize_stage_id_for_ws fresh' (Some (normalize_stage_id_for_ws fresh i)) =
   normalize_stage_id_for_ws fresh i"
  using normalized_id_prefix [of fresh i]
  by (subst normalize_stage_id_for_ws_def) simp

lemma map_of_rev_prompts:
  "map_of (prompts (extras_from_stages stages)) i = Some p \<Longrightarrow>
   \<exists>s \<in> set stages. st_id s = Some i \<and> st_prompt s = Some p"
  by (drule map_of_SomeD) (auto simp: extras_from_stages_def split: option.splits)

end
