(* ===== verification/State_Machine.thy ===== *)
theory State_Machine
  imports Runtime_Types
begin

text \<open>
  The server's state machine (\<open>crates/anova-oven-server/src/processors/state_machine.rs\<close>): the
  canonical state and the reducers of client commands, oven reports, acks, store events and ticks,
  with the effects they ask for.

  Fresh UUIDs come from a stream, \<open>uuid\<close> of the environment: the state counts how many were drawn.
  The monotonic clock, the wall clock and the edits of raw stages are the other inputs.
\<close>

section \<open>Canonical state\<close>

datatype Connectivity = NotConnected | Connected "string option"

fun cooker_id :: "Connectivity \<Rightarrow> string option" where
  "cooker_id (Connected (Some i)) = Some i"
| "cooker_id _ = None"

datatype Lifecycle = Idle | LcStartPending | LcCooking | LcStopPending

record PreheatWatch =
  pw_stage_id :: string
  near_since :: "nat option"
  reached :: bool

record PendingStart =
  start_request_id :: string
  first_stage_id :: "string option"

record PendingStop =
  stop_request_id :: string

record PendingTracker =
  pt_start :: "PendingStart option"
  pt_stop :: "PendingStop option"
  pt_controls :: "(string \<times> string) list"

definition MAX_PENDING_CONTROLS :: nat where "MAX_PENDING_CONTROLS = 16"
definition PREHEAT_SETTLE_WINDOW :: nat where "PREHEAT_SETTLE_WINDOW = 10000"   \<comment> \<open>ms\<close>

record 'j SmState =
  connectivity :: Connectivity
  lifecycle :: Lifecycle
  last_origin :: "TransitionOrigin option"
  pending :: PendingTracker
  sm_status :: "OvenStatus option"
  oven_cook :: "'j OvenCook option"
  sm_current_cook :: "CurrentCook option"
  sm_cook_progress :: "CookProgress option"
  sm_recipes :: "Recipe list"
  sm_history :: "HistoryEntry list"
  sm_local :: bool
  preheat_tolerance_c :: f32
  preheat_watch :: "PreheatWatch option"
  turned_off :: "string option"
  drawn :: nat                                 \<comment> \<open>UUIDs drawn so far\<close>

text \<open>\<open>StateMachineProcessor::new\<close>: the default state with the two settings.\<close>

definition sm_new :: "bool \<Rightarrow> f32 \<Rightarrow> 'j SmState" where
  "sm_new is_local tolerance =
     \<lparr>connectivity = NotConnected, lifecycle = Idle, last_origin = None,
      pending = \<lparr>pt_start = None, pt_stop = None, pt_controls = []\<rparr>,
      sm_status = None, oven_cook = None, sm_current_cook = None, sm_cook_progress = None,
      sm_recipes = [], sm_history = [], sm_local = is_local, preheat_tolerance_c = tolerance,
      preheat_watch = None, turned_off = None, drawn = 0\<rparr>"

record ReadModel =
  rm_status :: "OvenStatus option"
  rm_current_cook :: "CurrentCook option"
  rm_recipes :: "Recipe list"
  rm_history :: "HistoryEntry list"
  rm_last_transition_origin :: "TransitionOrigin option"

definition to_read_model :: "'j SmState \<Rightarrow> ReadModel" where
  "to_read_model s =
     \<lparr>rm_status = sm_status s, rm_current_cook = sm_current_cook s, rm_recipes = sm_recipes s,
      rm_history = sm_history s, rm_last_transition_origin = last_origin s\<rparr>"

definition set_lifecycle :: "Lifecycle \<Rightarrow> TransitionOrigin \<Rightarrow> 'j SmState \<Rightarrow> 'j SmState" where
  "set_lifecycle next origin s = s\<lparr>lifecycle := next, last_origin := Some origin\<rparr>"

datatype 'j SmEffect =
  FxWs "'j WsCommand" | FxStore "'j StoreCommand" | PublishReadModel | CommandFailed CommandFailure

record 'j Env =
  uuid :: "nat \<Rightarrow> string"
  raw_ops :: "'j RawOps"
  now_ms :: nat
  unix_secs :: "nat option"                    \<comment> \<open>\<open>None\<close> before the epoch\<close>

definition new_v4 :: "'j Env \<Rightarrow> 'j SmState \<Rightarrow> string \<times> 'j SmState" where
  "new_v4 env s = (uuid env (drawn s), s\<lparr>drawn := drawn s + 1\<rparr>)"

definition set_pt_start :: "PendingStart option \<Rightarrow> 'j SmState \<Rightarrow> 'j SmState" where
  "set_pt_start p s = s\<lparr>pending := (pending s)\<lparr>pt_start := p\<rparr>\<rparr>"

definition set_pt_stop :: "PendingStop option \<Rightarrow> 'j SmState \<Rightarrow> 'j SmState" where
  "set_pt_stop p s = s\<lparr>pending := (pending s)\<lparr>pt_stop := p\<rparr>\<rparr>"

definition set_pt_controls :: "(string \<times> string) list \<Rightarrow> 'j SmState \<Rightarrow> 'j SmState" where
  "set_pt_controls p s = s\<lparr>pending := (pending s)\<lparr>pt_controls := p\<rparr>\<rparr>"

definition status_cooking :: "'j SmState \<Rightarrow> bool" where
  "status_cooking s = (case sm_status s of Some st \<Rightarrow> is_cooking st | None \<Rightarrow> False)"

definition fetch_current_cook :: "'j SmState \<Rightarrow> CurrentCookReason \<Rightarrow> 'j SmEffect" where
  "fetch_current_cook s reason =
     FxStore (FetchCurrentCook reason (if lifecycle s = LcStartPending then None else oven_cook s))"

section \<open>Client commands\<close>

definition link_current_cook ::
  "string \<Rightarrow> string \<Rightarrow> 'j SmState \<Rightarrow> ((SmError + unit) \<times> 'j SmEffect list) \<times> 'j SmState" where
  "link_current_cook recipe_id title s =
     (case sm_current_cook s of
        None \<Rightarrow> ((Inl ErrNotCooking, []), s)
      | Some cook \<Rightarrow>
          ((Inr (), [FxStore (LinkCookToRecipe recipe_id title), PublishReadModel]),
           s\<lparr>sm_current_cook := Some (cook\<lparr>cc_recipe_id := Some recipe_id, cc_recipe_title := title\<rparr>)\<rparr>))"

text \<open>The stage ids of a start, a fresh UUID drawn for each stage that has none.\<close>

fun normalize_ids :: "'j Env \<Rightarrow> 'j SmState \<Rightarrow> Stage list \<Rightarrow> Stage list \<times> 'j SmState" where
  "normalize_ids env s [] = ([], s)"
| "normalize_ids env s (st # sts) =
     (let (fresh, s) = (if needs_fresh_id (st_id st) then new_v4 env s else ([], s));
          (sts', s) = normalize_ids env s sts
      in (st\<lparr>st_id := Some (normalize_stage_id_for_ws fresh (st_id st))\<rparr> # sts', s))"

definition start ::
  "'j Env \<Rightarrow> Recipe \<Rightarrow> StartedFrom \<Rightarrow> 'j SmState \<Rightarrow>
   ((SmError + unit) \<times> 'j SmEffect list) \<times> 'j SmState" where
  "start env recipe from s =
     (let (stages, s) = normalize_ids env s (rewrite_preheat_stage_ids (rc_stages recipe));
          (request_id, s) = new_v4 env s;
          s = set_pt_start (Some \<lparr>start_request_id = request_id,
                first_stage_id = (case stages of [] \<Rightarrow> None | st # _ \<Rightarrow> st_id st)\<rparr>) s;
          s = set_lifecycle LcStartPending LocalCommand s;
          s = s\<lparr>sm_current_cook := Some
                \<lparr>cc_recipe_title = rc_title recipe, cc_recipe_id = started_recipe_id from,
                 cc_started_at = (case unix_secs env of
                    Some d \<Rightarrow> ''local-'' @ show_nat d | None \<Rightarrow> ''local''),
                 cc_stages = stages, cc_cook_stage_count = rc_stage_count recipe,
                 cc_total_stage_count = length stages\<rparr>\<rparr>;
          (u, s) = new_v4 env s;
          cid = ''ios-'' @ u
      in ((Inr (),
           [FxWs (SendStart request_id cid (rc_id recipe) stages),
            FxStore (PatchCookRecipeRef cid from (extras_from_stages stages))]), s))"

definition start_cook ::
  "'j Env \<Rightarrow> string \<Rightarrow> 'j SmState \<Rightarrow> ((SmError + unit) \<times> 'j SmEffect list) \<times> 'j SmState" where
  "start_cook env recipe_id s =
     (if cooker_id (connectivity s) = None then ((Inl ErrDisconnected, []), s)
      else case find (\<lambda>r. rc_id r = recipe_id) (sm_recipes s) of
        None \<Rightarrow> ((Inl (ErrRecipeNotFound recipe_id), []), s)
      | Some recipe \<Rightarrow> start env recipe (FromRecipe (rc_id recipe)) s)"

definition start_manual_cook ::
  "'j Env \<Rightarrow> string \<Rightarrow> Stage list \<Rightarrow> 'j SmState \<Rightarrow>
   ((SmError + unit) \<times> 'j SmEffect list) \<times> 'j SmState" where
  "start_manual_cook env title stages s =
     (if cooker_id (connectivity s) = None then ((Inl ErrDisconnected, []), s)
      else
        (let cook_stage_count = length (filter (\<lambda>st. st_kind st \<noteq> ''preheat'') stages);
             (u, s) = new_v4 env s;
             recipe = \<lparr>rc_id = ''manual-'' @ filter (\<lambda>c. c \<noteq> CHR ''-'') u, rc_title = title,
                       rc_stage_count = cook_stage_count, rc_stages = stages, rc_source = Own\<rparr>
         in start env recipe (FromManual title cook_stage_count) s))"

definition update_cook_stages :: "'j Env \<Rightarrow> 'j list \<Rightarrow> 'j OvenControl" where
  "update_cook_stages env raw = UpdateCookStages (map (for_update (raw_ops env)) raw)"

definition unsupported_message :: string where
  "unsupported_message =
     ''only available in local mode; Anova'' @ [CHR 0x27] @ ''s cloud refuses or doesn'' @
     [CHR 0x27] @ ''t relay it''"

definition control :: "'j Env \<Rightarrow> 'j SmState \<Rightarrow> ControlRequest \<Rightarrow> SmError + 'j OvenControl" where
  "control env s rq =
     (if \<not> sm_local s then Inl (ErrUnsupported unsupported_message)
      else if cooker_id (connectivity s) = None then Inl ErrDisconnected
      else case rq of
        RqLamp on \<Rightarrow> Inr (SetLamp on)
      | RqTemperatureUnit unit \<Rightarrow> Inr (SetTemperatureUnit unit)
      | _ \<Rightarrow>
        (case sm_status s of
           None \<Rightarrow> Inl ErrNotCooking
         | Some status \<Rightarrow>
           if \<not> is_cooking status then Inl ErrNotCooking
           else case oven_cook s of
             None \<Rightarrow> Inl ErrNotCooking
           | Some cook \<Rightarrow>
             (case (case active_stage_index status of
                      Some i \<Rightarrow> if i < length (oc_raw_stages cook) then Some i else None
                    | None \<Rightarrow> None) of
                None \<Rightarrow> Inl (ErrConflict (''the oven hasn'' @ [CHR 0x27] @ ''t reported its active stage''))
              | Some active \<Rightarrow>
                (let in_preheat = (case get_nth (oc_stages cook) active of
                                     Some st \<Rightarrow> st_kind st = ''preheat'' | None \<Rightarrow> False);
                     raw = oc_raw_stages cook
                 in case rq of
                      RqNextStage \<Rightarrow>
                        (case get_nth (oc_stages cook) (active + 1) of
                           None \<Rightarrow> Inl (ErrConflict ''the active stage is the last one'')
                         | Some next \<Rightarrow>
                             (case st_id next of
                                None \<Rightarrow> Inl (ErrConflict ''the next stage has no id'')
                              | Some stage_id \<Rightarrow> Inr (StartStage stage_id)))
                    | RqTemperature celsius \<Rightarrow>
                        if in_preheat then
                          Inr (update_cook_stages env
                            (raw[active := with_temperature (raw_ops env) (raw ! active) celsius]))
                        else Inr (SetTemperatureBulbs (temperature_bulbs_mode status) celsius)
                    | RqTimer secs \<Rightarrow>
                        if in_preheat then
                          (if length raw \<le> active + 1
                           then Inl (ErrConflict ''a preheat with no stage after it has no timer to set'')
                           else Inr (update_cook_stages env
                             (raw[active + 1 := with_timer (raw_ops env) (raw ! (active + 1)) secs])))
                        else Inr (SetTimer secs)
                    | RqLamp on \<Rightarrow> Inr (SetLamp on)
                    | RqTemperatureUnit unit \<Rightarrow> Inr (SetTemperatureUnit unit)))))"

definition send_control ::
  "'j Env \<Rightarrow> string \<Rightarrow> 'j OvenControl \<Rightarrow> 'j SmState \<Rightarrow> 'j SmEffect \<times> 'j SmState" where
  "send_control env name ctl s =
     (let (request_id, s) = new_v4 env s;
          controls = pt_controls (pending s) @ [(request_id, name)];
          controls = (if MAX_PENDING_CONTROLS < length controls then remove_nth 0 controls else controls)
      in (FxWs (WsControl request_id ctl), set_pt_controls controls s))"

definition stop_cook ::
  "'j Env \<Rightarrow> 'j SmState \<Rightarrow> ((SmError + unit) \<times> 'j SmEffect list) \<times> 'j SmState" where
  "stop_cook env s =
     (if lifecycle s = Idle then ((Inl ErrNotCooking, []), s)
      else if (case sm_status s of Some st \<Rightarrow> \<not> is_cooking st | None \<Rightarrow> False)
      then ((Inl ErrNotCooking, []), s)
      else if cooker_id (connectivity s) = None then ((Inl ErrDisconnected, []), s)
      else
        (let (effects, s) =
               (if sm_local s \<and> (case sm_status s of Some st \<Rightarrow> lamp_on st | None \<Rightarrow> False)
                then (let (e, s) = send_control env ''lamp'' (SetLamp False) s in ([e], s))
                else ([], s));
             (request_id, s) = new_v4 env s;
             s = set_pt_stop (Some \<lparr>stop_request_id = request_id\<rparr>) s;
             s = set_lifecycle LcStopPending LocalCommand s
         in ((Inr (), effects @ [FxWs (SendStop request_id)]), s)))"

definition probe_done :: "OvenStatus \<Rightarrow> Stage \<Rightarrow> bool" where
  "probe_done status stage \<longleftrightarrow>
     st_probe_added stage = Some True \<and>
     (case (probe_temperature_c status,
            (case probe_target_temperature_c status of Some t \<Rightarrow> Some t | None \<Rightarrow> st_probe_target_c stage)) of
        (Some current, Some target) \<Rightarrow> f32_ge current target
      | _ \<Rightarrow> False)"

definition wants_turn_off :: "'j SmState \<Rightarrow> string option" where
  "wants_turn_off s =
     (if \<not> sm_local s \<or> lifecycle s \<noteq> LcCooking then None
      else case (sm_status s, oven_cook s, sm_current_cook s) of
        (Some status, Some cook, Some current) \<Rightarrow>
          if \<not> (cc_stages current \<noteq> [] \<and> st_turn_off_at_end (last (cc_stages current)) = Some True) \<or>
             turned_off s = Some (oc_cook_id cook) then None
          else if oc_stages cook = [] then None
          else
            (let last_i = length (oc_stages cook) - 1
             in if active_stage_index status \<noteq> Some last_i then None
                else if \<not> cook_done status \<and> \<not> probe_done status (oc_stages cook ! last_i) then None
                else Some (oc_cook_id cook))
      | _ \<Rightarrow> None)"

definition turn_off_when_done :: "'j Env \<Rightarrow> 'j SmState \<Rightarrow> 'j SmEffect list \<times> 'j SmState" where
  "turn_off_when_done env s =
     (case wants_turn_off s of
        None \<Rightarrow> ([], s)
      | Some cid \<Rightarrow>
          (let s = s\<lparr>turned_off := Some cid\<rparr>
           in case stop_cook env s of
                ((Inr _, effects), s) \<Rightarrow> (effects, s)
              | ((Inl _, _), s) \<Rightarrow> ([], s)))"


section \<open>Oven reports\<close>

text \<open>\<open>settle_preheat\<close>: the preheat that is watched, with the stage after it.\<close>

definition watched_preheat :: "'j SmState \<Rightarrow> OvenStatus \<Rightarrow> (string \<times> f32 \<times> Stage) option" where
  "watched_preheat s status =
     (case (oven_cook s, active_stage_index status) of
        (Some cook, Some i) \<Rightarrow>
          if sm_local s \<and> is_cooking status then
            (case (get_nth (oc_stages cook) i, get_nth (oc_stages cook) (i + 1)) of
               (Some preheat, Some next) \<Rightarrow>
                 if st_kind preheat = ''preheat''
                 then map_option (\<lambda>sid. (sid, st_temperature_c preheat, next)) (st_id preheat)
                 else None
             | _ \<Rightarrow> None)
          else None
      | _ \<Rightarrow> None)"

definition settle_preheat ::
  "'j Env \<Rightarrow> OvenStatus \<Rightarrow> 'j SmState \<Rightarrow> ('j SmEffect list \<times> OvenStatus) \<times> 'j SmState" where
  "settle_preheat env status s =
     (case watched_preheat s status of
        None \<Rightarrow> (([], status), s\<lparr>preheat_watch := None\<rparr>)
      | Some (stage_id, target, next) \<Rightarrow>
          (let next_waits = (st_user_action_required next = Some True);
               watch = (case preheat_watch s of
                  Some w \<Rightarrow> if pw_stage_id w = stage_id then w
                            else \<lparr>pw_stage_id = stage_id, near_since = None, reached = False\<rparr>
                | None \<Rightarrow> \<lparr>pw_stage_id = stage_id, near_since = None, reached = False\<rparr>);
               keep = (\<lambda>w. s\<lparr>preheat_watch := Some w\<rparr>);
               waiting = status\<lparr>stage_transition_pending_user_action := True\<rparr>
           in if stage_transition_pending_user_action status then
                (([], status), keep (watch\<lparr>reached := True\<rparr>))
              else if reached watch then
                (([], if next_waits then waiting else status), keep watch)
              else if f32_lt (current_temperature_c status) (f32_sub target (preheat_tolerance_c s)) then
                (([], status), keep (watch\<lparr>near_since := None\<rparr>))
              else
                (let since = (case near_since watch of Some t \<Rightarrow> t | None \<Rightarrow> now_ms env);
                     watch = watch\<lparr>near_since := Some since\<rparr>
                 in if now_ms env - since < PREHEAT_SETTLE_WINDOW then (([], status), keep watch)
                    else
                      (let s = keep (watch\<lparr>reached := True\<rparr>)
                       in if next_waits then (([], waiting), s)
                          else case st_id next of
                            Some next_id \<Rightarrow>
                              (let (e, s) = send_control env ''next_stage'' (StartStage next_id) s
                               in (([e], status), s))
                          | None \<Rightarrow> (([], status), s)))))"

text \<open>The blocks of \<open>apply_apo_state\<close>, in order.\<close>

definition idle_to_cooking ::
  "'j Env \<Rightarrow> OvenStatus \<Rightarrow> 'j SmState \<Rightarrow> 'j SmEffect list \<times> 'j SmState" where
  "idle_to_cooking env status s =
     (let seen_before = (sm_status s \<noteq> None);
          reason = (if seen_before then CrWsIdleToCooking else CrWsConnectedCookingState);
          origin = (if lifecycle s = LcStartPending then AckConfirmed
                    else if seen_before then WsExternal else StartupSync);
          s = set_lifecycle LcCooking origin (set_pt_start None s);
          (lamp, s) = (if sm_local s \<and> seen_before \<and> \<not> lamp_on status
                       then (let (e, s) = send_control env ''lamp'' (SetLamp True) s in ([e], s))
                       else ([], s))
      in (lamp @ [fetch_current_cook s reason, FxStore (RefreshHistory HrWsIdleToCooking)], s))"

definition cooking_to_idle :: "'j SmState \<Rightarrow> 'j SmEffect list \<times> 'j SmState" where
  "cooking_to_idle s =
     (let origin = (if lifecycle s = LcStopPending then AckConfirmed else WsExternal);
          s = (set_pt_stop None s)\<lparr>sm_current_cook := None\<rparr>
      in ([FxStore (RefreshHistory HrWsCookToIdle)], set_lifecycle Idle origin s))"

definition apply_apo_state ::
  "'j Env \<Rightarrow> OvenStatus \<Rightarrow> 'j SmState \<Rightarrow> 'j SmEffect list \<times> 'j SmState" where
  "apply_apo_state env status s =
     (let prev_cooking = status_cooking s;
          prev_timer = map_option timer_total_secs (sm_status s);
          cooking = is_cooking status;
          timer = timer_total_secs status;
          (e1, s) = (if cooking \<and> \<not> prev_cooking then idle_to_cooking env status s else ([], s));
          (e2, s) = (if \<not> cooking \<and> prev_cooking then cooking_to_idle s else ([], s));
          e3 = (if cooking \<and> prev_cooking \<and> prev_timer \<noteq> None \<and> prev_timer \<noteq> Some timer
                then [fetch_current_cook s CrWsStageTransition] else []);
          s = (if \<not> cooking \<and> lifecycle s = LcStartPending
               then set_lifecycle Idle TimeoutRecovery (set_pt_start None s) else s);
          s = (if \<not> cooking \<and> lifecycle s = Idle then s\<lparr>sm_current_cook := None\<rparr> else s);
          s = s\<lparr>sm_status := Some status\<rparr>;
          (e4, s) = turn_off_when_done env s
      in (e1 @ e2 @ e3 @ e4 @ [PublishReadModel], s))"

section \<open>Acks\<close>

definition command_failed :: "string \<Rightarrow> string \<Rightarrow> 'j SmEffect" where
  "command_failed command reason = CommandFailed \<lparr>cf_command = command, cf_reason = reason\<rparr>"

definition ack_control ::
  "string \<Rightarrow> string \<Rightarrow> bool \<Rightarrow> 'j SmState \<Rightarrow> 'j SmEffect list \<times> 'j SmState" where
  "ack_control request_id status ok s =
     (let controls = pt_controls (pending s)
      in case position (\<lambda>(i, _). i = request_id) controls of
           None \<Rightarrow> ([], s)
         | Some i \<Rightarrow>
             (let s' = set_pt_controls (remove_nth i controls) s
              in if \<not> ok then ([command_failed (snd (controls ! i)) status], s') else ([], s')))"

definition apply_command_ack ::
  "string \<Rightarrow> string \<Rightarrow> 'j SmState \<Rightarrow> 'j SmEffect list \<times> 'j SmState" where
  "apply_command_ack request_id status s =
     (let ok = eq_ignore_ascii_case status ''ok''
      in if (case pt_start (pending s) of Some p \<Rightarrow> start_request_id p = request_id | None \<Rightarrow> False)
         then
           (if ok then
              (let s = s\<lparr>last_origin := Some AckConfirmed\<rparr>;
                   s = (if sm_local s \<and> status_cooking s
                        then set_lifecycle LcCooking AckConfirmed (set_pt_start None s) else s)
               in ([fetch_current_cook s CrStartCommandAccepted], s))
            else
              ([command_failed ''start'' status],
               set_lifecycle Idle TimeoutRecovery (set_pt_start None s)))
         else if (case pt_stop (pending s) of Some p \<Rightarrow> stop_request_id p = request_id \<and> \<not> ok | None \<Rightarrow> False)
         then ([command_failed ''stop'' status],
               set_lifecycle LcCooking TimeoutRecovery (set_pt_stop None s))
         else ack_control request_id status ok s)"

section \<open>Reducers\<close>

fun reduce_ws_event ::
  "'j Env \<Rightarrow> 'j WsEvent \<Rightarrow> 'j SmState \<Rightarrow> 'j SmEffect list \<times> 'j SmState" where
  "reduce_ws_event env EvConnected s =
     ([], s\<lparr>connectivity := Connected (case connectivity s of
        Connected cooker \<Rightarrow> cooker | NotConnected \<Rightarrow> None)\<rparr>)"
| "reduce_ws_event env EvDisconnected s = ([], s\<lparr>connectivity := NotConnected\<rparr>)"
| "reduce_ws_event env (CookerDiscovered i) s = ([], s\<lparr>connectivity := Connected (Some i)\<rparr>)"
| "reduce_ws_event env (ApoState status cook) s =
     (let report = (if lifecycle s \<noteq> LcStartPending then [FxStore (OvenReported cook)] else []);
          s = s\<lparr>oven_cook := cook\<rparr>;
          ((settled, status), s) = settle_preheat env status s;
          (effects, s) = apply_apo_state env status s
      in (report @ effects @ settled, s))"
| "reduce_ws_event env (CommandAck request_id status) s = apply_command_ack request_id status s"
| "reduce_ws_event env (ParseError detail) s = ([], s)"

fun reduce_store_event :: "StoreEvent \<Rightarrow> 'j SmState \<Rightarrow> 'j SmEffect list \<times> 'j SmState" where
  "reduce_store_event (RecipesRefreshed (Inr recipes)) s =
     ([PublishReadModel], s\<lparr>sm_recipes := recipes\<rparr>)"
| "reduce_store_event (RecipesRefreshed (Inl e)) s = ([], s)"
| "reduce_store_event (HistoryRefreshed (Inr history)) s =
     ([PublishReadModel], s\<lparr>sm_history := history\<rparr>)"
| "reduce_store_event (HistoryRefreshed (Inl e)) s = ([], s)"
| "reduce_store_event (CurrentCookFetched reason (Inr cook)) s =
     ([PublishReadModel], s\<lparr>sm_current_cook := cook\<rparr>)"
| "reduce_store_event (CurrentCookFetched reason (Inl e)) s = ([], s)"
| "reduce_store_event (RecipeRefPatched cid recipe_id (Inr _)) s =
     ([fetch_current_cook s CrStartCommandAccepted], s)"
| "reduce_store_event (RecipeRefPatched cid recipe_id (Inl e)) s = ([], s)"
| "reduce_store_event (ManualCookTitleResolved cook_key (Inr (Some (title, i)))) s =
     ([PublishReadModel],
      (case sm_current_cook s of
         Some cook \<Rightarrow>
           if cc_started_at cook = cook_key \<and> cc_recipe_title cook = ''[manual]'' then
             s\<lparr>sm_current_cook := Some (cook\<lparr>cc_recipe_title := title,
                 cc_recipe_id := (case cc_recipe_id cook of None \<Rightarrow> Some i | Some j \<Rightarrow> Some j)\<rparr>)\<rparr>
           else s
       | None \<Rightarrow> s))"
| "reduce_store_event (ManualCookTitleResolved cook_key _) s = ([], s)"

fun reduce_event ::
  "'j Env \<Rightarrow> 'j StateMachineEvent \<Rightarrow> 'j SmState \<Rightarrow> 'j SmEffect list \<times> 'j SmState" where
  "reduce_event env (Ws event) s = reduce_ws_event env event s"
| "reduce_event env (Store event) s = reduce_store_event event s"
| "reduce_event env (Tick CurrentCookRefresh) s =
     (if lifecycle s = LcCooking \<or> lifecycle s = LcStartPending
      then ([fetch_current_cook s CrPeriodic], s) else ([], s))"
| "reduce_event env (Tick RecipesRefresh) s = ([FxStore RefreshRecipes], s)"
| "reduce_event env (Tick HistoryRefresh) s = ([FxStore (RefreshHistory HrPeriodic)], s)"
| "reduce_event env (Tick PendingTimeout) s = ([], s)"

text \<open>The result a command's reply channel gets.\<close>

datatype Reply =
  ReplyStatus "SmError + OvenStatus"
| ReplyCurrentCook "SmError + CurrentCook option"
| ReplyRecipes "SmError + Recipe list"
| ReplyHistory "SmError + HistoryEntry list"
| ReplyUnit "SmError + unit"

definition reply_unit :: "((SmError + unit) \<times> 'j SmEffect list) \<times> 'j SmState \<Rightarrow>
    (Reply \<times> 'j SmEffect list) \<times> 'j SmState" where
  "reply_unit = (\<lambda>((r, effects), s). ((ReplyUnit r, effects), s))"

fun reduce_command ::
  "'j Env \<Rightarrow> StateMachineCommand \<Rightarrow> 'j SmState \<Rightarrow> (Reply \<times> 'j SmEffect list) \<times> 'j SmState" where
  "reduce_command env GetStatus s =
     ((ReplyStatus (case sm_status s of Some st \<Rightarrow> Inr st | None \<Rightarrow> Inl ErrDisconnected), []), s)"
| "reduce_command env GetCurrentCook s = ((ReplyCurrentCook (Inr (sm_current_cook s)), []), s)"
| "reduce_command env GetRecipes s = ((ReplyRecipes (Inr (sm_recipes s)), []), s)"
| "reduce_command env GetHistory s = ((ReplyHistory (Inr (sm_history s)), []), s)"
| "reduce_command env CmdRefreshRecipes s =
     ((ReplyRecipes (Inr (sm_recipes s)), [FxStore RefreshRecipes]), s)"
| "reduce_command env (StartCook recipe_id) s = reply_unit (start_cook env recipe_id s)"
| "reduce_command env (StartManualCook title stages) s =
     reply_unit (start_manual_cook env title stages s)"
| "reduce_command env StopCook s = reply_unit (stop_cook env s)"
| "reduce_command env (LinkCurrentCook recipe_id title) s =
     reply_unit (link_current_cook recipe_id title s)"
| "reduce_command env (Control rq) s =
     (case control env s rq of
        Inr ctl \<Rightarrow> (let (e, s) = send_control env (control_name rq) ctl s in ((ReplyUnit (Inr ()), [e]), s))
      | Inl e \<Rightarrow> ((ReplyUnit (Inl e), []), s))"

section \<open>Dispatch\<close>

text \<open>\<open>dispatch\<close>: each effect to its channel, in order; a published read model is the new state's.\<close>

record 'j Outbox =
  ws_tx :: "'j WsCommand list"
  store_tx :: "'j StoreCommand list"
  read_model_tx :: "ReadModel list"
  failures_tx :: "CommandFailure list"

fun dispatch :: "'j SmState \<Rightarrow> 'j SmEffect list \<Rightarrow> 'j Outbox" where
  "dispatch s [] = \<lparr>ws_tx = [], store_tx = [], read_model_tx = [], failures_tx = []\<rparr>"
| "dispatch s (e # effects) =
     (let out = dispatch s effects
      in case e of
           FxWs c \<Rightarrow> out\<lparr>ws_tx := c # ws_tx out\<rparr>
         | FxStore c \<Rightarrow> out\<lparr>store_tx := c # store_tx out\<rparr>
         | PublishReadModel \<Rightarrow> out\<lparr>read_model_tx := to_read_model s # read_model_tx out\<rparr>
         | CommandFailed f \<Rightarrow> out\<lparr>failures_tx := f # failures_tx out\<rparr>)"

end
