(* ===== verification/State_Machine_Runs.thy ===== *)
theory State_Machine_Runs
  imports State_Machine
begin

text \<open>
  Runs of the state machine and what holds over them: the request ids of its pending tracker, what
  a refused command leaves alone, what an idle report settles, which stage ids a start sends, when
  a preheat is skipped and how often a cook is turned off.
\<close>

section \<open>Runs\<close>

datatype 'j SmInput = ClientCommand StateMachineCommand | ExternalEvent "'j StateMachineEvent"

text \<open>One turn of the processor's loop: the reducer, and the effects it dispatches.\<close>

fun sm_step :: "'j Env \<Rightarrow> 'j SmInput \<Rightarrow> 'j SmState \<Rightarrow> 'j SmEffect list \<times> 'j SmState" where
  "sm_step env (ClientCommand c) s = (let ((reply, effects), s) = reduce_command env c s in (effects, s))"
| "sm_step env (ExternalEvent e) s = reduce_event env e s"

text \<open>A run: each turn with its own clock readings, all from one UUID stream.\<close>

inductive sm_reach :: "(nat \<Rightarrow> string) \<Rightarrow> 'j SmState \<Rightarrow> bool" for u where
  init: "sm_reach u (sm_new is_local tolerance)"
| step: "sm_reach u s \<Longrightarrow> uuid env = u \<Longrightarrow> sm_reach u (snd (sm_step env i s))"

section \<open>Request ids\<close>

definition tracker_ids :: "PendingTracker \<Rightarrow> string list" where
  "tracker_ids p =
     (case pt_start p of Some q \<Rightarrow> [start_request_id q] | None \<Rightarrow> []) @
     (case pt_stop p of Some q \<Rightarrow> [stop_request_id q] | None \<Rightarrow> []) @ map fst (pt_controls p)"

definition ids_ok :: "(nat \<Rightarrow> string) \<Rightarrow> 'j SmState \<Rightarrow> bool" where
  "ids_ok u s \<longleftrightarrow>
     distinct (tracker_ids (pending s)) \<and> set (tracker_ids (pending s)) \<subseteq> u ` {..<drawn s} \<and>
     length (pt_controls (pending s)) \<le> MAX_PENDING_CONTROLS"

lemma fresh_id:
  fixes n :: nat
  assumes "inj u" "set xs \<subseteq> u ` {..<n}" "n \<le> k"
  shows "u k \<notin> set xs"
proof
  assume "u k \<in> set xs"
  then obtain j where "j < n" "u k = u j" using assms(2) by blast
  moreover from assms(1) this(2) have "k = j" by (rule injD)
  ultimately show False using assms(3) by simp
qed

lemma images_mono: "n \<le> (m::nat) \<Longrightarrow> u ` {..<n} \<subseteq> u ` {..<m}"
  by auto

text \<open>Draws and updates of the other fields.\<close>

lemma ids_ok_cong:
  assumes "ids_ok u s" "pending s' = pending s" "drawn s \<le> drawn s'"
  shows "ids_ok u s'"
  using assms images_mono [of "drawn s" "drawn s'" u]
  by (auto simp add: ids_ok_def intro: subset_trans)

lemma ids_ok_start_None: "ids_ok u s \<Longrightarrow> ids_ok u (set_pt_start None s)"
  by (auto simp: ids_ok_def tracker_ids_def set_pt_start_def split: option.splits)

lemma ids_ok_stop_None: "ids_ok u s \<Longrightarrow> ids_ok u (set_pt_stop None s)"
  by (auto simp: ids_ok_def tracker_ids_def set_pt_stop_def split: option.splits)

lemma ids_ok_start_Some:
  assumes "ids_ok u s" "inj u" "drawn s \<le> k" "k < n"
  shows "ids_ok u (set_pt_start (Some \<lparr>start_request_id = u k, first_stage_id = f\<rparr>) (s\<lparr>drawn := n\<rparr>))"
proof -
  have "set (tracker_ids (pending s)) \<subseteq> u ` {..<n}" "u k \<in> u ` {..<n}"
    using assms images_mono [of "drawn s" n u] by (auto simp: ids_ok_def)
  moreover have "u k \<notin> set (tracker_ids (pending s))"
    using assms by (intro fresh_id [of u _ "drawn s"]) (simp_all add: ids_ok_def)
  ultimately show ?thesis
    using assms by (simp add: ids_ok_def tracker_ids_def set_pt_start_def split: option.splits)
qed

lemma ids_ok_stop_Some:
  assumes "ids_ok u s" "inj u" "drawn s \<le> k" "k < n"
  shows "ids_ok u (set_pt_stop (Some \<lparr>stop_request_id = u k\<rparr>) (s\<lparr>drawn := n\<rparr>))"
proof -
  have "set (tracker_ids (pending s)) \<subseteq> u ` {..<n}" "u k \<in> u ` {..<n}"
    using assms images_mono [of "drawn s" n u] by (auto simp: ids_ok_def)
  moreover have "u k \<notin> set (tracker_ids (pending s))"
    using assms by (intro fresh_id [of u _ "drawn s"]) (simp_all add: ids_ok_def)
  ultimately show ?thesis
    using assms by (simp add: ids_ok_def tracker_ids_def set_pt_stop_def split: option.splits)
qed

lemma ids_ok_controls:
  assumes "ids_ok u s" "inj u" "uuid env = u"
  shows "ids_ok u (snd (send_control env name ctl s))"
proof -
  let ?cs = "pt_controls (pending s)"
  let ?n = "Suc (drawn s)"
  have "set (tracker_ids (pending s)) \<subseteq> u ` {..<?n}" "u (drawn s) \<in> u ` {..<?n}"
    using assms images_mono [of "drawn s" ?n u] by (auto simp: ids_ok_def)
  moreover have "u (drawn s) \<notin> set (tracker_ids (pending s))"
    using assms by (intro fresh_id [of u _ "drawn s"]) (auto simp: ids_ok_def)
  ultimately show ?thesis
    using assms
    by (cases ?cs) (simp_all add: send_control_def new_v4_def Let_def ids_ok_def tracker_ids_def
        set_pt_controls_def remove_nth_0 MAX_PENDING_CONTROLS_def split: option.splits)
qed

lemma ids_ok_remove_control:
  assumes "ids_ok u s"
  shows "ids_ok u (set_pt_controls (remove_nth i (pt_controls (pending s))) s)"
proof -
  let ?cs = "pt_controls (pending s)"
  let ?others = "tracker_ids ((pending s)\<lparr>pt_controls := []\<rparr>)"
  have split_ids: "tracker_ids (p\<lparr>pt_controls := cs\<rparr>) = tracker_ids (p\<lparr>pt_controls := []\<rparr>) @ map fst cs"
    for p cs
    by (simp add: tracker_ids_def)
  from split_ids [where p = "pending s" and cs = ?cs] have "tracker_ids (pending s) = ?others @ map fst ?cs" by simp
  with assms have "distinct (?others @ map fst ?cs)" "set (?others @ map fst ?cs) \<subseteq> u ` {..<drawn s}"
    and "length ?cs \<le> MAX_PENDING_CONTROLS"
    by (simp_all add: ids_ok_def)
  moreover have "set (map fst (remove_nth i ?cs)) \<subseteq> set (map fst ?cs)"
    using set_remove_nth [of i "map fst ?cs"] by (simp add: map_remove_nth)
  ultimately have "distinct (?others @ map fst (remove_nth i ?cs))"
    and "set (?others @ map fst (remove_nth i ?cs)) \<subseteq> u ` {..<drawn s}"
    and "length (remove_nth i ?cs) \<le> MAX_PENDING_CONTROLS"
    using length_remove_nth_le [of i ?cs]
    by (auto simp: distinct_append map_remove_nth intro!: distinct_remove_nth)
  then show ?thesis
    by (simp add: ids_ok_def set_pt_controls_def split_ids [where cs = "remove_nth i ?cs"])
qed

lemma ids_ok_frame [simp]:
  "ids_ok u (set_lifecycle l o' s) = ids_ok u s"
  "ids_ok u (s\<lparr>sm_status := x1\<rparr>) = ids_ok u s"
  "ids_ok u (s\<lparr>oven_cook := x2\<rparr>) = ids_ok u s"
  "ids_ok u (s\<lparr>sm_current_cook := x3\<rparr>) = ids_ok u s"
  "ids_ok u (s\<lparr>connectivity := x4\<rparr>) = ids_ok u s"
  "ids_ok u (s\<lparr>sm_recipes := x5\<rparr>) = ids_ok u s"
  "ids_ok u (s\<lparr>sm_history := x6\<rparr>) = ids_ok u s"
  "ids_ok u (s\<lparr>preheat_watch := x7\<rparr>) = ids_ok u s"
  "ids_ok u (s\<lparr>turned_off := x8\<rparr>) = ids_ok u s"
  "ids_ok u (s\<lparr>last_origin := x9\<rparr>) = ids_ok u s"
  by (simp_all add: ids_ok_def set_lifecycle_def)

lemma normalize_ids_frame:
  "pending (snd (normalize_ids env s sts)) = pending s \<and> drawn s \<le> drawn (snd (normalize_ids env s sts))"
proof (induction sts arbitrary: s)
  case Nil
  then show ?case by simp
next
  case (Cons st sts)
  show ?case
    using Cons.IH [of s] Cons.IH [of "snd (new_v4 env s)"]
    by (auto simp: Let_def case_prod_beta new_v4_def)
qed

lemma ids_ok_start:
  assumes "ids_ok u s" "inj u" "uuid env = u"
  shows "ids_ok u (snd (start env recipe from s))"
proof -
  obtain stages s1 where n: "normalize_ids env s (rewrite_preheat_stage_ids (rc_stages recipe)) = (stages, s1)"
    by (rule prod.exhaust)
  have "ids_ok u s1"
    using assms(1) normalize_ids_frame [of env s "rewrite_preheat_stage_ids (rc_stages recipe)"]
    by (auto simp: n intro: ids_ok_cong)
  from ids_ok_start_Some [OF this assms(2), of "drawn s1" "Suc (drawn s1)"]
  show ?thesis
    by (rule ids_ok_cong)
      (simp_all add: start_def n new_v4_def Let_def assms(3) set_lifecycle_def set_pt_start_def)
qed

lemma ids_ok_start_cook:
  "ids_ok u s \<Longrightarrow> inj u \<Longrightarrow> uuid env = u \<Longrightarrow> ids_ok u (snd (start_cook env i s))"
  by (simp add: start_cook_def ids_ok_start split: option.split)

lemma ids_ok_new_v4: "ids_ok u s \<Longrightarrow> ids_ok u (s\<lparr>drawn := Suc (drawn s)\<rparr>)"
  by (erule ids_ok_cong) simp_all

lemma ids_ok_start_manual_cook:
  "ids_ok u s \<Longrightarrow> inj u \<Longrightarrow> uuid env = u \<Longrightarrow> ids_ok u (snd (start_manual_cook env title stages s))"
  by (simp add: start_manual_cook_def ids_ok_start new_v4_def ids_ok_new_v4 Let_def)

lemma send_control_parts:
  "send_control env name ctl s =
     (FxWs (WsControl (uuid env (drawn s)) ctl), snd (send_control env name ctl s))"
  by (simp add: send_control_def new_v4_def Let_def)

lemma ids_ok_stop_step:
  assumes "ids_ok u s" "inj u"
  shows "ids_ok u (set_pt_stop (Some \<lparr>stop_request_id = u (drawn s)\<rparr>) (s\<lparr>drawn := Suc (drawn s)\<rparr>))"
  using ids_ok_stop_Some [OF assms, of "drawn s" "Suc (drawn s)"] by simp

lemma ids_ok_stop_cook:
  assumes "ids_ok u s" "inj u" "uuid env = u"
  shows "ids_ok u (snd (stop_cook env s))"
  using assms ids_ok_controls [OF assms]
  by (auto simp: stop_cook_def new_v4_def Let_def case_prod_beta ids_ok_stop_step split: option.split)

lemma ids_ok_link: "ids_ok u (snd (link_current_cook i t s)) = ids_ok u s"
  by (simp add: link_current_cook_def split: option.split)

lemma ids_ok_turn_off:
  assumes "ids_ok u s" "inj u" "uuid env = u"
  shows "ids_ok u (snd (turn_off_when_done env s))"
proof (cases "wants_turn_off s")
  case (Some cid)
  have "ids_ok u (snd (stop_cook env (s\<lparr>turned_off := Some cid\<rparr>)))"
    using assms by (simp add: ids_ok_stop_cook)
  with Some assms show ?thesis
    by (auto simp: turn_off_when_done_def Let_def split: prod.splits sum.splits)
qed (use assms in \<open>simp add: turn_off_when_done_def\<close>)

lemma ids_ok_settle:
  "ids_ok u s \<Longrightarrow> inj u \<Longrightarrow> uuid env = u \<Longrightarrow> ids_ok u (snd (settle_preheat env status s))"
  by (auto simp: settle_preheat_def Let_def case_prod_beta ids_ok_controls split: option.splits)

lemma ids_ok_apply:
  assumes "ids_ok u s" "inj u" "uuid env = u"
  shows "ids_ok u (snd (apply_apo_state env status s))"
proof -
  have 1: "ids_ok u (snd (idle_to_cooking env status s))" if "ids_ok u s" for s :: "'a SmState"
    using that assms(2,3)
    by (simp add: idle_to_cooking_def Let_def case_prod_beta ids_ok_controls ids_ok_start_None)
  have 2: "ids_ok u (snd (cooking_to_idle s))" if "ids_ok u s" for s :: "'a SmState"
    using that by (simp add: cooking_to_idle_def Let_def ids_ok_stop_None)
  show ?thesis
    using assms by (simp add: apply_apo_state_def Let_def case_prod_beta 1 2 ids_ok_turn_off ids_ok_start_None)
qed

lemma ids_ok_ack: "ids_ok u s \<Longrightarrow> ids_ok u (snd (apply_command_ack i status s))"
  by (auto simp: apply_command_ack_def ack_control_def Let_def ids_ok_start_None ids_ok_stop_None
      ids_ok_remove_control split: option.split)

lemma ids_ok_ws_event:
  "ids_ok u s \<Longrightarrow> inj u \<Longrightarrow> uuid env = u \<Longrightarrow> ids_ok u (snd (reduce_ws_event env e s))"
  by (cases e) (simp_all add: Let_def case_prod_beta ids_ok_apply ids_ok_settle ids_ok_ack)

lemma ids_ok_store_event: "ids_ok u (snd (reduce_store_event e s)) = ids_ok u s"
  by (induction e s rule: reduce_store_event.induct) (simp_all split: option.split)

lemma ids_ok_event:
  "ids_ok u s \<Longrightarrow> inj u \<Longrightarrow> uuid env = u \<Longrightarrow> ids_ok u (snd (reduce_event env e s))"
  by (induction env e s rule: reduce_event.induct) (simp_all add: ids_ok_ws_event ids_ok_store_event)

lemma ids_ok_command:
  "ids_ok u s \<Longrightarrow> inj u \<Longrightarrow> uuid env = u \<Longrightarrow> ids_ok u (snd (reduce_command env c s))"
  by (cases c) (simp_all add: reply_unit_def case_prod_beta ids_ok_start_cook ids_ok_start_manual_cook
      ids_ok_stop_cook ids_ok_link ids_ok_controls Let_def split: sum.split)

lemma ids_ok_step:
  "ids_ok u s \<Longrightarrow> inj u \<Longrightarrow> uuid env = u \<Longrightarrow> ids_ok u (snd (sm_step env i s))"
  by (cases i) (simp_all add: ids_ok_event ids_ok_command Let_def case_prod_beta)

lemma ids_ok_reach: "sm_reach u s \<Longrightarrow> inj u \<Longrightarrow> ids_ok u s"
  by (induction rule: sm_reach.induct)
    (simp_all add: ids_ok_step, simp add: ids_ok_def sm_new_def tracker_ids_def)


section \<open>Commands\<close>

fun reply_error :: "Reply \<Rightarrow> SmError option" where
  "reply_error (ReplyStatus (Inl e)) = Some e"
| "reply_error (ReplyCurrentCook (Inl e)) = Some e"
| "reply_error (ReplyRecipes (Inl e)) = Some e"
| "reply_error (ReplyHistory (Inl e)) = Some e"
| "reply_error (ReplyUnit (Inl e)) = Some e"
| "reply_error _ = None"

fun is_ws :: "'j SmEffect \<Rightarrow> bool" where
  "is_ws (FxWs _) = True"
| "is_ws _ = False"

lemma start_accepts [simp]: "fst (fst (start env recipe from s)) = Inr ()"
  by (simp add: start_def Let_def case_prod_beta)

lemma stop_cook_error:
  "fst (fst (stop_cook env s)) = Inl e \<Longrightarrow> stop_cook env s = ((Inl e, []), s)"
  by (auto simp: stop_cook_def Let_def case_prod_beta split: if_splits option.splits)

lemma start_cook_error:
  "fst (fst (start_cook env i s)) = Inl e \<Longrightarrow> start_cook env i s = ((Inl e, []), s)"
  by (simp add: start_cook_def split: if_splits option.splits)

lemma start_manual_cook_error:
  "fst (fst (start_manual_cook env title stages s)) = Inl e \<Longrightarrow>
   start_manual_cook env title stages s = ((Inl e, []), s)"
  by (simp add: start_manual_cook_def Let_def case_prod_beta split: if_splits)

lemma link_error:
  "fst (fst (link_current_cook i t s)) = Inl e \<Longrightarrow> link_current_cook i t s = ((Inl e, []), s)"
  by (auto simp: link_current_cook_def split: option.splits)

lemma reply_error_unit: "reply_error (ReplyUnit r) = Some e \<longleftrightarrow> r = Inl e"
  by (cases r) auto

lemma refused_command:
  assumes "reduce_command env c s = ((reply, effects), s')" and "reply_error reply = Some e"
  shows "effects = [] \<and> s' = s"
proof (cases c)
  case (StartCook i)
  with assms start_cook_error [of env i s e] show ?thesis
    by (auto simp: reply_unit_def case_prod_beta reply_error_unit)
next
  case (StartManualCook title stages)
  with assms start_manual_cook_error [of env title stages s e] show ?thesis
    by (auto simp: reply_unit_def case_prod_beta reply_error_unit)
next
  case StopCook
  with assms stop_cook_error [of env s e] show ?thesis
    by (auto simp: reply_unit_def case_prod_beta reply_error_unit)
next
  case (LinkCurrentCook i t)
  with assms link_error [of i t s e] show ?thesis
    by (auto simp: reply_unit_def case_prod_beta reply_error_unit)
next
  case (Control rq)
  with assms show ?thesis by (auto simp: Let_def case_prod_beta split: sum.splits)
qed (use assms in auto)

text \<open>
  C3: a command that is refused leaves the state as it is and asks for no effect, whatever the
  command and the reason.
\<close>

theorem refused_command_changes_nothing:
  assumes "reduce_command env c s = ((reply, effects), s')" and "reply_error reply = Some e"
  shows "effects = [] \<and> s' = s"
  using assms by (rule refused_command)

text \<open>
  a command sends the oven something only while a websocket is up and the oven's id is known,
  and, but for the lamp and the display's unit, a control only to an oven that cooks, in local mode.
\<close>

theorem commands_need_a_connection:
  assumes "reduce_command env c s = ((reply, effects), s')" and "\<exists>e \<in> set effects. is_ws e"
  shows "(\<exists>i. connectivity s = Connected (Some i)) \<and>
    (\<forall>rq. c = Control rq \<longrightarrow> sm_local s \<and>
       (status_cooking s \<or> (\<exists>on. rq = RqLamp on) \<or> (\<exists>unit. rq = RqTemperatureUnit unit)))"
proof -
  have id: "cooker_id (connectivity s) \<noteq> None \<longleftrightarrow> (\<exists>i. connectivity s = Connected (Some i))"
    by (cases "connectivity s" rule: cooker_id.cases) auto
  show ?thesis
  proof (cases c)
    case (StartCook i)
    with assms show ?thesis
      by (auto simp: id [symmetric] reply_unit_def case_prod_beta start_cook_def split: if_splits)
  next
    case (StartManualCook title stages)
    with assms show ?thesis
      by (auto simp: id [symmetric] reply_unit_def case_prod_beta start_manual_cook_def split: if_splits)
  next
    case StopCook
    with assms show ?thesis
      by (auto simp: id [symmetric] reply_unit_def case_prod_beta stop_cook_def split: if_splits)
  next
    case (LinkCurrentCook i t)
    with assms show ?thesis
      by (auto simp: reply_unit_def link_current_cook_def split: option.splits)
  next
    case (Control rq)
    with assms obtain ctl where "control env s rq = Inr ctl" by (auto split: sum.splits)
    with Control show ?thesis
      by (auto simp: id [symmetric] control_def status_cooking_def split: if_splits option.splits
          ControlRequest.splits)
  qed (use assms in auto)
qed


section \<open>Acks\<close>

text \<open>
  C4: in every reachable state the requests the server waits on have different ids, and at most
  sixteen controls are remembered; so the ack of a control forgets exactly that control, leaves the
  rest of the state alone, and reports a failure under that control's own name.
\<close>

theorem ack_meets_its_request:
  assumes "sm_reach u s" and "inj u" and "(i, name) \<in> set (pt_controls (pending s))"
  shows "distinct (tracker_ids (pending s)) \<and> length (pt_controls (pending s)) \<le> 16 \<and>
    apply_command_ack i status s =
      (if eq_ignore_ascii_case status ''ok'' then [] else [command_failed name status],
       set_pt_controls (filter (\<lambda>c. fst c \<noteq> i) (pt_controls (pending s))) s)"
proof -
  let ?cs = "pt_controls (pending s)"
  from ids_ok_reach [OF assms(1,2)]
  have ok: "distinct (tracker_ids (pending s))" "length ?cs \<le> 16"
    by (simp_all add: ids_ok_def MAX_PENDING_CONTROLS_def)
  then have cs: "distinct (map fst ?cs)" by (simp add: tracker_ids_def)
  from assms(3) obtain k where k: "k < length ?cs" "?cs ! k = (i, name)"
    by (auto simp: in_set_conv_nth)
  from assms(3) have "i \<in> set (map fst ?cs)" by force
  with ok(1) have "case pt_start (pending s) of Some p \<Rightarrow> start_request_id p \<noteq> i | None \<Rightarrow> True"
    and "case pt_stop (pending s) of Some p \<Rightarrow> stop_request_id p \<noteq> i | None \<Rightarrow> True"
    by (auto simp: tracker_ids_def split: option.splits)
  with ok k position_fst [OF cs k(1)] filter_neq_remove_nth [OF cs k(1)]
  show ?thesis
    by (simp add: apply_command_ack_def ack_control_def Let_def split: option.splits)
qed

section \<open>The idle oven\<close>

lemma settle_cooking [simp]: "is_cooking (snd (fst (settle_preheat env status s))) = is_cooking status"
  by (auto simp: settle_preheat_def Let_def case_prod_beta is_cooking_def split: option.splits)

lemma send_control_frame [simp]:
  "lifecycle (snd (send_control env name ctl s)) = lifecycle s"
  "sm_status (snd (send_control env name ctl s)) = sm_status s"
  "sm_current_cook (snd (send_control env name ctl s)) = sm_current_cook s"
  "oven_cook (snd (send_control env name ctl s)) = oven_cook s"
  "turned_off (snd (send_control env name ctl s)) = turned_off s"
  "preheat_watch (snd (send_control env name ctl s)) = preheat_watch s"
  "sm_local (snd (send_control env name ctl s)) = sm_local s"
  "connectivity (snd (send_control env name ctl s)) = connectivity s"
  "preheat_tolerance_c (snd (send_control env name ctl s)) = preheat_tolerance_c s"
  by (simp_all add: send_control_def new_v4_def set_pt_controls_def Let_def)

lemma settle_frame [simp]:
  "lifecycle (snd (settle_preheat env status s)) = lifecycle s"
  "sm_status (snd (settle_preheat env status s)) = sm_status s"
  "sm_current_cook (snd (settle_preheat env status s)) = sm_current_cook s"
  "oven_cook (snd (settle_preheat env status s)) = oven_cook s"
  "turned_off (snd (settle_preheat env status s)) = turned_off s"
  "sm_local (snd (settle_preheat env status s)) = sm_local s"
  "preheat_tolerance_c (snd (settle_preheat env status s)) = preheat_tolerance_c s"
  by (auto simp: settle_preheat_def Let_def case_prod_beta split: option.splits)

lemma turn_off_idle: "lifecycle s = Idle \<Longrightarrow> turn_off_when_done env s = ([], s)"
  by (simp add: turn_off_when_done_def wants_turn_off_def)

text \<open>
  when the oven reports that it is idle, a cook the server saw it run, a start it still waits
  for and a record that came late are all over: the lifecycle is idle, no cook is current, and the
  oven's own record is the reported one.
\<close>

theorem idle_report_settles:
  assumes "\<not> is_cooking status"
    and "status_cooking s \<or> lifecycle s = Idle \<or> lifecycle s = LcStartPending"
    and "reduce_event env (Ws (ApoState status cook)) s = (effects, s')"
  shows "lifecycle s' = Idle \<and> sm_current_cook s' = None \<and> oven_cook s' = cook \<and>
    \<not> status_cooking s' \<and> PublishReadModel \<in> set effects"
  using assms
  by (auto simp: apply_apo_state_def Let_def case_prod_beta status_cooking_def cooking_to_idle_def
      set_lifecycle_def set_pt_stop_def set_pt_start_def turn_off_idle
      split: if_splits option.splits)


section \<open>Stage ids of a start\<close>

lemma starts_with_append_iff:
  "starts_with (s @ t) p \<longleftrightarrow> starts_with s p \<or> (\<exists>q. p = s @ q \<and> starts_with t q)"
  by (induction s p rule: starts_with.induct) auto

text \<open>A prefix that ends in a dash, and has no other, is not completed by \<open>-preheat\<close>.\<close>

lemma starts_with_preheat:
  assumes "CHR ''-'' \<notin> set q" "s \<noteq> q"
  shows "starts_with (s @ ''-preheat'') (q @ ''-'') = starts_with s (q @ ''-'')"
proof -
  have False if "q @ ''-'' = s @ r" "starts_with ''-preheat'' r" "\<not> starts_with s (q @ ''-'')" for r
  proof (cases r rule: rev_cases)
    case Nil
    with that(1,3) show False using starts_with_append [of s "[]"] by simp
  next
    case (snoc r' c)
    with that(1) have "q = s @ r'" "c = CHR ''-''" by auto
    with assms snoc that(2) show False by (cases r') auto
  qed
  then show ?thesis unfolding starts_with_append_iff [of s] by blast
qed

lemma normalize_preheat_id:
  assumes "raw \<notin> {[], ''ios'', ''android''}" "\<not> starts_with raw ''android-''"
  shows "normalize_stage_id_for_ws f (Some (raw @ ''-preheat'')) =
    normalize_stage_id_for_ws f' (Some raw) @ ''-preheat''"
  using assms starts_with_preheat [of "''ios''" raw] starts_with_preheat [of "''android''" raw]
  by (simp add: normalize_stage_id_for_ws_def)

lemma normalize_ids_stages:
  "list_all2 (\<lambda>a b. \<exists>f. b = a\<lparr>st_id := Some (normalize_stage_id_for_ws f (st_id a))\<rparr>)
     sts (fst (normalize_ids env s sts))"
  by (induction sts arbitrary: s) (auto simp: Let_def case_prod_beta)

lemma nth_rewrite_preheat:
  "i < length sts \<Longrightarrow> rewrite_preheat_stage_ids sts ! i =
     (if Suc i < length sts then preheat_pair_id (sts ! i) (sts ! Suc i) else sts ! i)"
  by (induction sts arbitrary: i rule: rewrite_preheat_stage_ids.induct)
    (auto simp: nth_Cons' less_Suc_eq_0_disj)

lemma preheat_pair_id_Some:
  "st_kind s = ''preheat'' \<Longrightarrow> st_kind next \<noteq> ''preheat'' \<Longrightarrow> st_id next = Some i \<Longrightarrow>
   st_id (preheat_pair_id s next) = Some (i @ ''-preheat'')"
  by (auto simp: preheat_pair_id_def Let_def)

definition erase_id :: "Stage \<Rightarrow> Stage" where
  "erase_id st = st\<lparr>st_id := None\<rparr>"

lemma erase_sent:
  "map erase_id (fst (normalize_ids env s (rewrite_preheat_stage_ids sts))) = map erase_id sts"
proof -
  let ?pre = "rewrite_preheat_stage_ids sts"
  have "list_all2 (\<lambda>a b. erase_id b = erase_id a) ?pre (fst (normalize_ids env s ?pre))"
    using normalize_ids_stages [of ?pre env s] by (rule list_all2_mono) (auto simp: erase_id_def)
  then have "map erase_id (fst (normalize_ids env s ?pre)) = map erase_id ?pre"
    by (induction rule: list_all2_induct) simp_all
  also have "\<dots> = map erase_id sts"
    using rewrite_preheat_frame [of sts] by (simp add: erase_id_def [abs_def])
  finally show ?thesis .
qed

text \<open>What a start asks for, with the stages it sends.\<close>

lemma start_effects:
  assumes "start env recipe from s = ((r, effects), s')"
  shows "\<exists>request_id cid.
    effects = [FxWs (SendStart request_id cid (rc_id recipe)
        (fst (normalize_ids env s (rewrite_preheat_stage_ids (rc_stages recipe))))),
      FxStore (PatchCookRecipeRef cid from
        (extras_from_stages (fst (normalize_ids env s (rewrite_preheat_stage_ids (rc_stages recipe))))))] \<and>
    map_option cc_stages (sm_current_cook s') =
      Some (fst (normalize_ids env s (rewrite_preheat_stage_ids (rc_stages recipe))))"
  using assms by (auto simp: start_def Let_def case_prod_beta new_v4_def set_lifecycle_def set_pt_start_def)

text \<open>
  a start sends the oven the recipe's stages, in order and with nothing but their ids changed;
  every id carries the prefix the oven wants, and a preheat's id is that of the stage it heats for
  with \<open>-preheat\<close> behind it, unless that stage has no id or one of the two platform names. The
  stages the server shows as current are the ones it sent.
\<close>

theorem start_sends_the_recipe:
  assumes "start env recipe from s = ((r, effects), s')"
  shows "\<exists>request_id cid sent.
    effects = [FxWs (SendStart request_id cid (rc_id recipe) sent),
      FxStore (PatchCookRecipeRef cid from (extras_from_stages sent))] \<and>
    map_option cc_stages (sm_current_cook s') = Some sent \<and>
    map erase_id sent = map erase_id (rc_stages recipe) \<and>
    (\<forall>st \<in> set sent. \<exists>i. st_id st = Some (''ios-'' @ i)) \<and>
    (\<forall>i raw. Suc i < length sent \<and> st_kind (sent ! i) = ''preheat'' \<and>
       st_kind (sent ! Suc i) \<noteq> ''preheat'' \<and> st_id (rc_stages recipe ! Suc i) = Some raw \<and>
       raw \<notin> {[], ''ios'', ''android''} \<and> \<not> starts_with raw ''android-'' \<longrightarrow>
       (\<exists>n. st_id (sent ! Suc i) = Some n \<and> st_id (sent ! i) = Some (n @ ''-preheat'')))"
proof -
  let ?sts = "rc_stages recipe"
  let ?pre = "rewrite_preheat_stage_ids ?sts"
  define sent where "sent = fst (normalize_ids env s ?pre)"
  have rel: "list_all2 (\<lambda>a b. \<exists>f. b = a\<lparr>st_id := Some (normalize_stage_id_for_ws f (st_id a))\<rparr>) ?pre sent"
    unfolding sent_def by (rule normalize_ids_stages)
  then have len: "length sent = length ?sts" by (simp add: list_all2_lengthD [symmetric])
  have nth: "\<exists>f. sent ! i = (?pre ! i)\<lparr>st_id := Some (normalize_stage_id_for_ws f (st_id (?pre ! i)))\<rparr>"
    if "i < length ?sts" for i
    using list_all2_nthD [OF rel, of i] that by simp
  have erase: "map erase_id sent = map erase_id ?sts" unfolding sent_def by (rule erase_sent)
  have prefix: "\<exists>i. st_id st = Some (''ios-'' @ i)" if "st \<in> set sent" for st
  proof -
    from that obtain i where "i < length ?sts" "st = sent ! i" by (auto simp: in_set_conv_nth len)
    with nth [of i] show ?thesis using normalized_id_prefix by (auto simp: starts_with_iff)
  qed
  have pairs: "\<exists>n. st_id (sent ! Suc i) = Some n \<and> st_id (sent ! i) = Some (n @ ''-preheat'')"
    if i: "Suc i < length sent" "st_kind (sent ! i) = ''preheat''" "st_kind (sent ! Suc i) \<noteq> ''preheat''"
      and raw: "st_id (?sts ! Suc i) = Some raw" "raw \<notin> {[], ''ios'', ''android''}"
        "\<not> starts_with raw ''android-''" for i raw
  proof -
    from i(1) have i': "i < length ?sts" "Suc i < length ?sts" by (simp_all add: len)
    from nth [OF i'(1)] nth [OF i'(2)] obtain f g where
      fg: "sent ! i = (?pre ! i)\<lparr>st_id := Some (normalize_stage_id_for_ws f (st_id (?pre ! i)))\<rparr>"
      "sent ! Suc i = (?pre ! Suc i)\<lparr>st_id := Some (normalize_stage_id_for_ws g (st_id (?pre ! Suc i)))\<rparr>"
      by blast
    have kind: "st_kind (?pre ! j) = st_kind (?sts ! j)" if "j < length ?sts" for j
      using that by (simp add: nth_rewrite_preheat)
    from i(2,3) fg kind i' have k: "st_kind (?sts ! i) = ''preheat''" "st_kind (?sts ! Suc i) \<noteq> ''preheat''"
      by simp_all
    then have "?pre ! Suc i = ?sts ! Suc i"
      using i' by (simp add: nth_rewrite_preheat preheat_pair_id_def)
    moreover have "st_id (?pre ! i) = Some (raw @ ''-preheat'')"
      using k i' raw(1) by (simp add: nth_rewrite_preheat preheat_pair_id_Some)
    ultimately show ?thesis
      using fg raw normalize_preheat_id [OF raw(2,3), of f g] by simp
  qed
  from start_effects [OF assms] obtain request_id cid where
    "effects = [FxWs (SendStart request_id cid (rc_id recipe) sent),
      FxStore (PatchCookRecipeRef cid from (extras_from_stages sent))]"
    "map_option cc_stages (sm_current_cook s') = Some sent"
    unfolding sent_def by blast
  with erase prefix pairs show ?thesis by blast
qed


section \<open>Controls\<close>

text \<open>
  A change of the temperature or timer during a preheat is an edit of the cook as the oven last
  reported it: one raw stage changes, the active one for the temperature and the one after it for
  the timer, and all are resent.
\<close>

theorem preheat_edit_is_one_stage:
  assumes "control env s rq = Inr (UpdateCookStages raw)"
  shows "\<exists>cook status active j f. oven_cook s = Some cook \<and> sm_status s = Some status \<and>
    active_stage_index status = Some active \<and> active < length (oc_raw_stages cook) \<and>
    map_option st_kind (get_nth (oc_stages cook) active) = Some ''preheat'' \<and>
    raw = map (for_update (raw_ops env)) ((oc_raw_stages cook)[j := f (oc_raw_stages cook ! j)]) \<and>
    j < length (oc_raw_stages cook) \<and>
    ((\<exists>c. rq = RqTemperature c \<and> j = active \<and> f = (\<lambda>x. with_temperature (raw_ops env) x c)) \<or>
     (\<exists>secs. rq = RqTimer secs \<and> j = active + 1 \<and> f = (\<lambda>x. with_timer (raw_ops env) x secs)))"
  using assms
  by (auto simp: control_def update_cook_stages_def Let_def simp del: get_nth_None_iff
      split: if_splits option.splits ControlRequest.splits)

section \<open>A refused start\<close>

lemma start_cook_Some:
  assumes "reduce_command env (StartCook i) s = ((reply, FxWs (SendStart q cid rid sent) # rest), s')"
  shows "map_option start_request_id (pt_start (pending s')) = Some q \<and> sm_status s' = sm_status s"
proof -
  have frame: "sm_status (snd (normalize_ids env s sts)) = sm_status s" for sts and s :: "'a SmState"
    by (induction sts arbitrary: s) (simp_all add: Let_def case_prod_beta new_v4_def)
  show ?thesis
    using assms
    by (auto simp: start_cook_def start_def reply_unit_def Let_def case_prod_beta new_v4_def
        set_lifecycle_def set_pt_start_def frame split: if_splits option.splits)
qed

text \<open>
  C7: when the oven refuses a start that was sent while it cooked, the server calls the cook over
  although the oven still reports it: a stop is then refused as well, and further reports of the
  cook do not bring it back.
\<close>

theorem refused_start_disables_stop:
  assumes "status_cooking s"
    and "reduce_command env (StartCook i) s = ((reply, FxWs (SendStart q cid rid sent) # rest), s1)"
    and "\<not> eq_ignore_ascii_case answer ''ok''"
    and "reduce_event env (Ws (CommandAck q answer)) s1 = (effects, s2)"
  shows "status_cooking s2 \<and> lifecycle s2 = Idle \<and> effects = [command_failed ''start'' answer] \<and>
    reduce_command env StopCook s2 = ((ReplyUnit (Inl ErrNotCooking), []), s2) \<and>
    (\<forall>status cook. is_cooking status \<longrightarrow>
       lifecycle (snd (reduce_event env (Ws (ApoState status cook)) s2)) = Idle)"
proof -
  from start_cook_Some [OF assms(2)] obtain p where
    p: "pt_start (pending s1) = Some p" "start_request_id p = q" and st: "sm_status s1 = sm_status s"
    by auto
  with assms(3,4) have e: "effects = [command_failed ''start'' answer]"
    and s2: "s2 = set_lifecycle Idle TimeoutRecovery (set_pt_start None s1)"
    by (auto simp: apply_command_ack_def)
  have cooking: "status_cooking s2"
    using assms(1) st by (simp add: s2 status_cooking_def set_lifecycle_def set_pt_start_def)
  have "lifecycle (snd (reduce_event env (Ws (ApoState status cook)) s2)) = Idle"
    if "is_cooking status" for status cook
    using that cooking
    by (auto simp: apply_apo_state_def Let_def case_prod_beta status_cooking_def s2
        set_lifecycle_def set_pt_start_def turn_off_idle)
  moreover have "lifecycle s2 = Idle" by (simp add: s2 set_lifecycle_def)
  ultimately show ?thesis using e cooking by (simp add: stop_cook_def reply_unit_def)
qed

section \<open>Turning the oven off\<close>

fun is_stop :: "'j SmEffect \<Rightarrow> bool" where
  "is_stop (FxWs (SendStop _)) = True"
| "is_stop _ = False"

primrec stops :: "'j SmEffect list \<Rightarrow> nat" where
  "stops [] = 0"
| "stops (e # effects) = (if is_stop e then 1 else 0) + stops effects"

lemma stops_append [simp]: "stops (xs @ ys) = stops xs + stops ys"
  by (induction xs) simp_all

lemma stop_cook_stops:
  "stops (snd (fst (stop_cook env s))) \<le> 1 \<and> turned_off (snd (stop_cook env s)) = turned_off s"
  by (auto simp: stop_cook_def Let_def case_prod_beta send_control_def new_v4_def set_pt_controls_def
      set_pt_stop_def set_lifecycle_def split: option.splits)

lemma wants_turn_off_Some:
  assumes "wants_turn_off s = Some cid"
  shows "turned_off s \<noteq> Some cid \<and> map_option oc_cook_id (oven_cook s) = Some cid"
  using assms by (auto simp: wants_turn_off_def Let_def split: if_splits option.splits)

lemma turn_off_stops:
  assumes "map_option oc_cook_id (oven_cook s) = Some cid"
  shows "stops (fst (turn_off_when_done env s)) \<le> (if turned_off s = Some cid then 0 else 1) \<and>
    (turned_off s = Some cid \<or> 0 < stops (fst (turn_off_when_done env s)) \<longrightarrow>
       turned_off (snd (turn_off_when_done env s)) = Some cid)"
proof (cases "wants_turn_off s")
  case None
  then show ?thesis by (simp add: turn_off_when_done_def)
next
  case (Some c)
  with wants_turn_off_Some [OF Some] assms have c: "c = cid" "turned_off s \<noteq> Some cid" by auto
  show ?thesis
    using Some c stop_cook_stops [of env "s\<lparr>turned_off := Some cid\<rparr>"]
    by (auto simp: turn_off_when_done_def Let_def split: prod.splits sum.splits)
qed

lemma settle_stops [simp]: "stops (fst (fst (settle_preheat env status s))) = 0"
  by (auto simp: settle_preheat_def Let_def case_prod_beta send_control_def new_v4_def
      split: option.splits)

text \<open>The blocks of \<open>apply_apo_state\<close> before the last.\<close>

definition apo_edges :: "'j Env \<Rightarrow> OvenStatus \<Rightarrow> 'j SmState \<Rightarrow> 'j SmEffect list \<times> 'j SmState" where
  "apo_edges env status s =
     (let (e1, s1) = (if is_cooking status \<and> \<not> status_cooking s
                      then idle_to_cooking env status s else ([], s));
          (e2, s2) = (if \<not> is_cooking status \<and> status_cooking s then cooking_to_idle s1 else ([], s1));
          e3 = (if is_cooking status \<and> status_cooking s \<and> sm_status s \<noteq> None \<and>
                   map_option timer_total_secs (sm_status s) \<noteq> Some (timer_total_secs status)
                then [fetch_current_cook s2 CrWsStageTransition] else []);
          s3 = (if \<not> is_cooking status \<and> lifecycle s2 = LcStartPending
                then set_lifecycle Idle TimeoutRecovery (set_pt_start None s2) else s2);
          s4 = (if \<not> is_cooking status \<and> lifecycle s3 = Idle then s3\<lparr>sm_current_cook := None\<rparr> else s3)
      in (e1 @ e2 @ e3, s4\<lparr>sm_status := Some status\<rparr>))"

lemma apply_apo_state_edges:
  "apply_apo_state env status s =
     (let (e, s') = apo_edges env status s; (e4, s'') = turn_off_when_done env s'
      in (e @ e4 @ [PublishReadModel], s''))"
  by (simp add: apply_apo_state_def apo_edges_def Let_def case_prod_beta)

lemma edges_frame [simp]:
  "stops (fst (idle_to_cooking env status s)) = 0" "stops (fst (cooking_to_idle s)) = 0"
  "oven_cook (snd (idle_to_cooking env status s)) = oven_cook s"
  "oven_cook (snd (cooking_to_idle s)) = oven_cook s"
  "turned_off (snd (idle_to_cooking env status s)) = turned_off s"
  "turned_off (snd (cooking_to_idle s)) = turned_off s"
  by (simp_all add: idle_to_cooking_def cooking_to_idle_def Let_def case_prod_beta
      fetch_current_cook_def send_control_def new_v4_def set_pt_controls_def set_lifecycle_def
      set_pt_start_def set_pt_stop_def)

lemma apo_edges_frame:
  "stops (fst (apo_edges env status s)) = 0"
  "oven_cook (snd (apo_edges env status s)) = oven_cook s"
  "turned_off (snd (apo_edges env status s)) = turned_off s"
  by (simp_all add: apo_edges_def Let_def case_prod_beta fetch_current_cook_def
      set_lifecycle_def set_pt_start_def)

lemma apply_stops:
  assumes "map_option oc_cook_id (oven_cook s) = Some cid"
  shows "stops (fst (apply_apo_state env status s)) \<le> (if turned_off s = Some cid then 0 else 1) \<and>
    (turned_off s = Some cid \<or> 0 < stops (fst (apply_apo_state env status s)) \<longrightarrow>
       turned_off (snd (apply_apo_state env status s)) = Some cid)"
  using turn_off_stops [of "snd (apo_edges env status s)" cid env] assms
  by (simp add: apply_apo_state_edges Let_def case_prod_beta apo_edges_frame)

definition report :: "'j SmState \<Rightarrow> 'j Env \<times> OvenStatus \<times> 'j OvenCook option \<Rightarrow> 'j SmEffect list \<times> 'j SmState" where
  "report s = (\<lambda>(env, status, cook). reduce_event env (Ws (ApoState status cook)) s)"

lemma report_stops:
  assumes "map_option oc_cook_id cook = Some cid" "report s (env, status, cook) = (effects, s')"
  shows "stops effects \<le> (if turned_off s = Some cid then 0 else 1) \<and>
    (turned_off s = Some cid \<or> 0 < stops effects \<longrightarrow> turned_off s' = Some cid)"
proof -
  let ?s = "snd (settle_preheat env status (s\<lparr>oven_cook := cook\<rparr>))"
  from assms(1) have "map_option oc_cook_id (oven_cook ?s) = Some cid" by simp
  from apply_stops [OF this, of env "snd (fst (settle_preheat env status (s\<lparr>oven_cook := cook\<rparr>)))"] assms(2)
  show ?thesis by (auto simp: report_def Let_def case_prod_beta split: if_splits)
qed

lemma run_stops:
  assumes "\<forall>(env, status, cook) \<in> set rs. map_option oc_cook_id cook = Some cid"
  shows "sum_list (map stops (fst (run_steps report s rs))) \<le> (if turned_off s = Some cid then 0 else 1)"
  using assms
proof (induction rs arbitrary: s)
  case Nil
  then show ?case by simp
next
  case (Cons r rs)
  obtain env status cook where r: "r = (env, status, cook)" by (cases r)
  obtain effects s' where rep: "report s r = (effects, s')" by (rule prod.exhaust)
  with Cons.prems r have 1: "stops effects \<le> (if turned_off s = Some cid then 0 else 1)"
    and 2: "turned_off s = Some cid \<or> 0 < stops effects \<longrightarrow> turned_off s' = Some cid"
    using report_stops [of cook cid s env status effects s'] by auto
  define n where "n = sum_list (map stops (fst (run_steps report s' rs)))"
  have "n \<le> (if turned_off s' = Some cid then 0 else 1)"
    unfolding n_def using Cons.prems by (intro Cons.IH) simp
  with 1 2 have "stops effects + n \<le> (if turned_off s = Some cid then 0 else 1)"
    by (auto split: if_splits)
  with rep show ?case by (simp add: n_def Let_def case_prod_beta)
qed

text \<open>
  C6: however often the oven reports a cook that is done, the server asks it to stop that cook at
  most once of its own accord.
\<close>

theorem turns_off_at_most_once:
  assumes "\<forall>(env, status, cook) \<in> set rs. map_option oc_cook_id cook = Some cid"
  shows "sum_list (map stops (fst (run_steps report s rs))) \<le> 1"
  using run_stops [OF assms, of s] by (rule order_trans) simp

section \<open>Preheats\<close>

abbreviation near :: "f32 \<Rightarrow> f32 \<Rightarrow> OvenStatus \<Rightarrow> bool" where
  "near tolerance target status \<equiv> \<not> f32_lt (current_temperature_c status) (f32_sub target tolerance)"

definition settle_run :: "'j SmState \<Rightarrow> ('j Env \<times> OvenStatus) list \<Rightarrow> 'j SmState" where
  "settle_run s rs = foldl (\<lambda>s (env, status). snd (settle_preheat env status s)) s rs"

lemma settle_run_snoc [simp]:
  "settle_run s (rs @ [(env, status)]) = snd (settle_preheat env status (settle_run s rs))"
  "settle_run s [] = s"
  by (simp_all add: settle_run_def)

lemma settle_run_frame [simp]:
  "oven_cook (settle_run s rs) = oven_cook s"
  "sm_local (settle_run s rs) = sm_local s"
  "preheat_tolerance_c (settle_run s rs) = preheat_tolerance_c s"
  by (induction rs rule: rev_induct) (auto simp: case_prod_beta settle_run_def)

lemma watched_preheat_cong:
  assumes "oven_cook s = oven_cook t" "sm_local s = sm_local t"
  shows "watched_preheat s = watched_preheat t"
  unfolding watched_preheat_def assms ..

lemma watched_settle_run [simp]: "watched_preheat (settle_run s rs) = watched_preheat s"
  by (rule watched_preheat_cong) simp_all


abbreviation watch_of :: "'j SmState \<Rightarrow> string \<Rightarrow> PreheatWatch" where
  "watch_of s sid \<equiv>
     (case preheat_watch s of
        Some w \<Rightarrow> if pw_stage_id w = sid then w
                  else \<lparr>pw_stage_id = sid, near_since = None, reached = False\<rparr>
      | None \<Rightarrow> \<lparr>pw_stage_id = sid, near_since = None, reached = False\<rparr>)"

lemma watch_of_stage [simp]: "pw_stage_id (watch_of s sid) = sid"
  by (simp split: option.split)

text \<open>One report of a watched preheat: the watch it leaves, and what a skip takes.\<close>

lemma settle_watch:
  assumes "watched_preheat s status = Some (sid, target, next)"
  shows "\<exists>w'. preheat_watch (snd (settle_preheat env status s)) = Some w' \<and> pw_stage_id w' = sid \<and>
    (reached (watch_of s sid) \<longrightarrow> reached w') \<and>
    (\<forall>t. near_since w' = Some t \<longrightarrow> reached w' \<or>
       near (preheat_tolerance_c s) target status \<and>
       (near_since (watch_of s sid) = Some t \<or> near_since (watch_of s sid) = None \<and> t = now_ms env))"
  using assms watch_of_stage [where s = s and sid = sid]
  by (cases "near_since (watch_of s sid)")
    (auto simp: settle_preheat_def Let_def case_prod_beta simp del: watch_of_stage split: option.splits)

lemma settle_skip:
  assumes "watched_preheat s status = Some (sid, target, next)"
    and "fst (fst (settle_preheat env status s)) \<noteq> []"
  shows "\<exists>t q next_id. near_since (watch_of s sid) = Some t \<and> t + 10000 \<le> now_ms env \<and>
    \<not> reached (watch_of s sid) \<and> near (preheat_tolerance_c s) target status \<and>
    st_user_action_required next \<noteq> Some True \<and> st_id next = Some next_id \<and>
    fst (fst (settle_preheat env status s)) = [FxWs (WsControl q (StartStage next_id))] \<and>
    map_option reached (preheat_watch (snd (settle_preheat env status s))) = Some True"
  using assms
  by (cases "near_since (watch_of s sid)")
    (auto simp: settle_preheat_def Let_def case_prod_beta send_control_def new_v4_def set_pt_controls_def
      PREHEAT_SETTLE_WINDOW_def split: if_splits option.splits)


abbreviation watches :: "'j SmState \<Rightarrow> string \<times> f32 \<times> Stage \<Rightarrow> ('j Env \<times> OvenStatus) list \<Rightarrow> bool" where
  "watches s preheat rs \<equiv> \<forall>(env, status) \<in> set rs. watched_preheat s status = Some preheat"

lemma near_since_history:
  assumes "watches s (sid, target, next) rs" "preheat_watch s = None"
    and "near_since (watch_of (settle_run s rs) sid) = Some t" "\<not> reached (watch_of (settle_run s rs) sid)"
  shows "\<exists>k < length rs. t = now_ms (fst (rs ! k)) \<and>
    (\<forall>j. k \<le> j \<and> j < length rs \<longrightarrow> near (preheat_tolerance_c s) target (snd (rs ! j)))"
  using assms(1,3,4)
proof (induction rs arbitrary: t rule: rev_induct)
  case Nil
  then show ?case by (simp add: assms(2))
next
  case (snoc r rs)
  obtain env status where r: "r = (env, status)" by (rule prod.exhaust)
  let ?s = "settle_run s rs"
  from snoc.prems(1) r have "watched_preheat ?s status = Some (sid, target, next)" by simp
  from settle_watch [OF this, of env] obtain w' where
    w': "preheat_watch (snd (settle_preheat env status ?s)) = Some w'" "pw_stage_id w' = sid"
      "reached (watch_of ?s sid) \<longrightarrow> reached w'"
      "\<forall>t. near_since w' = Some t \<longrightarrow> reached w' \<or> near (preheat_tolerance_c ?s) target status \<and>
         (near_since (watch_of ?s sid) = Some t \<or> near_since (watch_of ?s sid) = None \<and> t = now_ms env)"
    by blast
  from snoc.prems(2,3) r w'(1,2) have "near_since w' = Some t" "\<not> reached w'" by simp_all
  with w'(3,4) have near: "near (preheat_tolerance_c s) target status"
    and nr: "\<not> reached (watch_of ?s sid)"
    and "near_since (watch_of ?s sid) = Some t \<or> t = now_ms env"
    by auto
  from this(3) show ?case
  proof
    assume "near_since (watch_of ?s sid) = Some t"
    with snoc.IH [of t] snoc.prems(1) nr obtain k where
      k: "k < length rs" "t = now_ms (fst (rs ! k))"
        "\<forall>j. k \<le> j \<and> j < length rs \<longrightarrow> near (preheat_tolerance_c s) target (snd (rs ! j))"
      by auto
    with near r show ?case by (intro exI [of _ k]) (auto simp: nth_append less_Suc_eq)
  next
    assume "t = now_ms env"
    with near r show ?case by (intro exI [of _ "length rs"]) (auto simp: nth_append less_Suc_eq)
  qed
qed

lemma reached_stays:
  assumes "watches s (sid, target, next) rs" "reached (watch_of s sid)"
  shows "reached (watch_of (settle_run s rs) sid)"
  using assms(1)
proof (induction rs rule: rev_induct)
  case Nil
  with assms(2) show ?case by simp
next
  case (snoc r rs)
  obtain env status where r: "r = (env, status)" by (rule prod.exhaust)
  from snoc.prems r have "watched_preheat (settle_run s rs) status = Some (sid, target, next)" by simp
  from settle_watch [OF this, of env] snoc r show ?case by auto
qed

lemma settle_run_append: "settle_run s (rs @ rs') = settle_run (settle_run s rs) rs'"
  by (simp add: settle_run_def)

text \<open>
  C5: the server ends a preheat early only once the oven has reported a temperature within the
  tolerance, in every report of at least ten seconds, and the next stage does not wait for the user;
  it then starts that stage, and never again for the same preheat.
\<close>

theorem preheat_ends_early_once_settled:
  assumes "preheat_watch s = None" and "watches s (sid, target, next) (rs @ (env, status) # rs')"
    and "fst (fst (settle_preheat env status (settle_run s rs))) = e # es"
  shows "(\<exists>k < length rs. now_ms (fst (rs ! k)) + 10000 \<le> now_ms env \<and>
      (\<forall>j. k \<le> j \<and> j < length rs \<longrightarrow> near (preheat_tolerance_c s) target (snd (rs ! j)))) \<and>
    near (preheat_tolerance_c s) target status \<and> st_user_action_required next \<noteq> Some True \<and>
    (\<exists>q next_id. st_id next = Some next_id \<and> e # es = [FxWs (WsControl q (StartStage next_id))]) \<and>
    (\<forall>n env' status'. n < length rs' \<and> rs' ! n = (env', status') \<longrightarrow>
      fst (fst (settle_preheat env' status' (settle_run s (rs @ (env, status) # take n rs')))) = [])"
proof -
  let ?s = "settle_run s rs"
  have w: "watched_preheat ?s status = Some (sid, target, next)" and rs: "watches s (sid, target, next) rs"
    using assms(2) by auto
  from settle_skip [OF w, of env] assms(3) obtain t q next_id where
    t: "near_since (watch_of ?s sid) = Some t" "t + 10000 \<le> now_ms env" "\<not> reached (watch_of ?s sid)"
      "near (preheat_tolerance_c s) target status" "st_user_action_required next \<noteq> Some True"
      "st_id next = Some next_id" "e # es = [FxWs (WsControl q (StartStage next_id))]"
      "map_option reached (preheat_watch (snd (settle_preheat env status ?s))) = Some True"
    by auto
  from near_since_history [OF rs assms(1) t(1,3)] obtain k where k: "k < length rs"
    "t = now_ms (fst (rs ! k))"
    "\<forall>j. k \<le> j \<and> j < length rs \<longrightarrow> near (preheat_tolerance_c s) target (snd (rs ! j))" by blast
  let ?s' = "settle_run s (rs @ [(env, status)])"
  from settle_watch [OF w, of env] t(8) have reached: "reached (watch_of ?s' sid)" by auto
  have "fst (fst (settle_preheat env' status' (settle_run s (rs @ (env, status) # take n rs')))) = []"
    if n: "n < length rs'" "rs' ! n = (env', status')" for n env' status'
  proof -
    have eq: "settle_run s (rs @ (env, status) # take n rs') = settle_run ?s' (take n rs')"
      by (simp add: settle_run_append [symmetric] del: settle_run_snoc)
    have "watches ?s' (sid, target, next) (take n rs')"
      using assms(2) by (auto dest: in_set_takeD simp: watched_settle_run simp del: settle_run_snoc)
    with reached have "reached (watch_of (settle_run ?s' (take n rs')) sid)"
      by (intro reached_stays [where s = ?s' and target = target])
    moreover from n have "(env', status') \<in> set rs'" by (metis nth_mem)
    then have "watched_preheat (settle_run ?s' (take n rs')) status' = Some (sid, target, next)"
      using assms(2) by (auto simp: watched_settle_run simp del: settle_run_snoc)
    ultimately show ?thesis
      unfolding eq using settle_skip by blast
  qed
  with t k show ?thesis by auto
qed

section \<open>Examples\<close>

definition demo_env :: "nat \<Rightarrow> string Env" where
  "demo_env t =
     \<lparr>uuid = (\<lambda>n. CHR ''u'' # replicate n CHR ''u''),
      raw_ops = \<lparr>with_temperature = (\<lambda>x c. x @ ''t''), with_timer = (\<lambda>x n. x @ ''n''), for_update = (\<lambda>x. x)\<rparr>,
      now_ms = t, unix_secs = Some 100\<rparr>"

lemma demo_env_inj: "inj (uuid (demo_env t))"
  by (auto simp: demo_env_def intro: injI dest: arg_cong [where f = length])

definition demo_preheat :: Stage where
  "demo_preheat = demo_stage\<lparr>st_kind := ''preheat'', st_id := Some ''p1'', st_temperature_c := f32_of_nat 201\<rparr>"

definition demo_next :: Stage where
  "demo_next = demo_stage\<lparr>st_kind := ''cook'', st_id := Some ''s2'', st_user_action_required := None,
     st_turn_off_at_end := Some True\<rparr>"

definition demo_two_stages :: Recipe where
  "demo_two_stages = demo_recipe\<lparr>rc_stages := [demo_preheat, demo_next]\<rparr>"

definition sm_connected :: "string SmState" where
  "sm_connected = (sm_new True (f32_of_nat 2))\<lparr>connectivity := Connected (Some ''oven''),
     sm_recipes := [demo_two_stages]\<rparr>"

definition demo_cook :: "string OvenCook" where
  "demo_cook = \<lparr>oc_cook_id = ''c1'', oc_stages = [demo_preheat, demo_next],
     oc_raw_stages = [''a'', ''b''], oc_seconds_elapsed = 10\<rparr>"

definition sm_cooking :: "string SmState" where
  "sm_cooking = sm_connected\<lparr>sm_status := Some demo_status, lifecycle := LcCooking,
     oven_cook := Some demo_cook\<rparr>"

theorem refused_command_changes_nothing_witness:
  "reply_error (fst (fst (reduce_command (demo_env 0) StopCook sm_connected))) = Some ErrNotCooking \<and>
   snd (fst (reduce_command (demo_env 0) StopCook sm_connected)) = [] \<and>
   snd (reduce_command (demo_env 0) StopCook sm_connected) = sm_connected"
proof -
  obtain reply effects s' where
    run: "reduce_command (demo_env 0) StopCook sm_connected = ((reply, effects), s')"
    by (metis prod.exhaust)
  have "reply_error (fst (fst (reduce_command (demo_env 0) StopCook sm_connected))) = Some ErrNotCooking"
    by (simp add: sm_connected_def sm_new_def stop_cook_def reply_unit_def)
  with refused_command_changes_nothing [OF run] show ?thesis
    unfolding run fst_conv snd_conv by blast
qed

definition demo_inputs :: "string SmInput list" where
  "demo_inputs = [ExternalEvent (Ws EvConnected), ExternalEvent (Ws (CookerDiscovered ''oven'')),
     ClientCommand (Control (RqLamp True)), ClientCommand (Control (RqTemperatureUnit ''C''))]"

lemma sm_reach_run:
  "sm_reach (uuid env) s \<Longrightarrow> sm_reach (uuid env) (foldl (\<lambda>s i. snd (sm_step env i s)) s inputs)"
  by (induction inputs arbitrary: s) (simp_all add: sm_reach.step)

definition sm_lamped :: "string SmState" where
  "sm_lamped = foldl (\<lambda>s i. snd (sm_step (demo_env 0) i s)) (sm_new True (f32_of_nat 2)) demo_inputs"

theorem ack_meets_its_request_witness:
  "fst (apply_command_ack ''u'' ''refused'' sm_lamped) = [command_failed ''lamp'' ''refused''] \<and>
   pt_controls (pending (snd (apply_command_ack ''u'' ''refused'' sm_lamped))) =
     [(''uu'', ''temperature_unit'')]"
proof -
  have reach: "sm_reach (uuid (demo_env 0)) sm_lamped"
    unfolding sm_lamped_def by (intro sm_reach_run sm_reach.init)
  have cs: "pt_controls (pending sm_lamped) = [(''u'', ''lamp''), (''uu'', ''temperature_unit'')]"
    by code_simp
  have "\<not> eq_ignore_ascii_case ''refused'' ''ok''" by code_simp
  with ack_meets_its_request [OF reach demo_env_inj, of "''u''" "''lamp''" "''refused''"] cs
  show ?thesis by (simp add: set_pt_controls_def)
qed

definition demo_refusal :: "string SmEffect list \<times> string SmState" where
  "demo_refusal = reduce_event (demo_env 0) (Ws (CommandAck ''u'' ''error''))
     (snd (reduce_command (demo_env 0) (StartCook ''r1'') sm_cooking))"

theorem refused_start_disables_stop_witness:
  "status_cooking (snd demo_refusal) \<and>
   reduce_command (demo_env 0) StopCook (snd demo_refusal) =
     ((ReplyUnit (Inl ErrNotCooking), []), snd demo_refusal)"
proof -
  obtain reply effects s1 where
    run: "reduce_command (demo_env 0) (StartCook ''r1'') sm_cooking = ((reply, effects), s1)"
    by (metis prod.exhaust)
  have "(case snd (fst (reduce_command (demo_env 0) (StartCook ''r1'') sm_cooking)) of
      FxWs (SendStart q _ _ _) # _ \<Rightarrow> q = ''u'' | _ \<Rightarrow> False)"
    by code_simp
  with run obtain cid rid sent rest where "effects = FxWs (SendStart ''u'' cid rid sent) # rest"
    by (auto split: list.splits SmEffect.splits WsCommand.splits)
  note run = run [unfolded this]
  obtain effects2 s2 where
    ack: "reduce_event (demo_env 0) (Ws (CommandAck ''u'' ''error'')) s1 = (effects2, s2)"
    by (rule prod.exhaust)
  have "\<not> eq_ignore_ascii_case ''error'' ''ok''" "status_cooking sm_cooking" by code_simp+
  with refused_start_disables_stop [OF _ run _ ack] ack show ?thesis
    unfolding demo_refusal_def run snd_conv ack by blast
qed

definition demo_done :: "string SmState" where
  "demo_done = sm_cooking\<lparr>sm_current_cook := Some
     \<lparr>cc_recipe_title = ''Bread'', cc_recipe_id = None, cc_started_at = ''local'',
      cc_stages = [demo_preheat, demo_next], cc_cook_stage_count = 1, cc_total_stage_count = 2\<rparr>\<rparr>"

definition demo_reports :: "(string Env \<times> OvenStatus \<times> string OvenCook option) list" where
  "demo_reports = replicate 2
     (demo_env 0, demo_status\<lparr>active_stage_index := Some 1, cook_done := True\<rparr>, Some demo_cook)"

theorem turns_off_at_most_once_witness:
  "sum_list (map stops (fst (run_steps report demo_done demo_reports))) = 1"
proof -
  have "\<forall>(env, status, cook) \<in> set demo_reports. map_option oc_cook_id cook = Some ''c1''"
    by (simp add: demo_reports_def demo_cook_def)
  from turns_off_at_most_once [OF this, of demo_done]
  have "sum_list (map stops (fst (run_steps report demo_done demo_reports))) \<le> 1" .
  moreover have "1 \<le> sum_list (map stops (fst (run_steps report demo_done demo_reports)))"
    by code_simp
  ultimately show ?thesis by simp
qed

theorem preheat_ends_early_once_settled_witness:
  "\<exists>q. fst (fst (settle_preheat (demo_env 10000) demo_status
      (settle_run sm_cooking [(demo_env 0, demo_status)]))) = [FxWs (WsControl q (StartStage ''s2''))]"
proof -
  let ?out = "fst (fst (settle_preheat (demo_env 10000) demo_status
      (settle_run sm_cooking [(demo_env 0, demo_status)])))"
  have "length ?out = 1" by code_simp
  then obtain e where e: "?out = [e]" by (auto simp: length_Suc_conv simp del: settle_run_snoc)
  have "preheat_watch sm_cooking = None" by (simp add: sm_cooking_def sm_connected_def sm_new_def)
  moreover have "watched_preheat sm_cooking demo_status = Some (''p1'', f32_of_nat 201, demo_next)"
    by (simp add: watched_preheat_def sm_cooking_def sm_connected_def sm_new_def demo_cook_def
        demo_status_def demo_preheat_def is_cooking_def)
  moreover have "st_id demo_next = Some ''s2''" by (simp add: demo_next_def)
  ultimately show ?thesis
    using preheat_ends_early_once_settled [where s = sm_cooking and sid = "''p1''" and
        target = "f32_of_nat 201" and rs = "[(demo_env 0, demo_status)]" and env = "demo_env 10000" and
        status = demo_status and rs' = "[]" and e = e and es = "[]"] e
    by (auto simp del: settle_run_snoc)
qed

end
