(* ===== verification/Cook_Progress.thy ===== *)
theory Cook_Progress
  imports Oven_Api
begin

text \<open>
  The server's tracking of a cook's stages (\<open>crates/anova-oven-server/src/cook_progress.rs\<close>): the
  tracker, the three message handlers of its task and the completion heuristics. \<open>Instant::now()\<close>
  is an argument, in milliseconds; the \<open>watch\<close> channel is the value last sent on it.
\<close>

section \<open>State\<close>

definition PREHEAT_STABILITY_WINDOW :: nat where "PREHEAT_STABILITY_WINDOW = 10000"
definition PREHEAT_HYSTERESIS_C :: f32 where "PREHEAT_HYSTERESIS_C = f32_of_nat 2"

record Tracker =
  cook_key :: string
  tr_title :: string
  tr_stages :: "Stage list"
  tr_index :: nat
  preheat_cross_since :: "nat option"
  next_stage_ready :: bool
  warned_no_criterion :: bool
  timer_has_run :: bool

definition tr_current_stage :: "Tracker \<Rightarrow> Stage option" where
  "tr_current_stage t = get_nth (tr_stages t) (tr_index t)"

definition tr_next_stage :: "Tracker \<Rightarrow> Stage option" where
  "tr_next_stage t = get_nth (tr_stages t) (tr_index t + 1)"

definition advance_to :: "nat \<Rightarrow> Tracker \<Rightarrow> Tracker" where
  "advance_to i t =
     t\<lparr>tr_index := i, preheat_cross_since := None, next_stage_ready := False,
       warned_no_criterion := False, timer_has_run := False\<rparr>"

record CookProgressTask =
  tracker :: "Tracker option"
  progress_tx :: "CookProgress option"
  follows_oven :: bool
  tolerance_c :: f32

definition task_new :: "bool \<Rightarrow> f32 \<Rightarrow> CookProgressTask" where
  "task_new follow tolerance =
     \<lparr>tracker = None, progress_tx = None, follows_oven = follow, tolerance_c = tolerance\<rparr>"

section \<open>Published progress\<close>

definition build_cook_progress :: "Tracker \<Rightarrow> CookProgress" where
  "build_cook_progress t =
     (let current = tr_current_stage t;
          next = (if next_stage_ready t then tr_next_stage t else None)
      in \<lparr>cp_recipe_title = tr_title t, cp_current_stage_index = tr_index t,
          cp_total_stage_count = length (tr_stages t),
          cp_current_stage_description =
            (case current of Some s \<Rightarrow> short_description s | None \<Rightarrow> ''Unknown stage''),
          cp_current_stage_kind = (case current of Some s \<Rightarrow> st_kind s | None \<Rightarrow> ''cook''),
          cp_next_stage_ready = next_stage_ready t,
          cp_next_stage_description = map_option short_description next,
          cp_next_stage_prompt = Option.bind next st_prompt\<rparr>)"

definition publish :: "CookProgressTask \<Rightarrow> CookProgressTask" where
  "publish k = k\<lparr>progress_tx := map_option build_cook_progress (tracker k)\<rparr>"

section \<open>Heuristics\<close>

definition precise_match :: "OvenStatus \<Rightarrow> Stage \<Rightarrow> bool" where
  "precise_match status s \<longleftrightarrow>
     st_kind s = stage_kind status \<and>
     (case target_temperature_c status of
        Some t \<Rightarrow> \<not> f32_gt (f32_abs (f32_sub (st_temperature_c s) t)) (f32_of_nat 1)
      | None \<Rightarrow> True) \<and>
     (0 < timer_total_secs status \<longrightarrow>
        (case st_duration_secs s of Some dur \<Rightarrow> dur = timer_total_secs status | None \<Rightarrow> True))"

definition infer_stage_index :: "Stage list \<Rightarrow> OvenStatus \<Rightarrow> nat" where
  "infer_stage_index stages status =
     (case filter (\<lambda>(i, s). precise_match status s) (enumerate 0 stages) of
        [(i, _)] \<Rightarrow> i
      | _ \<Rightarrow> (case position (\<lambda>s. st_kind s = stage_kind status) stages of
               Some i \<Rightarrow> i | None \<Rightarrow> 0))"

definition duration_or_0 :: "Stage \<Rightarrow> u64" where
  "duration_or_0 s = (case st_duration_secs s of Some d \<Rightarrow> d | None \<Rightarrow> 0)"

definition has_timer :: "Stage \<Rightarrow> bool" where
  "has_timer s = (case st_timer_added s of
     Some added \<Rightarrow> added \<and> 0 < duration_or_0 s | None \<Rightarrow> 0 < duration_or_0 s)"

definition has_probe :: "Stage \<Rightarrow> bool" where
  "has_probe s = (case st_probe_added s of
     Some added \<Rightarrow> added \<and> st_probe_target_c s \<noteq> None | None \<Rightarrow> st_probe_target_c s \<noteq> None)"

definition timer_over :: "OvenStatus \<Rightarrow> bool" where
  "timer_over status \<longleftrightarrow> 0 < timer_total_secs status \<and>
     timer_total_secs status \<le> timer_current_secs status \<and> timer_mode status \<noteq> ''running''"

definition probe_reached :: "Stage \<Rightarrow> OvenStatus \<Rightarrow> bool" where
  "probe_reached s status =
     (case (st_probe_target_c s, probe_temperature_c status) of
        (Some target, Some current) \<Rightarrow> f32_ge current target | _ \<Rightarrow> False)"

text \<open>
  \<open>evaluate_stage_completion\<close>: the three \<open>&mut\<close> arguments are fields of the tracker, which is
  returned with them updated.
\<close>

definition evaluate_stage_completion ::
  "nat \<Rightarrow> Stage \<Rightarrow> OvenStatus \<Rightarrow> f32 \<Rightarrow> Tracker \<Rightarrow> bool \<times> Tracker" where
  "evaluate_stage_completion now s status tolerance t =
     (let t = (if timer_mode status = ''running'' then t\<lparr>timer_has_run := True\<rparr> else t)
      in if has_timer s \<and> timer_has_run t \<and> timer_over status then (True, t)
         else if has_probe s \<and> probe_reached s status then (True, t)
         else if \<not> has_timer s \<and> \<not> has_probe s then
           (if st_kind s = ''preheat'' then
              (let target = st_temperature_c s;
                   current = current_temperature_c status;
                   hysteresis_floor = f32_sub target (f32_max tolerance PREHEAT_HYSTERESIS_C)
               in case preheat_cross_since t of
                    None \<Rightarrow>
                      if f32_ge current (f32_sub target tolerance)
                      then (False, t\<lparr>preheat_cross_since := Some now\<rparr>) else (False, t)
                  | Some since \<Rightarrow>
                      if f32_lt current hysteresis_floor
                      then (False, t\<lparr>preheat_cross_since := None\<rparr>)
                      else if PREHEAT_STABILITY_WINDOW \<le> now - since then (True, t)
                      else (False, t))
            else (False, t\<lparr>warned_no_criterion := True\<rparr>))
         else (False, t))"

definition follow_oven :: "Tracker \<Rightarrow> OvenStatus \<Rightarrow> bool \<times> Tracker" where
  "follow_oven t status =
     (let t' = (case active_stage_index status of
            Some index \<Rightarrow> if index < length (tr_stages t) \<and> index \<noteq> tr_index t
                          then advance_to index t else t
          | None \<Rightarrow> t);
          t' = t'\<lparr>next_stage_ready :=
                 stage_transition_pending_user_action status \<and> tr_next_stage t' \<noteq> None\<rparr>
      in ((tr_index t, next_stage_ready t) \<noteq> (tr_index t', next_stage_ready t'), t'))"

section \<open>Handlers\<close>

definition fresh_tracker :: "string \<Rightarrow> string \<Rightarrow> Stage list \<Rightarrow> nat \<Rightarrow> Tracker" where
  "fresh_tracker key title stages i =
     \<lparr>cook_key = key, tr_title = title, tr_stages = stages, tr_index = i,
      preheat_cross_since = None, next_stage_ready = False, warned_no_criterion = False,
      timer_has_run = False\<rparr>"

definition on_started_from_recipe ::
  "string \<Rightarrow> Stage list \<Rightarrow> CookProgressTask \<Rightarrow> CookProgressTask" where
  "on_started_from_recipe title stages k =
     (if stages = [] then k
      else publish (k\<lparr>tracker := Some (fresh_tracker
             (''pending-'' @ title @ ''-'' @ show_nat (length stages)) title stages 0)\<rparr>))"

text \<open>The oven's own stage index when it is in range, otherwise the heuristic.\<close>

definition observed_index :: "Stage list \<Rightarrow> OvenStatus \<Rightarrow> nat" where
  "observed_index stages status =
     (case active_stage_index status of
        Some i \<Rightarrow> if i < length stages then i else infer_stage_index stages status
      | None \<Rightarrow> infer_stage_index stages status)"

definition follow_if :: "bool \<Rightarrow> OvenStatus option \<Rightarrow> Tracker \<Rightarrow> Tracker" where
  "follow_if follow status t =
     (case status of Some st \<Rightarrow> if follow then snd (follow_oven t st) else t | None \<Rightarrow> t)"

text \<open>\<open>on_current_cook\<close>: the tracker of the same cook refreshed, or a new one.\<close>

definition refreshed_tracker :: "bool \<Rightarrow> OvenStatus option \<Rightarrow> CurrentCook \<Rightarrow> Tracker \<Rightarrow> Tracker" where
  "refreshed_tracker follow status cook t =
     (let t = t\<lparr>tr_title := cc_recipe_title cook, tr_stages := cc_stages cook\<rparr>;
          t = (if length (tr_stages t) \<le> tr_index t \<and> tr_stages t \<noteq> []
               then t\<lparr>tr_index := length (tr_stages t) - 1\<rparr> else t)
      in follow_if follow status t)"

definition rebuilt_tracker :: "bool \<Rightarrow> OvenStatus option \<Rightarrow> CurrentCook \<Rightarrow> Tracker" where
  "rebuilt_tracker follow status cook =
     (let i = (case status of
           Some s \<Rightarrow> if is_cooking s then observed_index (cc_stages cook) s else 0
         | None \<Rightarrow> 0)
      in follow_if follow status
           (fresh_tracker (cc_started_at cook) (cc_recipe_title cook) (cc_stages cook) i))"

definition on_current_cook ::
  "CurrentCook option \<Rightarrow> OvenStatus option \<Rightarrow> CookProgressTask \<Rightarrow> CookProgressTask" where
  "on_current_cook cook status k =
     (case cook of
        None \<Rightarrow> publish (k\<lparr>tracker := None\<rparr>)
      | Some cook \<Rightarrow>
          if (case status of Some s \<Rightarrow> \<not> is_cooking s | None \<Rightarrow> False) then
            (if tracker k \<noteq> None then publish (k\<lparr>tracker := None\<rparr>) else k)
          else
            (let same_cook = (case tracker k of
                   Some t \<Rightarrow> cook_key t = cc_started_at cook | None \<Rightarrow> False);
                 t' = (if same_cook then refreshed_tracker (follows_oven k) status cook (the (tracker k))
                       else rebuilt_tracker (follows_oven k) status cook)
             in publish (k\<lparr>tracker := Some t'\<rparr>)))"

definition stage_start_observed :: "Tracker \<Rightarrow> OvenStatus \<Rightarrow> Stage \<Rightarrow> bool" where
  "stage_start_observed t status next =
     (let timer_started = (0 < duration_or_0 next \<and> timer_mode status = ''running'');
          next_stage_observed = (observed_index (tr_stages t) status = tr_index t + 1)
      in if st_user_action_required next = Some True then timer_started
         else timer_started \<or> next_stage_observed)"

definition on_status :: "nat \<Rightarrow> OvenStatus option \<Rightarrow> CookProgressTask \<Rightarrow> CookProgressTask" where
  "on_status now status k =
     (case status of
        None \<Rightarrow> k
      | Some status \<Rightarrow>
          if \<not> is_cooking status then
            (if tracker k \<noteq> None then publish (k\<lparr>tracker := None\<rparr>) else k)
          else case tracker k of
            None \<Rightarrow> k
          | Some t \<Rightarrow>
              if follows_oven k then
                (let (changed, t') = follow_oven t status; k' = k\<lparr>tracker := Some t'\<rparr>
                 in if changed then publish k' else k')
              else if next_stage_ready t then
                (case tr_next_stage t of
                   Some next \<Rightarrow>
                     if stage_start_observed t status next
                     then publish (k\<lparr>tracker := Some (advance_to (tr_index t + 1) t)\<rparr>) else k
                 | None \<Rightarrow> k)
              else
                (case tr_current_stage t of
                   None \<Rightarrow> k
                 | Some s \<Rightarrow>
                     (let (complete, t') = evaluate_stage_completion now s status (tolerance_c k) t
                      in if \<not> complete \<or> tr_next_stage t' = None then k\<lparr>tracker := Some t'\<rparr>
                         else publish (k\<lparr>tracker := Some (t'\<lparr>next_stage_ready := True\<rparr>)\<rparr>))))"

text \<open>
  The task's loop. A watched status may be replaced before the task wakes for it, so sending one
  and handling it are two steps; the current cook's handler reads the status channel's latest value.
\<close>

datatype ProgressEvent =
  StatusSent "OvenStatus option"
| StatusWake
| CurrentCookWake "CurrentCook option"
| StartedFromRecipe string "Stage list"

fun progress_step ::
  "nat \<times> ProgressEvent \<Rightarrow> OvenStatus option \<times> CookProgressTask \<Rightarrow> OvenStatus option \<times> CookProgressTask" where
  "progress_step (now, StatusSent status) (_, k) = (status, k)"
| "progress_step (now, StatusWake) (latest, k) = (latest, on_status now latest k)"
| "progress_step (now, CurrentCookWake cook) (latest, k) = (latest, on_current_cook cook latest k)"
| "progress_step (now, StartedFromRecipe title stages) (latest, k) =
     (latest, on_started_from_recipe title stages k)"

abbreviation progress_run ::
  "OvenStatus option \<times> CookProgressTask \<Rightarrow> (nat \<times> ProgressEvent) list \<Rightarrow> OvenStatus option \<times> CookProgressTask" where
  "progress_run x es \<equiv> foldl (\<lambda>x e. progress_step e x) x es"

section \<open>What is published\<close>

lemma position_lt: "position p xs = Some i \<Longrightarrow> i < length xs"
  by (drule position_Some) simp

lemma infer_stage_index_lt:
  assumes "stages \<noteq> []"
  shows "infer_stage_index stages status < length stages"
proof -
  let ?f = "filter (\<lambda>(i, s). precise_match status s) (enumerate 0 stages)"
  have 1: "i < length stages" if "?f = [(i, s)]" for i s
  proof -
    from that have "(i, s) \<in> set ?f" by simp
    then show ?thesis by (auto simp: in_set_enumerate_eq)
  qed
  have 2: "(case position (\<lambda>s. st_kind s = stage_kind status) stages of
      Some i \<Rightarrow> i | None \<Rightarrow> 0) < length stages"
    using assms by (auto dest: position_lt split: option.split)
  show ?thesis
    unfolding infer_stage_index_def using 1 2 by (simp split: list.split prod.split)
qed

text \<open>A stage that is the only one to match is the one inferred.\<close>

lemma distinct_singleton_list: "distinct xs \<Longrightarrow> set xs = {x} \<Longrightarrow> xs = [x]"
  by (cases xs; cases "tl xs") auto

lemma infer_unique:
  assumes "i < length stages" "precise_match status (stages ! i)"
    and "\<And>j. j < length stages \<Longrightarrow> precise_match status (stages ! j) \<Longrightarrow> j = i"
  shows "infer_stage_index stages status = i"
proof -
  let ?f = "filter (\<lambda>(i, s). precise_match status s) (enumerate 0 stages)"
  have "x \<in> set ?f \<longleftrightarrow> x = (i, stages ! i)" for x
    using assms(1,2) assms(3) [of "fst x"] by (cases x) (auto simp: in_set_enumerate_eq)
  then have "set ?f = {(i, stages ! i)}" by blast
  moreover have "distinct ?f" by (intro distinct_filter) (simp add: distinct_enumerate)
  ultimately have "?f = [(i, stages ! i)]" by (rule distinct_singleton_list [rotated])
  then show ?thesis by (simp add: infer_stage_index_def)
qed

definition tracker_ok :: "Tracker \<Rightarrow> bool" where
  "tracker_ok t \<longleftrightarrow> tr_stages t = [] \<or> tr_index t < length (tr_stages t)"

definition task_ok :: "CookProgressTask \<Rightarrow> bool" where
  "task_ok k \<longleftrightarrow> progress_tx k = map_option build_cook_progress (tracker k) \<and>
     (\<forall>t. tracker k = Some t \<longrightarrow> tracker_ok t)"

lemma task_ok_publish [simp]:
  "task_ok (publish k) \<longleftrightarrow> (\<forall>t. tracker k = Some t \<longrightarrow> tracker_ok t)"
  by (simp add: task_ok_def publish_def)

lemma observed_index_lt: "stages \<noteq> [] \<Longrightarrow> observed_index stages status < length stages"
  by (auto simp: observed_index_def infer_stage_index_lt split: option.splits)

lemma fresh_tracker_ok: "i < length stages \<or> stages = [] \<Longrightarrow> tracker_ok (fresh_tracker key title stages i)"
  by (auto simp: tracker_ok_def fresh_tracker_def)

lemma follow_oven_ok: "tracker_ok t \<Longrightarrow> tracker_ok (snd (follow_oven t status))"
  by (auto simp: follow_oven_def tracker_ok_def advance_to_def Let_def split: option.split)

lemma follow_if_ok: "tracker_ok t \<Longrightarrow> tracker_ok (follow_if follow status t)"
  by (simp add: follow_if_def follow_oven_ok split: option.split)

lemma follow_oven_unchanged:
  "\<not> fst (follow_oven t status) \<Longrightarrow> build_cook_progress (snd (follow_oven t status)) = build_cook_progress t"
  by (auto simp: follow_oven_def Let_def build_cook_progress_def advance_to_def tr_current_stage_def
      tr_next_stage_def split: option.splits if_splits)

lemma evaluate_frame:
  "build_cook_progress (snd (evaluate_stage_completion now s status tol t)) = build_cook_progress t"
  "tr_stages (snd (evaluate_stage_completion now s status tol t)) = tr_stages t"
  "tr_index (snd (evaluate_stage_completion now s status tol t)) = tr_index t"
  "tr_next_stage (snd (evaluate_stage_completion now s status tol t)) = tr_next_stage t"
  "next_stage_ready (snd (evaluate_stage_completion now s status tol t)) = next_stage_ready t"
  by (auto simp: evaluate_stage_completion_def Let_def build_cook_progress_def tr_current_stage_def
      tr_next_stage_def split: option.split)

lemma task_ok_started: "task_ok k \<Longrightarrow> task_ok (on_started_from_recipe title stages k)"
  by (simp add: on_started_from_recipe_def fresh_tracker_ok)

lemma refreshed_tracker_ok: "tracker_ok (refreshed_tracker follow status cook t)"
  unfolding refreshed_tracker_def Let_def by (rule follow_if_ok) (auto simp: tracker_ok_def)

lemma rebuilt_tracker_ok: "tracker_ok (rebuilt_tracker follow status cook)"
  unfolding rebuilt_tracker_def Let_def
  by (intro follow_if_ok fresh_tracker_ok) (auto simp: observed_index_lt split: option.split)

lemma task_ok_current_cook: "task_ok k \<Longrightarrow> task_ok (on_current_cook cook status k)"
  by (auto simp: on_current_cook_def Let_def refreshed_tracker_ok rebuilt_tracker_ok split: option.split)

lemma task_ok_status:
  assumes "task_ok k"
  shows "task_ok (on_status now status k)"
proof (cases status)
  case None
  with assms show ?thesis by (simp add: on_status_def)
next
  case st: (Some st)
  show ?thesis
  proof (cases "tracker k")
    case None
    with assms st show ?thesis by (simp add: on_status_def)
  next
    case t: (Some t)
    with assms have tok: "tracker_ok t" "progress_tx k = Some (build_cook_progress t)"
      by (simp_all add: task_ok_def)
    have "tr_next_stage t = Some n \<Longrightarrow> tracker_ok (advance_to (tr_index t + 1) t)" for n
      by (auto simp: tr_next_stage_def get_nth_Some_iff tracker_ok_def advance_to_def)
    with tok st t assms show ?thesis
      by (auto simp: on_status_def Let_def case_prod_beta follow_oven_ok evaluate_frame
          follow_oven_unchanged task_ok_def tracker_ok_def [symmetric] publish_def split: option.split)
        (auto simp: tracker_ok_def evaluate_frame)
  qed
qed

lemma task_ok_step: "task_ok k \<Longrightarrow> task_ok (snd (progress_step e (latest, k)))"
  by (cases e; cases "snd e") (auto simp: task_ok_started task_ok_current_cook task_ok_status)

lemma task_ok_run: "task_ok (snd x) \<Longrightarrow> task_ok (snd (progress_run x es))"
proof (induction es arbitrary: x)
  case (Cons e es)
  then show ?case using task_ok_step [of "snd x" e "fst x"] by simp
qed simp

text \<open>
  C9: at every point of any run, what the task has published is the view of its tracker: never a
  stage number beyond the cook's stages, always a description, and a next stage or its prompt only
  while that stage is ready.
\<close>

theorem progress_is_consistent:
  assumes "progress_tx (snd (progress_run (None, task_new follow tolerance) es)) = Some p"
  shows "\<exists>t. tracker (snd (progress_run (None, task_new follow tolerance) es)) = Some t \<and>
    p = build_cook_progress t \<and>
    (cp_total_stage_count p = 0 \<or> cp_current_stage_index p < cp_total_stage_count p) \<and>
    cp_current_stage_description p \<noteq> [] \<and>
    (cp_next_stage_description p \<noteq> None \<or> cp_next_stage_prompt p \<noteq> None \<longrightarrow> cp_next_stage_ready p)"
proof -
  have "task_ok (snd (progress_run (None, task_new follow tolerance) es))"
    by (rule task_ok_run) (simp add: task_ok_def task_new_def)
  with assms obtain t where
    t: "tracker (snd (progress_run (None, task_new follow tolerance) es)) = Some t"
      "p = build_cook_progress t" "tracker_ok t"
    by (cases "tracker (snd (progress_run (None, task_new follow tolerance) es))")
      (auto simp: task_ok_def)
  then show ?thesis
    by (auto simp: build_cook_progress_def Let_def tracker_ok_def short_description_nonempty
        split: option.split)
qed

section \<open>The idle oven\<close>

lemma idle_wake: "\<not> is_cooking st \<Longrightarrow> tracker (on_status now (Some st) k) = None"
  by (simp add: on_status_def publish_def)

lemma idle_current_cook:
  "\<not> is_cooking st \<Longrightarrow> tracker k = None \<Longrightarrow> tracker (on_current_cook cook (Some st) k) = None"
  by (auto simp: on_current_cook_def publish_def split: option.split)

fun keeps_idle :: "nat \<times> ProgressEvent \<Rightarrow> bool" where
  "keeps_idle (_, StatusSent (Some st)) = (\<not> is_cooking st)"
| "keeps_idle (_, StatusSent None) = False"
| "keeps_idle (_, StartedFromRecipe _ _) = False"
| "keeps_idle _ = True"

lemma idle_run:
  assumes "\<forall>e \<in> set es. keeps_idle e" "fst x = Some st" "\<not> is_cooking st" "tracker (snd x) = None"
  shows "tracker (snd (progress_run x es)) = None"
  using assms
proof (induction es arbitrary: x st)
  case (Cons e es)
  obtain now ev where e: "e = (now, ev)" by (rule prod.exhaust)
  have "\<exists>st'. fst (progress_step e x) = Some st' \<and> \<not> is_cooking st' \<and> tracker (snd (progress_step e x)) = None"
    using Cons.prems e
    by (cases ev rule: ProgressEvent.exhaust; cases x; cases "(now, ev)" rule: keeps_idle.cases)
      (auto simp: idle_current_cook on_status_def split: option.splits)
  then obtain st' where st': "fst (progress_step e x) = Some st'" "\<not> is_cooking st'"
    "tracker (snd (progress_step e x)) = None" by blast
  from Cons.IH [OF _ st'] Cons.prems(1) show ?case by simp
qed simp

text \<open>
  once the task has seen that the oven is idle, no cook is shown until a status of a running
  oven or a start arrives, however often the store still reports a current cook.
\<close>

theorem idle_oven_shows_no_progress:
  assumes "fst (progress_run (None, task_new follow tolerance) es) = Some st" and "\<not> is_cooking st"
    and "\<forall>e \<in> set es'. keeps_idle e"
  shows "progress_tx (snd (progress_run (None, task_new follow tolerance) (es @ (now, StatusWake) # es'))) = None"
proof -
  let ?x = "progress_run (None, task_new follow tolerance) es"
  let ?y = "progress_step (now, StatusWake) ?x"
  have "task_ok (snd (progress_run (None, task_new follow tolerance) (es @ (now, StatusWake) # es')))"
    by (rule task_ok_run) (simp add: task_ok_def task_new_def)
  moreover have "fst ?y = Some st" "tracker (snd ?y) = None"
    using assms(1,2) by (cases ?x; simp add: idle_wake)+
  with idle_run [OF assms(3) _ assms(2)] have "tracker (snd (progress_run ?y es')) = None" by blast
  ultimately show ?thesis by (simp add: task_ok_def)
qed

section \<open>Following the oven\<close>

lemma follow_oven_result:
  assumes "t' = snd (follow_oven t status)"
  shows "tr_stages t' = tr_stages t \<and>
    (\<forall>i. active_stage_index status = Some i \<and> i < length (tr_stages t) \<longrightarrow> tr_index t' = i) \<and>
    (next_stage_ready t' \<longleftrightarrow>
       stage_transition_pending_user_action status \<and> tr_index t' + 1 < length (tr_stages t))"
  using assms by (auto simp: follow_oven_def Let_def advance_to_def tr_next_stage_def split: option.split)

lemma follows_oven_const [simp]:
  "follows_oven (on_status now status k) = follows_oven k"
  "follows_oven (on_current_cook cook status k) = follows_oven k"
  by (auto simp: on_status_def on_current_cook_def publish_def Let_def case_prod_beta split: option.split)

text \<open>
  In local mode, after the task has handled a status or a current cook while the oven cooks,
  what it shows is the oven's own report: the active stage whenever it is one of the cook's, and a
  next stage as ready exactly when the oven waits for the user and there is one.
\<close>

theorem local_mode_follows_the_oven:
  assumes "follows_oven k" and "is_cooking status"
    and "e = StatusWake \<or> e = CurrentCookWake (Some cook)"
    and "tracker (snd (progress_step (now, e) (Some status, k))) = Some t"
  shows "(\<forall>i. active_stage_index status = Some i \<and> i < length (tr_stages t) \<longrightarrow> tr_index t = i) \<and>
    (next_stage_ready t \<longleftrightarrow>
       stage_transition_pending_user_action status \<and> tr_index t + 1 < length (tr_stages t))"
proof -
  from assms have "\<exists>t0. t = snd (follow_oven t0 status)"
    by (auto simp: on_status_def on_current_cook_def refreshed_tracker_def rebuilt_tracker_def
        follow_if_def publish_def Let_def case_prod_beta split: option.splits if_splits)
  then obtain t0 where "t = snd (follow_oven t0 status)" ..
  from follow_oven_result [OF this] show ?thesis by simp
qed

section \<open>Completion of a stage\<close>

text \<open>A run of status reports in one stage, in cloud mode.\<close>

definition status_run :: "CookProgressTask \<Rightarrow> (nat \<times> OvenStatus) list \<Rightarrow> CookProgressTask" where
  "status_run k rs = foldl (\<lambda>k (now, status). on_status now (Some status) k) k rs"

lemma status_run_snoc [simp]:
  "status_run k (rs @ [(now, status)]) = on_status now (Some status) (status_run k rs)"
  "status_run k [] = k"
  by (simp_all add: status_run_def)

abbreviation task_ready :: "CookProgressTask \<Rightarrow> bool" where
  "task_ready k \<equiv> (case tracker k of Some t \<Rightarrow> next_stage_ready t | None \<Rightarrow> False)"

definition at_target :: "f32 \<Rightarrow> Stage \<Rightarrow> OvenStatus \<Rightarrow> bool" where
  "at_target tol s status \<longleftrightarrow> f32_ge (current_temperature_c status) (f32_sub (st_temperature_c s) tol)"

definition below_floor :: "f32 \<Rightarrow> Stage \<Rightarrow> OvenStatus \<Rightarrow> bool" where
  "below_floor tol s status \<longleftrightarrow>
     f32_lt (current_temperature_c status) (f32_sub (st_temperature_c s) (f32_max tol PREHEAT_HYSTERESIS_C))"

definition preheat_only :: "Stage \<Rightarrow> bool" where
  "preheat_only s \<longleftrightarrow> st_kind s = ''preheat'' \<and> \<not> has_timer s \<and> \<not> has_probe s"

text \<open>What the tracker remembers of the reports \<open>rs\<close> of the running stage.\<close>

definition remembers :: "f32 \<Rightarrow> Stage \<Rightarrow> (nat \<times> OvenStatus) list \<Rightarrow> Tracker \<Rightarrow> bool" where
  "remembers tol s rs t \<longleftrightarrow>
     (timer_has_run t \<longrightarrow> (\<exists>r \<in> set rs. timer_mode (snd r) = ''running'')) \<and>
     (\<forall>since. preheat_only s \<and> preheat_cross_since t = Some since \<longrightarrow>
        (\<exists>k < length rs. fst (rs ! k) = since \<and> at_target tol s (snd (rs ! k)) \<and>
           (\<forall>j. k < j \<and> j < length rs \<longrightarrow> \<not> below_floor tol s (snd (rs ! j)))))"

lemma evaluate_remembers:
  assumes "remembers tol s rs t"
  shows "remembers tol s (rs @ [(now, status)]) (snd (evaluate_stage_completion now s status tol t))"
proof -
  let ?t' = "snd (evaluate_stage_completion now s status tol t)"
  have run: "timer_has_run ?t' \<Longrightarrow> timer_has_run t \<or> timer_mode status = ''running''"
    by (auto simp: evaluate_stage_completion_def Let_def split: if_splits option.splits)
  have cross: "preheat_cross_since t = Some since \<and> \<not> below_floor tol s status \<or>
      since = now \<and> at_target tol s status"
    if "preheat_only s" "preheat_cross_since ?t' = Some since" for since
    using that by (auto simp: preheat_only_def evaluate_stage_completion_def Let_def at_target_def
        below_floor_def split: if_splits option.splits)
  have "\<exists>k < length (rs @ [(now, status)]). fst ((rs @ [(now, status)]) ! k) = since \<and>
      at_target tol s (snd ((rs @ [(now, status)]) ! k)) \<and>
      (\<forall>j. k < j \<and> j < length (rs @ [(now, status)]) \<longrightarrow>
         \<not> below_floor tol s (snd ((rs @ [(now, status)]) ! j)))"
    if p: "preheat_only s" "preheat_cross_since ?t' = Some since" for since
    using cross [OF p]
  proof
    assume c: "preheat_cross_since t = Some since \<and> \<not> below_floor tol s status"
    with assms p obtain k where "k < length rs" "fst (rs ! k) = since" "at_target tol s (snd (rs ! k))"
      "\<forall>j. k < j \<and> j < length rs \<longrightarrow> \<not> below_floor tol s (snd (rs ! j))"
      by (auto simp: remembers_def)
    with c show ?thesis by (intro exI [of _ k]) (auto simp: nth_append less_Suc_eq)
  next
    assume "since = now \<and> at_target tol s status"
    then show ?thesis by (intro exI [of _ "length rs"]) auto
  qed
  with run assms show ?thesis by (auto simp: remembers_def)
qed

lemma evaluate_complete:
  assumes "fst (evaluate_stage_completion now s status tol t)" "remembers tol s rs t"
  shows "has_timer s \<and> timer_over status \<and> (\<exists>r \<in> set rs. timer_mode (snd r) = ''running'') \<or>
    has_probe s \<and> probe_reached s status \<or>
    preheat_only s \<and> (\<exists>k < length rs. fst (rs ! k) + 10000 \<le> now \<and> at_target tol s (snd (rs ! k)) \<and>
      (\<forall>j. k < j \<and> j < length (rs @ [(now, status)]) \<longrightarrow>
         \<not> below_floor tol s (snd ((rs @ [(now, status)]) ! j))))"
proof (cases "has_timer s \<and> timer_over status \<or> has_probe s \<and> probe_reached s status")
  case True
  then show ?thesis
    using assms by (auto simp: evaluate_stage_completion_def Let_def timer_over_def remembers_def
        split: if_splits option.splits)
next
  case False
  with assms(1) obtain since where
    c: "preheat_only s" "preheat_cross_since t = Some since" "PREHEAT_STABILITY_WINDOW \<le> now - since"
      "\<not> below_floor tol s status"
    by (auto simp: evaluate_stage_completion_def Let_def preheat_only_def below_floor_def
        split: if_splits option.splits)
  with assms(2) obtain k where k: "k < length rs" "fst (rs ! k) = since" "at_target tol s (snd (rs ! k))"
    "\<forall>j. k < j \<and> j < length rs \<longrightarrow> \<not> below_floor tol s (snd (rs ! j))"
    by (auto simp: remembers_def)
  have "fst (rs ! k) + 10000 \<le> now" using c(3) k(2) by (simp add: PREHEAT_STABILITY_WINDOW_def)
  moreover have "\<not> below_floor tol s (snd ((rs @ [(now, status)]) ! j))"
    if "k < j" "j < length (rs @ [(now, status)])" for j
    using that k(4) c(4) by (cases "j = length rs") (auto simp: nth_append)
  ultimately show ?thesis using c(1) k(1,3) by blast
qed

lemma on_status_running:
  assumes "\<not> follows_oven k" "tracker k = Some t" "\<not> next_stage_ready t" "tr_current_stage t = Some s"
    and "is_cooking status"
  shows "on_status now (Some status) k =
    (let (complete, t') = evaluate_stage_completion now s status (tolerance_c k) t
     in if \<not> complete \<or> tr_next_stage t' = None then k\<lparr>tracker := Some t'\<rparr>
        else publish (k\<lparr>tracker := Some (t'\<lparr>next_stage_ready := True\<rparr>)\<rparr>))"
  using assms by (simp add: on_status_def)

lemma on_status_tracker_None: "tracker k = None \<Longrightarrow> tracker (on_status now st k) = None"
  by (simp add: on_status_def split: option.split)

lemma on_status_const [simp]: "tolerance_c (on_status now status k) = tolerance_c k"
  by (auto simp: on_status_def publish_def Let_def case_prod_beta split: option.split)

lemma status_run_const [simp]:
  "follows_oven (status_run k rs) = follows_oven k" "tolerance_c (status_run k rs) = tolerance_c k"
  by (induction rs rule: rev_induct) (auto simp: status_run_def case_prod_beta)

lemma stage_running:
  assumes "\<not> follows_oven k" "tracker k = Some t0" "preheat_cross_since t0 = None" "\<not> timer_has_run t0"
    and "tr_current_stage t0 = Some s"
    and "\<forall>n \<le> length rs. \<not> task_ready (status_run k (take n rs))"
  shows "tracker (status_run k rs) = None \<or>
    (\<exists>t. tracker (status_run k rs) = Some t \<and> tr_stages t = tr_stages t0 \<and> tr_index t = tr_index t0 \<and>
      \<not> next_stage_ready t \<and> remembers (tolerance_c k) s rs t)"
  using assms(6)
proof (induction rs rule: rev_induct)
  case Nil
  with assms show ?case by (auto simp: remembers_def)
next
  case (snoc r rs)
  obtain now status where r: "r = (now, status)" by (rule prod.exhaust)
  have "\<forall>n \<le> length rs. \<not> task_ready (status_run k (take n rs))"
    using snoc.prems by (auto simp: le_Suc_eq split: if_splits)
  from snoc.IH [OF this] show ?case
  proof
    assume "tracker (status_run k rs) = None"
    then show ?thesis by (simp add: r on_status_tracker_None)
  next
    let ?k = "status_run k rs"
    assume "\<exists>t. tracker ?k = Some t \<and> tr_stages t = tr_stages t0 \<and> tr_index t = tr_index t0 \<and>
      \<not> next_stage_ready t \<and> remembers (tolerance_c k) s rs t"
    then obtain t where t: "tracker ?k = Some t" "tr_stages t = tr_stages t0" "tr_index t = tr_index t0"
      "\<not> next_stage_ready t" "remembers (tolerance_c k) s rs t" by blast
    with assms(5) have cur: "tr_current_stage t = Some s" by (simp add: tr_current_stage_def)
    let ?e = "evaluate_stage_completion now s status (tolerance_c k) t"
    have nr: "\<not> task_ready (on_status now (Some status) ?k)"
      using snoc.prems [rule_format, of "length (rs @ [r])"] by (simp add: r)
    show ?thesis
    proof (cases "is_cooking status")
      case False
      then show ?thesis by (simp add: r idle_wake)
    next
      case True
      have "on_status now (Some status) ?k = ?k\<lparr>tracker := Some (snd ?e)\<rparr>"
        using nr on_status_running [of ?k t s status now] assms(1) t(1,4) cur True
        by (auto simp: case_prod_beta Let_def publish_def split: if_splits)
      with t evaluate_remembers [OF t(5), of now status] show ?thesis
        by (simp add: r evaluate_frame)
    qed
  qed
qed

text \<open>
  C8: in cloud mode a stage is called complete, and the next one ready, only when there is a next
  one and the oven's reports since the stage began bear it out: its timer ran and is back at its
  full duration, its probe is at the target, or, for a preheat with neither, the temperature came
  within the tolerance at least ten seconds ago and has not dropped below the hysteresis floor since.
\<close>

theorem next_stage_ready_is_justified:
  assumes "\<not> follows_oven k" and "tracker k = Some t0" and "preheat_cross_since t0 = None"
    and "\<not> timer_has_run t0" and "\<forall>n \<le> length rs. \<not> task_ready (status_run k (take n rs))"
    and "task_ready (status_run k (rs @ [(now, status)]))"
  shows "\<exists>s. tr_current_stage t0 = Some s \<and> tr_index t0 + 1 < length (tr_stages t0) \<and>
    (has_timer s \<and> timer_over status \<and> (\<exists>r \<in> set rs. timer_mode (snd r) = ''running'') \<or>
     has_probe s \<and> probe_reached s status \<or>
     preheat_only s \<and> (\<exists>n < length rs. fst (rs ! n) + 10000 \<le> now \<and>
       at_target (tolerance_c k) s (snd (rs ! n)) \<and>
       (\<forall>j. n < j \<and> j < length (rs @ [(now, status)]) \<longrightarrow>
          \<not> below_floor (tolerance_c k) s (snd ((rs @ [(now, status)]) ! j)))))"
proof -
  let ?k = "status_run k rs"
  have ready: "task_ready (on_status now (Some status) ?k)" using assms(6) by simp
  then have "tracker ?k \<noteq> None" "is_cooking status"
    using on_status_tracker_None [of ?k now "Some status"] idle_wake [of status now ?k]
    by (auto split: option.splits)
  show ?thesis
  proof (cases "tr_current_stage t0")
    case None
    have "tracker (status_run k rs') = None \<or> tracker (status_run k rs') = Some t0"
      if "\<forall>n \<le> length rs'. \<not> task_ready (status_run k (take n rs'))" for rs'
      using that
    proof (induction rs' rule: rev_induct)
      case Nil
      show ?case by (simp add: assms(2))
    next
      case (snoc r rs')
      obtain now' status' where r: "r = (now', status')" by (rule prod.exhaust)
      have "\<forall>n \<le> length rs'. \<not> task_ready (status_run k (take n rs'))"
        using snoc.prems by (auto simp: le_Suc_eq split: if_splits)
      with snoc.IH snoc.prems [rule_format, of "length rs'"] None assms(1) show ?case
        by (auto simp: r on_status_def publish_def)
    qed
    from this [OF assms(5)] assms(5) [rule_format, of "length rs"] \<open>tracker ?k \<noteq> None\<close> ready None assms(1)
    show ?thesis by (auto simp: on_status_def \<open>is_cooking status\<close>)
  next
    case (Some s)
    from stage_running [OF assms(1-4) Some assms(5)] \<open>tracker ?k \<noteq> None\<close> obtain t where
      t: "tracker ?k = Some t" "tr_stages t = tr_stages t0" "tr_index t = tr_index t0"
        "\<not> next_stage_ready t" "remembers (tolerance_c k) s rs t" by auto
    with Some have cur: "tr_current_stage t = Some s" by (simp add: tr_current_stage_def)
    let ?e = "evaluate_stage_completion now s status (tolerance_c k) t"
    have "fst ?e" "tr_next_stage t \<noteq> None"
      using ready on_status_running [of ?k t s status now] assms(1) t(1,4) cur \<open>is_cooking status\<close>
      by (auto simp: case_prod_beta Let_def publish_def evaluate_frame split: if_splits)
    with evaluate_complete [OF _ t(5)] t(2,3) Some show ?thesis by (auto simp: tr_next_stage_def)
  qed
qed

section \<open>Examples\<close>

definition demo_idle :: OvenStatus where
  "demo_idle = demo_status\<lparr>mode := ''idle''\<rparr>"

definition demo_heating :: Stage where
  "demo_heating = demo_stage\<lparr>st_kind := ''preheat'', st_temperature_c := f32_of_nat 201,
     st_duration_secs := None, st_timer_added := None\<rparr>"

definition demo_current :: CurrentCook where
  "demo_current = \<lparr>cc_recipe_title = ''Bread'', cc_recipe_id = None, cc_started_at = ''k'',
     cc_stages = [demo_heating, demo_stage], cc_cook_stage_count = 1, cc_total_stage_count = 2\<rparr>"

theorem progress_is_consistent_witness:
  "\<exists>p. progress_tx (snd (progress_run (None, task_new False (f32_of_nat 0))
      [(0, StartedFromRecipe ''Bread'' [demo_stage])])) = Some p \<and>
    cp_current_stage_description p \<noteq> [] \<and> cp_total_stage_count p = 1"
proof -
  let ?x = "progress_run (None, task_new False (f32_of_nat 0)) [(0, StartedFromRecipe ''Bread'' [demo_stage])]"
  have "map_option cp_total_stage_count (progress_tx (snd ?x)) = Some 1"
    by (simp add: on_started_from_recipe_def publish_def build_cook_progress_def fresh_tracker_def Let_def)
  then obtain p where p: "progress_tx (snd ?x) = Some p" "cp_total_stage_count p = 1"
    by (simp only: map_option_eq_Some) blast
  from progress_is_consistent [OF p(1)] p show ?thesis by blast
qed

definition demo_task :: CookProgressTask where
  "demo_task = (task_new False (f32_of_nat 2))\<lparr>tracker := Some
     (fresh_tracker ''k'' ''Bread'' [demo_heating, demo_stage] 0)\<rparr>"

theorem next_stage_ready_is_justified_witness:
  "task_ready (status_run demo_task ([(0, demo_status)] @ [(10000, demo_status)])) \<and> preheat_only demo_heating"
proof -
  have 1: "\<not> task_ready demo_task" "\<not> task_ready (status_run demo_task [(0, demo_status)])"
    and 2: "task_ready (status_run demo_task ([(0, demo_status)] @ [(10000, demo_status)]))"
    by code_simp+
  have n: "\<forall>n \<le> length [(0::nat, demo_status)]. \<not> task_ready (status_run demo_task (take n [(0, demo_status)]))"
    using 1 by (auto simp: le_Suc_eq simp del: status_run_snoc) (simp add: status_run_def)
  have "\<not> has_timer demo_heating \<and> \<not> has_probe demo_heating" by code_simp
  with next_stage_ready_is_justified [OF _ _ _ _ n 2, of "fresh_tracker ''k'' ''Bread'' [demo_heating, demo_stage] 0"] 2
  show ?thesis
    by (auto simp: demo_task_def task_new_def fresh_tracker_def tr_current_stage_def)
qed

end
