(* ===== verification/Liveness.thy ===== *)
theory Liveness
  imports Oven_Api
begin

text \<open>
  The server's view of its link to the oven (\<open>crates/anova-oven-server/src/liveness.rs\<close>) and the
  health block it attaches to each status (\<open>handle_status\<close> of \<open>processors/http.rs\<close>). The atomics
  have one writer, so an operation is a step on their values; \<open>now_ms()\<close> is an argument.
\<close>

section \<open>State and operations\<close>

record Liveness =
  last_state_ms :: u64
  lv_connected :: bool
  oven_online :: bool
  disconnected_since_ms :: u64
  oven_offline_since_ms :: u64
  read_timeout_secs :: u64

definition liveness_new :: "u64 \<Rightarrow> u64 \<Rightarrow> Liveness" where
  "liveness_new now timeout =
     \<lparr>last_state_ms = 0, lv_connected = False, oven_online = True, disconnected_since_ms = now,
      oven_offline_since_ms = 0, read_timeout_secs = timeout\<rparr>"

definition reachable :: "Liveness \<Rightarrow> bool" where
  "reachable l \<longleftrightarrow> lv_connected l \<and> oven_online l"

definition record_state :: "u64 \<Rightarrow> Liveness \<Rightarrow> Liveness" where
  "record_state now l = l\<lparr>last_state_ms := now\<rparr>"

definition track_transition :: "u64 \<Rightarrow> bool \<Rightarrow> Liveness \<Rightarrow> Liveness" where
  "track_transition now was l =
     (if reachable l then l\<lparr>disconnected_since_ms := 0\<rparr>
      else if was then l\<lparr>disconnected_since_ms := now\<rparr> else l)"

definition set_connected :: "u64 \<Rightarrow> bool \<Rightarrow> Liveness \<Rightarrow> Liveness" where
  "set_connected now c l = track_transition now (reachable l) (l\<lparr>lv_connected := c\<rparr>)"

definition link_down_secs :: "u64 \<Rightarrow> Liveness \<Rightarrow> u64" where
  "link_down_secs now l =
     (if disconnected_since_ms l = 0 then 0 else sat_sub now (disconnected_since_ms l) div 1000)"

definition set_oven_online :: "u64 \<Rightarrow> bool \<Rightarrow> u64 option \<Rightarrow> Liveness \<Rightarrow> Liveness" where
  "set_oven_online now online since l =
     (let l' = track_transition now (reachable l) (l\<lparr>oven_online := online\<rparr>)
      in if online then l'\<lparr>oven_offline_since_ms := 0\<rparr>
         else
           (let s = (case since of
                Some ms \<Rightarrow> if ms \<noteq> 0 then ms
                           else if oven_offline_since_ms l' = 0 then now else oven_offline_since_ms l'
              | None \<Rightarrow> if oven_offline_since_ms l' = 0 then now else oven_offline_since_ms l')
            in l'\<lparr>oven_offline_since_ms := s\<rparr>))"

definition offline_secs :: "u64 \<Rightarrow> Liveness \<Rightarrow> u64 option" where
  "offline_secs now l =
     (if oven_offline_since_ms l = 0 then None
      else Some (sat_sub now (oven_offline_since_ms l) div 1000))"

definition last_state_unix_ms :: "Liveness \<Rightarrow> u64 option" where
  "last_state_unix_ms l = (if last_state_ms l = 0 then None else Some (last_state_ms l))"

record LivenessSnapshot =
  ls_connected :: bool
  ls_oven_online :: bool
  ls_seconds_since_last_state :: "u64 option"
  ls_disconnected_secs :: u64
  ls_oven_offline_secs :: "u64 option"
  ls_read_timeout_secs :: u64

definition snapshot :: "u64 \<Rightarrow> Liveness \<Rightarrow> LivenessSnapshot" where
  "snapshot now l =
     \<lparr>ls_connected = lv_connected l, ls_oven_online = oven_online l,
      ls_seconds_since_last_state =
        map_option (\<lambda>t. sat_sub now t div 1000) (last_state_unix_ms l),
      ls_disconnected_secs = link_down_secs now l, ls_oven_offline_secs = offline_secs now l,
      ls_read_timeout_secs = read_timeout_secs l\<rparr>"

text \<open>The health block \<open>handle_status\<close> attaches to the state machine's status.\<close>

definition attach_upstream ::
  "u64 \<Rightarrow> Liveness \<Rightarrow> CookProgress option \<Rightarrow> OvenStatus \<Rightarrow> OvenStatus" where
  "attach_upstream now l progress status =
     status\<lparr>cook_progress := progress,
       upstream := Some \<lparr>connected = reachable l, disconnected_secs = link_down_secs now l,
         oven_offline_secs = offline_secs now l\<rparr>\<rparr>"

section \<open>Runs\<close>

datatype LivenessEvent = LvState | LvConnected bool | LvOnline bool "u64 option"

fun lv_step :: "Liveness \<Rightarrow> u64 \<times> LivenessEvent \<Rightarrow> Liveness" where
  "lv_step l (now, LvState) = record_state now l"
| "lv_step l (now, LvConnected c) = set_connected now c l"
| "lv_step l (now, LvOnline online since) = set_oven_online now online since l"

definition lv_run :: "Liveness \<Rightarrow> (u64 \<times> LivenessEvent) list \<Rightarrow> Liveness" where
  "lv_run = foldl lv_step"

lemma lv_run_snoc [simp]: "lv_run l (es @ [e]) = lv_step (lv_run l es) e" "lv_run l [] = l"
  by (simp_all add: lv_run_def)

text \<open>
  The link's last moment up, from the events alone: the start, or the event that took it down.
\<close>

fun down_since :: "Liveness \<Rightarrow> u64 \<Rightarrow> (u64 \<times> LivenessEvent) list \<Rightarrow> u64" where
  "down_since l t [] = t"
| "down_since l t (e # es) =
     down_since (lv_step l e) (if reachable l \<and> \<not> reachable (lv_step l e) then fst e else t) es"

lemma down_since_snoc:
  "down_since l t (es @ [e]) =
     (if reachable (lv_run l es) \<and> \<not> reachable (lv_step (lv_run l es) e) then fst e else down_since l t es)"
  by (induction es arbitrary: l t) (simp_all add: lv_run_def)

lemma lv_step_since:
  "disconnected_since_ms (lv_step l e) =
     (case snd e of
        LvState \<Rightarrow> disconnected_since_ms l
      | _ \<Rightarrow> if reachable (lv_step l e) then 0
             else if reachable l then fst e else disconnected_since_ms l)"
  by (cases "(l, e)" rule: lv_step.cases)
    (auto simp: record_state_def set_connected_def set_oven_online_def track_transition_def
      reachable_def Let_def)

lemma lv_step_reachable:
  "reachable (lv_step l (now, e)) =
     (case e of LvState \<Rightarrow> reachable l | LvConnected c \<Rightarrow> c \<and> oven_online l
      | LvOnline online _ \<Rightarrow> lv_connected l \<and> online)"
  by (cases e) (auto simp: record_state_def set_connected_def set_oven_online_def track_transition_def
      reachable_def Let_def)

lemma lv_run_since:
  assumes "\<forall>e \<in> set es. fst e \<noteq> 0"
  shows "disconnected_since_ms (lv_run (liveness_new t timeout) es) =
    (if reachable (lv_run (liveness_new t timeout) es) then 0
     else down_since (liveness_new t timeout) t es)"
  using assms
proof (induction es rule: rev_induct)
  case Nil
  then show ?case by (simp add: liveness_new_def reachable_def)
next
  case (snoc e es)
  then show ?case
    by (cases e; cases "snd e")
      (auto simp: lv_step_since down_since_snoc lv_step_reachable simp del: lv_step.simps)
qed

definition offline_ok :: "Liveness \<Rightarrow> bool" where
  "offline_ok l \<longleftrightarrow> (oven_offline_since_ms l = 0) = oven_online l"

lemma offline_ok_run:
  "\<forall>e \<in> set es. fst e \<noteq> 0 \<Longrightarrow> offline_ok (lv_run (liveness_new t timeout) es)"
proof (induction es rule: rev_induct)
  case Nil
  then show ?case by (simp add: offline_ok_def liveness_new_def)
next
  case (snoc e es)
  then show ?case
    by (cases "(lv_run (liveness_new t timeout) es, e)" rule: lv_step.cases)
      (auto simp: offline_ok_def record_state_def set_connected_def set_oven_online_def
        track_transition_def Let_def split: option.split)
qed

text \<open>
  C10: at any time of any run, what the server reports of its link is the run's own history: the
  link is down exactly when the socket is down or the oven offline, its age counts from the event
  that took it down or from the start if it was never up, retries do not restart it, and the oven's
  own absence is given exactly while it is offline.
\<close>

theorem outage_is_timed_from_its_start:
  assumes "t \<noteq> 0" and "\<forall>e \<in> set es. fst e \<noteq> 0"
    and "l = lv_run (liveness_new t timeout) es"
  shows "connected (the (upstream (attach_upstream now l p status))) = (lv_connected l \<and> oven_online l) \<and>
    disconnected_secs (the (upstream (attach_upstream now l p status))) =
      (if reachable l then 0 else sat_sub now (down_since (liveness_new t timeout) t es) div 1000) \<and>
    (oven_offline_secs (the (upstream (attach_upstream now l p status))) = None \<longleftrightarrow> oven_online l)"
proof -
  have "down_since (liveness_new t timeout) t es \<noteq> 0"
    using assms(1,2) by (induction es rule: rev_induct) (auto simp: down_since_snoc)
  with lv_run_since [OF assms(2), of t timeout] offline_ok_run [OF assms(2), of t timeout] assms(3)
  show ?thesis
    by (auto simp: attach_upstream_def link_down_secs_def offline_secs_def reachable_def offline_ok_def)
qed

theorem outage_is_timed_from_its_start_witness:
  "\<exists>l. l = lv_run (liveness_new 5 60) [(1000, LvConnected True), (2000, LvOnline False (Some 7)), (9000, LvConnected False)] \<and>
    disconnected_secs (the (upstream (attach_upstream 62000 l None demo_status))) = 60"
proof -
  let ?es = "[(1000, LvConnected True), (2000, LvOnline False (Some 7)), (9000, LvConnected False)]"
  let ?l = "lv_run (liveness_new 5 60) ?es"
  have "\<not> reachable ?l" "sat_sub 62000 (down_since (liveness_new 5 60) 5 ?es) div 1000 = (60 :: u64)"
    by code_simp+
  with outage_is_timed_from_its_start [of 5 ?es ?l 60 62000 None demo_status]
  have "disconnected_secs (the (upstream (attach_upstream 62000 ?l None demo_status))) = 60"
    by (simp del: lv_run_snoc)
  then show ?thesis by blast
qed

end
