(* ===== verification/Recipe_Files.thy ===== *)
theory Recipe_Files
  imports Runtime_Types "HOL-Library.Char_ord" "HOL-Library.List_Lexorder" "HOL-Library.Product_Lexorder"
begin

text \<open>
  The recipe files and the checks on a recipe (\<open>RecipeFiles\<close> and \<open>normalize\<close> of
  \<open>crates/anova-oven-server/src/processors/local_store.rs\<close>).

  The data directory is the state, each file its parsed content: \<open>None\<close> stands for a file that
  does not parse. Whether a file operation fails, the clock and the text of a timestamp (the crate
  \<open>jiff\<close>) are inputs. A write replaces a whole file, since it goes to a temporary file that is
  renamed.
\<close>

section \<open>The data directory\<close>

record ActiveCook =
  ac_cook_id :: string
  ac_recipe_id :: "string option"
  ac_recipe_title :: string
  ac_started_at :: string
  ac_stage_count :: nat
  ac_last_seen_at :: "string option"
  ac_extras :: CookExtras

record Disk =
  d_active :: "ActiveCook option"                  \<comment> \<open>\<open>active-cook.json\<close>\<close>
  d_history :: "HistoryEntry option list"          \<comment> \<open>\<open>history.jsonl\<close>, by line\<close>
  d_recipes :: "(string \<times> Recipe option) list option"  \<comment> \<open>\<open>recipes/*.json\<close>, as listed\<close>

text \<open>The file operations; \<open>io\<close> gives the error of one that fails.\<close>

datatype FsOp =
  ReadActive | WriteActive | RemoveActive | ReadHistory | AppendHistory
| ReadRecipeDir | CreateRecipeDir | WriteRecipe string | RemoveRecipe string

record StoreEnv =
  io :: "FsOp \<Rightarrow> string option"
  clock_second :: int                              \<comment> \<open>\<open>now.as_second()\<close>\<close>
  clock_text :: string                             \<comment> \<open>\<open>now.to_string()\<close>\<close>
  second_text :: "int \<Rightarrow> string option"        \<comment> \<open>\<open>Timestamp::from_second(s)\<close>, printed\<close>

definition PROMPT_MAX_CHARS :: nat where "PROMPT_MAX_CHARS = 100"

definition cook_stage_count :: "Stage list \<Rightarrow> nat" where
  "cook_stage_count stages = length (filter (\<lambda>s. st_kind s \<noteq> ''preheat'') stages)"

section \<open>Recipe files\<close>

datatype RecipeError = ReNotFound | ReInvalid string | ReStore StoreError

record RecipeDraft =
  dr_title :: string
  dr_stages :: "Stage list"

record RecipePatch =
  pa_title :: "string option"
  pa_stages :: "Stage list option"

definition recipe_files :: "StoreEnv \<Rightarrow> Disk \<Rightarrow> StoreError + (string \<times> Recipe) list" where
  "recipe_files env d =
     (case d_recipes d of
        None \<Rightarrow> Inr []
      | Some fs \<Rightarrow>
          (case io env ReadRecipeDir of
             Some e \<Rightarrow> Inl (StOther e)
           | None \<Rightarrow> Inr (List.map_filter (\<lambda>(path, r). map_option (Pair path) r) fs)))"

definition recipe_key :: "Recipe \<Rightarrow> bool \<times> string \<times> string" where
  "recipe_key r = (rc_source r = Bookmarked, rc_title r, rc_id r)"

definition recipe_list :: "StoreEnv \<Rightarrow> Disk \<Rightarrow> StoreError + Recipe list" where
  "recipe_list env d = map_sum id (\<lambda>fs. sort_key recipe_key (map snd fs)) (recipe_files env d)"

definition recipe_find :: "StoreEnv \<Rightarrow> string \<Rightarrow> Disk \<Rightarrow> StoreError + (string \<times> Recipe) option" where
  "recipe_find env i d = map_sum id (find (\<lambda>(_, r). rc_id r = i)) (recipe_files env d)"

definition recipe_get :: "StoreEnv \<Rightarrow> string \<Rightarrow> Disk \<Rightarrow> StoreError + Recipe option" where
  "recipe_get env i d = map_sum id (map_option snd) (recipe_find env i d)"

definition file_char :: "string \<Rightarrow> char" where
  "file_char c =
     (case c of
        [b] \<Rightarrow> (let n = (of_char b :: nat)
                in if 48 \<le> n \<and> n \<le> 57 \<or> 65 \<le> n \<and> n \<le> 90 \<or> 97 \<le> n \<and> n \<le> 122 \<or>
                     b = CHR ''-'' \<or> b = CHR ''_'' then b else CHR ''_'')
      | _ \<Rightarrow> CHR ''_'')"

definition recipe_file_name :: "string \<Rightarrow> string" where
  "recipe_file_name i = map file_char (utf8_chars i) @ ''.json''"

fun put_file :: "string \<Rightarrow> Recipe option \<Rightarrow> (string \<times> Recipe option) list \<Rightarrow> (string \<times> Recipe option) list" where
  "put_file path r [] = [(path, r)]"
| "put_file path r ((p, x) # fs) = (if p = path then (path, r) # fs else (p, x) # put_file path r fs)"

definition write_recipe :: "StoreEnv \<Rightarrow> string \<Rightarrow> Recipe \<Rightarrow> Disk \<Rightarrow> (StoreError + unit) \<times> Disk" where
  "write_recipe env path r d =
     (case io env (WriteRecipe path) of
        Some e \<Rightarrow> (Inl (StOther e), d)
      | None \<Rightarrow> (Inr (), d\<lparr>d_recipes := Some (put_file path (Some r)
          (case d_recipes d of Some fs \<Rightarrow> fs | None \<Rightarrow> []))\<rparr>))"

text \<open>\<open>write_recipes\<close>, the export of a list of recipes; a failed write stops it.\<close>

fun write_all :: "StoreEnv \<Rightarrow> Recipe list \<Rightarrow> Disk \<Rightarrow> (StoreError + unit) \<times> Disk" where
  "write_all env [] d = (Inr (), d)"
| "write_all env (r # rs) d =
     (case write_recipe env (recipe_file_name (rc_id r)) r d of
        (Inl e, d) \<Rightarrow> (Inl e, d) | (Inr _, d) \<Rightarrow> write_all env rs d)"

definition open_dir :: "Disk \<Rightarrow> Disk" where
  "open_dir d = d\<lparr>d_recipes := Some (case d_recipes d of Some fs \<Rightarrow> fs | None \<Rightarrow> [])\<rparr>"

definition write_recipes :: "StoreEnv \<Rightarrow> Recipe list \<Rightarrow> Disk \<Rightarrow> (StoreError + unit) \<times> Disk" where
  "write_recipes env rs d =
     (case io env CreateRecipeDir of
        Some e \<Rightarrow> (Inl (StOther e), d)
      | None \<Rightarrow> write_all env rs (open_dir d))"

section \<open>Checking a recipe\<close>

definition en_dash :: string where
  "en_dash = [CHR 0xE2, CHR 0x80, CHR 0x93]"

definition f32_within :: "nat \<Rightarrow> nat \<Rightarrow> f32 \<Rightarrow> bool" where
  "f32_within a b x \<longleftrightarrow> f32_le (f32_of_nat a) x \<and> f32_le x (f32_of_nat b)"

definition elements_on :: "Stage \<Rightarrow> nat" where
  "elements_on s = length (filter (\<lambda>e. e = Some True)
     [st_heating_element_top s, st_heating_element_rear s, st_heating_element_bottom s])"

definition clean_prompt :: "Stage \<Rightarrow> Stage" where
  "clean_prompt s = s\<lparr>st_prompt :=
     (case map_option trim (st_prompt s) of Some (c # cs) \<Rightarrow> Some (c # cs) | _ \<Rightarrow> None)\<rparr>"

text \<open>The checks up to the prompt, in the code's order; \<open>None\<close> if all pass.\<close>

definition temperature_problem :: "Stage \<Rightarrow> string option" where
  "temperature_problem s =
     (if st_temperature_bulbs_mode s = Some ''wet'' then
        (if f32_within 25 100 (st_temperature_c s) then None
         else Some (''sous vide temperature must be within 25'' @ en_dash @ ''100 '' @ degree_sign @ ''C''))
      else if f32_within 25 250 (st_temperature_c s) then None
      else Some (''temperature must be within 25'' @ en_dash @ ''250 '' @ degree_sign @ ''C''))"

definition stage_problem :: "bool \<Rightarrow> Stage \<Rightarrow> string option" where
  "stage_problem is_last s =
     (let timer = (st_timer_added s = Some True); probe = (st_probe_added s = Some True) in
      if st_kind s \<noteq> ''preheat'' \<and> st_kind s \<noteq> ''cook'' then Some ''kind must be preheat or cook''
      else if temperature_problem s \<noteq> None then temperature_problem s
      else if \<not> f32_within 0 100 (st_steam_pct s)
      then Some (''steam must be within 0'' @ en_dash @ ''100 %'')
      else if 100 < st_fan_speed s then Some (''fan must be within 0'' @ en_dash @ ''100 %'')
      else if (case st_rack_position s of Some r \<Rightarrow> \<not> (1 \<le> r \<and> r \<le> 5) | None \<Rightarrow> False)
      then Some (''rack must be within 1'' @ en_dash @ ''5'')
      else if timer \<and> \<not> (case st_duration_secs s of Some d \<Rightarrow> 0 < d | None \<Rightarrow> False)
      then Some ''a timer needs a duration''
      else if probe \<and> st_probe_target_c s = None then Some ''a probe stage needs a target''
      else if (case st_probe_target_c s of Some t \<Rightarrow> \<not> f32_within 1 100 t | None \<Rightarrow> False)
      then Some (''the probe target must be within 1'' @ en_dash @ ''100 '' @ degree_sign @ ''C'')
      else if timer \<and> probe then Some ''a stage takes a timer or a probe, not both''
      else if st_kind s = ''preheat'' \<and> (timer \<or> probe)
      then Some ''a preheat ends at temperature, without a timer or probe''
      else if st_turn_off_at_end s = Some True then
        (if \<not> is_last then Some ''only the last stage can turn the oven off''
         else if \<not> timer \<and> \<not> probe then Some ''turning the oven off needs a timer or probe to end on''
         else None)
      else None)"

text \<open>The checks on the prompt and the elements, after the prompt is trimmed.\<close>

definition late_problem :: "Stage \<Rightarrow> string option" where
  "late_problem s =
     (if (case st_prompt s of Some p \<Rightarrow> PROMPT_MAX_CHARS < length (utf8_chars p) | None \<Rightarrow> False)
      then Some (''the note for when it waits must be at most '' @ show_nat PROMPT_MAX_CHARS @ '' characters'')
      else if st_prompt s \<noteq> None \<and> st_user_action_required s \<noteq> Some True
      then Some ''only a stage that waits for you can have a note for when it waits''
      else if \<not> (1 \<le> elements_on s \<and> elements_on s \<le> 2) then Some ''use one or two heating elements''
      else None)"

definition stage_message :: "nat \<Rightarrow> string \<Rightarrow> RecipeError" where
  "stage_message i msg = ReInvalid (''stage '' @ show_nat (i + 1) @ '': '' @ msg)"

text \<open>One turn of the loop; \<open>fresh\<close> is the UUID a stage without an id gets.\<close>

definition normalize_stage :: "string \<Rightarrow> nat \<Rightarrow> bool \<Rightarrow> Stage \<Rightarrow> RecipeError + Stage" where
  "normalize_stage fresh i is_last s =
     (case stage_problem is_last s of
        Some msg \<Rightarrow> Inl (stage_message i msg)
      | None \<Rightarrow>
          (let s = (if st_turn_off_at_end s = Some True then s else s\<lparr>st_turn_off_at_end := None\<rparr>);
               s = clean_prompt s
           in case late_problem s of
                Some msg \<Rightarrow> Inl (stage_message i msg)
              | None \<Rightarrow>
                  (let s = normalize_fan_speed s;
                       s = (case st_title s of
                            Some t \<Rightarrow> if trim t = [] then s\<lparr>st_title := None\<rparr> else s | None \<Rightarrow> s);
                       s = (if needs_fresh_id (st_id s) then s\<lparr>st_id := Some (''ios-'' @ fresh)\<rparr> else s)
                   in Inr s)))"

fun normalize_stages :: "(nat \<Rightarrow> string) \<Rightarrow> nat \<Rightarrow> nat \<Rightarrow> Stage list \<Rightarrow> RecipeError + Stage list" where
  "normalize_stages u k i [] = Inr []"
| "normalize_stages u k i (s # ss) =
     (case normalize_stage (u k) i (ss = []) s of
        Inl e \<Rightarrow> Inl e
      | Inr s' \<Rightarrow>
          (case normalize_stages u (if needs_fresh_id (st_id s) then k + 1 else k) (i + 1) ss of
             Inl e \<Rightarrow> Inl e
           | Inr ss' \<Rightarrow> Inr (s' # ss')))"

definition normalize :: "(nat \<Rightarrow> string) \<Rightarrow> nat \<Rightarrow> Recipe \<Rightarrow> RecipeError + Recipe" where
  "normalize u k r =
     (let title = trim (rc_title r)
      in if title = [] then Inl (ReInvalid (''title can'' @ [CHR 0x27] @ ''t be empty''))
         else if rc_stages r = [] then Inl (ReInvalid ''a recipe needs at least one stage'')
         else
           (case normalize_stages u k 0 (rc_stages r) of
              Inl e \<Rightarrow> Inl e
            | Inr ss \<Rightarrow> Inr (r\<lparr>rc_title := title, rc_stages := ss, rc_stage_count := cook_stage_count ss\<rparr>)))"

definition simple_uuid :: "string \<Rightarrow> string" where
  "simple_uuid u = filter (\<lambda>c. c \<noteq> CHR ''-'') u"

definition recipe_create ::
  "StoreEnv \<Rightarrow> (nat \<Rightarrow> string) \<Rightarrow> nat \<Rightarrow> RecipeDraft \<Rightarrow> Disk \<Rightarrow> (RecipeError + Recipe) \<times> Disk" where
  "recipe_create env u k draft d =
     (case normalize u (k + 1) \<lparr>rc_id = simple_uuid (u k), rc_title = dr_title draft, rc_stage_count = 0,
            rc_stages = dr_stages draft, rc_source = Own\<rparr> of
        Inl e \<Rightarrow> (Inl e, d)
      | Inr r \<Rightarrow>
          (case io env CreateRecipeDir of
             Some e \<Rightarrow> (Inl (ReStore (StOther e)), d)
           | None \<Rightarrow>
               (case write_recipe env (recipe_file_name (rc_id r)) r (open_dir d) of
                  (Inl e, d) \<Rightarrow> (Inl (ReStore e), d)
                | (Inr _, d) \<Rightarrow> (Inr r, d))))"

definition recipe_update ::
  "StoreEnv \<Rightarrow> (nat \<Rightarrow> string) \<Rightarrow> nat \<Rightarrow> string \<Rightarrow> RecipePatch \<Rightarrow> Disk \<Rightarrow> (RecipeError + Recipe) \<times> Disk" where
  "recipe_update env u k i patch d =
     (case recipe_find env i d of
        Inl e \<Rightarrow> (Inl (ReStore e), d)
      | Inr None \<Rightarrow> (Inl ReNotFound, d)
      | Inr (Some (path, r)) \<Rightarrow>
          (let r = (case pa_title patch of Some t \<Rightarrow> r\<lparr>rc_title := t\<rparr> | None \<Rightarrow> r);
               r = (case pa_stages patch of Some ss \<Rightarrow> r\<lparr>rc_stages := ss\<rparr> | None \<Rightarrow> r)
           in case normalize u k r of
                Inl e \<Rightarrow> (Inl e, d)
              | Inr r \<Rightarrow>
                  (case write_recipe env path r d of
                     (Inl e, d) \<Rightarrow> (Inl (ReStore e), d)
                   | (Inr _, d) \<Rightarrow> (Inr r, d))))"

definition recipe_delete :: "StoreEnv \<Rightarrow> string \<Rightarrow> Disk \<Rightarrow> (RecipeError + unit) \<times> Disk" where
  "recipe_delete env i d =
     (case recipe_find env i d of
        Inl e \<Rightarrow> (Inl (ReStore e), d)
      | Inr None \<Rightarrow> (Inl ReNotFound, d)
      | Inr (Some (path, _)) \<Rightarrow>
          (case io env (RemoveRecipe path) of
             Some e \<Rightarrow> (Inl (ReStore (StOther e)), d)
           | None \<Rightarrow> (Inr (), d\<lparr>d_recipes := map_option (filter (\<lambda>(p, _). p \<noteq> path)) (d_recipes d)\<rparr>)))"

section \<open>What a normalised recipe satisfies\<close>

abbreviation on_timer :: "Stage \<Rightarrow> bool" where "on_timer s \<equiv> st_timer_added s = Some True"
abbreviation on_probe :: "Stage \<Rightarrow> bool" where "on_probe s \<equiv> st_probe_added s = Some True"

text \<open>What the oven can run, field by field; the note is checked as it will be stored.\<close>

definition stage_allowed :: "bool \<Rightarrow> Stage \<Rightarrow> bool" where
  "stage_allowed is_last s \<longleftrightarrow>
     st_kind s \<in> {''preheat'', ''cook''} \<and>
     f32_within 25 (if st_temperature_bulbs_mode s = Some ''wet'' then 100 else 250) (st_temperature_c s) \<and>
     f32_within 0 100 (st_steam_pct s) \<and>
     st_fan_speed s \<le> 100 \<and>
     (\<forall>r. st_rack_position s = Some r \<longrightarrow> 1 \<le> r \<and> r \<le> 5) \<and>
     (on_timer s \<longrightarrow> (\<exists>d. st_duration_secs s = Some d \<and> 0 < d)) \<and>
     (on_probe s \<longrightarrow> st_probe_target_c s \<noteq> None) \<and>
     (\<forall>t. st_probe_target_c s = Some t \<longrightarrow> f32_within 1 100 t) \<and>
     \<not> (on_timer s \<and> on_probe s) \<and>
     (st_kind s = ''preheat'' \<longrightarrow> \<not> on_timer s \<and> \<not> on_probe s) \<and>
     (st_turn_off_at_end s = Some True \<longrightarrow> is_last \<and> (on_timer s \<or> on_probe s)) \<and>
     (\<forall>p. st_prompt (clean_prompt s) = Some p \<longrightarrow>
        length (utf8_chars p) \<le> 100 \<and> st_user_action_required s = Some True) \<and>
     elements_on s \<in> {1, 2}"

text \<open>A stage as it is stored: allowed, and in the one form the checks leave it in.\<close>

definition stage_normal :: "bool \<Rightarrow> Stage \<Rightarrow> bool" where
  "stage_normal is_last s \<longleftrightarrow>
     stage_allowed is_last s \<and> fan_ok s \<and> clean_prompt s = s \<and>
     st_turn_off_at_end s \<in> {None, Some True} \<and>
     (\<forall>t. st_title s = Some t \<longrightarrow> trim t \<noteq> []) \<and> \<not> needs_fresh_id (st_id s)"

definition recipe_normal :: "Recipe \<Rightarrow> bool" where
  "recipe_normal r \<longleftrightarrow>
     rc_title r \<noteq> [] \<and> trim (rc_title r) = rc_title r \<and> rc_stages r \<noteq> [] \<and>
     (\<forall>i < length (rc_stages r). stage_normal (Suc i = length (rc_stages r)) (rc_stages r ! i)) \<and>
     rc_stage_count r = cook_stage_count (rc_stages r)"

text \<open>What the routes of the HTTP API and the commands over MQTT promise of what they pass on.\<close>

fun valid_command :: "StateMachineCommand \<Rightarrow> bool" where
  "valid_command (Control (RqTimer secs)) = (secs \<noteq> 0)"
| "valid_command (Control (RqTemperature celsius)) = f32_within 25 250 celsius"
| "valid_command (Control (RqTemperatureUnit unit)) = (unit \<in> {''C'', ''F''})"
| "valid_command (StartManualCook title stages) =
     recipe_normal \<lparr>rc_id = [], rc_title = title, rc_stage_count = cook_stage_count stages,
       rc_stages = stages, rc_source = Own\<rparr>"
| "valid_command (LinkCurrentCook i title) = (title \<noteq> [])"
| "valid_command _ = True"

lemma clean_prompt_simps [simp]:
  "st_kind (clean_prompt s) = st_kind s" "st_title (clean_prompt s) = st_title s"
  "st_id (clean_prompt s) = st_id s" "st_fan_speed (clean_prompt s) = st_fan_speed s"
  "st_user_action_required (clean_prompt s) = st_user_action_required s"
  "st_turn_off_at_end (clean_prompt s) = st_turn_off_at_end s"
  "elements_on (clean_prompt s) = elements_on s"
  "st_temperature_bulbs_mode (clean_prompt s) = st_temperature_bulbs_mode s"
  "st_temperature_c (clean_prompt s) = st_temperature_c s"
  "st_steam_pct (clean_prompt s) = st_steam_pct s"
  "st_rack_position (clean_prompt s) = st_rack_position s"
  "st_timer_added (clean_prompt s) = st_timer_added s"
  "st_probe_added (clean_prompt s) = st_probe_added s"
  "st_duration_secs (clean_prompt s) = st_duration_secs s"
  "st_probe_target_c (clean_prompt s) = st_probe_target_c s"
  by (simp_all add: clean_prompt_def elements_on_def)

lemma clean_prompt_idem [simp]: "clean_prompt (clean_prompt s) = clean_prompt s"
proof (cases "st_prompt s")
  case (Some p)
  have "trim (c # cs) = c # cs" if "trim p = c # cs" for c cs
    using trim_idem [of p] that by simp
  with Some show ?thesis by (auto simp: clean_prompt_def split: list.splits)
qed (simp add: clean_prompt_def)

lemma clean_prompt_update [simp]:
  "clean_prompt (s\<lparr>st_turn_off_at_end := t\<rparr>) = (clean_prompt s)\<lparr>st_turn_off_at_end := t\<rparr>"
  "clean_prompt (s\<lparr>st_fan_speed := f\<rparr>) = (clean_prompt s)\<lparr>st_fan_speed := f\<rparr>"
  "clean_prompt (s\<lparr>st_title := ti\<rparr>) = (clean_prompt s)\<lparr>st_title := ti\<rparr>"
  "clean_prompt (s\<lparr>st_id := i\<rparr>) = (clean_prompt s)\<lparr>st_id := i\<rparr>"
  by (simp_all add: clean_prompt_def)

lemma elements_on_le: "elements_on s \<le> 3"
  by (simp add: elements_on_def)

lemma if_Some_None:
  "(if b then Some x else y) = None \<longleftrightarrow> \<not> b \<and> y = None"
  "(if b then None else Some x) = None \<longleftrightarrow> b"
  "(if z \<noteq> None then z else y) = None \<longleftrightarrow> z = None \<and> y = None"
  "(if b then z else None) = None \<longleftrightarrow> (b \<longrightarrow> z = None)"
  by auto

lemma temperature_problem_None:
  "temperature_problem s = None \<longleftrightarrow>
     f32_within 25 (if st_temperature_bulbs_mode s = Some ''wet'' then 100 else 250) (st_temperature_c s)"
  by (simp add: temperature_problem_def)

lemma late_problem_None:
  "late_problem (clean_prompt s) = None \<longleftrightarrow>
     (\<forall>p. st_prompt (clean_prompt s) = Some p \<longrightarrow>
        length (utf8_chars p) \<le> 100 \<and> st_user_action_required s = Some True) \<and>
     elements_on s \<in> {1, 2}"
proof -
  have "1 \<le> elements_on s \<and> elements_on s \<le> 2 \<longleftrightarrow> elements_on s \<in> {1, 2}" by auto
  then show ?thesis
    unfolding late_problem_def if_Some_None PROMPT_MAX_CHARS_def clean_prompt_simps
    by (cases "st_prompt (clean_prompt s)") auto
qed

lemma stage_problem_None:
  "stage_problem is_last s = None \<and> late_problem (clean_prompt s) = None \<longleftrightarrow> stage_allowed is_last s"
proof -
  have rack: "\<not> (case st_rack_position s of Some r \<Rightarrow> \<not> (1 \<le> r \<and> r \<le> 5) | None \<Rightarrow> False) \<longleftrightarrow>
      (\<forall>r. st_rack_position s = Some r \<longrightarrow> 1 \<le> r \<and> r \<le> 5)"
    and dur: "(case st_duration_secs s of Some d \<Rightarrow> 0 < d | None \<Rightarrow> False) \<longleftrightarrow>
      (\<exists>d. st_duration_secs s = Some d \<and> 0 < d)"
    and tgt: "\<not> (case st_probe_target_c s of Some t \<Rightarrow> \<not> f32_within 1 100 t | None \<Rightarrow> False) \<longleftrightarrow>
      (\<forall>t. st_probe_target_c s = Some t \<longrightarrow> f32_within 1 100 t)"
    by (simp_all split: option.splits)
  show ?thesis
    unfolding stage_problem_def Let_def if_Some_None
    unfolding temperature_problem_None rack dur tgt late_problem_None stage_allowed_def not_less
      insert_iff empty_iff option.distinct not_not
    by (simp only: option.distinct simp_thms) argo
qed

lemma normalize_fan_speed_simps [simp]:
  "clean_prompt (normalize_fan_speed s) = normalize_fan_speed (clean_prompt s)"
  "st_turn_off_at_end (normalize_fan_speed s) = st_turn_off_at_end s"
  "st_title (normalize_fan_speed s) = st_title s" "st_id (normalize_fan_speed s) = st_id s"
  "st_kind (normalize_fan_speed s) = st_kind s" "elements_on (normalize_fan_speed s) = elements_on s"
  by (auto simp: normalize_fan_speed_def clean_prompt_def elements_on_def Let_def split: option.splits)

lemma fan_ok_update [simp]:
  "fan_ok (s\<lparr>st_title := t\<rparr>) = fan_ok s" "fan_ok (s\<lparr>st_id := i\<rparr>) = fan_ok s"
  "fan_ok (s\<lparr>st_turn_off_at_end := o1\<rparr>) = fan_ok s"
  by (simp_all add: fan_ok_def)

text \<open>The form a stage that passes the checks is stored in.\<close>

definition stored_stage :: "string \<Rightarrow> Stage \<Rightarrow> Stage" where
  "stored_stage fresh s =
     (let s = (if st_turn_off_at_end s = Some True then s else s\<lparr>st_turn_off_at_end := None\<rparr>);
          s = normalize_fan_speed (clean_prompt s);
          s = (case st_title s of
                 Some t \<Rightarrow> if trim t = [] then s\<lparr>st_title := None\<rparr> else s | None \<Rightarrow> s)
      in if needs_fresh_id (st_id s) then s\<lparr>st_id := Some (''ios-'' @ fresh)\<rparr> else s)"

lemma late_problem_turn_off:
  "late_problem (s\<lparr>st_turn_off_at_end := t\<rparr>) = late_problem s"
  by (simp add: late_problem_def elements_on_def)

lemma normalize_stage_Inr:
  "normalize_stage fresh i is_last s = Inr s' \<longleftrightarrow> stage_allowed is_last s \<and> s' = stored_stage fresh s"
proof -
  have "normalize_stage fresh i is_last s =
      (case stage_problem is_last s of
         Some msg \<Rightarrow> Inl (stage_message i msg)
       | None \<Rightarrow> (case late_problem (clean_prompt s) of
           Some msg \<Rightarrow> Inl (stage_message i msg) | None \<Rightarrow> Inr (stored_stage fresh s)))"
    unfolding normalize_stage_def stored_stage_def Let_def
    by (simp add: late_problem_turn_off split: option.split)
  then show ?thesis
    unfolding stage_problem_None [symmetric]
    by (cases "stage_problem is_last s"; cases "late_problem (clean_prompt s)") auto
qed

lemma normalize_stage_Inl:
  "normalize_stage fresh i is_last s = Inl e \<Longrightarrow>
   \<not> stage_allowed is_last s \<and> (\<exists>msg. e = stage_message i msg)"
  unfolding stage_problem_None [symmetric] normalize_stage_def Let_def
  by (auto simp: late_problem_turn_off split: option.splits if_splits)

lemma stage_allowed_update [simp]:
  "stage_allowed l (s\<lparr>st_title := t\<rparr>) = stage_allowed l s"
  "stage_allowed l (s\<lparr>st_id := i\<rparr>) = stage_allowed l s"
  by (simp_all add: stage_allowed_def elements_on_def)

lemma stage_allowed_clean [simp]: "stage_allowed l (clean_prompt s) = stage_allowed l s"
  unfolding stage_allowed_def clean_prompt_simps clean_prompt_idem ..

lemma stage_allowed_turn_off [simp]:
  "stage_allowed l s \<Longrightarrow> stage_allowed l (s\<lparr>st_turn_off_at_end := None\<rparr>)"
  by (simp add: stage_allowed_def elements_on_def)

lemma stage_allowed_fan [simp]: "stage_allowed l s \<Longrightarrow> stage_allowed l (normalize_fan_speed s)"
proof -
  assume a: "stage_allowed l s"
  have "normalize_fan_speed s = s \<or> normalize_fan_speed s = s\<lparr>st_fan_speed := 100\<rparr>"
    by (simp add: normalize_fan_speed_def Let_def)
  then show ?thesis
  proof
    assume "normalize_fan_speed s = s\<lparr>st_fan_speed := 100\<rparr>"
    with a show ?thesis by (simp add: stage_allowed_def elements_on_def)
  qed (use a in simp)
qed

lemma stored_stage_normal:
  assumes "stage_allowed is_last s"
  shows "stage_normal is_last (stored_stage fresh s)"
proof -
  have "stage_allowed is_last (stored_stage fresh s)"
    unfolding stored_stage_def Let_def
    using assms by (auto split: option.split)
  then show ?thesis
    by (auto simp: stage_normal_def stored_stage_def Let_def needs_fresh_id_def split: option.splits)
qed

definition all_allowed :: "Stage list \<Rightarrow> bool" where
  "all_allowed ss \<longleftrightarrow> (\<forall>j < length ss. stage_allowed (Suc j = length ss) (ss ! j))"

lemma all_allowed_Cons [simp]:
  "all_allowed [] \<longleftrightarrow> True"
  "all_allowed (s # ss) \<longleftrightarrow> stage_allowed (ss = []) s \<and> all_allowed ss"
  by (auto simp: all_allowed_def All_less_Suc2 less_Suc_eq_0_disj)

lemma normalize_stages_Inr:
  "normalize_stages u k i ss = Inr ss' \<Longrightarrow>
   all_allowed ss \<and> list_all2 (\<lambda>s s'. \<exists>f. s' = stored_stage f s) ss ss'"
proof (induction u k i ss arbitrary: ss' rule: normalize_stages.induct)
  case (2 u k i s ss)
  obtain s1 ss1 where s1: "normalize_stage (u k) i (ss = []) s = Inr s1"
    and ss1: "normalize_stages u (if needs_fresh_id (st_id s) then k + 1 else k) (i + 1) ss = Inr ss1"
    and eq: "ss' = s1 # ss1"
    using "2.prems" by (auto split: sum.splits)
  from s1 have "stage_allowed (ss = []) s" "s1 = stored_stage (u k) s"
    by (simp_all add: normalize_stage_Inr)
  with "2.IH" [OF s1 ss1] show ?case by (auto simp: eq)
qed simp

lemma normalize_stages_Inl:
  "normalize_stages u k i ss = Inl e \<Longrightarrow>
   \<exists>j < length ss. \<not> stage_allowed (Suc j = length ss) (ss ! j) \<and>
     (\<forall>m < j. stage_allowed False (ss ! m)) \<and> (\<exists>msg. e = stage_message (i + j) msg)"
proof (induction u k i ss rule: normalize_stages.induct)
  case (2 u k i s ss)
  show ?case
  proof (cases "normalize_stage (u k) i (ss = []) s")
    case (Inl e')
    then have "e = e'" using "2.prems" by simp
    then have "\<not> stage_allowed (ss = []) s" "\<exists>msg. e = stage_message i msg"
      using normalize_stage_Inl [OF Inl] by auto
    then show ?thesis by (intro exI [of _ 0]) auto
  next
    case (Inr s1)
    then have nxt: "normalize_stages u (if needs_fresh_id (st_id s) then k + 1 else k) (i + 1) ss = Inl e"
      using "2.prems" by (auto split: sum.splits)
    obtain j where j: "j < length ss" "\<not> stage_allowed (Suc j = length ss) (ss ! j)"
      "\<forall>m < j. stage_allowed False (ss ! m)" "\<exists>msg. e = stage_message (i + 1 + j) msg"
      using "2.IH" [OF Inr nxt] by blast
    have "ss \<noteq> []" using j(1) by auto
    then have "stage_allowed False s" using Inr by (simp add: normalize_stage_Inr)
    with j show ?thesis by (intro exI [of _ "Suc j"]) (auto simp: less_Suc_eq_0_disj)
  qed
qed simp

lemma stored_stage_fixed: "stage_normal l s \<Longrightarrow> stored_stage f s = s"
proof -
  assume n: "stage_normal l s"
  have t: "(if st_turn_off_at_end s = Some True then s else s\<lparr>st_turn_off_at_end := None\<rparr>) = s"
    using n by (cases s) (auto simp: stage_normal_def)
  have f: "normalize_fan_speed (clean_prompt s) = s"
    using n by (simp add: stage_normal_def normalize_fan_speed_id)
  show ?thesis
    unfolding stored_stage_def Let_def t f using n by (auto simp: stage_normal_def split: option.split)
qed

lemma stage_normal_allowed: "stage_normal l s \<Longrightarrow> stage_allowed l s"
  by (simp add: stage_normal_def)

lemma list_all2_fixed: "list_all2 (\<lambda>s s'. s' = s) xs ys \<Longrightarrow> ys = xs"
  by (induction rule: list_all2_induct) simp_all

lemma normalize_fixed:
  assumes "recipe_normal r"
  shows "normalize u k r = Inr r"
proof -
  have all: "all_allowed (rc_stages r)"
    using assms by (auto simp: recipe_normal_def all_allowed_def stage_normal_allowed)
  obtain ss where ss: "normalize_stages u k 0 (rc_stages r) = Inr ss"
    using all normalize_stages_Inl [of u k 0 "rc_stages r"]
    by (cases "normalize_stages u k 0 (rc_stages r)") (auto simp: all_allowed_def)
  have "list_all2 (\<lambda>s s'. s' = s) (rc_stages r) ss"
    using normalize_stages_Inr [OF ss] assms
    by (auto simp: list_all2_conv_all_nth recipe_normal_def) (metis stored_stage_fixed)
  then have "ss = rc_stages r" by (rule list_all2_fixed)
  with ss assms show ?thesis by (auto simp: normalize_def Let_def recipe_normal_def)
qed

lemma normalize_Inr:
  assumes "normalize u k r = Inr r'"
  shows "recipe_normal r' \<and> rc_id r' = rc_id r \<and> rc_source r' = rc_source r \<and>
     rc_title r' = trim (rc_title r) \<and> all_allowed (rc_stages r) \<and>
     list_all2 (\<lambda>s s'. \<exists>f. s' = stored_stage f s) (rc_stages r) (rc_stages r')"
proof -
  obtain ss where ss: "normalize_stages u k 0 (rc_stages r) = Inr ss"
    and ne: "trim (rc_title r) \<noteq> []" "rc_stages r \<noteq> []"
    and r': "r' = r\<lparr>rc_title := trim (rc_title r), rc_stages := ss, rc_stage_count := cook_stage_count ss\<rparr>"
    using assms by (auto simp: normalize_def Let_def split: if_splits sum.splits)
  note st = normalize_stages_Inr [OF ss]
  have "\<forall>i < length ss. stage_normal (Suc i = length ss) (ss ! i)"
    using st by (auto simp: list_all2_conv_all_nth all_allowed_def) (metis stored_stage_normal)
  with st ne show ?thesis by (auto simp: r' recipe_normal_def)
qed

section \<open>Normalising is checking\<close>

text \<open>
  C32: A recipe is accepted exactly when its title is not blank, it has a stage and every stage is
  one the oven can run; what is stored is normal, keeps the id and the source, has the trimmed
  title and as many stages, and is stored unchanged from then on. A refusal over a stage names the
  first stage that is not allowed.
\<close>

theorem normalize_correct:
  "(case normalize u k r of
      Inr r' \<Rightarrow>
        trim (rc_title r) \<noteq> [] \<and> rc_stages r \<noteq> [] \<and> all_allowed (rc_stages r) \<and>
        recipe_normal r' \<and> rc_id r' = rc_id r \<and> rc_source r' = rc_source r \<and>
        rc_title r' = trim (rc_title r) \<and> length (rc_stages r') = length (rc_stages r) \<and>
        normalize u' k' r' = Inr r'
    | Inl e \<Rightarrow>
        trim (rc_title r) = [] \<or> rc_stages r = [] \<or>
        (\<exists>i < length (rc_stages r).
           \<not> stage_allowed (Suc i = length (rc_stages r)) (rc_stages r ! i) \<and>
           (\<forall>j < i. stage_allowed False (rc_stages r ! j)) \<and> (\<exists>msg. e = stage_message i msg)))"
proof (cases "normalize u k r")
  case (Inr r')
  then have "trim (rc_title r) \<noteq> [] \<and> rc_stages r \<noteq> []"
    by (auto simp: normalize_def Let_def split: if_splits)
  with Inr normalize_Inr [OF Inr] show ?thesis
    by (auto simp: normalize_fixed dest: list_all2_lengthD)
next
  case (Inl e)
  show ?thesis
  proof (cases "trim (rc_title r) = [] \<or> rc_stages r = []")
    case False
    then have "normalize_stages u k 0 (rc_stages r) = Inl e"
      using Inl by (auto simp: normalize_def Let_def split: sum.splits)
    from normalize_stages_Inl [OF this] Inl show ?thesis by simp
  qed (use Inl in auto)
qed

section \<open>The files as a map\<close>

definition parsed :: "Disk \<Rightarrow> (string \<times> Recipe) list" where
  "parsed d = List.map_filter (\<lambda>(path, r). map_option (Pair path) r)
     (case d_recipes d of Some fs \<Rightarrow> fs | None \<Rightarrow> [])"

definition recipe_map :: "Disk \<Rightarrow> string \<Rightarrow> Recipe option" where
  "recipe_map d i = map_option snd (find (\<lambda>(_, r). rc_id r = i) (parsed d))"

text \<open>Each path once, each id once, and every recipe under its id normal.\<close>

definition files_ok :: "Disk \<Rightarrow> bool" where
  "files_ok d \<longleftrightarrow>
     distinct (map fst (case d_recipes d of Some fs \<Rightarrow> fs | None \<Rightarrow> [])) \<and>
     distinct (map (rc_id \<circ> snd) (parsed d)) \<and> (\<forall>(_, r) \<in> set (parsed d). recipe_normal r)"

lemma recipe_files_eq:
  "recipe_files env d =
     (if d_recipes d \<noteq> None \<and> io env ReadRecipeDir \<noteq> None
      then Inl (StOther (the (io env ReadRecipeDir))) else Inr (parsed d))"
  by (auto simp: recipe_files_def parsed_def List.map_filter_simps split: option.splits)

lemma find_map_of: "map_option snd (find (\<lambda>(_, r). rc_id r = i) fs) = map_of (map (\<lambda>(_, r). (rc_id r, r)) fs) i"
  by (induction fs) auto

lemma recipe_map_of: "recipe_map d = map_of (map (\<lambda>(_, r). (rc_id r, r)) (parsed d))"
  by (rule ext) (simp add: recipe_map_def find_map_of)

lemma recipe_get_ok: "io env ReadRecipeDir = None \<Longrightarrow> recipe_get env i d = Inr (recipe_map d i)"
  by (simp add: recipe_get_def recipe_find_def recipe_files_eq recipe_map_def)

text \<open>What a write, a replacement and a removal do to the parsed files.\<close>

definition parse_files :: "(string \<times> Recipe option) list \<Rightarrow> (string \<times> Recipe) list" where
  "parse_files = List.map_filter (\<lambda>(path, r). map_option (Pair path) r)"

definition file_list :: "Disk \<Rightarrow> (string \<times> Recipe option) list" where
  "file_list d = (case d_recipes d of Some fs \<Rightarrow> fs | None \<Rightarrow> [])"

lemma parsed_eq: "parsed d = parse_files (file_list d)"
  by (simp add: parsed_def parse_files_def file_list_def)

lemma parse_files_simps [simp]:
  "parse_files [] = []"
  "parse_files ((p, None) # fs) = parse_files fs"
  "parse_files ((p, Some r) # fs) = (p, r) # parse_files fs"
  "parse_files (fs @ gs) = parse_files fs @ parse_files gs"
  by (simp_all add: parse_files_def List.map_filter_def)

lemma parse_files_mem: "(p, r) \<in> set (parse_files fs) \<longleftrightarrow> (p, Some r) \<in> set fs"
  by (induction fs) (auto split: option.splits elim: option.exhaust simp: parse_files_def List.map_filter_def)

lemma parse_keys: "set (map fst (parse_files fs)) \<subseteq> set (map fst fs)"
  by (force simp: parse_files_mem)

lemma fst_put_file: "p \<in> set (map fst fs) \<Longrightarrow> map fst (put_file p r fs) = map fst fs"
  by (induction p r fs rule: put_file.induct) auto

lemma put_file_new: "p \<notin> set (map fst fs) \<Longrightarrow> put_file p r fs = fs @ [(p, r)]"
  by (induction p r fs rule: put_file.induct) auto

lemma parse_put_file:
  "(p, Some r) \<in> set fs \<Longrightarrow> distinct (map fst fs) \<Longrightarrow>
   parse_files (put_file p (Some r') fs) = map (\<lambda>(q, x). if q = p then (q, r') else (q, x)) (parse_files fs)"
proof (induction p "Some r'" fs rule: put_file.induct)
  case (2 path p x fs)
  have id: "map (\<lambda>(q, x). if q = path then (q, r') else (q, x)) (parse_files fs) = parse_files fs"
    if "path \<notin> set (map fst fs)"
  proof (rule map_idI)
    fix y assume "y \<in> set (parse_files fs)"
    then have "fst y \<in> set (map fst fs)" using parse_keys by force
    then show "(case y of (q, x) \<Rightarrow> if q = path then (q, r') else (q, x)) = y"
      using that by (cases y) auto
  qed
  show ?case
  proof (cases "p = path")
    case True
    then have "path \<notin> set (map fst fs)" using "2.prems"(2) by simp
    moreover have "x = Some r"
      using "2.prems" True by (force simp: image_iff)
    ultimately show ?thesis by (simp add: True id)
  next
    case False
    with 2 show ?thesis by (cases x) auto
  qed
qed simp

lemma parse_filter: "parse_files (filter (\<lambda>(p, _). p \<noteq> q) fs) = filter (\<lambda>(p, _). p \<noteq> q) (parse_files fs)"
  by (induction fs) (auto simp: parse_files_def List.map_filter_def split: option.splits)

text \<open>The recipe found under an id, with its file.\<close>

lemma find_recipe_mem:
  "find (\<lambda>(_, r). rc_id r = i) fs = Some (p, r) \<Longrightarrow> (p, r) \<in> set fs \<and> rc_id r = i"
  by (induction fs) (auto split: if_splits)

lemma distinct_parse: "distinct (map fst fs) \<Longrightarrow> distinct (map fst (parse_files fs))"
proof (induction fs)
  case (Cons y fs)
  obtain p x where y: "y = (p, x)" by (cases y)
  have "p \<notin> set (map fst (parse_files fs))" using Cons.prems parse_keys [of fs] by (auto simp: y)
  with Cons show ?case by (cases x) (simp_all add: y)
qed simp

lemma distinct_ids_path:
  assumes "distinct (map fst fs)" "distinct (map (rc_id \<circ> snd) (parse_files fs))"
    "(p, r) \<in> set (parse_files fs)" "(q, x) \<in> set (parse_files fs)"
  shows "q = p \<longleftrightarrow> rc_id x = rc_id r"
proof
  show "q = p \<Longrightarrow> rc_id x = rc_id r"
    using distinct_parse [OF assms(1)] assms(3,4) by (auto dest: eq_key_imp_eq_value)
  show "rc_id x = rc_id r \<Longrightarrow> q = p"
    using assms(2-4) by (auto simp: distinct_map inj_on_def) (metis prod.inject snd_conv)
qed

lemma map_of_replace:
  assumes "\<And>q x. (q, x) \<in> set fs \<Longrightarrow> q = p \<longleftrightarrow> rc_id x = rc_id r" "rc_id r' = rc_id r" "(p, r) \<in> set fs"
  shows "map_of (map (\<lambda>(_, x). (rc_id x, x)) (map (\<lambda>(q, x). if q = p then (q, r') else (q, x)) fs)) =
    (map_of (map (\<lambda>(_, x). (rc_id x, x)) fs))(rc_id r \<mapsto> r')"
proof
  fix i
  have "map_of (map (\<lambda>(_, x). (rc_id x, x)) (map (\<lambda>(q, x). if q = p then (q, r') else (q, x)) gs)) i =
      (if i = rc_id r \<and> (\<exists>(q, x) \<in> set gs. rc_id x = rc_id r) then Some r'
       else map_of (map (\<lambda>(_, x). (rc_id x, x)) gs) i)" if "set gs \<subseteq> set fs" for gs
    using that
  proof (induction gs)
    case (Cons y gs)
    obtain q x where y: "y = (q, x)" by (cases y)
    have "q = p \<longleftrightarrow> rc_id x = rc_id r" using Cons.prems assms(1) [of q x] by (simp add: y)
    moreover have "map_of (map (\<lambda>(_, x). (rc_id x, x)) (map (\<lambda>(q, x). if q = p then (q, r') else (q, x)) gs)) i =
      (if i = rc_id r \<and> (\<exists>(q, x) \<in> set gs. rc_id x = rc_id r) then Some r'
       else map_of (map (\<lambda>(_, x). (rc_id x, x)) gs) i)"
      using Cons.prems by (intro Cons.IH) simp
    ultimately show ?case unfolding y using assms(2) by (cases "rc_id x = rc_id r") auto
  qed simp
  from this [of fs] assms(3) show "map_of (map (\<lambda>(_, x). (rc_id x, x)) (map (\<lambda>(q, x). if q = p then (q, r') else (q, x)) fs)) i =
    ((map_of (map (\<lambda>(_, x). (rc_id x, x)) fs))(rc_id r \<mapsto> r')) i"
    by auto
qed

lemma map_of_remove:
  assumes "\<And>q x. (q, x) \<in> set fs \<Longrightarrow> q = p \<longleftrightarrow> rc_id x = i"
  shows "map_of (map (\<lambda>(_, x). (rc_id x, x)) (filter (\<lambda>(q, _). q \<noteq> p) fs)) =
    (map_of (map (\<lambda>(_, x). (rc_id x, x)) fs))(i := None)"
  using assms
proof (induction fs)
  case (Cons y fs)
  obtain q x where y: "y = (q, x)" by (cases y)
  have "q = p \<longleftrightarrow> rc_id x = i" using Cons.prems [of q x] by (simp add: y)
  moreover have "map_of (map (\<lambda>(_, x). (rc_id x, x)) (filter (\<lambda>(q, _). q \<noteq> p) fs)) =
      (map_of (map (\<lambda>(_, x). (rc_id x, x)) fs))(i := None)"
    using Cons.prems by (intro Cons.IH) auto
  ultimately show ?case by (auto simp: y fun_upd_twist)
qed simp

section \<open>The interface of the recipe store\<close>

text \<open>
  What a client of the store counts on: a request keeps the store in order and edits its contents
  as its answer says. \<open>fits\<close> is the part the client owes: a new recipe's id is a fresh one.
\<close>

definition edit_recipes ::
  "string option \<Rightarrow> RecipeError + Recipe option \<Rightarrow> (string \<Rightarrow> Recipe option) \<Rightarrow> (string \<Rightarrow> Recipe option)" where
  "edit_recipes target res m =
     (case res of
        Inl e \<Rightarrow> m
      | Inr (Some r) \<Rightarrow> m(rc_id r \<mapsto> r)
      | Inr None \<Rightarrow> (case target of Some i \<Rightarrow> m(i := None) | None \<Rightarrow> m))"

text \<open>A sequence of requests: what each was for, its answer, and the store at the end.\<close>

fun run_requests ::
  "('q \<Rightarrow> 's \<Rightarrow> (RecipeError + Recipe option) \<times> 's) \<Rightarrow> ('q \<Rightarrow> string option) \<Rightarrow> 'q list \<Rightarrow> 's \<Rightarrow>
   (string option \<times> (RecipeError + Recipe option)) list \<times> 's" where
  "run_requests request target [] s = ([], s)"
| "run_requests request target (q # qs) s =
     (let (res, s) = request q s; (rs, s) = run_requests request target qs s in ((target q, res) # rs, s))"

fun all_fit :: "('q \<Rightarrow> 's \<Rightarrow> 'b \<times> 's) \<Rightarrow> ('q \<Rightarrow> 's \<Rightarrow> bool) \<Rightarrow> 'q list \<Rightarrow> 's \<Rightarrow> bool" where
  "all_fit request fits [] s = True"
| "all_fit request fits (q # qs) s = (fits q s \<and> all_fit request fits qs (snd (request q s)))"

locale recipe_store =
  fixes ok :: "'s \<Rightarrow> bool"
    and contents :: "'s \<Rightarrow> string \<Rightarrow> Recipe option"
    and request :: "'q \<Rightarrow> 's \<Rightarrow> (RecipeError + Recipe option) \<times> 's"
    and target :: "'q \<Rightarrow> string option"
    and fits :: "'q \<Rightarrow> 's \<Rightarrow> bool"
  assumes request_ok: "ok s \<Longrightarrow> fits q s \<Longrightarrow> ok (snd (request q s))"
    and request_contents: "ok s \<Longrightarrow> fits q s \<Longrightarrow>
      contents (snd (request q s)) = edit_recipes (target q) (fst (request q s)) (contents s)"
begin

lemma requests_contents:
  "ok s \<Longrightarrow> all_fit request fits qs s \<Longrightarrow>
   ok (snd (run_requests request target qs s)) \<and>
   contents (snd (run_requests request target qs s)) =
     fold (\<lambda>(t, res). edit_recipes t res) (fst (run_requests request target qs s)) (contents s)"
  by (induction qs arbitrary: s) (simp_all add: request_ok request_contents split_beta)

end

section \<open>Requests on the files\<close>

datatype RecipeRequest =
  PostRecipe RecipeDraft | PatchRecipe string RecipePatch | DeleteRecipe string

text \<open>A request with the environment and the UUIDs it draws; the answer has the recipe, if any.\<close>

type_synonym FileRequest = "StoreEnv \<times> (nat \<Rightarrow> string) \<times> RecipeRequest"

fun file_request :: "FileRequest \<Rightarrow> Disk \<Rightarrow> (RecipeError + Recipe option) \<times> Disk" where
  "file_request (env, u, PostRecipe draft) d = map_prod (map_sum id Some) id (recipe_create env u 0 draft d)"
| "file_request (env, u, PatchRecipe i patch) d = map_prod (map_sum id Some) id (recipe_update env u 0 i patch d)"
| "file_request (env, u, DeleteRecipe i) d = map_prod (map_sum id (\<lambda>_. None)) id (recipe_delete env i d)"

fun request_target :: "FileRequest \<Rightarrow> string option" where
  "request_target (_, _, PostRecipe _) = None"
| "request_target (_, _, PatchRecipe i _) = Some i"
| "request_target (_, _, DeleteRecipe i) = Some i"

fun fresh_request :: "FileRequest \<Rightarrow> Disk \<Rightarrow> bool" where
  "fresh_request (_, u, PostRecipe _) d =
     (recipe_map d (simple_uuid (u 0)) = None \<and> recipe_file_name (simple_uuid (u 0)) \<notin> set (map fst (file_list d)))"
| "fresh_request _ d = True"

lemma files_ok_iff:
  "files_ok d \<longleftrightarrow> distinct (map fst (file_list d)) \<and> distinct (map (rc_id \<circ> snd) (parse_files (file_list d))) \<and>
     (\<forall>(_, r) \<in> set (parse_files (file_list d)). recipe_normal r)"
  by (simp add: files_ok_def file_list_def parsed_eq)

lemma recipe_map_eq: "recipe_map d = map_of (map (\<lambda>(_, r). (rc_id r, r)) (parse_files (file_list d)))"
  by (simp add: recipe_map_of parsed_eq)

lemma file_list_set [simp]: "file_list (d\<lparr>d_recipes := Some fs\<rparr>) = fs"
  by (simp add: file_list_def)

lemma recipe_find_Inr:
  assumes "recipe_find env i d = Inr (Some (p, r))" "files_ok d"
  shows "(p, r) \<in> set (parse_files (file_list d))" "(p, Some r) \<in> set (file_list d)" "rc_id r = i"
    "\<And>q x. (q, x) \<in> set (parse_files (file_list d)) \<Longrightarrow> q = p \<longleftrightarrow> rc_id x = rc_id r"
proof -
  have "find (\<lambda>(_, r). rc_id r = i) (parse_files (file_list d)) = Some (p, r)"
    using assms(1) by (auto simp: recipe_find_def recipe_files_eq parsed_eq split: if_splits)
  from find_recipe_mem [OF this] show m: "(p, r) \<in> set (parse_files (file_list d))" and "rc_id r = i" by auto
  then show "(p, Some r) \<in> set (file_list d)" by (simp add: parse_files_mem)
  show "\<And>q x. (q, x) \<in> set (parse_files (file_list d)) \<Longrightarrow> q = p \<longleftrightarrow> rc_id x = rc_id r"
    using assms(2) m by (auto simp: files_ok_iff dest: distinct_ids_path)
qed

lemma create_contents:
  assumes "files_ok d" "recipe_create env u k draft d = (Inr r, d')"
    "recipe_map d (simple_uuid (u k)) = None" "recipe_file_name (simple_uuid (u k)) \<notin> set (map fst (file_list d))"
  shows "files_ok d' \<and> recipe_map d' = (recipe_map d)(rc_id r \<mapsto> r) \<and> rc_id r = simple_uuid (u k)"
proof -
  obtain r0 where r0: "normalize u (k + 1) r0 = Inr r" "rc_id r0 = simple_uuid (u k)"
    and d': "file_list d' = put_file (recipe_file_name (rc_id r)) (Some r) (file_list d)"
    using assms(2) by (auto simp: recipe_create_def write_recipe_def open_dir_def Let_def file_list_def
      split: sum.splits option.splits)
  from normalize_Inr [OF r0(1)] have r: "rc_id r = simple_uuid (u k)" "recipe_normal r" by (simp_all add: r0(2))
  have fl: "file_list d' = file_list d @ [(recipe_file_name (rc_id r), Some r)]"
    using assms(4) by (simp add: d' r put_file_new)
  have new: "simple_uuid (u k) \<notin> (rc_id \<circ> snd) ` set (parse_files (file_list d))"
    using assms(3) by (auto simp: recipe_map_eq map_of_eq_None_iff image_iff)
  have "map_of (map (\<lambda>(_, r). (rc_id r, r)) (parse_files (file_list d)) @ [(rc_id r, r)]) =
      (recipe_map d)(rc_id r \<mapsto> r)"
    using assms(3) by (auto simp: recipe_map_eq r map_add_def fun_eq_iff split: option.split)
  then show ?thesis
    using assms(1,4) r new by (auto simp: files_ok_iff recipe_map_eq [of d'] fl)
qed

lemma update_contents:
  assumes "files_ok d" "recipe_update env u k i patch d = (Inr r', d')"
  shows "files_ok d' \<and> recipe_map d' = (recipe_map d)(rc_id r' \<mapsto> r') \<and> rc_id r' = i"
proof -
  obtain p r r0 where f: "recipe_find env i d = Inr (Some (p, r))"
    and r0: "normalize u k r0 = Inr r'" "rc_id r0 = rc_id r"
    and d': "file_list d' = put_file p (Some r') (file_list d)"
    using assms(2) by (auto simp: recipe_update_def write_recipe_def Let_def file_list_def
      split: sum.splits option.splits prod.splits)
  note m = recipe_find_Inr [OF f assms(1)]
  from normalize_Inr [OF r0(1)] have r': "rc_id r' = rc_id r" "recipe_normal r'" by (simp_all add: r0(2))
  have dist: "distinct (map fst (file_list d))" using assms(1) by (simp add: files_ok_iff)
  have fl: "parse_files (file_list d') =
      map (\<lambda>(q, x). if q = p then (q, r') else (q, x)) (parse_files (file_list d))"
    unfolding d' by (rule parse_put_file [OF m(2) dist])
  have ids: "map (rc_id \<circ> snd) (parse_files (file_list d')) = map (rc_id \<circ> snd) (parse_files (file_list d))"
    unfolding fl using m(4) r'(1) by auto
  have "map fst (file_list d') = map fst (file_list d)"
    unfolding d' using m(2) by (intro fst_put_file) force
  moreover have "\<forall>(_, x) \<in> set (parse_files (file_list d')). recipe_normal x"
    using assms(1) r'(2) by (auto simp: fl files_ok_iff split: if_splits)
  ultimately have "files_ok d'"
    using assms(1) unfolding files_ok_iff ids by simp
  moreover have "recipe_map d' = (recipe_map d)(rc_id r \<mapsto> r')"
    unfolding recipe_map_eq fl using m(4) r'(1) m(1) by (rule map_of_replace)
  ultimately show ?thesis by (simp add: r'(1) m(3))
qed

lemma delete_contents:
  assumes "files_ok d" "recipe_delete env i d = (Inr (), d')"
  shows "files_ok d' \<and> recipe_map d' = (recipe_map d)(i := None)"
proof -
  obtain p r where f: "recipe_find env i d = Inr (Some (p, r))"
    and d': "file_list d' = filter (\<lambda>(q, _). q \<noteq> p) (file_list d)"
    using assms(2) by (auto simp: recipe_delete_def file_list_def split: sum.splits option.splits prod.splits)
  note m = recipe_find_Inr [OF f assms(1)]
  have fl: "parse_files (file_list d') = filter (\<lambda>(q, _). q \<noteq> p) (parse_files (file_list d))"
    unfolding d' by (rule parse_filter)
  have "recipe_map d' = (recipe_map d)(i := None)"
    unfolding recipe_map_eq fl by (rule map_of_remove) (use m(3,4) in simp)
  moreover have "files_ok d'"
    using assms(1) unfolding files_ok_iff fl by (auto simp: d' distinct_map_filter)
  ultimately show ?thesis by blast
qed

lemma failed_request:
  "fst (file_request q d) = Inl e \<Longrightarrow> file_list (snd (file_request q d)) = file_list d"
proof (cases q)
  case (fields env u x)
  assume e: "fst (file_request q d) = Inl e"
  show ?thesis
  proof (cases x)
    case (PostRecipe draft)
    with e fields show ?thesis
      by (auto simp: recipe_create_def write_recipe_def open_dir_def Let_def file_list_def
        split: sum.splits option.splits prod.splits)
  next
    case (PatchRecipe i patch)
    with e fields show ?thesis
      by (auto simp: recipe_update_def write_recipe_def Let_def split: sum.splits option.splits prod.splits)
  next
    case (DeleteRecipe i)
    with e fields show ?thesis
      by (auto simp: recipe_delete_def split: sum.splits option.splits prod.splits)
  qed
qed

lemma file_request_ok:
  assumes "files_ok d" "fresh_request q d"
  shows "files_ok (snd (file_request q d)) \<and>
    recipe_map (snd (file_request q d)) = edit_recipes (request_target q) (fst (file_request q d)) (recipe_map d)"
proof (cases "fst (file_request q d)")
  case (Inl e)
  then have "file_list (snd (file_request q d)) = file_list d" by (rule failed_request)
  then show ?thesis using assms(1) by (simp add: Inl files_ok_iff recipe_map_eq edit_recipes_def)
next
  case (Inr res)
  obtain env u x where q: "q = (env, u, x)" by (cases q)
  show ?thesis
  proof (cases x)
    case (PostRecipe draft)
    obtain y d' where c: "recipe_create env u 0 draft d = (y, d')" by (cases "recipe_create env u 0 draft d")
    with Inr obtain r where y: "y = Inr r" "res = Some r" by (cases y) (auto simp: q PostRecipe)
    from create_contents [OF assms(1) c [unfolded y]] assms(2) show ?thesis
      by (simp add: q PostRecipe c y edit_recipes_def)
  next
    case (PatchRecipe i patch)
    obtain y d' where c: "recipe_update env u 0 i patch d = (y, d')" by (cases "recipe_update env u 0 i patch d")
    with Inr obtain r where y: "y = Inr r" "res = Some r" by (cases y) (auto simp: q PatchRecipe)
    from update_contents [OF assms(1) c [unfolded y]] show ?thesis
      by (simp add: q PatchRecipe c y edit_recipes_def)
  next
    case (DeleteRecipe i)
    obtain y d' where c: "recipe_delete env i d = (y, d')" by (cases "recipe_delete env i d")
    with Inr have y: "y = Inr ()" "res = None" by (cases y; auto simp: q DeleteRecipe)+
    from delete_contents [OF assms(1) c [unfolded y]] show ?thesis
      by (simp add: q DeleteRecipe c y edit_recipes_def)
  qed
qed

interpretation rf: recipe_store files_ok recipe_map file_request request_target fresh_request
  by unfold_locales (use file_request_ok in blast)+

text \<open>
  C31: Over any sequence of creations, changes and deletions, each successful or failed for any
  reason, the recipes under their ids are what the successful answers say they are: a recipe
  created or changed is read back as it was answered, a deleted one is gone, a failed request
  changes nothing and no request touches another recipe. The list has each of them once, in order,
  and every recipe stays one the oven can run.
\<close>

theorem recipe_files_refine_map:
  assumes "files_ok d" "all_fit file_request fresh_request qs d"
    and "run_requests file_request request_target qs d = (answers, d')"
    and "io env ReadRecipeDir = None"
  shows "recipe_get env i d' = Inr (fold (\<lambda>(t, res). edit_recipes t res) answers (recipe_map d) i) \<and>
    (\<forall>r. recipe_get env i d' = Inr (Some r) \<longrightarrow> rc_id r = i \<and> recipe_normal r) \<and>
    (\<exists>rs. recipe_list env d' = Inr rs \<and> sorted (map recipe_key rs) \<and> distinct rs \<and>
       set rs = ran (fold (\<lambda>(t, res). edit_recipes t res) answers (recipe_map d)))"
proof -
  have ok: "files_ok d'" and map: "recipe_map d' = fold (\<lambda>(t, res). edit_recipes t res) answers (recipe_map d)"
    using rf.requests_contents [OF assms(1,2)] assms(3) by simp_all
  have "rc_id r = i \<and> recipe_normal r" if "recipe_map d' i = Some r" for r
    using that ok by (auto simp: recipe_map_eq files_ok_iff dest!: map_of_SomeD)
  moreover have "recipe_list env d' = Inr (sort_key recipe_key (map snd (parsed d')))"
    using assms(4) by (simp add: recipe_list_def recipe_files_eq)
  moreover have "distinct (map snd (parsed d'))" "snd ` set (parsed d') = ran (recipe_map d')"
    using ok
    by (auto simp: files_ok_iff recipe_map_eq parsed_eq ran_distinct o_def split_beta image_image
      distinct_map inj_on_def)
  ultimately show ?thesis unfolding map by (auto simp: recipe_get_ok [OF assms(4)] map)
qed

section \<open>Instances\<close>

definition demo_env :: StoreEnv where
  "demo_env = \<lparr>io = (\<lambda>_. None), clock_second = 1000, clock_text = ''now'', second_text = (\<lambda>n. Some (show_nat (nat n)))\<rparr>"

definition roast_draft :: RecipeDraft where
  "roast_draft = \<lparr>dr_title = '' Roast '', dr_stages = [demo_stage\<lparr>st_id := None\<rparr>]\<rparr>"

definition demo_requests :: "FileRequest list" where
  "demo_requests =
     [(demo_env, (\<lambda>n. ''a-'' @ show_nat n), PostRecipe roast_draft),
      (demo_env, (\<lambda>n. ''b-'' @ show_nat n), PostRecipe (roast_draft\<lparr>dr_title := '' ''\<rparr>)),
      (demo_env, (\<lambda>n. ''c-'' @ show_nat n), PostRecipe roast_draft),
      (demo_env, (\<lambda>n. ''d-'' @ show_nat n), PatchRecipe ''c0'' \<lparr>pa_title = Some ''Bread'', pa_stages = None\<rparr>),
      (demo_env, (\<lambda>n. ''e-'' @ show_nat n), DeleteRecipe ''a0'')]"

definition empty_disk :: Disk where
  "empty_disk = \<lparr>d_active = None, d_history = [], d_recipes = None\<rparr>"

theorem normalize_correct_witness:
  "let r = \<lparr>rc_id = ''a'', rc_title = '' Roast '', rc_stage_count = 0,
            rc_stages = [demo_stage\<lparr>st_id := None\<rparr>], rc_source = Own\<rparr>
   in \<exists>r'. normalize (\<lambda>_. ''u'') 0 r = Inr r' \<and> rc_title r' = ''Roast'' \<and> recipe_normal r' \<and>
        normalize (\<lambda>_. ''v'') 0 r' = Inr r'"
proof -
  define r where "r = \<lparr>rc_id = ''a'', rc_title = '' Roast '', rc_stage_count = 0,
            rc_stages = [demo_stage\<lparr>st_id := None\<rparr>], rc_source = Own\<rparr>"
  have "\<not> isl (normalize (\<lambda>_. ''u'') 0 r)" "trim (rc_title r) = ''Roast''"
    unfolding r_def by code_simp+
  then obtain r' where "normalize (\<lambda>_. ''u'') 0 r = Inr r'" by (cases "normalize (\<lambda>_. ''u'') 0 r") auto
  then show ?thesis
    using normalize_correct [where u = "\<lambda>_. ''u''" and k = 0 and r = r and u' = "\<lambda>_. ''v''" and k' = 0]
      \<open>trim (rc_title r) = ''Roast''\<close>
    unfolding r_def Let_def by auto
qed

theorem recipe_files_refine_map_witness:
  "\<exists>r. recipe_get demo_env ''c0'' (snd (run_requests file_request request_target demo_requests empty_disk)) = Inr (Some r) \<and>
     rc_title r = ''Bread'' \<and> recipe_normal r"
proof -
  obtain answers d' where run: "run_requests file_request request_target demo_requests empty_disk = (answers, d')"
    by (metis prod.exhaust)
  have "files_ok empty_disk" by (simp add: files_ok_iff file_list_def empty_disk_def)
  moreover have "all_fit file_request fresh_request demo_requests empty_disk"
    "io demo_env ReadRecipeDir = None" by code_simp+
  ultimately have ok: "files_ok empty_disk" "all_fit file_request fresh_request demo_requests empty_disk"
    "io demo_env ReadRecipeDir = None" by blast+
  have c0: "map_option rc_title (fold (\<lambda>(t, res). edit_recipes t res)
      (fst (run_requests file_request request_target demo_requests empty_disk)) (recipe_map empty_disk) ''c0'') = Some ''Bread''"
    by code_simp
  then obtain r where r: "fold (\<lambda>(t, res). edit_recipes t res) answers (recipe_map empty_disk) ''c0'' = Some r"
    "rc_title r = ''Bread''"
    unfolding run fst_conv by auto
  show ?thesis
    using recipe_files_refine_map [OF ok(1,2) run ok(3), of "''c0''"] r unfolding run snd_conv by auto
qed

end
