(* ===== verification/Local_Store.thy ===== *)
theory Local_Store
  imports Recipe_Files
begin

text \<open>
  The local store (\<open>LocalStore\<close> of \<open>crates/anova-oven-server/src/processors/local_store.rs\<close>): the
  journal of the cook in flight and the history, and what it answers the state machine. The data
  directory, the file operations that can fail and the clock are those of Recipe_Files.
\<close>

section \<open>State\<close>

definition HISTORY_LIMIT :: nat where "HISTORY_LIMIT = 50"
definition MANUAL_TITLE :: string where "MANUAL_TITLE = ''[manual]''"

record LocalStore =
  disk :: Disk
  watched :: "string option"

definition local_store_new :: "Disk \<Rightarrow> LocalStore" where
  "local_store_new d = \<lparr>disk = d, watched = None\<rparr>"

definition whole_seconds_text :: "StoreEnv \<Rightarrow> string" where
  "whole_seconds_text env =
     (case second_text env (clock_second env) of Some t \<Rightarrow> t | None \<Rightarrow> clock_text env)"

definition set_disk :: "(Disk \<Rightarrow> Disk) \<Rightarrow> LocalStore \<Rightarrow> LocalStore" where
  "set_disk f s = s\<lparr>disk := f (disk s)\<rparr>"

section \<open>Journal and history\<close>

definition read_active :: "StoreEnv \<Rightarrow> LocalStore \<Rightarrow> ActiveCook option" where
  "read_active env s = (if io env ReadActive = None then d_active (disk s) else None)"

definition write_active :: "StoreEnv \<Rightarrow> ActiveCook \<Rightarrow> LocalStore \<Rightarrow> (StoreError + unit) \<times> LocalStore" where
  "write_active env a s =
     (case io env WriteActive of
        Some e \<Rightarrow> (Inl (StOther e), s)
      | None \<Rightarrow> (Inr (), set_disk (\<lambda>d. d\<lparr>d_active := Some a\<rparr>) s))"

definition history :: "StoreEnv \<Rightarrow> LocalStore \<Rightarrow> StoreError + HistoryEntry list" where
  "history env s =
     (case io env ReadHistory of
        Some e \<Rightarrow> Inl (StOther e)
      | None \<Rightarrow> Inr (take HISTORY_LIMIT (rev (List.map_filter id (d_history (disk s))))))"

definition append_history :: "StoreEnv \<Rightarrow> HistoryEntry \<Rightarrow> LocalStore \<Rightarrow> (StoreError + unit) \<times> LocalStore" where
  "append_history env h s =
     (case io env AppendHistory of
        Some e \<Rightarrow> (Inl (StOther e), s)
      | None \<Rightarrow> (Inr (), set_disk (\<lambda>d. d\<lparr>d_history := d_history d @ [Some h]\<rparr>) s))"

definition finish :: "StoreEnv \<Rightarrow> ActiveCook \<Rightarrow> LocalStore \<Rightarrow> (StoreError + bool) \<times> LocalStore" where
  "finish env a s =
     (let (r, s) =
        (case ac_last_seen_at a of
           Some last_seen \<Rightarrow>
             (let ended_at = (if watched s = Some (ac_cook_id a) then whole_seconds_text env else last_seen)
              in case append_history env \<lparr>he_recipe_title = ac_recipe_title a, he_ended_at = ended_at,
                     he_stage_count = ac_stage_count a\<rparr> s of
                   (Inl e, s) \<Rightarrow> (Inl e, s)
                 | (Inr _, s) \<Rightarrow> (Inr True, s))
         | None \<Rightarrow> (Inr False, s))
      in case r of
           Inl e \<Rightarrow> (Inl e, s)
         | Inr recorded \<Rightarrow>
             (case io env RemoveActive of
                Some e \<Rightarrow> (Inl (StOther e), s)
              | None \<Rightarrow> (Inr recorded, set_disk (\<lambda>d. d\<lparr>d_active := None\<rparr>) s)))"

definition clamp_i64 :: "int \<Rightarrow> int" where
  "clamp_i64 n = max (- (2 ^ 63)) (min (2 ^ 63 - 1) n)"

definition manual_cook :: "StoreEnv \<Rightarrow> 'j OvenCook \<Rightarrow> ActiveCook" where
  "manual_cook env cook =
     (let started = clamp_i64 (clock_second env - sint (oc_seconds_elapsed cook))
      in \<lparr>ac_cook_id = oc_cook_id cook, ac_recipe_id = None, ac_recipe_title = MANUAL_TITLE,
          ac_started_at = (case second_text env started of Some t \<Rightarrow> t | None \<Rightarrow> clock_text env),
          ac_stage_count = cook_stage_count (oc_stages cook),
          ac_last_seen_at = Some (whole_seconds_text env),
          ac_extras = \<lparr>turn_off_at_end = False, prompts = []\<rparr>\<rparr>)"

definition journal_start ::
  "StoreEnv \<Rightarrow> string \<Rightarrow> string option \<Rightarrow> string \<Rightarrow> nat \<Rightarrow> CookExtras \<Rightarrow> LocalStore \<Rightarrow>
   (StoreError + bool) \<times> LocalStore" where
  "journal_start env cid recipe_id title n extras s =
     (let (r, s) =
        (case read_active env s of
           Some previous \<Rightarrow> if ac_cook_id previous \<noteq> cid then finish env previous s else (Inr False, s)
         | None \<Rightarrow> (Inr False, s))
      in case r of
           Inl e \<Rightarrow> (Inl e, s)
         | Inr recorded \<Rightarrow>
             (case write_active env
                \<lparr>ac_cook_id = cid, ac_recipe_id = recipe_id, ac_recipe_title = title,
                 ac_started_at = whole_seconds_text env, ac_stage_count = n, ac_last_seen_at = None,
                 ac_extras = extras\<rparr> s of
                (Inl e, s) \<Rightarrow> (Inl e, s)
              | (Inr _, s) \<Rightarrow> (Inr recorded, s)))"

definition find_recipe :: "StoreEnv \<Rightarrow> string \<Rightarrow> Disk \<Rightarrow> Recipe option" where
  "find_recipe env i d =
     (case recipe_list env d of Inl e \<Rightarrow> None | Inr rs \<Rightarrow> find (\<lambda>r. rc_id r = i) rs)"

definition cook_started ::
  "StoreEnv \<Rightarrow> string \<Rightarrow> string \<Rightarrow> CookExtras \<Rightarrow> LocalStore \<Rightarrow> (StoreError + bool) \<times> LocalStore" where
  "cook_started env cid recipe_id extras s =
     (let (title, n) = (case find_recipe env recipe_id (disk s) of
            Some r \<Rightarrow> (rc_title r, cook_stage_count (rc_stages r)) | None \<Rightarrow> (MANUAL_TITLE, 0))
      in journal_start env cid (Some recipe_id) title n extras s)"

definition link_cook :: "StoreEnv \<Rightarrow> string \<Rightarrow> string \<Rightarrow> LocalStore \<Rightarrow> (StoreError + unit) \<times> LocalStore" where
  "link_cook env recipe_id title s =
     (case read_active env s of
        None \<Rightarrow> (Inr (), s)
      | Some a \<Rightarrow> write_active env (a\<lparr>ac_recipe_id := Some recipe_id, ac_recipe_title := title\<rparr>) s)"

definition oven_reported ::
  "StoreEnv \<Rightarrow> 'j OvenCook option \<Rightarrow> LocalStore \<Rightarrow> (StoreError + bool) \<times> LocalStore" where
  "oven_reported env cook s =
     (let active = read_active env s;
          same = (case (active, cook) of
            (Some a, Some c) \<Rightarrow> ac_cook_id a = oc_cook_id c | _ \<Rightarrow> False);
          (r, s) =
            (if same then
               (let c = the cook
                in case write_active env ((the active)\<lparr>ac_last_seen_at := Some (whole_seconds_text env),
                       ac_stage_count := cook_stage_count (oc_stages c)\<rparr>) s of
                     (Inl e, s) \<Rightarrow> (Inl e, s) | (Inr _, s) \<Rightarrow> (Inr False, s))
             else
               (let (r, s) = (case active of Some a \<Rightarrow> finish env a s | None \<Rightarrow> (Inr False, s))
                in case r of
                     Inl e \<Rightarrow> (Inl e, s)
                   | Inr recorded \<Rightarrow>
                       (case cook of
                          None \<Rightarrow> (Inr recorded, s)
                        | Some c \<Rightarrow>
                            (case write_active env (manual_cook env c) s of
                               (Inl e, s) \<Rightarrow> (Inl e, s) | (Inr _, s) \<Rightarrow> (Inr recorded, s)))))
      in case r of Inl e \<Rightarrow> (Inl e, s) | Inr recorded \<Rightarrow> (Inr recorded, s\<lparr>watched := map_option oc_cook_id cook\<rparr>))"

definition store_current_cook ::
  "StoreEnv \<Rightarrow> 'j OvenCook option \<Rightarrow> LocalStore \<Rightarrow> (StoreError + CurrentCook option) \<times> LocalStore" where
  "store_current_cook env oven_cook s =
     (case oven_cook of
        None \<Rightarrow> (Inl StUnsupported, s)
      | Some c \<Rightarrow>
          (let (active, s) =
             (case read_active env s of
                Some a \<Rightarrow> if ac_cook_id a = oc_cook_id c then (Inr a, s)
                          else (case oven_reported env (Some c) s of
                            (Inl e, s) \<Rightarrow> (Inl e, s)
                          | (Inr _, s) \<Rightarrow>
                              ((case read_active env s of Some a \<Rightarrow> Inr a
                                | None \<Rightarrow> Inl (StOther ''cook journal missing after write'')), s))
              | None \<Rightarrow> (case oven_reported env (Some c) s of
                            (Inl e, s) \<Rightarrow> (Inl e, s)
                          | (Inr _, s) \<Rightarrow>
                              ((case read_active env s of Some a \<Rightarrow> Inr a
                                | None \<Rightarrow> Inl (StOther ''cook journal missing after write'')), s)))
           in case active of
                Inl e \<Rightarrow> (Inl e, s)
              | Inr a \<Rightarrow>
                  (Inr (Some \<lparr>cc_recipe_title = ac_recipe_title a, cc_recipe_id = ac_recipe_id a,
                     cc_started_at = ac_started_at a,
                     cc_stages = apply_extras (ac_extras a) (oc_stages c),
                     cc_cook_stage_count = cook_stage_count (oc_stages c),
                     cc_total_stage_count = length (oc_stages c)\<rparr>), s)))"

text \<open>\<open>handle\<close>: a command of the state machine to its events.\<close>

fun store_handle :: "StoreEnv \<Rightarrow> 'j StoreCommand \<Rightarrow> LocalStore \<Rightarrow> StoreEvent list \<times> LocalStore" where
  "store_handle env RefreshRecipes s = ([RecipesRefreshed (recipe_list env (disk s))], s)"
| "store_handle env (RefreshHistory reason) s = ([HistoryRefreshed (history env s)], s)"
| "store_handle env (FetchCurrentCook reason cook) s =
     (let (r, s) = store_current_cook env cook s in ([CurrentCookFetched reason r], s))"
| "store_handle env (PatchCookRecipeRef cid from extras) s =
     (let (r, s) = (case from of
            FromRecipe i \<Rightarrow> cook_started env cid i extras s
          | FromManual title n \<Rightarrow> journal_start env cid None title n extras s)
      in (RecipeRefPatched cid (started_recipe_id from) (map_sum id (\<lambda>_. ()) r) #
          (if r = Inr True then [HistoryRefreshed (history env s)] else []), s))"
| "store_handle env (OvenReported cook) s =
     (let (r, s) = oven_reported env cook s
      in (if r = Inr True then [HistoryRefreshed (history env s)] else [], s))"
| "store_handle env (LinkCookToRecipe recipe_id title) s = ([], snd (link_cook env recipe_id title s))"
| "store_handle env (ResolveManualCookTitle cook) s = ([ManualCookTitleResolved [] (Inr None)], s)"

section \<open>When no file operation fails\<close>

abbreviation files_work :: "StoreEnv \<Rightarrow> bool" where
  "files_work env \<equiv> io env = (\<lambda>_. None)"

definition seen_entry :: "StoreEnv \<Rightarrow> string option \<Rightarrow> ActiveCook \<Rightarrow> HistoryEntry option list" where
  "seen_entry env w a =
     (case ac_last_seen_at a of
        None \<Rightarrow> []
      | Some t \<Rightarrow> [Some \<lparr>he_recipe_title = ac_recipe_title a,
          he_ended_at = (if w = Some (ac_cook_id a) then whole_seconds_text env else t),
          he_stage_count = ac_stage_count a\<rparr>])"

lemma read_active_ok: "files_work env \<Longrightarrow> read_active env s = d_active (disk s)"
  by (simp add: read_active_def)

lemma write_active_ok:
  "files_work env \<Longrightarrow> write_active env a s = (Inr (), s\<lparr>disk := (disk s)\<lparr>d_active := Some a\<rparr>\<rparr>)"
  by (simp add: write_active_def set_disk_def)

lemma finish_ok:
  "files_work env \<Longrightarrow> finish env a s =
     (Inr (ac_last_seen_at a \<noteq> None),
      s\<lparr>disk := (disk s)\<lparr>d_history := d_history (disk s) @ seen_entry env (watched s) a, d_active := None\<rparr>\<rparr>)"
  by (simp add: finish_def append_history_def set_disk_def seen_entry_def Let_def split: option.split)

text \<open>A report of the cook in the journal, and any other report.\<close>

lemma oven_reported_same:
  assumes "files_work env" "d_active (disk s) = Some a" "ac_cook_id a = oc_cook_id c"
  shows "oven_reported env (Some c) s =
    (Inr False, \<lparr>disk = (disk s)\<lparr>d_active := Some (a\<lparr>ac_last_seen_at := Some (whole_seconds_text env),
       ac_stage_count := cook_stage_count (oc_stages c)\<rparr>)\<rparr>, watched = Some (oc_cook_id c)\<rparr>)"
  using assms by (simp add: oven_reported_def read_active_ok write_active_ok Let_def)

lemma oven_reported_other:
  assumes "files_work env"
    "\<And>a c. d_active (disk s) = Some a \<Longrightarrow> cook = Some c \<Longrightarrow> ac_cook_id a \<noteq> oc_cook_id c"
  shows "oven_reported env cook s =
    (Inr (\<exists>a. d_active (disk s) = Some a \<and> ac_last_seen_at a \<noteq> None),
     \<lparr>disk = (disk s)\<lparr>d_history := d_history (disk s) @
         (case d_active (disk s) of Some a \<Rightarrow> seen_entry env (watched s) a | None \<Rightarrow> []),
        d_active := map_option (manual_cook env) cook\<rparr>,
      watched = map_option oc_cook_id cook\<rparr>)"
  using assms
  by (cases "d_active (disk s)"; cases cook)
    (auto simp: oven_reported_def read_active_ok write_active_ok finish_ok Let_def)

lemma journal_start_ok:
  assumes "files_work env"
  shows "journal_start env cid rid t n ex s =
    (Inr (\<exists>a. d_active (disk s) = Some a \<and> ac_cook_id a \<noteq> cid \<and> ac_last_seen_at a \<noteq> None),
     s\<lparr>disk := (disk s)\<lparr>d_history := d_history (disk s) @
         (case d_active (disk s) of
            Some a \<Rightarrow> if ac_cook_id a \<noteq> cid then seen_entry env (watched s) a else [] | None \<Rightarrow> []),
        d_active := Some \<lparr>ac_cook_id = cid, ac_recipe_id = rid, ac_recipe_title = t,
          ac_started_at = whole_seconds_text env, ac_stage_count = n, ac_last_seen_at = None,
          ac_extras = ex\<rparr>\<rparr>\<rparr>)"
  using assms
  by (cases "d_active (disk s)") (auto simp: journal_start_def read_active_ok write_active_ok finish_ok Let_def)

section \<open>The history of reports\<close>

text \<open>A report as the store gets it, and whether the server was restarted before it.\<close>

type_synonym 'j Report = "bool \<times> StoreEnv \<times> 'j OvenCook option"

definition report_step :: "LocalStore \<Rightarrow> 'j Report \<Rightarrow> LocalStore" where
  "report_step s = (\<lambda>(restarted, env, cook).
     snd (store_handle env (OvenReported cook) (if restarted then local_store_new (disk s) else s)))"

text \<open>A cook ends between two reports when the first has it and the second does not.\<close>

definition ends :: "'j Report \<times> 'j Report \<Rightarrow> bool" where
  "ends = (\<lambda>((_, _, c0), (_, _, c1)). c0 \<noteq> None \<and> map_option oc_cook_id c1 \<noteq> map_option oc_cook_id c0)"

text \<open>Its entry: it ended at the second report, or at the first if the server was restarted between.\<close>

definition end_entry :: "string \<Rightarrow> 'j Report \<times> 'j Report \<Rightarrow> HistoryEntry" where
  "end_entry title = (\<lambda>((_, env0, c0), (restarted, env1, _)).
     \<lparr>he_recipe_title = title,
      he_ended_at = whole_seconds_text (if restarted then env0 else env1),
      he_stage_count = (case c0 of Some c \<Rightarrow> cook_stage_count (oc_stages c) | None \<Rightarrow> 0)\<rparr>)"

text \<open>The store after a report of a cook, whatever names it.\<close>

definition store_follows :: "'j Report \<Rightarrow> LocalStore \<Rightarrow> bool" where
  "store_follows = (\<lambda>(_, env, cook) s.
     watched s = map_option oc_cook_id cook \<and>
     (case cook of
        None \<Rightarrow> d_active (disk s) = None
      | Some c \<Rightarrow> \<exists>a. d_active (disk s) = Some a \<and> ac_cook_id a = oc_cook_id c \<and>
          ac_last_seen_at a = Some (whole_seconds_text env) \<and>
          ac_stage_count a = cook_stage_count (oc_stages c)))"

definition journal_title :: "LocalStore \<Rightarrow> string" where
  "journal_title s = (case d_active (disk s) of Some a \<Rightarrow> ac_recipe_title a | None \<Rightarrow> MANUAL_TITLE)"

lemma store_report [simp]:
  "snd (store_handle env (OvenReported cook) s) = snd (oven_reported env cook s)"
  by (simp add: split_beta)

text \<open>The fields of the journal a report of the same cook leaves alone.\<close>

definition journal_names :: "LocalStore \<Rightarrow> (string \<times> string option \<times> string \<times> CookExtras) option" where
  "journal_names s =
     map_option (\<lambda>a. (ac_recipe_title a, ac_recipe_id a, ac_started_at a, ac_extras a)) (d_active (disk s))"

lemma report_same:
  assumes "files_work env" "d_active (disk s) = Some a" "ac_cook_id a = oc_cook_id c"
  shows "store_follows (restarted, env, Some c) (report_step s (restarted, env, Some c)) \<and>
    d_history (disk (report_step s (restarted, env, Some c))) = d_history (disk s) \<and>
    journal_names (report_step s (restarted, env, Some c)) = journal_names s"
  using assms
  by (simp add: report_step_def store_follows_def local_store_new_def journal_names_def
      oven_reported_same [where a = a])

lemma report_other:
  assumes "files_work env" "map_option ac_cook_id (d_active (disk s)) \<noteq> map_option oc_cook_id cook \<or> cook = None"
  shows "store_follows (restarted, env, cook) (report_step s (restarted, env, cook)) \<and>
    d_history (disk (report_step s (restarted, env, cook))) = d_history (disk s) @
      (case d_active (disk s) of
         Some a \<Rightarrow> seen_entry env (if restarted then None else watched s) a | None \<Rightarrow> []) \<and>
    journal_title (report_step s (restarted, env, cook)) = MANUAL_TITLE"
proof -
  let ?s = "if restarted then local_store_new (disk s) else s"
  have d: "disk ?s = disk s" "watched ?s = (if restarted then None else watched s)"
    by (simp_all add: local_store_new_def)
  have ne: "ac_cook_id a \<noteq> oc_cook_id c" if "d_active (disk ?s) = Some a" "cook = Some c" for a c
    using assms(2) that d by auto
  have "report_step s (restarted, env, cook) = snd (oven_reported env cook ?s)"
    by (simp only: report_step_def prod.case store_report)
  also have "\<dots> = \<lparr>disk = (disk s)\<lparr>d_history := d_history (disk s) @
         (case d_active (disk s) of
            Some a \<Rightarrow> seen_entry env (if restarted then None else watched s) a | None \<Rightarrow> []),
        d_active := map_option (manual_cook env) cook\<rparr>, watched = map_option oc_cook_id cook\<rparr>"
    using oven_reported_other [OF assms(1), of ?s cook, OF ne] by (simp only: d snd_conv)
  finally show ?thesis
    by (cases cook) (simp_all add: store_follows_def journal_title_def manual_cook_def Let_def)
qed

text \<open>One report after another.\<close>

lemma report_after_report:
  assumes "files_work env" "store_follows (restarted0, env0, c0) s"
  shows "store_follows (restarted, env, cook) (report_step s (restarted, env, cook)) \<and>
    d_history (disk (report_step s (restarted, env, cook))) = d_history (disk s) @
      (if ends ((restarted0, env0, c0), (restarted, env, cook))
       then [Some (end_entry (journal_title s) ((restarted0, env0, c0), (restarted, env, cook)))] else []) \<and>
    (if c0 \<noteq> None \<and> map_option oc_cook_id cook = map_option oc_cook_id c0
     then journal_names (report_step s (restarted, env, cook)) = journal_names s
     else journal_title (report_step s (restarted, env, cook)) = MANUAL_TITLE)"
proof (cases c0)
  case None
  then have "d_active (disk s) = None" using assms(2) by (simp add: store_follows_def)
  with report_other [OF assms(1), of s cook restarted] show ?thesis
    by (cases cook) (simp_all add: None ends_def)
next
  case (Some c)
  then obtain a where a: "d_active (disk s) = Some a" "ac_cook_id a = oc_cook_id c"
    "ac_last_seen_at a = Some (whole_seconds_text env0)" "ac_stage_count a = cook_stage_count (oc_stages c)"
    and w: "watched s = Some (oc_cook_id c)"
    using assms(2) by (auto simp: store_follows_def)
  show ?thesis
  proof (cases "map_option oc_cook_id cook = Some (oc_cook_id c)")
    case True
    then obtain c1 where c1: "cook = Some c1" "oc_cook_id c1 = oc_cook_id c" by (cases cook) auto
    with report_same [OF assms(1) a(1), of c1 restarted] a(2) show ?thesis
      by (simp add: Some ends_def)
  next
    case False
    then have "map_option ac_cook_id (d_active (disk s)) \<noteq> map_option oc_cook_id cook"
      unfolding a option.map(2) by metis
    with report_other [OF assms(1), of s cook restarted] show ?thesis
      using False by (cases restarted) (auto simp: Some a w ends_def end_entry_def seen_entry_def journal_title_def)
  qed
qed

section \<open>Every cook is recorded once\<close>

text \<open>What changes the journal: a report of the oven, and a cook the server starts.\<close>

datatype 'j Happening = Reported "'j OvenCook option" | Began string StartedFrom CookExtras

fun happening_command :: "'j Happening \<Rightarrow> 'j StoreCommand" where
  "happening_command (Reported cook) = OvenReported cook"
| "happening_command (Began cid src ex) = PatchCookRecipeRef cid src ex"

text \<open>The cook it is about, and whether it is a report of one.\<close>

fun cook_named :: "'j Happening \<Rightarrow> string option" where
  "cook_named (Reported cook) = map_option oc_cook_id cook"
| "cook_named (Began cid src ex) = Some cid"

fun cook_reported :: "'j Happening \<Rightarrow> 'j OvenCook option" where
  "cook_reported (Reported cook) = cook"
| "cook_reported (Began cid src ex) = None"

text \<open>A happening as the store meets it: whether the server was restarted before it, and the clock.\<close>

type_synonym 'j Moment = "bool \<times> StoreEnv \<times> 'j Happening"

definition store_step :: "LocalStore \<Rightarrow> 'j Moment \<Rightarrow> LocalStore" where
  "store_step s = (\<lambda>(restarted, env, h).
     snd (store_handle env (happening_command h) (if restarted then local_store_new (disk s) else s)))"

definition started_title :: "StoreEnv \<Rightarrow> Disk \<Rightarrow> StartedFrom \<Rightarrow> string" where
  "started_title env d src =
     (case src of
        FromManual t n \<Rightarrow> t
      | FromRecipe i \<Rightarrow> (case find_recipe env i d of Some r \<Rightarrow> rc_title r | None \<Rightarrow> MANUAL_TITLE))"

text \<open>
  The title a cook goes by: the one it was started with, which further reports of it keep, and the
  manual one if the oven reports a cook the server did not start.
\<close>

fun title_next :: "Disk \<Rightarrow> string option \<Rightarrow> string \<Rightarrow> 'j Moment \<Rightarrow> string" where
  "title_next d before title (_, env, Began cid src ex) = started_title env d src"
| "title_next d before title (_, env, Reported cook) =
     (if cook \<noteq> None \<and> map_option oc_cook_id cook = before then title else MANUAL_TITLE)"

text \<open>
  The entries a run makes: one whenever a cook is reported and what comes next is about another
  cook, or none.
\<close>

fun recorded :: "Disk \<Rightarrow> string \<Rightarrow> 'j Moment list \<Rightarrow> HistoryEntry list" where
  "recorded d title ((r0, env0, h0) # (r1, env1, h1) # ms) =
     (if cook_reported h0 \<noteq> None \<and> cook_named h1 \<noteq> cook_named h0
      then [end_entry title ((r0, env0, cook_reported h0), (r1, env1, cook_reported h1))] else []) @
     recorded d (title_next d (cook_named h0) title (r1, env1, h1)) ((r1, env1, h1) # ms)"
| "recorded d title _ = []"

text \<open>
  The entry of a cook that an earlier process left in the journal, unless the first happening is about
  that cook: it ended when it was last seen.
\<close>

fun left_behind :: "Disk \<Rightarrow> 'j Moment \<Rightarrow> HistoryEntry list" where
  "left_behind d (_, _, h) =
     (case d_active d of
        None \<Rightarrow> []
      | Some a \<Rightarrow>
          (case ac_last_seen_at a of
             Some t \<Rightarrow> if cook_named h = Some (ac_cook_id a) then []
               else [\<lparr>he_recipe_title = ac_recipe_title a, he_ended_at = t, he_stage_count = ac_stage_count a\<rparr>]
           | None \<Rightarrow> []))"

text \<open>The store after a moment, with the title its cook goes by.\<close>

definition store_after :: "'j Moment \<Rightarrow> string \<Rightarrow> LocalStore \<Rightarrow> bool" where
  "store_after = (\<lambda>(r, env, h) title s.
     (case h of
        Reported cook \<Rightarrow> store_follows (r, env, cook) s
      | Began cid src ex \<Rightarrow> \<exists>a. d_active (disk s) = Some a \<and> ac_cook_id a = cid \<and> ac_last_seen_at a = None) \<and>
     journal_title s = title)"

lemma reported_step: "store_step s (r, env, Reported cook) = report_step s (r, env, cook)"
  by (simp add: store_step_def report_step_def)

lemma began_step:
  assumes "files_work env"
  shows "\<exists>a. store_step s (r, env, Began cid src ex :: 'j Happening) =
      (if r then local_store_new (disk s) else s)\<lparr>disk := (disk s)\<lparr>d_history := d_history (disk s) @
         (case d_active (disk s) of
            Some b \<Rightarrow> if ac_cook_id b \<noteq> cid then seen_entry env (if r then None else watched s) b else [] | None \<Rightarrow> []),
        d_active := Some a\<rparr>\<rparr> \<and>
    ac_cook_id a = cid \<and> ac_last_seen_at a = None \<and> ac_recipe_title a = started_title env (disk s) src"
proof -
  let ?s = "if r then local_store_new (disk s) else s"
  have d: "disk ?s = disk s" "watched ?s = (if r then None else watched s)" by (simp_all add: local_store_new_def)
  have "\<exists>t n. store_step s (r, env, Began cid src ex :: 'j Happening) = snd (journal_start env cid (started_recipe_id src) t n ex ?s) \<and>
      t = started_title env (disk s) src"
    by (cases src) (auto simp: store_step_def cook_started_def started_title_def d split_beta Let_def split: option.split)
  then obtain n where e: "store_step s (r, env, Began cid src ex :: 'j Happening) =
      snd (journal_start env cid (started_recipe_id src) (started_title env (disk s) src) n ex ?s)" by blast
  let ?a = "\<lparr>ac_cook_id = cid, ac_recipe_id = started_recipe_id src, ac_recipe_title = started_title env (disk s) src,
      ac_started_at = whole_seconds_text env, ac_stage_count = n, ac_last_seen_at = None, ac_extras = ex\<rparr>"
  have "store_step s (r, env, Began cid src ex :: 'j Happening) = ?s\<lparr>disk := (disk s)\<lparr>d_history := d_history (disk s) @
         (case d_active (disk s) of
            Some b \<Rightarrow> if ac_cook_id b \<noteq> cid then seen_entry env (if r then None else watched s) b else [] | None \<Rightarrow> []),
        d_active := Some ?a\<rparr>\<rparr>"
    by (simp only: e journal_start_ok [OF assms] d snd_conv)
  then show ?thesis by (rule exI [where x = ?a, OF conjI]) simp
qed

lemma title_next_recipes: "d_recipes d' = d_recipes d \<Longrightarrow> title_next d' before title m = title_next d before title m"
  by (cases "(d, before, title, m)" rule: title_next.cases)
    (auto simp: started_title_def find_recipe_def recipe_list_def recipe_files_def split: StartedFrom.split)

lemma moment_step:
  fixes r env h s
  assumes "files_work env"
  defines "s' \<equiv> store_step s (r, env, h)" and "j \<equiv> d_active (disk s)"
  shows "store_after (r, env, h) (title_next (disk s) (map_option ac_cook_id j) (journal_title s) (r, env, h)) s' \<and>
    d_history (disk s') = d_history (disk s) @
      (case j of
         Some a \<Rightarrow> if cook_named h = Some (ac_cook_id a) then [] else seen_entry env (if r then None else watched s) a
       | None \<Rightarrow> []) \<and>
    d_recipes (disk s') = d_recipes (disk s)"
proof (cases h)
  case (Began cid src ex)
  let ?s = "if r then local_store_new (disk s) else s"
  obtain a where a: "s' = ?s\<lparr>disk := (disk s)\<lparr>d_history := d_history (disk s) @
         (case j of
            Some b \<Rightarrow> if ac_cook_id b \<noteq> cid then seen_entry env (if r then None else watched s) b else [] | None \<Rightarrow> []),
        d_active := Some a\<rparr>\<rparr>"
      "ac_cook_id a = cid" "ac_last_seen_at a = None" "ac_recipe_title a = started_title env (disk s) src"
    using began_step [OF assms(1), of s r cid src ex] unfolding s'_def j_def Began by blast
  have "d_active (disk s') = Some a" "d_recipes (disk s') = d_recipes (disk s)"
    by (simp_all add: a(1))
  moreover have "d_history (disk s') = d_history (disk s) @ (case j of
      Some b \<Rightarrow> if ac_cook_id b \<noteq> cid then seen_entry env (if r then None else watched s) b else [] | None \<Rightarrow> [])"
    by (simp add: a(1))
  ultimately show ?thesis using a(2-4)
    by (cases j) (auto simp: Began store_after_def journal_title_def)
next
  case (Reported cook)
  let ?s = "if r then local_store_new (disk s) else s"
  have rec: "d_recipes (disk s') = d_recipes (disk s)"
  proof (cases "\<exists>a c. j = Some a \<and> cook = Some c \<and> ac_cook_id a = oc_cook_id c")
    case True
    then show ?thesis using assms(1)
      by (auto simp: s'_def reported_step Reported report_step_def local_store_new_def j_def oven_reported_same)
  next
    case False
    then have "oven_reported env cook ?s = (Inr (\<exists>a. d_active (disk ?s) = Some a \<and> ac_last_seen_at a \<noteq> None),
     \<lparr>disk = (disk ?s)\<lparr>d_history := d_history (disk ?s) @
         (case d_active (disk ?s) of Some a \<Rightarrow> seen_entry env (watched ?s) a | None \<Rightarrow> []),
        d_active := map_option (manual_cook env) cook\<rparr>, watched = map_option oc_cook_id cook\<rparr>)"
      by (intro oven_reported_other [OF assms(1)]) (auto simp: j_def local_store_new_def split: if_splits)
    then show ?thesis
      by (simp add: s'_def reported_step Reported report_step_def local_store_new_def del: store_handle.simps)
  qed
  show ?thesis
  proof (cases "cook \<noteq> None \<and> map_option oc_cook_id cook = map_option ac_cook_id j")
    case True
    then obtain a c where a: "j = Some a" "cook = Some c" "ac_cook_id a = oc_cook_id c" by (cases j) auto
    from report_same [OF assms(1), of s a c r] a rec show ?thesis
      by (auto simp: s'_def j_def reported_step Reported store_after_def journal_names_def journal_title_def
        split: option.splits)
  next
    case False
    then have "map_option ac_cook_id j \<noteq> map_option oc_cook_id cook \<or> cook = None" by auto
    from report_other [OF assms(1), of s cook r] this rec show ?thesis
      by (cases j) (auto simp: s'_def j_def reported_step Reported store_after_def split: option.splits)
  qed
qed

lemma moment_after_moment:
  fixes r env h s
  assumes "files_work env" "store_after (r0, env0, h0) title s"
  defines "s' \<equiv> store_step s (r, env, h)"
  shows "store_after (r, env, h) (title_next (disk s) (cook_named h0) title (r, env, h)) s' \<and>
    d_history (disk s') = d_history (disk s) @ map Some
      (if cook_reported h0 \<noteq> None \<and> cook_named h \<noteq> cook_named h0
       then [end_entry title ((r0, env0, cook_reported h0), (r, env, cook_reported h))] else []) \<and>
    d_recipes (disk s') = d_recipes (disk s)"
proof -
  have j: "map_option ac_cook_id (d_active (disk s)) = cook_named h0" "journal_title s = title"
    using assms(2) by (cases h0; auto simp: store_after_def store_follows_def split: option.splits)+
  have "(case d_active (disk s) of
      Some a \<Rightarrow> if cook_named h = Some (ac_cook_id a) then [] else seen_entry env (if r then None else watched s) a
    | None \<Rightarrow> []) = map Some
      (if cook_reported h0 \<noteq> None \<and> cook_named h \<noteq> cook_named h0
       then [end_entry title ((r0, env0, cook_reported h0), (r, env, cook_reported h))] else [])"
    using assms(2) j
    by (cases h0) (auto simp: store_after_def store_follows_def seen_entry_def end_entry_def journal_title_def
      split: option.splits)
  with moment_step [OF assms(1), where s = s and r = r and h = h] show ?thesis unfolding s'_def j by simp
qed

lemma moments_run:
  assumes "\<forall>(_, env, _) \<in> set (m # ms). files_work env" "store_after m title s" "d_recipes d = d_recipes (disk s)"
  shows "d_history (disk (foldl store_step s ms)) = d_history (disk s) @ map Some (recorded d title (m # ms)) \<and>
    map_option ac_cook_id (d_active (disk (foldl store_step s ms))) = cook_named (snd (snd (last (m # ms))))"
  using assms
proof (induction ms arbitrary: m title s)
  case Nil
  obtain r env h where m: "m = (r, env, h)" by (cases m)
  with Nil show ?case by (cases h) (auto simp: store_after_def store_follows_def split: option.splits)
next
  case (Cons m1 ms)
  obtain r0 env0 h0 r env h where m: "m = (r0, env0, h0)" "m1 = (r, env, h)" by (cases m; cases m1)
  have ok: "files_work env" using Cons.prems(1) by (simp add: m)
  note step = moment_after_moment [OF ok Cons.prems(2) [unfolded m(1)], where r = r and h = h]
  have t: "title_next (disk s) (cook_named h0) title (r, env, h) = title_next d (cook_named h0) title (r, env, h)"
    using Cons.prems(3) by (intro title_next_recipes) simp
  have "d_recipes d = d_recipes (disk (store_step s m1))" using step Cons.prems(3) by (simp add: m)
  from Cons.IH [OF _ _ this, where title = "title_next d (cook_named h0) title m1"] step t Cons.prems(1)
  have "d_history (disk (foldl store_step (store_step s m1) ms)) =
        d_history (disk (store_step s m1)) @ map Some (recorded d (title_next d (cook_named h0) title m1) (m1 # ms)) \<and>
      map_option ac_cook_id (d_active (disk (foldl store_step (store_step s m1) ms))) = cook_named (snd (snd (last (m1 # ms))))"
    by (simp add: m del: last.simps)
  with step show ?case by (simp add: m)
qed

text \<open>
  C30: Every cook the oven reports goes to the history exactly once. Take any data directory an earlier
  process left, and after it any sequence of reports of the oven and of starts by the server, with
  restarts of the server anywhere between, in which no operation on the files fails. Then the
  history grows by exactly these entries, in this order: that of a cook the earlier process had seen
  and left in the journal, unless the first happening is about it; and one whenever a cook was
  reported and what comes next is a report without it or the start of another. An entry has the
  title the cook was started with (the manual one if the server did not start it), the stage count
  of the cook's last report, and for its end the time of what came next, or of the last report if
  the server was restarted between the two. The journal names the cook of the last happening.

  Where the journal cannot be removed, a cook is recorded twice (\<open>failed_removal_records_twice\<close> below).
\<close>

theorem every_cook_is_recorded_once:
  assumes "\<forall>(_, env, _) \<in> set (m # ms). io env = (\<lambda>_. None)"
    and "s' = foldl store_step (local_store_new d) (m # ms)"
    and "title = title_next d (map_option ac_cook_id (d_active d))
      (case d_active d of Some a \<Rightarrow> ac_recipe_title a | None \<Rightarrow> MANUAL_TITLE) m"
  shows "d_history (disk s') = d_history d @ map Some (left_behind d m @ recorded d title (m # ms)) \<and>
    map_option ac_cook_id (d_active (disk s')) = cook_named (snd (snd (last (m # ms))))"
proof -
  obtain r env h where m: "m = (r, env, h)" by (cases m)
  let ?s = "local_store_new d"
  have s: "disk ?s = d" "watched ?s = None" by (simp_all add: local_store_new_def)
  have ok: "files_work env" using assms(1) by (simp add: m)
  have l: "(case d_active d of
      Some a \<Rightarrow> if cook_named h = Some (ac_cook_id a) then [] else seen_entry env None a
    | None \<Rightarrow> []) = map Some (left_behind d m)"
    by (auto simp: m seen_entry_def split: option.split)
  note step = moment_step [OF ok, where s = ?s and r = r and h = h, unfolded s if_cancel l]
  have t: "title = title_next d (map_option ac_cook_id (d_active d)) (journal_title ?s) (r, env, h)"
    by (simp add: assms(3) m journal_title_def s)
  have a: "store_after m title (store_step ?s m)" and rec: "d_recipes d = d_recipes (disk (store_step ?s m))"
    using step unfolding t by (simp_all add: m)
  from moments_run [OF assms(1) a rec] step show ?thesis by (simp add: assms(2) m)
qed

section \<open>A started cook keeps its name\<close>

lemma start_journals:
  assumes "files_work env" "s1 = snd (store_handle env (PatchCookRecipeRef cid src ex) s)"
  shows "\<exists>a. d_active (disk s1) = Some a \<and> ac_cook_id a = cid \<and> ac_last_seen_at a = None \<and>
    journal_names s1 = Some (started_title env (disk s) src, started_recipe_id src, whole_seconds_text env, ex)"
  unfolding assms(2)
  by (cases src) (auto simp: journal_start_ok [OF assms(1)] cook_started_def started_title_def
    journal_names_def split_beta Let_def split: option.split)

definition follows_started :: "string \<Rightarrow> LocalStore \<Rightarrow> 'j Report list \<Rightarrow> LocalStore \<Rightarrow> bool" where
  "follows_started cid s1 rs s \<longleftrightarrow>
     (\<exists>a. d_active (disk s) = Some a \<and> ac_cook_id a = cid \<and> (rs = [] \<longrightarrow> ac_last_seen_at a = None)) \<and>
     journal_names s = journal_names s1 \<and> d_history (disk s) = d_history (disk s1) \<and>
     (rs \<noteq> [] \<longrightarrow> store_follows (last rs) s)"

lemma started_run:
  assumes "\<forall>(_, env, cook) \<in> set rs. files_work env \<and> map_option oc_cook_id cook = Some cid"
    and "\<exists>a. d_active (disk s1) = Some a \<and> ac_cook_id a = cid \<and> ac_last_seen_at a = None"
  shows "follows_started cid s1 rs (foldl report_step s1 rs)"
  using assms
proof (induction rs rule: rev_induct)
  case (snoc y rs)
  obtain restarted env cook where y: "y = (restarted, env, cook)" by (cases y)
  obtain c where c: "cook = Some c" "oc_cook_id c = cid" and ok: "files_work env"
    using snoc.prems(1) by (auto simp: y)
  have IH: "follows_started cid s1 rs (foldl report_step s1 rs)" using snoc by auto
  then obtain a where a: "d_active (disk (foldl report_step s1 rs)) = Some a" "ac_cook_id a = cid"
    by (auto simp: follows_started_def)
  from report_same [OF ok a(1), of c restarted] a(2) c IH show ?case
    by (auto simp: follows_started_def y store_follows_def)
qed (simp add: follows_started_def)

text \<open>
  A cook the server starts is shown and recorded under the name it was started with. While the
  oven reports it, over any number of reports and restarts, the current cook has the title of its
  recipe (or the given title), the recipe's id, the time of the start and the notes and end
  setting it was started with; when a report without it comes in, the history gets one entry with
  that title, or none if the oven never reported the cook.
\<close>

theorem started_cook_keeps_its_name:
  assumes "io env = (\<lambda>_. None)" and "s1 = snd (store_handle env (PatchCookRecipeRef cid src ex) s)"
    and "\<forall>(_, env, cook) \<in> set rs. io env = (\<lambda>_. None) \<and> map_option oc_cook_id cook = Some cid"
    and "s2 = foldl report_step s1 rs" and "io now = (\<lambda>_. None)"
  shows "(oc_cook_id c = cid \<longrightarrow> store_handle now (FetchCurrentCook reason (Some c)) s2 =
      ([CurrentCookFetched reason (Inr (Some
          \<lparr>cc_recipe_title = started_title env (disk s) src, cc_recipe_id = started_recipe_id src,
           cc_started_at = whole_seconds_text env, cc_stages = apply_extras ex (oc_stages c),
           cc_cook_stage_count = cook_stage_count (oc_stages c),
           cc_total_stage_count = length (oc_stages c)\<rparr>))], s2)) \<and>
    (map_option oc_cook_id cook \<noteq> Some cid \<longrightarrow>
      d_history (disk (report_step s2 (restarted, now, cook))) = d_history (disk s1) @
        (if rs = [] then []
         else [Some (end_entry (started_title env (disk s) src) (last rs, (restarted, now, cook)))]))"
proof -
  obtain a1 where a1: "d_active (disk s1) = Some a1" "ac_cook_id a1 = cid" "ac_last_seen_at a1 = None"
    and names: "journal_names s1 =
      Some (started_title env (disk s) src, started_recipe_id src, whole_seconds_text env, ex)"
    using start_journals [OF assms(1,2)] by blast
  have f: "follows_started cid s1 rs s2"
    unfolding assms(4) using assms(3) a1 by (intro started_run) auto
  then obtain a where a: "d_active (disk s2) = Some a" "ac_cook_id a = cid" "rs = [] \<Longrightarrow> ac_last_seen_at a = None"
    and h: "d_history (disk s2) = d_history (disk s1)" and js: "journal_names s2 = journal_names s1"
    by (auto simp: follows_started_def)
  have n: "ac_recipe_title a = started_title env (disk s) src" "ac_recipe_id a = started_recipe_id src"
      "ac_started_at a = whole_seconds_text env" "ac_extras a = ex"
    using js [unfolded names] by (simp_all add: journal_names_def a(1))
  have "oc_cook_id c = cid \<Longrightarrow> store_current_cook now (Some c) s2 = (Inr (Some
      \<lparr>cc_recipe_title = ac_recipe_title a, cc_recipe_id = ac_recipe_id a, cc_started_at = ac_started_at a,
       cc_stages = apply_extras (ac_extras a) (oc_stages c),
       cc_cook_stage_count = cook_stage_count (oc_stages c), cc_total_stage_count = length (oc_stages c)\<rparr>), s2)"
    by (simp add: store_current_cook_def read_active_ok [OF assms(5)] a)
  moreover have "d_history (disk (report_step s2 (restarted, now, cook))) = d_history (disk s1) @
      (if rs = [] then []
       else [Some (end_entry (started_title env (disk s) src) (last rs, (restarted, now, cook)))])"
    if ne: "map_option oc_cook_id cook \<noteq> Some cid"
  proof (cases "rs = []")
    case True
    with report_other [OF assms(5), of s2 cook restarted] ne a h show ?thesis
      by (auto simp: seen_entry_def)
  next
    case False
    obtain r0 e0 c0 where l: "last rs = (r0, e0, c0)" by (cases "last rs")
    have c0: "map_option oc_cook_id c0 = Some cid"
      using bspec [OF assms(3) last_in_set [OF False]] by (simp add: l)
    have "store_follows (r0, e0, c0) s2" using f False by (simp add: follows_started_def l)
    from report_after_report [OF assms(5) this, of restarted cook] c0 ne False show ?thesis
      by (auto simp: ends_def h l journal_title_def a n)
  qed
  ultimately show ?thesis by (simp add: n)
qed

section \<open>What only the server knows survives the oven\<close>

text \<open>A stage as the oven gives it back: without a note and without an end setting.\<close>

definition strip_extras :: "Stage \<Rightarrow> Stage" where
  "strip_extras s = s\<lparr>st_prompt := None, st_turn_off_at_end := None\<rparr>"

lemma strip_extras_id [simp]: "st_id (strip_extras s) = st_id s"
  by (simp add: strip_extras_def)

lemma prompt_lookup:
  assumes "distinct (map st_id ss)" "s \<in> set ss" "st_id s = Some i"
  shows "map_of (prompts (extras_from_stages ss)) i = st_prompt s"
proof -
  define note_of where "note_of s = (case (st_id s, st_prompt s) of (Some i, Some p) \<Rightarrow> [(i, p)] | _ \<Rightarrow> [])" for s :: Stage
  have pr: "prompts (extras_from_stages ss) = rev (concat (map note_of ss))"
    by (simp add: extras_from_stages_def note_of_def [abs_def])
  have mem: "(i, p) \<in> set (concat (map note_of ts)) \<longleftrightarrow>
      (\<exists>s \<in> set ts. st_id s = Some i \<and> st_prompt s = Some p)" for i p ts
    by (force simp: note_of_def split: option.splits)
  have dist: "distinct (map fst (concat (map note_of ts)))" if "distinct (map st_id ts)" for ts
    using that
  proof (induction ts)
    case (Cons t ts)
    have "j \<notin> set (map fst (concat (map note_of ts)))" if "st_id t = Some j" for j
      using Cons.prems that mem [of j _ ts] by force
    with Cons show ?case by (cases "st_id t"; cases "st_prompt t") (auto simp: note_of_def)
  qed simp
  show ?thesis
  proof (cases "st_prompt s")
    case (Some p)
    then have "(i, p) \<in> set (rev (concat (map note_of ss)))" using assms(2,3) mem by auto
    then show ?thesis using dist [OF assms(1)] by (simp add: pr Some rev_map [symmetric])
  next
    case None
    have "(i, p) \<notin> set (concat (map note_of ss))" for p
      using assms None mem [of i p ss] by (auto simp: distinct_map inj_on_def)
    then have "map_of (rev (concat (map note_of ss))) i = None"
      by (intro map_of_eq_None_iff [THEN iffD2]) force
    then show ?thesis by (simp only: pr None)
  qed
qed

text \<open>
  The notes and the end setting of a cook, which the oven does not keep, are the same after it
  has reported the stages back: applying the journalled extras to the stripped stages gives the
  stages the cook was started with, as long as their ids are distinct and only the last stage
  turns the oven off. The extras hold nothing else: a stage's rack position, which the oven does not
  report either (\<open>Oven_Stages.stage_round_trip\<close>), is not restored by them, and the lemma is about a
  stage that is otherwise as it was sent.
\<close>

theorem extras_survive_the_oven:
  assumes "distinct (map st_id ss)" and "\<forall>s \<in> set ss. st_id s \<noteq> None"
    and "\<forall>s \<in> set (butlast ss). st_turn_off_at_end s = None"
    and "ss \<noteq> [] \<Longrightarrow> st_turn_off_at_end (last ss) \<in> {None, Some True}"
  shows "apply_extras (extras_from_stages ss) (map strip_extras ss) = ss"
proof (cases "ss = []")
  case False
  let ?ex = "extras_from_stages ss"
  have nt: "Option.bind (st_id s) (map_of (prompts ?ex)) = st_prompt s" if "s \<in> set ss" for s
    using assms(2) that prompt_lookup [OF assms(1) that] by (cases "st_id s") auto
  have "map (\<lambda>s. s\<lparr>st_prompt := Option.bind (st_id s) (map_of (prompts ?ex))\<rparr>)
      (map strip_extras (butlast ss)) = butlast ss"
    using assms(3) nt by (auto simp: strip_extras_def in_set_butlastD intro!: map_idI)
  moreover have "(strip_extras (last ss))\<lparr>st_turn_off_at_end := if turn_off_at_end ?ex then Some True else None,
      st_prompt := Option.bind (st_id (last ss)) (map_of (prompts ?ex))\<rparr> = last ss"
    using assms(4) False nt [OF last_in_set [OF False]]
    by (auto simp: strip_extras_def extras_from_stages_def)
  ultimately show ?thesis
    using False append_butlast_last_id [OF False]
    by (simp add: apply_extras_def map_butlast [symmetric] last_map Let_def)
qed (simp add: apply_extras_def)

section \<open>A removal that fails\<close>

text \<open>
  A cook that ends while its journal can't be removed is recorded a second time when the next report
  comes in: the entry is appended before the removal, and the error leaves the journal in place.
\<close>

lemma failed_removal_records_twice:
  assumes "io env = (\<lambda>op. if op = RemoveActive then Some e else None)" and "io env' = (\<lambda>_. None)"
    and "d_active (disk s) = Some a" and "ac_last_seen_at a \<noteq> None"
    and "s1 = snd (store_handle env (OvenReported None) s)"
    and "s2 = snd (store_handle env' (OvenReported None :: 'j StoreCommand) s1)"
  shows "d_history (disk s2) = d_history (disk s) @ seen_entry env (watched s) a @ seen_entry env' (watched s) a"
proof -
  have "s1 = s\<lparr>disk := (disk s)\<lparr>d_history := d_history (disk s) @ seen_entry env (watched s) a\<rparr>\<rparr>"
    unfolding assms(5) using assms(1,3,4)
    by (auto simp: oven_reported_def read_active_def finish_def append_history_def set_disk_def
        seen_entry_def Let_def)
  with oven_reported_other [OF assms(2), of s1 "None :: 'j OvenCook option"] assms(3) show ?thesis
    unfolding assms(6) store_report by simp
qed

section \<open>Instances\<close>

definition at_second :: "int \<Rightarrow> StoreEnv" where
  "at_second t = demo_env\<lparr>clock_second := t\<rparr>"

definition roast_cook :: "string \<Rightarrow> unit OvenCook" where
  "roast_cook i = \<lparr>oc_cook_id = i, oc_stages = [demo_stage], oc_raw_stages = [], oc_seconds_elapsed = 60\<rparr>"

lemma at_second_io [simp]: "io (at_second t) = (\<lambda>_. None)"
  by (simp add: at_second_def demo_env_def)

definition left_disk :: Disk where
  "left_disk = empty_disk\<lparr>d_active := Some (manual_cook (at_second 50) (roast_cook ''z''))\<rparr>"

definition demo_moments :: "unit Moment list" where
  "demo_moments =
     [(True, at_second 110, Reported (Some (roast_cook ''a''))), (True, at_second 120, Reported (Some (roast_cook ''b''))),
      (False, at_second 125, Began ''c'' (FromManual ''Sunday roast'' 1) \<lparr>turn_off_at_end = False, prompts = []\<rparr>),
      (False, at_second 130, Reported (Some (roast_cook ''c''))), (False, at_second 140, Reported None)]"

theorem every_cook_is_recorded_once_witness:
  "map (map_option (\<lambda>e. (he_recipe_title e, he_ended_at e)))
       (d_history (disk (foldl store_step (local_store_new left_disk)
          ((False, at_second 100, Reported (Some (roast_cook ''a''))) # demo_moments)))) =
     [Some (''[manual]'', ''50''), Some (''[manual]'', ''110''), Some (''[manual]'', ''125''), Some (''Sunday roast'', ''140'')]"
proof -
  let ?m = "(False, at_second 100, Reported (Some (roast_cook ''a''))) :: unit Moment"
  let ?t = "title_next left_disk (map_option ac_cook_id (d_active left_disk))
      (case d_active left_disk of Some a \<Rightarrow> ac_recipe_title a | None \<Rightarrow> MANUAL_TITLE) ?m"
  have ok: "\<forall>(_, env, _) \<in> set (?m # demo_moments). io env = (\<lambda>_. None)" by (simp add: demo_moments_def)
  have "map (\<lambda>e. (he_recipe_title e, he_ended_at e)) (left_behind left_disk ?m @ recorded left_disk ?t (?m # demo_moments)) =
      [(''[manual]'', ''50''), (''[manual]'', ''110''), (''[manual]'', ''125''), (''Sunday roast'', ''140'')]"
    by code_simp
  from arg_cong [OF this, of "map Some"]
  have "map (map_option (\<lambda>e. (he_recipe_title e, he_ended_at e)))
      (map Some (left_behind left_disk ?m @ recorded left_disk ?t (?m # demo_moments))) =
      [Some (''[manual]'', ''50''), Some (''[manual]'', ''110''), Some (''[manual]'', ''125''), Some (''Sunday roast'', ''140'')]"
    by (simp only: map_map comp_def option.map list.map)
  moreover have "d_history left_disk = []" by (simp add: left_disk_def empty_disk_def)
  ultimately show ?thesis
    using every_cook_is_recorded_once [OF ok refl refl] by (simp only: append_Nil)
qed

definition manual_start :: "unit StoreCommand" where
  "manual_start = PatchCookRecipeRef ''a'' (FromManual ''Sunday roast'' 1) \<lparr>turn_off_at_end = True, prompts = []\<rparr>"

end
