(* ===== verification/Http.thy ===== *)
theory Http
  imports Recipe_Files State_Machine_Runs Liveness
begin

text \<open>
  The HTTP handlers (\<open>crates/anova-oven-server/src/processors/http.rs\<close>).

  A handler talks to the state machine's task over a channel, to the recipe files and to the
  progress tracker. The world is what they all keep; a handler takes it and returns it. What the
  other tasks do while a handler waits is the function \<open>meanwhile\<close> of its context, applied before
  each command, and the task may have ended or end with the command unanswered. Parsing a request
  (axum) gives the constructors of \<open>HttpRequest\<close>; \<open>serde_json::to_vec\<close> is the context's \<open>to_json\<close>.
  The metrics page and the web UI's files are left out.
\<close>

section \<open>Requests, responses and the world\<close>

record StartRequest =
  sr_recipe_id :: "string option"
  sr_title :: "string option"
  sr_stages :: "Stage list option"

datatype HttpRequest =
  GET_status | GET_recipes | POST_recipes RecipeDraft
| GET_recipe string | PATCH_recipe string RecipePatch | DELETE_recipe string
| POST_update_recipes | GET_history | POST_stop | POST_start StartRequest | POST_next_stage
| POST_timer u64 | POST_temperature f32 | POST_lamp bool | POST_temperature_unit string
| GET_current_cook | POST_save_current_cook "string option" | GET_health

datatype Json =
  JsStatus OvenStatus | JsRecipes "Recipe list" | JsRecipe Recipe | JsHistory "HistoryEntry list"
| JsCurrentCook CurrentCook bool                \<comment> \<open>the cook, \<open>can_save\<close>\<close>
| JsHealth LivenessSnapshot

record Response =
  rs_status :: nat
  rs_content_type :: string
  rs_content_length :: string
  rs_body :: string

record 'j World =
  w_sm :: "'j SmState option"                   \<comment> \<open>\<open>None\<close>: its task has ended\<close>
  w_disk :: Disk
  w_progress :: "CookProgress option"           \<comment> \<open>what the tracker published\<close>
  w_seeds :: "(string \<times> Stage list) list"       \<comment> \<open>\<open>StartedFromRecipe\<close> messages to the tracker\<close>
  w_liveness :: Liveness
  w_asked :: "(StateMachineCommand \<times> Reply \<times> 'j SmEffect list) list"   \<comment> \<open>commands of this request\<close>

record 'j Ctx =
  local_files :: bool                           \<comment> \<open>\<open>recipe_files.is_some()\<close>\<close>
  sm_env :: "'j Env"
  store_env :: StoreEnv
  file_uuid :: "nat \<Rightarrow> string"
  to_json :: "Json \<Rightarrow> string + string"           \<comment> \<open>the error's text, or the bytes\<close>
  clock_ms :: u64
  meanwhile :: "'j World \<Rightarrow> 'j World"
  drops :: "'j World \<Rightarrow> bool"                    \<comment> \<open>the task ends here, the command unanswered\<close>

section \<open>Responses\<close>

definition build_response :: "nat \<Rightarrow> string \<Rightarrow> string \<Rightarrow> Response" where
  "build_response status content_type body =
     \<lparr>rs_status = status, rs_content_type = content_type,
      rs_content_length = show_nat (length body), rs_body = body\<rparr>"

definition text_response :: "nat \<Rightarrow> string \<Rightarrow> Response" where
  "text_response status message = build_response status ''text/plain; charset=utf-8'' message"

definition json_response :: "'j Ctx \<Rightarrow> nat \<Rightarrow> Json \<Rightarrow> Response" where
  "json_response ctx status v =
     (case to_json ctx v of
        Inr body \<Rightarrow> build_response status ''application/json'' body
      | Inl err \<Rightarrow> text_response 500 (''Failed to serialize JSON response: '' @ err))"

definition empty_response :: "nat \<Rightarrow> Response" where
  "empty_response status = build_response status ''text/plain; charset=utf-8'' []"

definition em_dash :: string where
  "em_dash = [CHR 0xE2, CHR 0x80, CHR 0x94]"

fun map_sm_error :: "SmError \<Rightarrow> Response" where
  "map_sm_error ErrDisconnected = text_response 503
     (''Oven state not yet received '' @ em_dash @ '' WebSocket may still be connecting'')"
| "map_sm_error (ErrRecipeNotFound i) = text_response 404
     (''Recipe with ID '' @ [CHR 0x27] @ i @ [CHR 0x27] @ '' not found'')"
| "map_sm_error ErrNotCooking = text_response 409 ''not cooking''"
| "map_sm_error (ErrConflict e) = text_response 409 e"
| "map_sm_error (ErrUnsupported e) = text_response 501 e"
| "map_sm_error (ErrStore e) = text_response 502 (''store error: '' @ store_error_message e)"
| "map_sm_error (ErrInternal e) = text_response 500 e"

fun recipe_error :: "RecipeError \<Rightarrow> Response" where
  "recipe_error ReNotFound = text_response 404 ''recipe not found''"
| "recipe_error (ReInvalid e) = text_response 422 e"
| "recipe_error (ReStore e) = text_response 500 (''store error: '' @ store_error_message e)"

definition recipes_read_only :: Response where
  "recipes_read_only = text_response 501
     (''recipes come from Anova'' @ [CHR 0x27] @ ''s cloud in cloud mode and can'' @ [CHR 0x27] @ ''t be edited here'')"

section \<open>Talking to the state machine\<close>

datatype Answer = NotRunning | Dropped | Replied Reply

definition not_running :: string where "not_running = ''State machine task not running''"
definition dropped_reply :: string where "dropped_reply = ''State machine dropped reply''"

text \<open>\<open>send_cmd\<close>, then waiting on the reply channel.\<close>

definition ask :: "'j Ctx \<Rightarrow> StateMachineCommand \<Rightarrow> 'j World \<Rightarrow> Answer \<times> 'j World" where
  "ask ctx cmd w =
     (let w = meanwhile ctx w
      in case w_sm w of
           None \<Rightarrow> (NotRunning, w)
         | Some s \<Rightarrow>
             if drops ctx w then (Dropped, w\<lparr>w_sm := None\<rparr>)
             else (case reduce_command (sm_env ctx) cmd s of
                ((reply, effects), s) \<Rightarrow>
                  (Replied reply, w\<lparr>w_sm := Some s, w_asked := w_asked w @ [(cmd, reply, effects)]\<rparr>)))"

text \<open>A handler's answer to the reply, with the three ways of getting none or an error.\<close>

definition answered :: "(Reply \<Rightarrow> Response) \<Rightarrow> Answer \<Rightarrow> Response" where
  "answered ok a =
     (case a of
        NotRunning \<Rightarrow> text_response 500 not_running
      | Dropped \<Rightarrow> text_response 500 dropped_reply
      | Replied reply \<Rightarrow>
          (case reply_error reply of Some e \<Rightarrow> map_sm_error e | None \<Rightarrow> ok reply))"

definition refresh_recipes :: "'j Ctx \<Rightarrow> 'j World \<Rightarrow> 'j World" where
  "refresh_recipes ctx w = snd (ask ctx CmdRefreshRecipes w)"

definition control_route :: "'j Ctx \<Rightarrow> ControlRequest \<Rightarrow> 'j World \<Rightarrow> Response \<times> 'j World" where
  "control_route ctx request w =
     (let (a, w) = ask ctx (Control request) w in (answered (\<lambda>_. empty_response 204) a, w))"

section \<open>Reading\<close>

definition handle_health :: "'j Ctx \<Rightarrow> 'j World \<Rightarrow> Response \<times> 'j World" where
  "handle_health ctx w = (json_response ctx 200 (JsHealth (snapshot (clock_ms ctx) (w_liveness w))), w)"

definition handle_status :: "'j Ctx \<Rightarrow> 'j World \<Rightarrow> Response \<times> 'j World" where
  "handle_status ctx w =
     (let (a, w) = ask ctx GetStatus w
      in (answered (\<lambda>reply. case reply of
            ReplyStatus (Inr status) \<Rightarrow> json_response ctx 200
              (JsStatus (attach_upstream (clock_ms ctx) (w_liveness w) (w_progress w) status))
          | _ \<Rightarrow> text_response 500 dropped_reply) a, w))"

definition recipes_answer :: "'j Ctx \<Rightarrow> Reply \<Rightarrow> Response" where
  "recipes_answer ctx reply =
     (case reply of ReplyRecipes (Inr rs) \<Rightarrow> json_response ctx 200 (JsRecipes rs)
      | _ \<Rightarrow> text_response 500 dropped_reply)"

definition handle_recipes :: "'j Ctx \<Rightarrow> 'j World \<Rightarrow> Response \<times> 'j World" where
  "handle_recipes ctx w =
     (if local_files ctx then
        (case recipe_list (store_env ctx) (w_disk w) of
           Inr rs \<Rightarrow> (json_response ctx 200 (JsRecipes rs), w)
         | Inl e \<Rightarrow> (recipe_error (ReStore e), w))
      else (let (a, w) = ask ctx GetRecipes w in (answered (recipes_answer ctx) a, w)))"

definition handle_get_recipe :: "'j Ctx \<Rightarrow> string \<Rightarrow> 'j World \<Rightarrow> Response \<times> 'j World" where
  "handle_get_recipe ctx i w =
     (if \<not> local_files ctx then (recipes_read_only, w)
      else (case recipe_get (store_env ctx) i (w_disk w) of
              Inr (Some r) \<Rightarrow> json_response ctx 200 (JsRecipe r)
            | Inr None \<Rightarrow> recipe_error ReNotFound
            | Inl e \<Rightarrow> recipe_error (ReStore e), w))"

definition handle_update_recipes :: "'j Ctx \<Rightarrow> 'j World \<Rightarrow> Response \<times> 'j World" where
  "handle_update_recipes ctx w =
     (let (a, w) = ask ctx CmdRefreshRecipes w in (answered (recipes_answer ctx) a, w))"

definition handle_history :: "'j Ctx \<Rightarrow> 'j World \<Rightarrow> Response \<times> 'j World" where
  "handle_history ctx w =
     (let (a, w) = ask ctx GetHistory w
      in (answered (\<lambda>reply. case reply of
            ReplyHistory (Inr hs) \<Rightarrow> json_response ctx 200 (JsHistory hs)
          | _ \<Rightarrow> text_response 500 dropped_reply) a, w))"

section \<open>Writing recipes\<close>

definition handle_create_recipe :: "'j Ctx \<Rightarrow> RecipeDraft \<Rightarrow> 'j World \<Rightarrow> Response \<times> 'j World" where
  "handle_create_recipe ctx draft w =
     (if \<not> local_files ctx then (recipes_read_only, w)
      else case recipe_create (store_env ctx) (file_uuid ctx) 0 draft (w_disk w) of
             (Inr r, d) \<Rightarrow> (json_response ctx 201 (JsRecipe r), refresh_recipes ctx (w\<lparr>w_disk := d\<rparr>))
           | (Inl e, d) \<Rightarrow> (recipe_error e, w\<lparr>w_disk := d\<rparr>))"

definition handle_patch_recipe :: "'j Ctx \<Rightarrow> string \<Rightarrow> RecipePatch \<Rightarrow> 'j World \<Rightarrow> Response \<times> 'j World" where
  "handle_patch_recipe ctx i patch w =
     (if \<not> local_files ctx then (recipes_read_only, w)
      else case recipe_update (store_env ctx) (file_uuid ctx) 0 i patch (w_disk w) of
             (Inr r, d) \<Rightarrow> (json_response ctx 200 (JsRecipe r), refresh_recipes ctx (w\<lparr>w_disk := d\<rparr>))
           | (Inl e, d) \<Rightarrow> (recipe_error e, w\<lparr>w_disk := d\<rparr>))"

definition handle_delete_recipe :: "'j Ctx \<Rightarrow> string \<Rightarrow> 'j World \<Rightarrow> Response \<times> 'j World" where
  "handle_delete_recipe ctx i w =
     (if \<not> local_files ctx then (recipes_read_only, w)
      else case recipe_delete (store_env ctx) i (w_disk w) of
             (Inr _, d) \<Rightarrow> (empty_response 204, refresh_recipes ctx (w\<lparr>w_disk := d\<rparr>))
           | (Inl e, d) \<Rightarrow> (recipe_error e, w\<lparr>w_disk := d\<rparr>))"

section \<open>Controls\<close>

definition handle_stop :: "'j Ctx \<Rightarrow> 'j World \<Rightarrow> Response \<times> 'j World" where
  "handle_stop ctx w =
     (let (a, w) = ask ctx StopCook w in (answered (\<lambda>_. empty_response 204) a, w))"

definition handle_timer :: "'j Ctx \<Rightarrow> u64 \<Rightarrow> 'j World \<Rightarrow> Response \<times> 'j World" where
  "handle_timer ctx secs w =
     (if secs = 0 then (text_response 422 ''seconds must be above 0'', w)
      else control_route ctx (RqTimer secs) w)"

definition handle_temperature :: "'j Ctx \<Rightarrow> f32 \<Rightarrow> 'j World \<Rightarrow> Response \<times> 'j World" where
  "handle_temperature ctx celsius w =
     (if \<not> f32_within 25 250 celsius
      then (text_response 422 (''celsius must be within 25'' @ en_dash @ ''250''), w)
      else control_route ctx (RqTemperature celsius) w)"

definition handle_lamp :: "'j Ctx \<Rightarrow> bool \<Rightarrow> 'j World \<Rightarrow> Response \<times> 'j World" where
  "handle_lamp ctx on w = control_route ctx (RqLamp on) w"

definition handle_next_stage :: "'j Ctx \<Rightarrow> 'j World \<Rightarrow> Response \<times> 'j World" where
  "handle_next_stage ctx w = control_route ctx RqNextStage w"

definition handle_temperature_unit :: "'j Ctx \<Rightarrow> string \<Rightarrow> 'j World \<Rightarrow> Response \<times> 'j World" where
  "handle_temperature_unit ctx unit w =
     (let unit = map to_ascii_uppercase unit
      in if unit \<noteq> ''C'' \<and> unit \<noteq> ''F'' then (text_response 422 ''unit must be C or F'', w)
         else control_route ctx (RqTemperatureUnit unit) w)"

section \<open>Starting a cook\<close>

definition MANUAL_COOK_TITLE :: string where "MANUAL_COOK_TITLE = ''Manual cook''"

definition title_or :: "string option \<Rightarrow> string \<Rightarrow> string" where
  "title_or title other = (case title of Some t \<Rightarrow> if trim t = [] then other else t | None \<Rightarrow> other)"

text \<open>\<open>recipe_progress_seed\<close>: the recipe's title and stages for the tracker, if the recipe is known.\<close>

definition recipe_progress_seed :: "'j Ctx \<Rightarrow> string \<Rightarrow> 'j World \<Rightarrow> (string \<times> Stage list) option \<times> 'j World" where
  "recipe_progress_seed ctx recipe_id w =
     (let (a, w) = ask ctx GetRecipes w
      in (case a of
            Replied (ReplyRecipes (Inr rs)) \<Rightarrow>
              map_option (\<lambda>r. (rc_title r, rewrite_preheat_stage_ids (rc_stages r)))
                (find (\<lambda>r. rc_id r = recipe_id) rs)
          | _ \<Rightarrow> None, w))"

text \<open>The command a start sends, with the seed; or the response that refuses it.\<close>

definition start_command ::
  "'j Ctx \<Rightarrow> StartRequest \<Rightarrow> 'j World \<Rightarrow>
   (Response + StateMachineCommand \<times> (string \<times> Stage list) option) \<times> 'j World" where
  "start_command ctx rq w =
     (case (sr_recipe_id rq, sr_stages rq) of
        (Some recipe_id, _) \<Rightarrow>
          (let (seed, w) = recipe_progress_seed ctx recipe_id w in (Inr (StartCook recipe_id, seed), w))
      | (None, Some stages) \<Rightarrow>
          (case normalize (file_uuid ctx) 0
             \<lparr>rc_id = [], rc_title = title_or (sr_title rq) MANUAL_COOK_TITLE, rc_stage_count = 0,
              rc_stages = stages, rc_source = Own\<rparr> of
             Inl e \<Rightarrow> (Inl (recipe_error e), w)
           | Inr r \<Rightarrow> (Inr (StartManualCook (rc_title r) (rc_stages r),
               Some (rc_title r, rewrite_preheat_stage_ids (rc_stages r))), w))
      | (None, None) \<Rightarrow> (Inl (text_response 422 ''give a recipe_id, or stages for a manual cook''), w))"

definition handle_start :: "'j Ctx \<Rightarrow> StartRequest \<Rightarrow> 'j World \<Rightarrow> Response \<times> 'j World" where
  "handle_start ctx rq w =
     (case start_command ctx rq w of
        (Inl response, w) \<Rightarrow> (response, w)
      | (Inr (cmd, seed), w) \<Rightarrow>
          (let (a, w) = ask ctx cmd w;
               started = (case a of Replied reply \<Rightarrow> reply_error reply = None | _ \<Rightarrow> False);
               w = (case seed of
                      Some s \<Rightarrow> if started then w\<lparr>w_seeds := w_seeds w @ [s]\<rparr> else w | None \<Rightarrow> w)
           in (answered (\<lambda>_. empty_response 204) a, w)))"

section \<open>The current cook\<close>

definition is_saved :: "'j Ctx \<Rightarrow> CurrentCook \<Rightarrow> 'j World \<Rightarrow> bool" where
  "is_saved ctx cook w =
     (case cc_recipe_id cook of
        Some i \<Rightarrow> recipe_get (store_env ctx) i (w_disk w) \<noteq> Inr None
      | None \<Rightarrow> False)"

definition http_current_cook :: "'j Ctx \<Rightarrow> 'j World \<Rightarrow> (SmError + CurrentCook option) \<times> 'j World" where
  "http_current_cook ctx w =
     (let (a, w) = ask ctx GetCurrentCook w
      in (case a of
            NotRunning \<Rightarrow> Inl (ErrInternal not_running)
          | Replied (ReplyCurrentCook r) \<Rightarrow> r
          | _ \<Rightarrow> Inl (ErrInternal dropped_reply), w))"

definition handle_current_cook :: "'j Ctx \<Rightarrow> 'j World \<Rightarrow> Response \<times> 'j World" where
  "handle_current_cook ctx w =
     (case http_current_cook ctx w of
        (Inr (Some cook), w) \<Rightarrow>
          (json_response ctx 200 (JsCurrentCook cook (local_files ctx \<and> \<not> is_saved ctx cook w)), w)
      | (Inr None, w) \<Rightarrow> (empty_response 204, w)
      | (Inl err, w) \<Rightarrow> (map_sm_error err, w))"

definition handle_save_current_cook :: "'j Ctx \<Rightarrow> string option \<Rightarrow> 'j World \<Rightarrow> Response \<times> 'j World" where
  "handle_save_current_cook ctx title w =
     (if \<not> local_files ctx then (recipes_read_only, w)
      else case http_current_cook ctx w of
             (Inl err, w) \<Rightarrow> (map_sm_error err, w)
           | (Inr None, w) \<Rightarrow> (map_sm_error ErrNotCooking, w)
           | (Inr (Some cook), w) \<Rightarrow>
               if is_saved ctx cook w then
                 (text_response 409 (''this cook'' @ [CHR 0x27] @ ''s recipe is already saved''), w)
               else
                 (let draft = \<lparr>dr_title = title_or title (display_name cook),
                        dr_stages = map (\<lambda>s. restore_end_flags (s\<lparr>st_id := None\<rparr>)) (cc_stages cook)\<rparr>
                  in case recipe_create (store_env ctx) (file_uuid ctx) 0 draft (w_disk w) of
                       (Inl e, d) \<Rightarrow> (recipe_error e, w\<lparr>w_disk := d\<rparr>)
                     | (Inr r, d) \<Rightarrow>
                         (let w = refresh_recipes ctx (w\<lparr>w_disk := d\<rparr>);
                              w = snd (ask ctx (LinkCurrentCook (rc_id r) (rc_title r)) w)
                          in (json_response ctx 201 (JsRecipe r), w))))"

section \<open>The router\<close>

fun handle_request :: "'j Ctx \<Rightarrow> HttpRequest \<Rightarrow> 'j World \<Rightarrow> Response \<times> 'j World" where
  "handle_request ctx GET_status w = handle_status ctx w"
| "handle_request ctx GET_recipes w = handle_recipes ctx w"
| "handle_request ctx (POST_recipes draft) w = handle_create_recipe ctx draft w"
| "handle_request ctx (GET_recipe i) w = handle_get_recipe ctx i w"
| "handle_request ctx (PATCH_recipe i patch) w = handle_patch_recipe ctx i patch w"
| "handle_request ctx (DELETE_recipe i) w = handle_delete_recipe ctx i w"
| "handle_request ctx POST_update_recipes w = handle_update_recipes ctx w"
| "handle_request ctx GET_history w = handle_history ctx w"
| "handle_request ctx POST_stop w = handle_stop ctx w"
| "handle_request ctx (POST_start rq) w = handle_start ctx rq w"
| "handle_request ctx POST_next_stage w = handle_next_stage ctx w"
| "handle_request ctx (POST_timer secs) w = handle_timer ctx secs w"
| "handle_request ctx (POST_temperature celsius) w = handle_temperature ctx celsius w"
| "handle_request ctx (POST_lamp on) w = handle_lamp ctx on w"
| "handle_request ctx (POST_temperature_unit unit) w = handle_temperature_unit ctx unit w"
| "handle_request ctx GET_current_cook w = handle_current_cook ctx w"
| "handle_request ctx (POST_save_current_cook title) w = handle_save_current_cook ctx title w"
| "handle_request ctx GET_health w = handle_health ctx w"

section \<open>What a command leaves behind\<close>

definition quiet :: "'j Ctx \<Rightarrow> bool" where
  "quiet ctx \<longleftrightarrow> (\<forall>w. meanwhile ctx w = w) \<and> (\<forall>w. \<not> drops ctx w)"

definition logs_kept :: "'j Ctx \<Rightarrow> bool" where
  "logs_kept ctx \<longleftrightarrow> (\<forall>w. w_asked (meanwhile ctx w) = w_asked w)"

definition json_works :: "'j Ctx \<Rightarrow> bool" where
  "json_works ctx \<longleftrightarrow> (\<forall>v. \<exists>b. to_json ctx v = Inr b)"

text \<open>From one world to the next: what the state machine was asked, and whether it did anything.\<close>

definition asked :: "'j World \<Rightarrow> 'j World \<Rightarrow> (StateMachineCommand \<times> Reply \<times> 'j SmEffect list) list" where
  "asked w w' = drop (length (w_asked w)) (w_asked w')"

definition extends :: "'j World \<Rightarrow> 'j World \<Rightarrow> bool" where
  "extends w w' \<longleftrightarrow> w_asked w' = w_asked w @ asked w w'"

definition harmless :: "'j Ctx \<Rightarrow> 'j World \<Rightarrow> 'j World \<Rightarrow> bool" where
  "harmless ctx w w' \<longleftrightarrow>
     extends w w' \<and> (\<forall>(c, reply, effects) \<in> set (asked w w'). effects = []) \<and>
     (quiet ctx \<longrightarrow> w_sm w' = w_sm w \<and> file_list (w_disk w') = file_list (w_disk w) \<and> w_seeds w' = w_seeds w)"

lemma extends_refl [simp]: "extends w w"
  by (simp add: extends_def asked_def)

lemma extends_trans:
  assumes "extends w w1" "extends w1 w2"
  shows "extends w w2 \<and> asked w w2 = asked w w1 @ asked w1 w2"
proof -
  obtain l1 l2 where "w_asked w1 = w_asked w @ l1" "w_asked w2 = w_asked w1 @ l2"
    using assms unfolding extends_def by blast
  then show ?thesis by (simp add: extends_def asked_def)
qed

lemma harmless_refl [simp]: "harmless ctx w w"
  by (simp add: harmless_def) (simp add: asked_def)

lemma harmless_trans: "harmless ctx w w1 \<Longrightarrow> harmless ctx w1 w2 \<Longrightarrow> harmless ctx w w2"
  using extends_trans [of w w1 w2] by (auto simp: harmless_def)

lemma harmless_disk:
  "file_list d = file_list (w_disk w) \<Longrightarrow> harmless ctx w (w\<lparr>w_disk := d\<rparr>)"
  by (simp add: harmless_def extends_def asked_def)

text \<open>An answer that is not an acceptance comes with no effect; the others are logged.\<close>

definition refused :: "Answer \<Rightarrow> bool" where
  "refused a \<longleftrightarrow> (case a of Replied reply \<Rightarrow> reply_error reply \<noteq> None | _ \<Rightarrow> True)"

fun reads_only :: "StateMachineCommand \<Rightarrow> bool" where
  "reads_only GetStatus = True"
| "reads_only GetCurrentCook = True"
| "reads_only GetRecipes = True"
| "reads_only GetHistory = True"
| "reads_only _ = False"

lemma reads_only_frame: "reads_only c \<Longrightarrow> reduce_command env c s = ((reply, effects), s') \<Longrightarrow> effects = [] \<and> s' = s"
  by (cases c) auto

lemma ask_cases:
  assumes "logs_kept ctx" "ask ctx cmd w = (a, w')"
  obtains "w_asked w' = w_asked w" "a = NotRunning \<or> a = Dropped"
      "quiet ctx \<Longrightarrow> w' = w"
  | s s' reply effects where "a = Replied reply"
      "reduce_command (sm_env ctx) cmd s = ((reply, effects), s')"
      "w_asked w' = w_asked w @ [(cmd, reply, effects)]"
      "quiet ctx \<Longrightarrow> w_sm w = Some s \<and> w' = w\<lparr>w_sm := Some s', w_asked := w_asked w @ [(cmd, reply, effects)]\<rparr>"
proof (cases "w_sm (meanwhile ctx w)")
  case None
  then show ?thesis
    using assms by (intro that(1)) (auto simp: ask_def Let_def logs_kept_def quiet_def)
next
  case (Some s)
  show ?thesis
  proof (cases "drops ctx (meanwhile ctx w)")
    case True
    then show ?thesis
      using assms Some by (intro that(1)) (auto simp: ask_def Let_def logs_kept_def quiet_def)
  next
    case False
    obtain reply effects s' where r: "reduce_command (sm_env ctx) cmd s = ((reply, effects), s')"
      by (metis prod.exhaust)
    show ?thesis
      using assms Some False r by (intro that(2) [OF _ r]) (auto simp: ask_def Let_def logs_kept_def quiet_def)
  qed
qed

lemma ask_extends:
  assumes "logs_kept ctx" "ask ctx cmd w = (a, w')"
  shows "extends w w' \<and> (\<forall>x \<in> set (asked w w'). fst x = cmd)"
  using assms by (rule ask_cases) (auto simp: extends_def asked_def)

lemma ask_harmless:
  assumes "logs_kept ctx" "ask ctx cmd w = (a, w')" "refused a \<or> reads_only cmd"
  shows "harmless ctx w w'"
  using assms(1,2)
proof (rule ask_cases, goal_cases)
  case 1
  then show ?case by (auto simp: harmless_def extends_def asked_def)
next
  case (2 s s' reply effects)
  have "effects = [] \<and> s' = s"
    using assms(3) reads_only_frame [OF _ 2(2)] refused_command [OF 2(2)]
    by (auto simp: refused_def 2(1))
  with 2 show ?case by (auto simp: harmless_def extends_def asked_def)
qed

section \<open>Error responses\<close>

lemma status_simps [simp]:
  "rs_status (text_response n t) = n" "rs_status (empty_response n) = n"
  by (simp_all add: text_response_def empty_response_def build_response_def)

lemma json_status [simp]: "json_works ctx \<Longrightarrow> rs_status (json_response ctx n v) = n"
  by (auto simp: json_works_def json_response_def build_response_def split: sum.split) (metis Inl_Inr_False)

lemma sm_error_status: "400 \<le> rs_status (map_sm_error e)"
  by (cases e) simp_all

lemma recipe_error_status: "400 \<le> rs_status (recipe_error e)"
  by (cases e) simp_all

lemma read_only_status [simp]: "rs_status recipes_read_only = 501"
  by (simp add: recipes_read_only_def)

lemma answered_refused:
  assumes "400 \<le> rs_status (answered ok a)" "\<And>reply. rs_status (ok reply) < 400"
  shows "refused a"
proof (cases a)
  case (Replied reply)
  then show ?thesis
    using assms(1) assms(2) [of reply] by (cases "reply_error reply") (simp_all add: answered_def refused_def)
qed (simp_all add: refused_def)

lemma asked_route:
  assumes "logs_kept ctx" "(let (a, w) = ask ctx cmd w in (answered ok a, w)) = (resp, w')"
    "400 \<le> rs_status resp"
    "reads_only cmd \<or> (\<forall>s. rs_status (ok (fst (fst (reduce_command (sm_env ctx) cmd s)))) < 400)"
  shows "harmless ctx w w'"
proof -
  obtain a w1 where a: "ask ctx cmd w = (a, w1)" by (cases "ask ctx cmd w")
  with assms(2) have r: "resp = answered ok a" "w' = w1" by simp_all
  have "refused a \<or> reads_only cmd"
    using assms(1) a
  proof (rule ask_cases, goal_cases)
    case 1
    then show ?case by (auto simp: refused_def)
  next
    case (2 s s' reply effects)
    then show ?case
      using assms(3,4) r by (auto simp: refused_def answered_def split: option.splits)
        (metis fst_conv leD)
  qed
  with ask_harmless [OF assms(1) a] r show ?thesis by blast
qed

lemma control_harmless:
  "logs_kept ctx \<Longrightarrow> control_route ctx rq w = (resp, w') \<Longrightarrow> 400 \<le> rs_status resp \<Longrightarrow> harmless ctx w w'"
  using asked_route [of ctx "Control rq" w "\<lambda>_. empty_response 204" resp w'] by (simp add: control_route_def)

lemma failed_create:
  "recipe_create env u k draft d = (Inl e, d') \<Longrightarrow> file_list d' = file_list d"
  using failed_request [of "(env, u, PostRecipe draft)" d] 
  by (auto simp: recipe_create_def write_recipe_def open_dir_def file_list_def
        split: sum.splits option.splits prod.splits)

lemma failed_update:
  "recipe_update env u k i patch d = (Inl e, d') \<Longrightarrow> d' = d"
  by (auto simp: recipe_update_def write_recipe_def Let_def split: sum.splits option.splits prod.splits)

lemma failed_delete: "recipe_delete env i d = (Inl e, d') \<Longrightarrow> d' = d"
  by (auto simp: recipe_delete_def split: sum.splits option.splits prod.splits)

lemma current_cook_harmless:
  assumes "logs_kept ctx" "http_current_cook ctx w = (r, w')"
  shows "harmless ctx w w'"
  using assms ask_harmless [OF assms(1), of GetCurrentCook w]
  by (cases "ask ctx GetCurrentCook w") (auto simp: http_current_cook_def Let_def)

lemma start_command_harmless:
  assumes "logs_kept ctx" "start_command ctx rq w = (r, w')"
  shows "harmless ctx w w'"
proof (cases "sr_recipe_id rq")
  case None
  with assms(2) have "w' = w" by (auto simp: start_command_def split: option.splits sum.splits)
  then show ?thesis by simp
next
  case (Some i)
  obtain a w1 where a: "ask ctx GetRecipes w = (a, w1)" by (cases "ask ctx GetRecipes w")
  with assms(2) Some have "w' = w1" by (simp add: start_command_def recipe_progress_seed_def split_beta)
  with ask_harmless [OF assms(1) a] show ?thesis by simp
qed

lemma start_harmless:
  assumes "logs_kept ctx" "handle_start ctx rq w = (resp, w')" "400 \<le> rs_status resp"
  shows "harmless ctx w w'"
proof -
  obtain r w1 where sc: "start_command ctx rq w = (r, w1)" by (cases "start_command ctx rq w")
  have h1: "harmless ctx w w1" by (rule start_command_harmless [OF assms(1) sc])
  show ?thesis
  proof (cases r)
    case (Inl x)
    with assms(2) sc h1 show ?thesis by (simp add: handle_start_def)
  next
    case (Inr y)
    obtain cmd seed where y: "y = (cmd, seed)" by (cases y)
    obtain a w2 where a: "ask ctx cmd w1 = (a, w2)" by (cases "ask ctx cmd w1")
    have resp: "resp = answered (\<lambda>_. empty_response 204) a"
      using assms(2) sc by (simp add: handle_start_def Inr y a Let_def)
    have "refused a" using assms(3) by (intro answered_refused [where ok = "\<lambda>_. empty_response 204"]) (simp_all add: resp)
    then have "w' = w2"
      using assms(2) sc
      by (auto simp: handle_start_def Inr y a Let_def refused_def split: option.splits Answer.splits)
    with harmless_trans [OF h1 ask_harmless [OF assms(1) a]] \<open>refused a\<close> show ?thesis by simp
  qed
qed

lemma save_harmless:
  assumes "logs_kept ctx" "json_works ctx" "handle_save_current_cook ctx title w = (resp, w')"
    "400 \<le> rs_status resp"
  shows "harmless ctx w w'"
proof (cases "local_files ctx")
  case True
  obtain r w1 where c: "http_current_cook ctx w = (r, w1)" by (cases "http_current_cook ctx w")
  have h1: "harmless ctx w w1" by (rule current_cook_harmless [OF assms(1) c])
  have "w' = w1 \<or> (\<exists>d. file_list d = file_list (w_disk w1) \<and> w' = w1\<lparr>w_disk := d\<rparr>)"
    using assms(2-4) True c
    by (auto simp: handle_save_current_cook_def Let_def split: sum.splits option.splits if_splits prod.splits
      dest: failed_create)
  with h1 show ?thesis by (auto intro: harmless_trans harmless_disk)
next
  case False
  with assms(3) show ?thesis by (simp add: handle_save_current_cook_def)
qed

text \<open>
  C24: A request that is answered with an error has changed nothing. Whatever the other tasks do
  while its handler waits, every command it gave the state machine was one that had no effect; and
  if nothing else happened meanwhile, the state machine, the recipe files and the progress tracker
  are as they were before the request.
\<close>

theorem failed_http_request_changes_nothing:
  assumes "logs_kept ctx" and "json_works ctx"
    and "handle_request ctx rq w = (resp, w')" and "400 \<le> rs_status resp"
  shows "(\<forall>(c, reply, effects) \<in> set (asked w w'). effects = []) \<and>
    (quiet ctx \<longrightarrow> w_sm w' = w_sm w \<and> file_list (w_disk w') = file_list (w_disk w) \<and> w_seeds w' = w_seeds w)"
proof -
  have route: "harmless ctx w w'"
    if "(let (a, w) = ask ctx cmd w in (answered ok a, w)) = (resp, w')"
      "reads_only cmd \<or> (\<forall>s. rs_status (ok (fst (fst (reduce_command (sm_env ctx) cmd s)))) < 400)" for cmd ok
    using that assms(1,4) by (intro asked_route)
  have "harmless ctx w w'"
  proof (cases rq)
    case (POST_recipes draft)
    with assms(2-4) show ?thesis
      by (auto simp: handle_create_recipe_def split: if_splits prod.splits sum.splits
        intro!: harmless_disk dest: failed_create)
  next
    case (PATCH_recipe i patch)
    with assms(2-4) show ?thesis
      by (auto simp: handle_patch_recipe_def split: if_splits prod.splits sum.splits dest: failed_update)
  next
    case (DELETE_recipe i)
    with assms(2-4) show ?thesis
      by (auto simp: handle_delete_recipe_def split: if_splits prod.splits sum.splits dest: failed_delete)
  next
    case GET_current_cook
    with assms(1,3) current_cook_harmless [of ctx w] show ?thesis
      by (auto simp: handle_current_cook_def split: prod.splits sum.splits option.splits)
  next
    case (POST_start x)
    with assms start_harmless show ?thesis by auto
  next
    case (POST_save_current_cook title)
    with assms save_harmless show ?thesis by auto
  next
    case POST_update_recipes
    then show ?thesis
      using assms(2,3) by (intro route [of CmdRefreshRecipes "recipes_answer ctx"])
        (auto simp: handle_update_recipes_def recipes_answer_def)
  next
    case GET_recipes
    then show ?thesis
      using assms(3) by (cases "local_files ctx")
        (auto simp: handle_recipes_def split: sum.splits intro!: route [of GetRecipes])
  next
    case (GET_recipe i)
    then show ?thesis using assms(3) by (auto simp: handle_get_recipe_def split: if_splits)
  next
    case GET_status
    then show ?thesis
      using assms(3) ask_harmless [OF assms(1), of GetStatus w]
      by (auto simp: handle_status_def split: prod.splits)
  next
    case GET_history
    then show ?thesis
      using assms(3) ask_harmless [OF assms(1), of GetHistory w]
      by (auto simp: handle_history_def split: prod.splits)
  next
    case POST_stop
    then show ?thesis
      using assms(3) by (intro route [of StopCook "\<lambda>_. empty_response 204"]) (simp_all add: handle_stop_def)
  qed (use assms(1,3,4) control_harmless in \<open>auto simp: handle_timer_def handle_temperature_def
      handle_lamp_def handle_next_stage_def handle_temperature_unit_def handle_health_def Let_def
      split: if_splits\<close>)
  then show ?thesis by (simp add: harmless_def)
qed

section \<open>Only checked commands\<close>

definition asks_valid :: "'j Ctx \<Rightarrow> 'j World \<Rightarrow> 'j World \<Rightarrow> bool" where
  "asks_valid ctx w w' \<longleftrightarrow> extends w w' \<and>
     (\<forall>(cmd, reply, effects) \<in> set (asked w w'). valid_command cmd \<and>
        (\<exists>s s'. reduce_command (sm_env ctx) cmd s = ((reply, effects), s')))"

lemma asks_valid_refl [simp]: "asks_valid ctx w w"
  by (simp add: asks_valid_def) (simp add: asked_def)

lemma asks_valid_trans: "asks_valid ctx w w1 \<Longrightarrow> asks_valid ctx w1 w2 \<Longrightarrow> asks_valid ctx w w2"
  using extends_trans [of w w1 w2] by (auto simp: asks_valid_def)

lemma asks_valid_update [simp]:
  "asks_valid ctx w (w1\<lparr>w_disk := d\<rparr>) = asks_valid ctx w w1"
  "asks_valid ctx (w\<lparr>w_disk := d\<rparr>) w1 = asks_valid ctx w w1"
  "asks_valid ctx w (w1\<lparr>w_seeds := l\<rparr>) = asks_valid ctx w w1"
  by (simp_all add: asks_valid_def extends_def asked_def)

lemma ask_valid:
  assumes "logs_kept ctx" "ask ctx cmd w = (a, w')" "valid_command cmd"
  shows "asks_valid ctx w w'"
  using assms(1,2)
proof (rule ask_cases, goal_cases)
  case 1
  then show ?case by (simp add: asks_valid_def extends_def asked_def)
next
  case (2 s s' reply effects)
  with assms(3) show ?case by (auto simp: asks_valid_def extends_def asked_def)
qed

lemma refresh_valid: "logs_kept ctx \<Longrightarrow> asks_valid ctx w (refresh_recipes ctx w)"
  using ask_valid [of ctx CmdRefreshRecipes w] by (cases "ask ctx CmdRefreshRecipes w") (simp add: refresh_recipes_def)

lemma control_valid:
  "logs_kept ctx \<Longrightarrow> valid_command (Control rq) \<Longrightarrow> control_route ctx rq w = (resp, w') \<Longrightarrow> asks_valid ctx w w'"
  using ask_valid [of ctx "Control rq" w] by (cases "ask ctx (Control rq) w") (auto simp: control_route_def)

lemma current_cook_valid:
  "logs_kept ctx \<Longrightarrow> http_current_cook ctx w = (r, w') \<Longrightarrow> asks_valid ctx w w'"
  using ask_valid [of ctx GetCurrentCook w]
  by (cases "ask ctx GetCurrentCook w") (auto simp: http_current_cook_def Let_def)

lemma normalize_valid:
  "normalize u k r = Inr r' \<Longrightarrow> valid_command (StartManualCook (rc_title r') (rc_stages r'))"
  using normalize_Inr [of u k r r'] by (auto simp: recipe_normal_def)

lemma start_valid:
  assumes "logs_kept ctx" "handle_start ctx rq w = (resp, w')"
  shows "asks_valid ctx w w'"
proof -
  obtain r w1 where sc: "start_command ctx rq w = (r, w1)" by (cases "start_command ctx rq w")
  have h1: "asks_valid ctx w w1"
    using sc ask_valid [OF assms(1), of GetRecipes w]
    by (cases "ask ctx GetRecipes w")
      (auto simp: start_command_def recipe_progress_seed_def Let_def split: option.splits sum.splits)
  show ?thesis
  proof (cases r)
    case (Inl x)
    with assms(2) sc h1 show ?thesis by (simp add: handle_start_def)
  next
    case (Inr y)
    obtain cmd seed where y: "y = (cmd, seed)" by (cases y)
    obtain a w2 where a: "ask ctx cmd w1 = (a, w2)" by (cases "ask ctx cmd w1")
    have "valid_command cmd"
      using sc Inr y by (auto simp: start_command_def recipe_progress_seed_def Let_def split_beta
        simp del: valid_command.simps(4) split: option.splits sum.splits intro: normalize_valid)
    from asks_valid_trans [OF h1 ask_valid [OF assms(1) a this]] show ?thesis
      using assms(2) sc by (auto simp: handle_start_def Inr y a Let_def split: option.splits if_splits)
  qed
qed

lemma created_title: "recipe_create env u k draft d = (Inr r, d') \<Longrightarrow> rc_title r \<noteq> []"
proof -
  assume "recipe_create env u k draft d = (Inr r, d')"
  then obtain r0 where "normalize u (k + 1) r0 = Inr r"
    by (auto simp: recipe_create_def split: sum.splits option.splits prod.splits)
  from normalize_Inr [OF this] show ?thesis unfolding recipe_normal_def by blast
qed

lemma save_valid:
  assumes "logs_kept ctx" "handle_save_current_cook ctx title w = (resp, w')"
  shows "asks_valid ctx w w'"
proof -
  obtain r w1 where c: "http_current_cook ctx w = (r, w1)" by (cases "http_current_cook ctx w")
  have h1: "asks_valid ctx w w1" by (rule current_cook_valid [OF assms(1) c])
  have saved: "asks_valid ctx w (snd (ask ctx (LinkCurrentCook (rc_id r) (rc_title r))
      (refresh_recipes ctx (w1\<lparr>w_disk := d\<rparr>))))" if "rc_title r \<noteq> []" for d r
  proof -
    let ?w2 = "refresh_recipes ctx (w1\<lparr>w_disk := d\<rparr>)"
    have "asks_valid ctx w1 ?w2" using refresh_valid [OF assms(1), of "w1\<lparr>w_disk := d\<rparr>"] by simp
    moreover have "asks_valid ctx ?w2 (snd (ask ctx (LinkCurrentCook (rc_id r) (rc_title r)) ?w2))"
      using that by (intro ask_valid [OF assms(1) surjective_pairing]) simp
    ultimately show ?thesis using h1 asks_valid_trans by blast
  qed
  show ?thesis
    using assms(2) c h1
    by (auto simp: handle_save_current_cook_def Let_def split: sum.splits option.splits if_splits prod.splits
      intro!: saved dest: created_title)
qed

lemma request_valid:
  assumes "logs_kept ctx" "handle_request ctx rq w = (resp, w')"
  shows "asks_valid ctx w w'"
proof -
  have wr: "asks_valid ctx w (refresh_recipes ctx (w\<lparr>w_disk := d\<rparr>))" for d
    using refresh_valid [OF assms(1), of "w\<lparr>w_disk := d\<rparr>"] by simp
  have one: "asks_valid ctx w w1" if "ask ctx cmd w = (a, w1)" "valid_command cmd" for cmd a w1
    using ask_valid [OF assms(1) that] .
  have ctl: "asks_valid ctx w w'" if "control_route ctx c w = (resp, w')" "valid_command (Control c)" for c
    using control_valid [OF assms(1) that(2,1)] .
  show ?thesis
  proof (cases rq)
    case (POST_start x)
    with assms start_valid show ?thesis by auto
  next
    case (POST_save_current_cook title)
    with assms save_valid show ?thesis by auto
  next
    case GET_current_cook
    with assms current_cook_valid [of ctx w] show ?thesis
      by (auto simp: handle_current_cook_def split: prod.splits sum.splits option.splits)
  next
    case (POST_recipes draft)
    with assms(2) show ?thesis
      by (auto simp: handle_create_recipe_def wr split: if_splits prod.splits sum.splits)
  next
    case (PATCH_recipe i patch)
    with assms(2) show ?thesis
      by (auto simp: handle_patch_recipe_def wr split: if_splits prod.splits sum.splits)
  next
    case (DELETE_recipe i)
    with assms(2) show ?thesis
      by (auto simp: handle_delete_recipe_def wr split: if_splits prod.splits sum.splits)
  qed (use assms(2) in \<open>auto simp: handle_status_def handle_recipes_def
      handle_get_recipe_def handle_update_recipes_def handle_history_def handle_stop_def handle_timer_def
      handle_temperature_def handle_lamp_def handle_next_stage_def handle_temperature_unit_def
      handle_health_def Let_def dest: one ctl split: if_splits prod.splits sum.splits\<close>)
qed

lemma stage_allowed_erase [simp]: "stage_allowed l (erase_id s) = stage_allowed l s"
  by (simp add: erase_id_def)

lemma erased_allowed: "map erase_id ss = map erase_id ts \<Longrightarrow> all_allowed ss \<longleftrightarrow> all_allowed ts"
proof -
  assume e: "map erase_id ss = map erase_id ts"
  then have l: "length ss = length ts" by (metis length_map)
  have "erase_id (ss ! i) = erase_id (ts ! i)" if "i < length ts" for i
    using e l that by (metis nth_map)
  then have "stage_allowed b (ss ! i) = stage_allowed b (ts ! i)" if "i < length ts" for i b
    using that by (metis stage_allowed_erase)
  then show ?thesis by (simp add: all_allowed_def l)
qed


text \<open>The stages a manual start puts on the wire.\<close>

lemma manual_start_sends:
  assumes "reduce_command env (StartManualCook title stages) s = ((reply, effects), s')"
    "FxWs (SendStart rid cid i sent) \<in> set effects"
  shows "map erase_id sent = map erase_id stages"
proof -
  have con: "cooker_id (connectivity s) \<noteq> None"
    using assms by (auto simp: start_manual_cook_def reply_unit_def split: if_splits)
  obtain u s0 where u: "new_v4 env s = (u, s0)" by (cases "new_v4 env s")
  define r0 where "r0 = \<lparr>rc_id = ''manual-'' @ filter (\<lambda>c. c \<noteq> CHR ''-'') u, rc_title = title,
    rc_stage_count = length (filter (\<lambda>st. st_kind st \<noteq> ''preheat'') stages), rc_stages = stages, rc_source = Own\<rparr>"
  let ?from = "FromManual title (length (filter (\<lambda>st. st_kind st \<noteq> ''preheat'') stages))"
  have "start_manual_cook env title stages s = start env r0 ?from s0"
    by (simp only: start_manual_cook_def u Let_def r0_def prod.case con if_False)
  then obtain r where st: "start env r0 ?from s0 = ((r, effects), s')" "rc_stages r0 = stages"
    using assms(1) by (cases "start env r0 ?from s0") (auto simp: reply_unit_def r0_def)
  from start_effects [OF st(1)] assms(2) have
    "sent = fst (normalize_ids env s0 (rewrite_preheat_stage_ids stages))"
    unfolding st(2) by auto
  then show ?thesis using erase_sent [of env s0 stages] by simp
qed

text \<open>
  C25: Every command a request gives the state machine has passed its route's checks, whatever the
  other tasks do meanwhile: a timer is above zero, a temperature within 25 and 250, a unit is C or
  F, and a manual cook has a title and stages in the normal form of a stored recipe. What a manual
  start then sends the oven are stages the oven can run, the request's with only their ids changed.
\<close>

theorem http_sends_checked_commands:
  assumes "logs_kept ctx" and "handle_request ctx rq w = (resp, w')"
    and "(cmd, reply, effects) \<in> set (asked w w')"
  shows "valid_command cmd \<and>
    (\<forall>title stages rid cid i sent. cmd = StartManualCook title stages \<and>
       FxWs (SendStart rid cid i sent) \<in> set effects \<longrightarrow>
       all_allowed sent \<and> map erase_id sent = map erase_id stages)"
proof -
  from request_valid [OF assms(1,2)] assms(3) obtain s s' where v: "valid_command cmd"
    and red: "reduce_command (sm_env ctx) cmd s = ((reply, effects), s')"
    by (auto simp: asks_valid_def)
  have "all_allowed sent \<and> map erase_id sent = map erase_id stages"
    if c: "cmd = StartManualCook title stages" and m: "FxWs (SendStart rid cid i sent) \<in> set effects"
    for title stages rid cid i sent
  proof -
    have e: "map erase_id sent = map erase_id stages" by (rule manual_start_sends [OF red [unfolded c] m])
    have "all_allowed stages" using v by (auto simp: c recipe_normal_def all_allowed_def stage_normal_def)
    with erased_allowed [OF e] e show ?thesis by simp
  qed
  with v show ?thesis by blast
qed

section \<open>Saving the current cook\<close>

lemma quiet_ask:
  "quiet ctx \<Longrightarrow> ask ctx cmd w =
     (case w_sm w of
        None \<Rightarrow> (NotRunning, w)
      | Some s \<Rightarrow> (case reduce_command (sm_env ctx) cmd s of
          ((reply, effects), s) \<Rightarrow>
            (Replied reply, w\<lparr>w_sm := Some s, w_asked := w_asked w @ [(cmd, reply, effects)]\<rparr>)))"
  by (simp add: ask_def quiet_def Let_def split: option.split)

lemma quiet_current_cook:
  assumes "quiet ctx" "w_sm w = Some s"
  shows "http_current_cook ctx w = (Inr (sm_current_cook s),
    w\<lparr>w_asked := w_asked w @ [(GetCurrentCook, ReplyCurrentCook (Inr (sm_current_cook s)), [])]\<rparr>)"
  using assms by (simp add: http_current_cook_def quiet_ask)

text \<open>
  After a request to save the current cook is answered with 201, the cook in the state machine is
  the new recipe's: it has the recipe's id and title, the recipe is in the files and one the oven
  can run, the cook is no longer offered for saving, and saving it again is refused as a conflict
  (with nothing else happening meanwhile, and the recipe files readable).
\<close>

theorem saved_cook_is_the_recipes:
  assumes "quiet ctx" and "files_ok (w_disk w)" and "io (store_env ctx) ReadRecipeDir = None"
    and "fresh_request (store_env ctx, file_uuid ctx, PostRecipe draft) (w_disk w)"
    and "handle_request ctx (POST_save_current_cook title) w = (resp, w')" and "rs_status resp = 201"
  shows "\<exists>s cook r. w_sm w' = Some s \<and> sm_current_cook s = Some cook \<and>
    cc_recipe_id cook = Some (rc_id r) \<and> cc_recipe_title cook = rc_title r \<and>
    recipe_get (store_env ctx) (rc_id r) (w_disk w') = Inr (Some r) \<and> recipe_normal r \<and>
    fst (handle_request ctx GET_current_cook w') = json_response ctx 200 (JsCurrentCook cook False) \<and>
    rs_status (fst (handle_request ctx (POST_save_current_cook again) w')) = 409"
proof -
  have lf: "local_files ctx"
    using assms(5,6) by (auto simp: handle_save_current_cook_def split: if_splits)
  obtain s where s: "w_sm w = Some s"
    using assms(5,6) lf sm_error_status
    by (cases "w_sm w") (auto simp: handle_save_current_cook_def http_current_cook_def quiet_ask [OF assms(1)])
  define w1 where "w1 = w\<lparr>w_asked := w_asked w @ [(GetCurrentCook, ReplyCurrentCook (Inr (sm_current_cook s)), [])]\<rparr>"
  have cc: "http_current_cook ctx w = (Inr (sm_current_cook s), w1)"
    unfolding w1_def by (rule quiet_current_cook [OF assms(1) s])
  obtain cook where cook: "sm_current_cook s = Some cook"
    using assms(5,6) lf by (cases "sm_current_cook s") (auto simp: handle_save_current_cook_def cc)
  obtain r d dr where cr: "recipe_create (store_env ctx) (file_uuid ctx) 0 dr (w_disk w) = (Inr r, d)"
    and w': "w' = snd (ask ctx (LinkCurrentCook (rc_id r) (rc_title r)) (refresh_recipes ctx (w1\<lparr>w_disk := d\<rparr>)))"
  proof -
    have ns: "\<not> is_saved ctx cook w1"
      using assms(5,6) lf by (auto simp: handle_save_current_cook_def cc cook)
    define dr where "dr = \<lparr>dr_title = title_or title (display_name cook),
      dr_stages = map (\<lambda>s. restore_end_flags (s\<lparr>st_id := None\<rparr>)) (cc_stages cook)\<rparr>"
    obtain y d where y: "recipe_create (store_env ctx) (file_uuid ctx) 0 dr (w_disk w) = (y, d)"
      by (cases "recipe_create (store_env ctx) (file_uuid ctx) 0 dr (w_disk w)")
    then have y1: "recipe_create (store_env ctx) (file_uuid ctx) 0 dr (w_disk w1) = (y, d)" by (simp add: w1_def)
    have "rs_status (recipe_error e) \<noteq> 201" for e by (cases e) simp_all
    then obtain r where "y = Inr r"
      using assms(5,6) lf y1 by (cases y) (auto simp: handle_save_current_cook_def cc cook ns dr_def)
    with that y assms(5) lf y1 show thesis
      by (simp add: handle_save_current_cook_def cc cook ns dr_def Let_def)
  qed
  define cook' where "cook' = cook\<lparr>cc_recipe_id := Some (rc_id r), cc_recipe_title := rc_title r\<rparr>"
  define s' where "s' = s\<lparr>sm_current_cook := Some cook'\<rparr>"
  have sm: "w_sm w' = Some s'" and disk: "w_disk w' = d"
    unfolding w' refresh_recipes_def
    by (simp_all add: quiet_ask [OF assms(1)] w1_def s link_current_cook_def cook reply_unit_def s'_def cook'_def)
  have new: "recipe_map (w_disk w) (simple_uuid (file_uuid ctx 0)) = None"
    "recipe_file_name (simple_uuid (file_uuid ctx 0)) \<notin> set (map fst (file_list (w_disk w)))"
    using assms(4) by simp_all
  from create_contents [OF assms(2) cr new] have d: "files_ok d" "recipe_map d (rc_id r) = Some r" by simp_all
  have get: "recipe_get (store_env ctx) (rc_id r) d = Inr (Some r)"
    by (simp add: recipe_get_ok [OF assms(3)] d)
  have "recipe_normal r"
    using d by (auto simp: recipe_map_eq files_ok_iff dest!: map_of_SomeD)
  moreover have "sm_current_cook s' = Some cook'" "cc_recipe_id cook' = Some (rc_id r)"
    "cc_recipe_title cook' = rc_title r" by (simp_all add: s'_def cook'_def)
  ultimately show ?thesis
    using sm get
    by (intro exI [of _ s'] exI [of _ cook'] exI [of _ r]) (simp add: disk handle_current_cook_def handle_save_current_cook_def lf is_saved_def
      quiet_current_cook [OF assms(1) sm])
qed

section \<open>Instances\<close>

definition demo_ctx :: "string Ctx" where
  "demo_ctx = \<lparr>local_files = True, sm_env = State_Machine_Runs.demo_env 0, store_env = Recipe_Files.demo_env,
     file_uuid = (\<lambda>n. ''f-'' @ show_nat n), to_json = (\<lambda>_. Inr ''{}''), clock_ms = 5,
     meanwhile = (\<lambda>w. w), drops = (\<lambda>_. False)\<rparr>"

definition demo_world :: "string SmState \<Rightarrow> string World" where
  "demo_world s = \<lparr>w_sm = Some s, w_disk = empty_disk, w_progress = None, w_seeds = [],
     w_liveness = liveness_new 1 60, w_asked = []\<rparr>"

definition sm_manual :: "string SmState" where
  "sm_manual = sm_cooking\<lparr>sm_current_cook := Some \<lparr>cc_recipe_title = ''[manual]'', cc_recipe_id = None,
     cc_started_at = ''local'', cc_stages = [demo_stage], cc_cook_stage_count = 1, cc_total_stage_count = 1\<rparr>\<rparr>"

definition manual_start :: HttpRequest where
  "manual_start = POST_start \<lparr>sr_recipe_id = None, sr_title = Some '' '', sr_stages = Some [demo_stage]\<rparr>"

lemma demo_ctx_ok: "quiet demo_ctx" "logs_kept demo_ctx" "json_works demo_ctx"
  by (simp_all add: quiet_def logs_kept_def json_works_def demo_ctx_def)

theorem failed_http_request_changes_nothing_witness:
  "rs_status (fst (handle_request demo_ctx POST_stop (demo_world sm_connected))) = 409 \<and>
   w_sm (snd (handle_request demo_ctx POST_stop (demo_world sm_connected))) = Some sm_connected"
proof -
  obtain resp w' where run: "handle_request demo_ctx POST_stop (demo_world sm_connected) = (resp, w')"
    by (metis prod.exhaust)
  have "rs_status (fst (handle_request demo_ctx POST_stop (demo_world sm_connected))) = 409" by code_simp
  then have st: "rs_status resp = 409" unfolding run fst_conv .
  then have "400 \<le> rs_status resp" by simp
  from failed_http_request_changes_nothing [OF demo_ctx_ok(2,3) run this] demo_ctx_ok(1) st show ?thesis
    unfolding run by (simp add: demo_world_def)
qed

theorem http_sends_checked_commands_witness:
  "\<exists>stages reply effects rid cid i sent.
     (StartManualCook ''Manual cook'' stages, reply, effects) \<in>
       set (w_asked (snd (handle_request demo_ctx manual_start (demo_world sm_connected)))) \<and>
     FxWs (SendStart rid cid i sent) \<in> set effects \<and> map erase_id sent = map erase_id stages"
proof -
  obtain resp w' where run: "handle_request demo_ctx manual_start (demo_world sm_connected) = (resp, w')"
    by (metis prod.exhaust)
  let ?w = "snd (handle_request demo_ctx manual_start (demo_world sm_connected))"
  have c: "case fst (hd (w_asked ?w)) of StartManualCook title stages \<Rightarrow> title = ''Manual cook'' | _ \<Rightarrow> False"
    and e: "case hd (snd (snd (hd (w_asked ?w)))) of FxWs x \<Rightarrow> (case x of SendStart _ _ _ _ \<Rightarrow> True | _ \<Rightarrow> False) | _ \<Rightarrow> False"
    and ne: "w_asked ?w \<noteq> []" "snd (snd (hd (w_asked ?w))) \<noteq> []"
    by code_simp+
  obtain cmd reply fx rest where l: "w_asked w' = (cmd, reply, fx) # rest"
    using ne(1) unfolding run snd_conv by (metis list.exhaust prod.exhaust)
  from c obtain stages where cmd: "cmd = StartManualCook ''Manual cook'' stages"
    unfolding run snd_conv l by (cases cmd) simp_all
  from ne(2) obtain f effects where fx: "fx = f # effects"
    unfolding run snd_conv l by (cases fx) simp_all
  from e obtain x where f: "f = FxWs x" "case x of SendStart _ _ _ _ \<Rightarrow> True | _ \<Rightarrow> False"
    unfolding run snd_conv l fx by (cases f) simp_all
  then obtain rid cid i sent where x: "x = SendStart rid cid i sent" by (cases x) simp_all
  note a = l [unfolded cmd fx f(1) x]
  from a have "(StartManualCook ''Manual cook'' stages, reply, FxWs (SendStart rid cid i sent) # effects) \<in>
      set (asked (demo_world sm_connected) w')"
    by (simp add: asked_def demo_world_def)
  from http_sends_checked_commands [OF demo_ctx_ok(2) run this]
  have "map erase_id sent = map erase_id stages"
    by (elim conjE allE [of _ "''Manual cook''"] allE [of _ stages] allE [of _ rid] allE [of _ cid]
      allE [of _ i] allE [of _ sent] impE) simp_all
  moreover have "(StartManualCook ''Manual cook'' stages, reply, FxWs (SendStart rid cid i sent) # effects) \<in>
      set (w_asked w')"
    by (simp add: a)
  moreover have "FxWs (SendStart rid cid i sent) \<in> set (FxWs (SendStart rid cid i sent) # effects)" by simp
  ultimately show ?thesis unfolding run snd_conv by blast
qed

end
