(* ===== verification/F64.thy ===== *)
theory F64
  imports F32 Text
begin

text \<open>
  The code's \<open>f64\<close>, reading a float from text and the conversions between the float types and the
  integers. An \<open>f64\<close> has the shape of an \<open>f32\<close> (a NaN, an infinity or \<open>(-1)^s * m * 2^e\<close>), and the
  comparisons are the same; it is rounded to 53 significant bits. Text is read as \<open>str::parse\<close> does:
  the exact decimal value, rounded once.
\<close>

type_synonym f64 = f32

section \<open>Rounding\<close>

definition f64_round :: "bool \<Rightarrow> nat \<Rightarrow> int \<Rightarrow> f64" where
  "f64_round s a e =
     (let d = max (int (nat_bits a) - 53) (-1074 - e);
          m = (if d \<le> 0 then a else round_shift a (nat d));
          f = (if d \<le> 0 then e else e + d)
      in if m = 0 then F_Fin s 0 0
         else if 1024 < f + int (nat_bits m) then F_Inf s
         else F_Fin s m f)"

text \<open>\<open>as f32\<close> on an \<open>f64\<close>, and \<open>f64::from\<close> on an integer of 32 bits.\<close>

fun f64_to_f32 :: "f64 \<Rightarrow> f32" where
  "f64_to_f32 (F_Fin s m e) = f32_round s m e"
| "f64_to_f32 x = x"

definition f64_of_nat :: "nat \<Rightarrow> f64" where
  "f64_of_nat n = F_Fin False n 0"

text \<open>Multiplication and addition of finite values, all the code needs of them.\<close>

fun f64_mul :: "f64 \<Rightarrow> f64 \<Rightarrow> f64" where
  "f64_mul (F_Fin s m e) (F_Fin t n f) =
     (if m * n = 0 then F_Fin (s \<noteq> t) 0 0 else f64_round (s \<noteq> t) (m * n) (e + f))"
| "f64_mul _ _ = F_NaN"

fun f64_add :: "f64 \<Rightarrow> f64 \<Rightarrow> f64" where
  "f64_add (F_Fin s m e) (F_Fin t n f) =
     (let e0 = min e f; x = align (signed s m) e e0 + align (signed t n) f e0
      in if x = 0 then F_Fin (s \<and> t) 0 0 else f64_round (x < 0) (nat \<bar>x\<bar>) e0)"
| "f64_add _ _ = F_NaN"

text \<open>The literal 1.8: the nearest \<open>f64\<close>.\<close>

definition f64_1_8 :: f64 where
  "f64_1_8 = F_Fin False 8106479329266893 (-52)"

text \<open>\<open>round\<close> (halves away from zero), \<open>ceil\<close> and \<open>floor\<close>.\<close>

fun f64_nearest :: "f64 \<Rightarrow> f64" where
  "f64_nearest (F_Fin s m e) =
     (if 0 \<le> e then F_Fin s m e
      else F_Fin s ((2 * m + 2 ^ nat (- e)) div 2 ^ (nat (- e) + 1)) 0)"
| "f64_nearest x = x"

definition toward_zero :: "nat \<Rightarrow> int \<Rightarrow> nat" where
  "toward_zero m e = (if 0 \<le> e then m * 2 ^ nat e else m div 2 ^ nat (- e))"

definition away_from_zero :: "nat \<Rightarrow> int \<Rightarrow> nat" where
  "away_from_zero m e = (if 0 \<le> e then m * 2 ^ nat e else (m + 2 ^ nat (- e) - 1) div 2 ^ nat (- e))"

fun f64_ceil :: "f64 \<Rightarrow> f64" where
  "f64_ceil (F_Fin s m e) = F_Fin s (if s then toward_zero m e else away_from_zero m e) 0"
| "f64_ceil x = x"

fun f64_floor :: "f64 \<Rightarrow> f64" where
  "f64_floor (F_Fin s m e) = F_Fin s (if s then away_from_zero m e else toward_zero m e) 0"
| "f64_floor x = x"

text \<open>\<open>as u32\<close> and \<open>as u64\<close>: towards zero, saturating, a NaN gives 0.\<close>

fun float_to_word :: "f64 \<Rightarrow> 'a::len word" where
  "float_to_word F_NaN = 0"
| "float_to_word (F_Inf s) = (if s then 0 else - 1)"
| "float_to_word (F_Fin s m e) =
     (if s then 0 else of_nat (min (toward_zero m e) (2 ^ LENGTH('a) - 1)))"

section \<open>Reading a float\<close>

definition is_digit :: "char \<Rightarrow> bool" where
  "is_digit c \<longleftrightarrow> 48 \<le> (of_char c :: nat) \<and> (of_char c :: nat) \<le> 57"

fun split_sign :: "string \<Rightarrow> bool \<times> string" where
  "split_sign [] = (False, [])"
| "split_sign (c # cs) =
     (if c = CHR ''-'' then (True, cs) else if c = CHR ''+'' then (False, cs) else (False, c # cs))"

text \<open>What follows the digits: nothing, or an exponent.\<close>

fun read_exponent :: "string \<Rightarrow> int option" where
  "read_exponent [] = Some 0"
| "read_exponent (c # cs) =
     (if c = CHR ''e'' \<or> c = CHR ''E'' then
        (case split_sign cs of (neg, ds) \<Rightarrow>
           if ds \<noteq> [] \<and> list_all is_digit ds
           then Some (if neg then - int (read_nat_acc 0 ds) else int (read_nat_acc 0 ds)) else None)
      else None)"

text \<open>The digits as a mantissa and a power of ten.\<close>

definition read_decimal :: "string \<Rightarrow> (nat \<times> int) option" where
  "read_decimal s =
     (let ip = takeWhile is_digit s; r = dropWhile is_digit s;
          (fp, r) = (case r of
            c # cs \<Rightarrow> if c = CHR ''.'' then (takeWhile is_digit cs, dropWhile is_digit cs) else ([], r)
          | [] \<Rightarrow> ([], r))
      in if ip = [] \<and> fp = [] then None
         else map_option (\<lambda>x. (read_nat_acc 0 (ip @ fp), x - int (length fp))) (read_exponent r))"

text \<open>
  The nearest value to \<open>n * 10^x\<close>. With a negative power the quotient is cut to more bits than the
  precision, its last bit set if anything was cut off, so that rounding it rounds the exact value.
\<close>

definition round_decimal :: "(bool \<Rightarrow> nat \<Rightarrow> int \<Rightarrow> f32) \<Rightarrow> bool \<Rightarrow> nat \<Rightarrow> int \<Rightarrow> f32" where
  "round_decimal rnd s n x =
     (if 0 \<le> x then rnd s (n * 10 ^ nat x) 0
      else
        (let k = nat (- x); sh = 4 * k + 64; a = n * 2 ^ sh
         in rnd s (2 * (a div 10 ^ k) + (if a mod 10 ^ k = 0 then 0 else 1)) (- int sh - 1)))"

definition parse_float :: "(bool \<Rightarrow> nat \<Rightarrow> int \<Rightarrow> f32) \<Rightarrow> string \<Rightarrow> f32 option" where
  "parse_float rnd s =
     (case split_sign s of (neg, body) \<Rightarrow>
        if eq_ignore_ascii_case body ''inf'' \<or> eq_ignore_ascii_case body ''infinity'' then Some (F_Inf neg)
        else if eq_ignore_ascii_case body ''nan'' then Some F_NaN
        else map_option (\<lambda>(n, x). round_decimal rnd neg n x) (read_decimal body))"

definition parse_f64 :: "string \<Rightarrow> f64 option" where
  "parse_f64 = parse_float f64_round"

definition parse_f32 :: "string \<Rightarrow> f32 option" where
  "parse_f32 = parse_float f32_round"

lemma parse_examples:
  "parse_f64 ''-1e2'' = Some (F_Fin True 100 0)" "parse_f64 ''.'' = None" "parse_f64 ''1e'' = None"
  "parse_f64 ''+Infinity'' = Some (F_Inf False)" "parse_f64 '''' = None" "parse_f64 ''180'' = Some (F_Fin False 180 0)"
  by code_simp+

section \<open>Bounds survive rounding\<close>

lemma nat_bits_le: "a < 2 ^ k \<Longrightarrow> nat_bits a \<le> k"
proof (induction a arbitrary: k rule: nat_bits.induct)
  case (1 n)
  show ?case
  proof (cases "n = 0")
    case False
    then obtain j where k: "k = Suc j" using "1.prems" by (cases k) auto
    with "1.prems" have "n div 2 < 2 ^ j" by (simp add: less_mult_imp_div_less)
    with "1.IH" [OF False] k False show ?thesis by (subst nat_bits.simps) simp
  qed (simp add: nat_bits.simps)
qed

lemma nat_bits_upper: "a < 2 ^ nat_bits a"
proof (induction a rule: nat_bits.induct)
  case (1 n)
  show ?case
  proof (cases "n = 0")
    case False
    with "1.IH" have "n div 2 < 2 ^ nat_bits (n div 2)" by simp
    then have "n < 2 ^ Suc (nat_bits (n div 2))" by simp
    with False show ?thesis by (subst nat_bits.simps) simp
  qed simp
qed

lemma nat_bits_lower: "a \<noteq> 0 \<Longrightarrow> 2 ^ (nat_bits a - 1) \<le> a"
proof (induction a rule: nat_bits.induct)
  case (1 n)
  show ?case
  proof (cases "n div 2 = 0")
    case True
    with "1.prems" have "n = 1" by linarith
    then show ?thesis by (simp add: nat_bits.simps)
  next
    case False
    with "1.prems" "1.IH" have "2 ^ (nat_bits (n div 2) - 1) \<le> n div 2" by blast
    moreover have "nat_bits (n div 2) \<noteq> 0" using False by (subst nat_bits.simps) simp
    ultimately have "2 ^ nat_bits (n div 2) \<le> 2 * (n div 2)"
      by (cases "nat_bits (n div 2)") simp_all
    with "1.prems" show ?thesis by (subst nat_bits.simps) simp
  qed
qed

lemma round_shift_ge: "c * 2 ^ d \<le> a \<Longrightarrow> c \<le> round_shift a d"
proof -
  assume "c * 2 ^ d \<le> a"
  then have "c \<le> a div 2 ^ d" by (simp add: less_eq_div_iff_mult_less_eq)
  then show ?thesis by (simp add: round_shift_def Let_def)
qed

lemma round_shift_le: "a \<le> c * 2 ^ d \<Longrightarrow> round_shift a d \<le> c"
proof -
  assume a: "a \<le> c * 2 ^ d"
  show ?thesis
  proof (cases "a = c * 2 ^ d")
    case False
    with a have "a div 2 ^ d < c" by (simp add: div_less_iff_less_mult)
    then show ?thesis by (simp add: round_shift_def Let_def)
  qed (simp add: round_shift_def)
qed

text \<open>Both roundings are instances of one.\<close>

definition fp_round :: "nat \<Rightarrow> int \<Rightarrow> int \<Rightarrow> bool \<Rightarrow> nat \<Rightarrow> int \<Rightarrow> f32" where
  "fp_round p emin emax s a e =
     (let d = max (int (nat_bits a) - int p) (emin - e);
          m = (if d \<le> 0 then a else round_shift a (nat d));
          f = (if d \<le> 0 then e else e + d)
      in if m = 0 then F_Fin s 0 0 else if emax < f + int (nat_bits m) then F_Inf s else F_Fin s m f)"

lemma round_fp: "f32_round = fp_round 24 (-149) 128" "f64_round = fp_round 53 (-1074) 1024"
  by (simp_all add: fun_eq_iff f32_round_def f64_round_def fp_round_def)

lemma pow2_neg_int: "e \<le> 0 \<Longrightarrow> of_nat c = of_nat (c * 2 ^ nat (- e)) * pow2 e"
  by (cases "e = 0") (simp_all add: pow2_def)

lemma le_pow2_iff:
  "e \<le> 0 \<Longrightarrow> of_nat a * pow2 e \<le> of_nat c \<longleftrightarrow> a \<le> c * 2 ^ nat (- e)"
  "e \<le> 0 \<Longrightarrow> of_nat c \<le> of_nat a * pow2 e \<longleftrightarrow> c * 2 ^ nat (- e) \<le> a"
  by (simp_all add: pow2_neg_int [of e c] del: of_nat_mult of_nat_power)

lemma bits_of_small:
  assumes "a \<noteq> 0" "of_nat a * pow2 e < 2 ^ p"
  shows "e + int (nat_bits a) \<le> int p"
proof -
  obtain k where k: "nat_bits a = Suc k" using assms(1) by (cases "nat_bits a") (auto simp: nat_bits.simps [of a])
  have "2 ^ k \<le> a" using nat_bits_lower [OF assms(1)] k by simp
  then have "(2 ^ k :: rat) \<le> of_nat a" by (metis of_nat_le_iff of_nat_numeral of_nat_power)
  then have "2 ^ k * pow2 e \<le> of_nat a * pow2 e" by simp
  with assms(2) have "2 ^ k * pow2 e < 2 ^ p" by (rule order.strict_trans1 [rotated])
  then have "(2 :: rat) powi (int k + e) < 2 powi int p"
    by (simp add: pow2_powi power_int_add)
  then have "int k + e < int p" by (meson not_less power_int_increasing one_le_numeral)
  with k show ?thesis by simp
qed

text \<open>
  Rounding keeps a bound that is an integer below the precision, from above and from below, and is
  finite there.
\<close>

lemma fp_round_bounds:
  assumes "of_nat a * pow2 e \<le> of_nat c" "c < 2 ^ p" "emin \<le> 0" "int p \<le> emax"
  shows "\<exists>m f. fp_round p emin emax s a e = F_Fin s m f \<and> of_nat m * pow2 f \<le> of_nat c \<and>
    (\<forall>b. of_nat b \<le> of_nat a * pow2 e \<longrightarrow> of_nat b \<le> of_nat m * pow2 f)"
proof -
  let ?d = "max (int (nat_bits a) - int p) (emin - e)"
  have c: "(of_nat c :: rat) < 2 ^ p" using assms(2) by (metis of_nat_less_iff of_nat_numeral of_nat_power)
  show ?thesis
  proof (cases "a = 0")
    case True
    have "fp_round p emin emax s a e = F_Fin s 0 0"
      by (simp add: True fp_round_def Let_def round_shift_def)
    with True show ?thesis by simp
  next
    case False
    have bits: "e + int (nat_bits a) \<le> int p"
      using bits_of_small [OF False] assms(1) c by (meson order.strict_trans1)
    show ?thesis
    proof (cases "?d \<le> 0")
      case True
      then have "fp_round p emin emax s a e = F_Fin s a e"
        using False bits assms(4) by (simp add: fp_round_def Let_def)
      with assms(1) show ?thesis by blast
    next
      case d: False
      define f where "f = e + ?d"
      define m where "m = round_shift a (nat ?d)"
      have f: "f \<le> 0" using bits assms(3) unfolding f_def by linarith
      have e: "e \<le> 0" using f d unfolding f_def by linarith
      have split: "x * 2 ^ nat (- e) = x * 2 ^ nat (- f) * 2 ^ nat ?d" for x :: nat
      proof -
        have "nat (- e) = nat (- f) + nat ?d" using f d unfolding f_def by linarith
        then show ?thesis by (simp add: power_add)
      qed
      have le: "m \<le> c * 2 ^ nat (- f)"
        using assms(1) round_shift_le unfolding m_def le_pow2_iff(1) [OF e] split by blast
      have ge: "b * 2 ^ nat (- f) \<le> m" if "of_nat b \<le> of_nat a * pow2 e" for b
        using that round_shift_ge unfolding m_def le_pow2_iff(2) [OF e] split by blast
      show ?thesis
      proof (cases "m = 0")
        case True
        have "fp_round p emin emax s a e = F_Fin s 0 0"
          unfolding fp_round_def Let_def if_not_P [OF d] m_def [symmetric] by (simp add: True)
        moreover have "b = 0" if "of_nat b \<le> of_nat a * pow2 e" for b using ge [OF that] True by simp
        ultimately show ?thesis by fastforce
      next
        case nz: False
        have "of_nat m * pow2 f \<le> of_nat c" using le le_pow2_iff(1) [OF f] by blast
        with bits_of_small [OF nz, of f p] c have "f + int (nat_bits m) \<le> int p"
          by (meson order.strict_trans1)
        with nz d assms(4) have "fp_round p emin emax s a e = F_Fin s m f"
          unfolding fp_round_def Let_def if_not_P [OF d] m_def [symmetric] f_def [symmetric] by simp
        with le ge show ?thesis using le_pow2_iff [OF f] by blast
      qed
    qed
  qed
qed

section \<open>Reading and bounds\<close>

text \<open>A finite value's magnitude against a natural number.\<close>

definition in_range :: "nat \<Rightarrow> nat \<Rightarrow> f32 \<Rightarrow> bool" where
  "in_range a b x \<longleftrightarrow> f32_le (F_Fin False a 0) x \<and> f32_le x (F_Fin False b 0)"

lemma in_range_Fin:
  "in_range a b (F_Fin s m e) \<longleftrightarrow>
     of_nat a \<le> of_int (signed s m) * pow2 e \<and> of_int (signed s m) * pow2 e \<le> of_nat b"
  unfolding in_range_def
  by (subst (1 2) f32_le_val [OF fval.simps(1) fval.simps(1)]) (simp add: signed_def pow2_def)

lemma in_range_finite:
  assumes "in_range a b x"
  obtains s m e where "x = F_Fin s m e" "s \<longrightarrow> m = 0 \<and> a = 0"
    "of_nat a \<le> of_nat m * pow2 e" "of_nat m * pow2 e \<le> of_nat b"
proof (cases x)
  case (F_Fin s m e)
  note w = assms [unfolded F_Fin in_range_Fin]
  have *: "m = 0 \<and> a = 0" if s: s
  proof -
    from w s have "of_nat a + of_nat m * pow2 e \<le> 0" by (simp add: signed_def)
    moreover have "0 \<le> of_nat m * pow2 e" by (intro mult_nonneg_nonneg) (simp_all add: less_imp_le)
    ultimately have "of_nat m * pow2 e = 0" "(of_nat a :: rat) = 0" by linarith+
    then show ?thesis using pow2_pos [of e] by auto
  qed
  show ?thesis
    by (rule that [OF F_Fin]) (use w * in \<open>auto simp: signed_def split: if_splits\<close>)
qed (use assms in \<open>simp_all add: in_range_def\<close>)

text \<open>An \<open>f64\<close> within bounds is an \<open>f32\<close> within them, whatever it is rounded to.\<close>

lemma in_range_f64_to_f32:
  assumes "in_range a b x" "b < 2 ^ 24"
  shows "in_range a b (f64_to_f32 x)"
proof -
  obtain s m e where x: "x = F_Fin s m e" "s \<longrightarrow> m = 0 \<and> a = 0"
    "of_nat a \<le> of_nat m * pow2 e" "of_nat m * pow2 e \<le> of_nat b"
    by (rule in_range_finite [OF assms(1)])
  obtain m' f where r: "f32_round s m e = F_Fin s m' f" "of_nat m' * pow2 f \<le> of_nat b"
      "of_nat a \<le> of_nat m' * pow2 f"
    using fp_round_bounds [OF x(4) assms(2), of "-149" 128 s] x(3) unfolding round_fp(1) by auto
  have "m' = 0" if s
  proof -
    have "f32_round s m e = F_Fin s 0 0" using x(2) that
      by (simp add: f32_round_def round_shift_def Let_def)
    with r(1) show ?thesis by simp
  qed
  with r x show ?thesis by (cases s) (simp_all add: in_range_Fin signed_def)
qed

lemma takeWhile_digits: "list_all p xs \<Longrightarrow> takeWhile p (xs @ ys) = xs @ takeWhile p ys"
  "list_all p xs \<Longrightarrow> dropWhile p (xs @ ys) = dropWhile p ys"
  by (induction xs) auto

lemma show_nat_is_digit: "list_all is_digit (show_nat n)"
  using show_nat_digits by (auto simp: list_all_iff is_digit_def)

lemma digit_not_letter: "is_digit c \<Longrightarrow> to_ascii_lowercase c = c \<and> c \<notin> {CHR ''-'', CHR ''+'', CHR ''i'', CHR ''n''}"
  by (auto simp: is_digit_def to_ascii_lowercase_def Let_def)

lemma show_nat_first: obtains c cs where "show_nat n = c # cs" "is_digit c"
  using show_nat_nonempty [of n] show_nat_is_digit [of n] by (cases "show_nat n") auto

text \<open>A number printed without decimals, or with a zero one, reads back as itself.\<close>

lemma parse_float_digits:
  assumes "t \<in> {[], ''.0''}"
  shows "parse_float rnd (show_nat n @ t) =
    Some (if t = [] then round_decimal rnd False n 0 else round_decimal rnd False (10 * n) (-1))"
proof -
  obtain c cs where s: "show_nat n = c # cs" "is_digit c" by (rule show_nat_first)
  have sign: "split_sign (show_nat n @ t) = (False, show_nat n @ t)"
    using digit_not_letter [OF s(2)] by (simp add: s(1))
  have word: "\<not> eq_ignore_ascii_case (show_nat n @ t) w" if "w \<in> {''inf'', ''infinity'', ''nan''}" for w
    using that digit_not_letter [OF s(2)] by (auto simp: s(1) eq_ignore_ascii_case_def to_ascii_lowercase_def)
  have dec: "read_decimal (show_nat n @ t) = Some (if t = [] then (n, 0) else (10 * n, -1))"
    using assms takeWhile_digits [OF show_nat_is_digit [of n], of t]
    by (auto simp: read_decimal_def is_digit_def read_nat_acc_append read_show_nat s(1) [symmetric])
  show ?thesis unfolding parse_float_def sign by (simp add: word dec)
qed

lemma round_decimal_exact:
  assumes "n < 2 ^ 24" "rnd \<in> {f32_round, f64_round}" "x = 0 \<and> k = n \<or> x = -1 \<and> k = 10 * n"
  shows "in_range n n (round_decimal rnd False k x)"
proof -
  define a where "a = (if x = 0 then n else 2 * (n * 2 ^ 68))"
  define e :: int where "e = (if x = 0 then 0 else -69)"
  have eq: "round_decimal rnd False k x = rnd False a e"
    using assms(3) by (auto simp: round_decimal_def a_def e_def Let_def)
  have v: "of_nat a * pow2 e = of_nat n" by (simp add: a_def e_def pow2_def)
  have "n < 2 ^ 53" using assms(1) by simp
  then obtain m f where "rnd False a e = F_Fin False m f" "of_nat m * pow2 f \<le> of_nat n"
      "of_nat n \<le> of_nat m * pow2 f"
    using assms(2) fp_round_bounds [of a e n 24 "-149" 128 False, folded round_fp]
      fp_round_bounds [of a e n 53 "-1074" 1024 False, folded round_fp] v assms(1) by auto
  then show ?thesis by (simp add: eq in_range_Fin signed_def)
qed

lemma parse_float_exact:
  assumes "n < 2 ^ 24" "t \<in> {[], ''.0''}"
  shows "\<exists>x. parse_f64 (show_nat n @ t) = Some x \<and> in_range n n x"
    and "\<exists>x. parse_f32 (show_nat n @ t) = Some x \<and> in_range n n x"
  using round_decimal_exact [OF assms(1)] parse_float_digits [OF assms(2)]
  unfolding parse_f64_def parse_f32_def by auto

lemma in_range_mono: "in_range a b x \<Longrightarrow> c \<le> a \<Longrightarrow> b \<le> d \<Longrightarrow> in_range c d x"
proof -
  assume w: "in_range a b x" and le: "c \<le> a" "b \<le> d"
  obtain s m e where x: "x = F_Fin s m e" by (rule in_range_finite [OF w])
  have "(of_nat c :: rat) \<le> of_nat a" "(of_nat b :: rat) \<le> of_nat d" using le by simp_all
  with w x show ?thesis by (simp add: in_range_Fin)
qed

end
