(* ===== verification/Json.thy ===== *)
theory Json
  imports Oven_Api
begin

text \<open>
  The JSON documents the code builds with \<open>json!\<close> (the crate \<open>serde_json\<close>), as values. Printing and
  reading them is the crate's, so it is a parameter where the code does it. A float that is not
  finite becomes \<open>null\<close>.
\<close>

datatype Json =
  JNull
| JBool bool
| JInt int
| JFloat f32
| JStr string
| JArr "Json list"
| JObj "(string \<times> Json) list"

definition j_nat :: "nat \<Rightarrow> Json" where "j_nat n = JInt (int n)"

definition j_float :: "f32 \<Rightarrow> Json" where
  "j_float x = (case x of F_Fin _ _ _ \<Rightarrow> JFloat x | _ \<Rightarrow> JNull)"

definition j_opt :: "('a \<Rightarrow> Json) \<Rightarrow> 'a option \<Rightarrow> Json" where
  "j_opt f x = (case x of Some v \<Rightarrow> f v | None \<Rightarrow> JNull)"

text \<open>\<open>Value::get\<close> with a key.\<close>

fun j_get :: "string \<Rightarrow> Json \<Rightarrow> Json option" where
  "j_get k (JObj kvs) = map_of kvs k"
| "j_get k _ = None"

fun j_as_str :: "Json \<Rightarrow> string option" where
  "j_as_str (JStr s) = Some s"
| "j_as_str _ = None"

text \<open>
  \<open>v[k] = x\<close> on an object or a null, which becomes an object. On any other value \<open>serde_json\<close> panics;
  the code indexes no other.
\<close>

fun j_put :: "string \<Rightarrow> Json \<Rightarrow> (string \<times> Json) list \<Rightarrow> (string \<times> Json) list" where
  "j_put k x [] = [(k, x)]"
| "j_put k x ((k', y) # kvs) = (if k' = k then (k, x) # kvs else (k', y) # j_put k x kvs)"

fun j_set :: "string \<Rightarrow> Json \<Rightarrow> Json \<Rightarrow> Json" where
  "j_set k x (JObj kvs) = JObj (j_put k x kvs)"
| "j_set k x JNull = JObj [(k, x)]"
| "j_set k x v = v"

definition j_set_all :: "Json \<Rightarrow> (string \<times> Json) list \<Rightarrow> Json" where
  "j_set_all v kvs = fold (\<lambda>(k, x). j_set k x) kvs v"

lemma map_of_j_put [simp]: "map_of (j_put k x kvs) = (map_of kvs)(k \<mapsto> x)"
  by (induction k x kvs rule: j_put.induct) auto

lemma j_get_set [simp]: "j_get k (j_set k' x (JObj kvs)) = (if k = k' then Some x else map_of kvs k)"
  by simp

end
