(* ===== verification/Mqtt_Recipes.thy ===== *)
theory Mqtt_Recipes
  imports Json Core_Api Recipe_Files
begin

text \<open>
  Recipes as Home Assistant sees them (\<open>processors/mqtt/recipes.rs\<close>): the options of the select,
  each with the recipe it stands for, and the summary and attributes of a recipe. The uppercase
  form of a \<open>char\<close> outside ASCII comes from Unicode's tables, the parameter \<open>upper\<close>.
\<close>

section \<open>The options\<close>

definition option_key :: "Recipe \<Rightarrow> string \<times> string" where
  "option_key r = (rc_title r, rc_id r)"

text \<open>The loop over the sorted recipes: the last title seen and how often.\<close>

fun number_titles :: "string option \<Rightarrow> nat \<Rightarrow> Recipe list \<Rightarrow> (string \<times> string) list" where
  "number_titles previous seen_n [] = []"
| "number_titles previous seen_n (r # rs) =
     (let seen_n = (if previous = Some (rc_title r) then seen_n + 1 else 1);
          option = (if seen_n = 1 then rc_title r else rc_title r @ '' ('' @ show_nat seen_n @ '')'')
      in (option, rc_id r) # number_titles (Some (rc_title r)) seen_n rs)"

definition options :: "Recipe list \<Rightarrow> (string \<times> string) list" where
  "options recipes = number_titles None 0 (sort_key option_key recipes)"

section \<open>Summaries\<close>

definition temperature :: "f32 \<Rightarrow> string \<Rightarrow> string" where
  "temperature celsius unit =
     (if eq_ignore_ascii_case unit ''F''
      then show_f32_0 (f32_add (f32_mul celsius f32_1_8) (f32_of_nat 32)) @ '' '' @ degree_sign @ ''F''
      else show_f32_0 celsius @ '' '' @ degree_sign @ ''C'')"

definition duration :: "u64 \<Rightarrow> string" where
  "duration secs =
     (let h = unat (secs div 3600); m = unat (secs mod 3600 div 60); s = unat (secs mod 60)
      in if h = 0 \<and> m = 0 then show_nat s @ '' s''
         else if h = 0 \<and> s = 0 then show_nat m @ '' min''
         else if h = 0 then show_nat m @ '' min '' @ show_nat s @ '' s''
         else if m = 0 then show_nat h @ '' h''
         else show_nat h @ '' h '' @ show_nat m @ '' min'')"

definition uppercase_char :: "(string \<Rightarrow> string) \<Rightarrow> string \<Rightarrow> string" where
  "uppercase_char upper c =
     (case c of [b] \<Rightarrow> if (of_char b :: nat) < 128 then [to_ascii_uppercase b] else upper c | _ \<Rightarrow> upper c)"

definition capitalise :: "(string \<Rightarrow> string) \<Rightarrow> string \<Rightarrow> string" where
  "capitalise upper s =
     (case utf8_chars s of [] \<Rightarrow> [] | c # cs \<Rightarrow> uppercase_char upper c @ concat cs)"

definition summary_parts :: "(string \<Rightarrow> string) \<Rightarrow> Stage \<Rightarrow> string \<Rightarrow> string list" where
  "summary_parts upper stage unit =
     [case st_title stage of Some (c # cs) \<Rightarrow> c # cs | _ \<Rightarrow> capitalise upper (st_kind stage)] @
     [temperature (st_temperature_c stage) unit @ '' '' @
        (case st_temperature_bulbs_mode stage of Some m \<Rightarrow> m | None \<Rightarrow> ''dry'')] @
     (if f32_gt (st_steam_pct stage) (f32_of_nat 0) then [show_f32_0 (st_steam_pct stage) @ ''% steam''] else []) @
     (case st_duration_secs stage of
        Some secs \<Rightarrow> [duration secs]
      | None \<Rightarrow>
          (case st_probe_target_c stage of
             Some probe \<Rightarrow> [''probe to '' @ temperature probe unit] | None \<Rightarrow> [])) @
     (if st_user_action_required stage = Some True then [''waits for you''] else [])"

definition summary :: "(string \<Rightarrow> string) \<Rightarrow> Stage \<Rightarrow> string \<Rightarrow> string" where
  "summary upper stage unit = join ('' '' @ middle_dot @ '' '') (summary_parts upper stage unit)"

section \<open>Attributes\<close>

definition option_or :: "bool \<Rightarrow> bool option \<Rightarrow> bool" where
  "option_or d x = (case x of Some b \<Rightarrow> b | None \<Rightarrow> d)"

definition stage_attributes :: "(string \<Rightarrow> string) \<Rightarrow> Stage \<Rightarrow> string \<Rightarrow> Json" where
  "stage_attributes upper stage unit = JObj
     [(''kind'', JStr (st_kind stage)),
      (''title'', j_opt JStr (st_title stage)),
      (''temperature_c'', j_float (st_temperature_c stage)),
      (''bulb_mode'', JStr (case st_temperature_bulbs_mode stage of Some m \<Rightarrow> m | None \<Rightarrow> ''dry'')),
      (''steam_pct'', j_float (st_steam_pct stage)),
      (''fan_speed'', j_nat (unat (st_fan_speed stage))),
      (''timer_secs'', j_opt (\<lambda>s. j_nat (unat s)) (st_duration_secs stage)),
      (''probe_target_c'', j_opt j_float (st_probe_target_c stage)),
      (''heating_elements'', JObj
        [(''top'', JBool (option_or True (st_heating_element_top stage))),
         (''rear'', JBool (option_or True (st_heating_element_rear stage))),
         (''bottom'', JBool (option_or True (st_heating_element_bottom stage)))]),
      (''waits_for_user'', JBool (option_or False (st_user_action_required stage))),
      (''summary'', JStr (summary upper stage unit))]"

definition total_timed_secs :: "Recipe \<Rightarrow> u64" where
  "total_timed_secs recipe = sum_list (List.map_filter st_duration_secs (rc_stages recipe))"

definition attributes :: "(string \<Rightarrow> string) \<Rightarrow> Recipe \<Rightarrow> string \<Rightarrow> Json" where
  "attributes upper recipe unit = JObj
     [(''title'', JStr (rc_title recipe)),
      (''source'', JStr (case rc_source recipe of Own \<Rightarrow> ''own'' | Bookmarked \<Rightarrow> ''bookmarked'')),
      (''stage_count'', j_nat (length (rc_stages recipe))),
      (''total_timed_secs'', j_nat (unat (total_timed_secs recipe))),
      (''stages'', JArr (map (\<lambda>s. stage_attributes upper s unit) (rc_stages recipe)))]"

section \<open>What the options stand for\<close>

definition label :: "string \<Rightarrow> nat \<Rightarrow> string" where
  "label t n = (if n = 1 then t else t @ '' ('' @ show_nat n @ '')'')"

text \<open>The label of each recipe says how often its title came before it.\<close>

fun labels :: "string list \<Rightarrow> Recipe list \<Rightarrow> (string \<times> string) list" where
  "labels seen [] = []"
| "labels seen (r # rs) =
     (label (rc_title r) (Suc (count_list seen (rc_title r))), rc_id r) # labels (seen @ [rc_title r]) rs"

lemma number_titles_labels:
  assumes "sorted (map rc_title rs)"
    and "previous = None \<and> seen = [] \<or>
      (\<exists>t. previous = Some t \<and> seen_n = count_list seen t \<and> 0 < seen_n \<and> (\<forall>x \<in> set seen. x \<le> t) \<and> (\<forall>r \<in> set rs. t \<le> rc_title r))"
  shows "number_titles previous seen_n rs = labels seen rs"
  using assms
proof (induction rs arbitrary: previous seen_n seen)
  case (Cons r rs)
  let ?n = "if previous = Some (rc_title r) then seen_n + 1 else 1"
  have n: "?n = Suc (count_list seen (rc_title r))"
    using Cons.prems(2) by (fastforce simp: count_list_0_iff)
  have seen: "\<forall>x \<in> set (seen @ [rc_title r]). x \<le> rc_title r" using Cons.prems(2) by fastforce
  have "number_titles (Some (rc_title r)) ?n rs = labels (seen @ [rc_title r]) rs"
    by (rule Cons.IH) (use Cons.prems(1) seen n in \<open>auto simp: count_list_append\<close>)
  then show ?case unfolding number_titles.simps Let_def n by (simp add: label_def)
qed simp

lemma options_labels: "options rs = labels [] (sort_key option_key rs)"
proof -
  have "sorted (map rc_title (sort_key option_key rs))"
    using sorted_sort_key [of option_key rs] unfolding sorted_map
    by (rule sorted_wrt_mono_rel [rotated]) (auto simp: option_key_def less_eq_prod_def)
  then show ?thesis unfolding options_def by (rule number_titles_labels) simp
qed

lemma map_snd_labels: "map snd (labels seen rs) = map rc_id rs"
  by (induction rs arbitrary: seen) simp_all

text \<open>A label with a number determines the title and the number.\<close>

lemma numbered_inj:
  assumes "t @ '' ('' @ show_nat n @ '')'' = t' @ '' ('' @ show_nat n' @ '')''"
  shows "t = t' \<and> n = n'"
proof -
  let ?f = "\<lambda>t n. rev (show_nat n) @ ''( '' @ rev t"
  from assms have "rev (t @ '' ('' @ show_nat n @ '')'') = rev (t' @ '' ('' @ show_nat n' @ '')'')" by (rule arg_cong)
  then have eq: "?f t n = ?f t' n'" by simp
  have d: "takeWhile (\<lambda>c. c \<noteq> CHR ''('') (?f t n) = rev (show_nat n)" for t n
  proof -
    have "c \<noteq> CHR ''(''" if "c \<in> set (show_nat n)" for c
      using show_nat_digits [OF that] by auto
    then have "\<forall>c \<in> set (rev (show_nat n)). c \<noteq> CHR ''(''" by simp
    then show ?thesis by (subst takeWhile_append2) auto
  qed
  from arg_cong [OF eq, of "takeWhile (\<lambda>c. c \<noteq> CHR ''('')"]
  have "rev (show_nat n) = rev (show_nat n')" unfolding d .
  then have "n = n'" by (simp add: show_nat_inj)
  with eq show ?thesis by simp
qed

text \<open>No title is another one with a number after it.\<close>

definition titles_clear :: "string set \<Rightarrow> bool" where
  "titles_clear T \<longleftrightarrow> (\<forall>t \<in> T. \<forall>t' \<in> T. \<forall>n. 1 < n \<longrightarrow> t' \<noteq> label t n)"

lemma label_inj:
  assumes "label t n = label t' n'" "titles_clear T" "t \<in> T" "t' \<in> T" "1 \<le> n" "1 \<le> n'"
  shows "t = t' \<and> n = n'"
proof (cases "n = 1")
  case n: True
  show ?thesis
  proof (cases "n' = 1")
    case True
    with n assms(1) show ?thesis by (simp add: label_def)
  next
    case False
    moreover have "label t n = t" by (simp add: label_def n)
    ultimately have "1 < n'" "t = label t' n'" using assms(1,6) by simp_all
    with assms(2-4) show ?thesis unfolding titles_clear_def by blast
  qed
next
  case n: False
  show ?thesis
  proof (cases "n' = 1")
    case True
    then have "label t' n' = t'" by (simp add: label_def)
    with n have "1 < n" "t' = label t n" using assms(1,5) by simp_all
    with assms(2-4) show ?thesis unfolding titles_clear_def by blast
  next
    case False
    with n assms(1) have "t @ '' ('' @ show_nat n @ '')'' = t' @ '' ('' @ show_nat n' @ '')''"
      unfolding label_def by (simp only: if_False)
    then show ?thesis by (rule numbered_inj)
  qed
qed

lemma label_in_labels:
  "(o1, i) \<in> set (labels seen rs) \<Longrightarrow>
   \<exists>r \<in> set rs. \<exists>n > count_list seen (rc_title r). o1 = label (rc_title r) n \<and> i = rc_id r"
proof (induction rs arbitrary: seen)
  case (Cons r rs)
  show ?case
  proof (cases "o1 = label (rc_title r) (Suc (count_list seen (rc_title r))) \<and> i = rc_id r")
    case False
    with Cons.prems have "(o1, i) \<in> set (labels (seen @ [rc_title r]) rs)" by auto
    from Cons.IH [OF this] show ?thesis by (fastforce simp: count_list_append split: if_splits)
  qed auto
qed simp

lemma distinct_labels:
  assumes "titles_clear (set (map rc_title rs))"
  shows "distinct (map fst (labels seen rs))"
  using assms
proof (induction rs arbitrary: seen)
  case (Cons r rs)
  let ?l = "label (rc_title r) (Suc (count_list seen (rc_title r)))"
  have "?l \<noteq> o1" if oi: "(o1, i) \<in> set (labels (seen @ [rc_title r]) rs)" for o1 i
  proof
    assume eq: "?l = o1"
    obtain q n where q: "q \<in> set rs" "count_list (seen @ [rc_title r]) (rc_title q) < n" "o1 = label (rc_title q) n"
      using label_in_labels [OF oi] by blast
    have "rc_title r = rc_title q \<and> Suc (count_list seen (rc_title r)) = n"
      by (rule label_inj [OF _ Cons.prems]) (use eq q in auto)
    with q(2) show False by (auto simp: count_list_append)
  qed
  then have "?l \<notin> fst ` set (labels (seen @ [rc_title r]) rs)" by force
  moreover have "titles_clear (set (map rc_title rs))"
    using Cons.prems by (simp add: titles_clear_def)
  ultimately show ?case using Cons.IH by simp
qed simp

text \<open>
  Each recipe has exactly one option, in order of title and id, and where no title is another one
  with a number after it the options differ, so an option stands for one recipe: the one with the
  option's title, or with the title before the number.
\<close>

theorem options_name_recipes:
  assumes "titles_clear (rc_title ` set rs)"
  shows "map snd (options rs) = map rc_id (sort_key option_key rs) \<and>
    distinct (map fst (options rs)) \<and>
    (\<forall>(opt, i) \<in> set (options rs). map_of (options rs) opt = Some i \<and>
       (\<exists>r \<in> set rs. rc_id r = i \<and> (\<exists>n \<ge> 1. opt = label (rc_title r) n)))"
proof -
  have d: "distinct (map fst (options rs))"
    unfolding options_labels by (rule distinct_labels) (use assms in simp)
  have "map_of (options rs) opt = Some i \<and> (\<exists>r \<in> set rs. rc_id r = i \<and> (\<exists>n \<ge> 1. opt = label (rc_title r) n))"
    if oi: "(opt, i) \<in> set (options rs)" for opt i
  proof
    show "map_of (options rs) opt = Some i" using d oi by simp
    obtain r n where "r \<in> set rs" "0 < n" "opt = label (rc_title r) n" "i = rc_id r"
      using label_in_labels [OF oi [unfolded options_labels]] by auto
    then show "\<exists>r \<in> set rs. rc_id r = i \<and> (\<exists>n \<ge> 1. opt = label (rc_title r) n)"
      by (intro bexI [of _ r] conjI exI [of _ n]) simp_all
  qed
  with d show ?thesis by (auto simp: map_snd_labels options_labels)
qed

definition titled :: "string \<Rightarrow> string \<Rightarrow> Recipe" where
  "titled t i = \<lparr>rc_id = i, rc_title = t, rc_stage_count = 0, rc_stages = [], rc_source = Own\<rparr>"

text \<open>Otherwise two options can be the same, and only the first can be chosen.\<close>

lemma options_can_collide:
  "options [titled ''Bread'' ''1'', titled ''Bread'' ''2'', titled ''Bread (2)'' ''3''] =
     [(''Bread'', ''1''), (''Bread (2)'', ''2''), (''Bread (2)'', ''3'')]"
  by code_simp

theorem options_name_recipes_witness:
  "map_of (options [titled ''Toast'' ''3'', titled ''Bread'' ''2'', titled ''Bread'' ''1'']) ''Bread (2)'' = Some ''2''"
proof -
  let ?rs = "[titled ''Toast'' ''3'', titled ''Bread'' ''2'', titled ''Bread'' ''1'']"
  have clear: "titles_clear (rc_title ` set ?rs)" by (auto simp: titles_clear_def titled_def label_def)
  have opt: "(''Bread (2)'', ''2'') \<in> set (options ?rs)" by code_simp
  from bspec [OF options_name_recipes [OF clear, THEN conjunct2, THEN conjunct2] opt]
  show ?thesis unfolding prod.case by (rule conjunct1)
qed

end
