(* ===== verification/Mqtt_Manual.thy ===== *)
theory Mqtt_Manual
  imports F64 Mqtt_Recipes
begin

text \<open>
  The manual cook set up field by field from Home Assistant (\<open>processors/mqtt/manual.rs\<close>): the draft,
  the commands that set its fields, the stages it stands for and the check on them. A select's value
  is the index of its option. Numbers are read as \<open>f64\<close> and kept as \<open>f32\<close>, as in the code.
\<close>

section \<open>The options\<close>

definition TITLE :: string where "TITLE = ''Manual cook''"

definition MODES :: "string list" where
  "MODES = [''Oven (dry bulb)'', ''Sous vide (wet bulb)'']"

definition ELEMENTS :: "string list" where
  "ELEMENTS = [''Rear'', ''Top'', ''Bottom'', ''Top + rear'', ''Bottom + rear'', ''Top + bottom'']"

definition ELEMENTS_ON :: "(bool \<times> bool \<times> bool) list" where
  "ELEMENTS_ON =
     [(False, True, False), (True, False, False), (False, False, True),
      (True, True, False), (False, True, True), (True, False, True)]"

definition PREHEATS :: "string list" where
  "PREHEATS = [''No preheat'', ''Preheat, then wait for me'', ''Preheat, then start cooking'']"

definition ENDS :: "string list" where "ENDS = [''Timer'', ''Probe'', ''When I say'']"

definition AT_END :: "string list" where "AT_END = [''Keep holding'', ''Turn the oven off'']"

abbreviation (input) "NO_PREHEAT \<equiv> (0 :: nat)"
abbreviation (input) "PREHEAT_WAIT \<equiv> (1 :: nat)"
abbreviation (input) "ENDS_TIMER \<equiv> (0 :: nat)"
abbreviation (input) "ENDS_PROBE \<equiv> (1 :: nat)"
abbreviation (input) "TURN_OFF \<equiv> (1 :: nat)"

section \<open>The draft\<close>

record Draft =
  df_temperature_c :: f32
  df_mode :: nat
  df_steam_pct :: f32
  df_elements :: nat
  df_preheat :: nat
  df_ends :: nat
  df_timer_mins :: u32
  df_probe_target_c :: f32
  df_at_end :: nat

definition draft_default :: Draft where
  "draft_default = \<lparr>df_temperature_c = f32_of_nat 180, df_mode = 0, df_steam_pct = f32_of_nat 0,
     df_elements = 0, df_preheat = NO_PREHEAT, df_ends = ENDS_TIMER, df_timer_mins = 30,
     df_probe_target_c = f32_of_nat 60, df_at_end = 0\<rparr>"

definition number :: "string \<Rightarrow> nat \<Rightarrow> nat \<Rightarrow> string \<Rightarrow> string + f64" where
  "number payload lo hi what =
     (case parse_f64 payload of
        Some v \<Rightarrow>
          if in_range lo hi v then Inr v
          else Inl (what @ '' wants '' @ show_nat lo @ en_dash @ show_nat hi @ '', not `'' @ payload @ ''`'')
      | None \<Rightarrow> Inl (what @ '' wants '' @ show_nat lo @ en_dash @ show_nat hi @ '', not `'' @ payload @ ''`''))"

definition choice :: "string \<Rightarrow> string list \<Rightarrow> string + nat" where
  "choice payload opts =
     (case position (\<lambda>x. x = payload) opts of
        Some i \<Rightarrow> Inr i | None \<Rightarrow> Inl (''no option `'' @ payload @ ''`''))"

text \<open>An assignment with \<open>?\<close>: a refused value returns before the field is written.\<close>

definition assign :: "(string + 'a) \<Rightarrow> ('a \<Rightarrow> Draft \<Rightarrow> Draft) \<Rightarrow> Draft \<Rightarrow> (string + unit) \<times> Draft" where
  "assign x put d = (case x of Inl e \<Rightarrow> (Inl e, d) | Inr v \<Rightarrow> (Inr (), put v d))"

definition draft_set :: "string \<Rightarrow> string \<Rightarrow> Draft \<Rightarrow> (string + unit) \<times> Draft" where
  "draft_set field payload d =
     (if field = ''temperature'' then
        assign (number payload 25 250 ''temperature'') (\<lambda>v d. d\<lparr>df_temperature_c := f64_to_f32 v\<rparr>) d
      else if field = ''mode'' then assign (choice payload MODES) (\<lambda>i d. d\<lparr>df_mode := i\<rparr>) d
      else if field = ''steam'' then
        assign (number payload 0 100 ''steam'') (\<lambda>v d. d\<lparr>df_steam_pct := f64_to_f32 v\<rparr>) d
      else if field = ''elements'' then assign (choice payload ELEMENTS) (\<lambda>i d. d\<lparr>df_elements := i\<rparr>) d
      else if field = ''preheat'' then assign (choice payload PREHEATS) (\<lambda>i d. d\<lparr>df_preheat := i\<rparr>) d
      else if field = ''ends'' then assign (choice payload ENDS) (\<lambda>i d. d\<lparr>df_ends := i\<rparr>) d
      else if field = ''timer'' then
        assign (number payload 1 1440 ''timer'') (\<lambda>v d. d\<lparr>df_timer_mins := float_to_word (f64_nearest v)\<rparr>) d
      else if field = ''probe_target'' then
        assign (number payload 1 100 ''probe target'') (\<lambda>v d. d\<lparr>df_probe_target_c := f64_to_f32 v\<rparr>) d
      else if field = ''at_end'' then assign (choice payload AT_END) (\<lambda>i d. d\<lparr>df_at_end := i\<rparr>) d
      else (Inl (''unknown manual cook field `'' @ field @ ''`''), d))"

section \<open>The stages\<close>

definition turns_off :: "Draft \<Rightarrow> bool" where
  "turns_off d \<longleftrightarrow> df_at_end d = TURN_OFF \<and> (df_ends d = ENDS_TIMER \<or> df_ends d = ENDS_PROBE)"

definition draft_cook :: "Draft \<Rightarrow> Stage" where
  "draft_cook d =
     (case ELEMENTS_ON ! df_elements d of (el_top, el_rear, el_bottom) \<Rightarrow>
        let timer = (df_ends d = ENDS_TIMER); probe = (df_ends d = ENDS_PROBE) in
        \<lparr>st_id = None,
         st_kind = ''cook'',
         st_temperature_c = df_temperature_c d,
         st_temperature_bulbs_mode = Some (if df_mode d = 1 then ''wet'' else ''dry''),
         st_duration_secs = (if timer then Some (ucast (df_timer_mins d) * 60) else None),
         st_timer_added = Some timer,
         st_probe_added = Some probe,
         st_probe_target_c = (if probe then Some (df_probe_target_c d) else None),
         st_steam_pct = df_steam_pct d,
         st_fan_speed = 100,
         st_user_action_required = Some (df_preheat d = PREHEAT_WAIT),
         st_rack_position = None,
         st_heating_element_top = Some el_top,
         st_heating_element_rear = Some el_rear,
         st_heating_element_bottom = Some el_bottom,
         st_vent_open = None,
         st_title = None,
         st_turn_off_at_end = (if turns_off d then Some True else None),
         st_prompt = None\<rparr>)"

definition draft_stages :: "Draft \<Rightarrow> Stage list" where
  "draft_stages d =
     (let cook = draft_cook d
      in if df_preheat d = NO_PREHEAT then [cook]
         else
           [cook\<lparr>st_kind := ''preheat'', st_duration_secs := None, st_timer_added := Some False,
              st_probe_added := Some False, st_probe_target_c := None,
              st_user_action_required := Some False, st_turn_off_at_end := None\<rparr>, cook])"

section \<open>The cook to start\<close>

text \<open>\<open>check\<close>; \<open>debug\<close> is the derived \<open>{:?}\<close> of a store's error, which \<open>normalize\<close> never gives.\<close>

definition check_manual ::
  "(StoreError \<Rightarrow> string) \<Rightarrow> (nat \<Rightarrow> string) \<Rightarrow> string option \<Rightarrow> Stage list \<Rightarrow> string + Recipe" where
  "check_manual debug u title stages =
     (case normalize u 0
        \<lparr>rc_id = [],
         rc_title = (case title of Some t \<Rightarrow> if trim t = [] then TITLE else t | None \<Rightarrow> TITLE),
         rc_stage_count = 0, rc_stages = stages, rc_source = Own\<rparr> of
        Inl (ReInvalid msg) \<Rightarrow> Inl msg
      | Inl ReNotFound \<Rightarrow> Inl ''not found''
      | Inl (ReStore e) \<Rightarrow> Inl (debug e)
      | Inr r \<Rightarrow> Inr r)"

definition draft_recipe :: "(StoreError \<Rightarrow> string) \<Rightarrow> (nat \<Rightarrow> string) \<Rightarrow> Draft \<Rightarrow> string + Recipe" where
  "draft_recipe debug u d = check_manual debug u None (draft_stages d)"

definition arrow :: string where "arrow = '' '' @ [CHR 0xE2, CHR 0x86, CHR 0x92] @ '' ''"

definition draft_summary :: "(string \<Rightarrow> string) \<Rightarrow> Draft \<Rightarrow> string \<Rightarrow> string" where
  "draft_summary upper d unit =
     join arrow (map (\<lambda>s. summary upper s unit) (draft_stages d) @ (if turns_off d then [''off''] else []))"

definition draft_state ::
  "(string \<Rightarrow> string) \<Rightarrow> (StoreError \<Rightarrow> string) \<Rightarrow> (nat \<Rightarrow> string) \<Rightarrow> Draft \<Rightarrow> string \<Rightarrow> Json" where
  "draft_state upper debug u d unit = JObj
     [(''temperature_c'', j_float (df_temperature_c d)),
      (''mode'', JStr (MODES ! df_mode d)),
      (''steam_pct'', j_float (df_steam_pct d)),
      (''elements'', JStr (ELEMENTS ! df_elements d)),
      (''preheat'', JStr (PREHEATS ! df_preheat d)),
      (''ends'', JStr (ENDS ! df_ends d)),
      (''timer_mins'', j_nat (unat (df_timer_mins d))),
      (''probe_target_c'', j_float (df_probe_target_c d)),
      (''at_end'', JStr (AT_END ! df_at_end d)),
      (''summary'', JStr (draft_summary upper d unit)),
      (''problem'', case draft_recipe debug u d of Inl e \<Rightarrow> JStr e | Inr _ \<Rightarrow> JNull)]"

section \<open>What a draft can be\<close>

text \<open>Every field is in its range, whatever commands were given.\<close>

definition draft_ok :: "Draft \<Rightarrow> bool" where
  "draft_ok d \<longleftrightarrow>
     in_range 25 250 (df_temperature_c d) \<and> in_range 0 100 (df_steam_pct d) \<and>
     in_range 1 100 (df_probe_target_c d) \<and> 1 \<le> df_timer_mins d \<and> df_timer_mins d \<le> 1440 \<and>
     df_mode d < length MODES \<and> df_elements d < length ELEMENTS \<and> df_preheat d < length PREHEATS \<and>
     df_ends d < length ENDS \<and> df_at_end d < length AT_END"

lemma number_Inr: "number payload lo hi what = Inr v \<longleftrightarrow> parse_f64 payload = Some v \<and> in_range lo hi v"
  by (auto simp: number_def split: option.splits if_splits)

lemma choice_Inr: "choice payload opts = Inr i \<Longrightarrow> i < length opts \<and> opts ! i = payload"
  using position_Some [of "\<lambda>x. x = payload" opts] by (auto simp: choice_def split: option.splits)

lemma choice_nth: "distinct opts \<Longrightarrow> i < length opts \<Longrightarrow> choice (opts ! i) opts = Inr i"
proof -
  assume d: "distinct opts" "i < length opts"
  then obtain j where j: "position (\<lambda>x. x = opts ! i) opts = Some j"
    by (cases "position (\<lambda>x. x = opts ! i) opts") (auto dest: nth_mem)
  have "j = i" using nth_eq_iff_index_eq [OF d(1), of j i] position_Some [OF j] d(2) by simp
  with j show ?thesis by (simp add: choice_def)
qed

lemma nearest_in_range:
  assumes "in_range a b v" "b < 2 ^ 31"
  shows "a \<le> unat (float_to_word (f64_nearest v) :: u32) \<and> unat (float_to_word (f64_nearest v) :: u32) \<le> b"
proof -
  obtain s m e where v: "v = F_Fin s m e" "s \<longrightarrow> m = 0 \<and> a = 0"
    "of_nat a \<le> of_nat m * pow2 e" "of_nat m * pow2 e \<le> of_nat b"
    by (rule in_range_finite [OF assms(1)])
  define n where "n = (if 0 \<le> e then m * 2 ^ nat e else (2 * m + 2 ^ nat (- e)) div 2 ^ (nat (- e) + 1))"
  have n: "a \<le> n \<and> n \<le> b"
  proof (cases "0 \<le> e")
    case True
    then have eq: "of_nat m * pow2 e = of_nat (m * 2 ^ nat e)" by (simp add: pow2_def)
    have "(of_nat a :: rat) \<le> of_nat (m * 2 ^ nat e)" "(of_nat (m * 2 ^ nat e) :: rat) \<le> of_nat b"
      using v(3,4) unfolding eq .
    with True show ?thesis unfolding n_def of_nat_le_iff by simp
  next
    case False
    then have e: "e \<le> 0" by simp
    have le: "a * 2 ^ nat (- e) \<le> m" "m \<le> b * 2 ^ nat (- e)"
      using v(3,4) unfolding le_pow2_iff(1) [OF e] le_pow2_iff(2) [OF e] .
    have "a * 2 ^ (nat (- e) + 1) \<le> 2 * m + 2 ^ nat (- e)" using le(1) by simp
    then have "a \<le> n" unfolding n_def using False by (simp add: less_eq_div_iff_mult_less_eq)
    moreover have "(0 :: nat) < 2 ^ nat (- e)" by simp
    then have "2 * m + 2 ^ nat (- e) < (b + 1) * 2 ^ (nat (- e) + 1)"
      using le(2) unfolding power_add power_one_right add_mult_distrib by linarith
    then have "n < b + 1" unfolding n_def using False by (simp add: div_less_iff_less_mult)
    ultimately show ?thesis by simp
  qed
  have "(float_to_word (f64_nearest v) :: u32) = of_nat n"
  proof (cases s)
    case True
    then show ?thesis using v by (simp add: n_def)
  next
    case False
    then show ?thesis using v(1) n assms(2) by (auto simp: n_def toward_zero_def min_def)
  qed
  moreover have "unat (of_nat n :: u32) = n" using n assms(2) by (simp add: unat_of_nat)
  ultimately show ?thesis using n by simp
qed

lemma timer_in_range:
  "in_range 1 1440 v \<Longrightarrow>
   1 \<le> (float_to_word (f64_nearest v) :: u32) \<and> (float_to_word (f64_nearest v) :: u32) \<le> 1440"
  using nearest_in_range [of 1 1440 v] by (simp add: word_le_nat_alt)

lemma assign_ok:
  "draft_ok d \<Longrightarrow> (\<And>v. x = Inr v \<Longrightarrow> draft_ok (put v d)) \<Longrightarrow> draft_ok (snd (assign x put d))"
  by (simp add: assign_def split: sum.split)

lemma if_ok:
  "(c \<Longrightarrow> draft_ok (snd x)) \<Longrightarrow> (\<not> c \<Longrightarrow> draft_ok (snd y)) \<Longrightarrow> draft_ok (snd (if c then x else y))"
  by simp

lemma draft_set_ok:
  assumes d: "draft_ok d"
  shows "draft_ok (snd (draft_set field payload d))"
  unfolding draft_set_def
  by (intro if_ok assign_ok [OF d])
    (use d in \<open>auto simp: draft_ok_def number_Inr in_range_f64_to_f32 timer_in_range dest!: choice_Inr\<close>)

lemma draft_default_ok: "draft_ok draft_default"
  by code_simp

section \<open>What is accepted\<close>

lemma f32_of_nat_small: "0 < n \<Longrightarrow> n < 2 ^ 24 \<Longrightarrow> f32_of_nat n = F_Fin False n 0"
  using nat_bits_le [of n 24] by (simp add: f32_of_nat_def f32_round_def Let_def)

lemma f32_of_nat_0 [simp]: "f32_of_nat 0 = F_Fin False 0 0"
  by code_simp

lemma f32_within_range: "a < 2 ^ 24 \<Longrightarrow> b < 2 ^ 24 \<Longrightarrow> f32_within a b x \<longleftrightarrow> in_range a b x"
  by (cases "a = 0"; cases "b = 0") (simp_all add: f32_within_def in_range_def f32_of_nat_small)

lemma elements_on_cook: "df_elements d < length ELEMENTS \<Longrightarrow> elements_on (draft_cook d) \<in> {1, 2}"
proof -
  assume "df_elements d < length ELEMENTS"
  then have "df_elements d \<in> set [0, 1, 2, 3, 4, 5]" by (auto simp: ELEMENTS_def)
  then show ?thesis by (auto simp: draft_cook_def ELEMENTS_ON_def elements_on_def Let_def)
qed

text \<open>The one thing a draft can have wrong.\<close>

definition too_hot_for_sous_vide :: "Draft \<Rightarrow> bool" where
  "too_hot_for_sous_vide d \<longleftrightarrow> df_mode d = 1 \<and> f32_lt (f32_of_nat 100) (df_temperature_c d)"

lemma draft_cook_fields [simp]:
  "st_kind (draft_cook d) = ''cook''" "st_temperature_c (draft_cook d) = df_temperature_c d"
  "st_temperature_bulbs_mode (draft_cook d) = Some (if df_mode d = 1 then ''wet'' else ''dry'')"
  "st_steam_pct (draft_cook d) = df_steam_pct d" "st_fan_speed (draft_cook d) = 100"
  "st_rack_position (draft_cook d) = None" "st_prompt (draft_cook d) = None"
  "st_title (draft_cook d) = None" "st_id (draft_cook d) = None"
  "st_timer_added (draft_cook d) = Some (df_ends d = ENDS_TIMER)"
  "st_probe_added (draft_cook d) = Some (df_ends d = ENDS_PROBE)"
  "st_duration_secs (draft_cook d) = (if df_ends d = ENDS_TIMER then Some (ucast (df_timer_mins d) * 60) else None)"
  "st_probe_target_c (draft_cook d) = (if df_ends d = ENDS_PROBE then Some (df_probe_target_c d) else None)"
  "st_user_action_required (draft_cook d) = Some (df_preheat d = PREHEAT_WAIT)"
  "st_turn_off_at_end (draft_cook d) = (if turns_off d then Some True else None)"
  by (simp_all add: draft_cook_def Let_def split: prod.split)

lemma timer_secs_pos:
  fixes m :: u32
  assumes "1 \<le> m" "m \<le> 1440"
  shows "(0 :: u64) < ucast m * 60"
proof -
  have m: "1 \<le> unat m" "unat m \<le> 1440" using assms by (simp_all add: word_le_nat_alt)
  then have "unat (ucast m * 60 :: u64) = unat m * 60"
    by (simp add: unat_word_ariths unsigned_ucast_eq take_bit_nat_eq_self)
  with m(1) show ?thesis by (simp add: word_less_nat_alt)
qed

lemma temperature_ok:
  assumes "draft_ok d"
  shows "f32_within 25 (if df_mode d = 1 then 100 else 250) (df_temperature_c d) \<longleftrightarrow> \<not> too_hot_for_sous_vide d"
proof -
  have t: "f32_le (f32_of_nat 25) (df_temperature_c d)" "f32_le (df_temperature_c d) (f32_of_nat 250)"
    and n: "df_temperature_c d \<noteq> F_NaN"
    using assms by (auto simp: draft_ok_def in_range_def f32_of_nat_small)
  have "\<not> f32_lt (f32_of_nat 100) (df_temperature_c d) \<longleftrightarrow> f32_le (df_temperature_c d) (f32_of_nat 100)"
    by (rule not_f32_lt) (use n in \<open>simp_all add: f32_of_nat_small\<close>)
  with t show ?thesis by (auto simp: f32_within_def too_hot_for_sous_vide_def)
qed

lemma stage_allowed_cook:
  assumes "draft_ok d"
  shows "stage_allowed True (draft_cook d) \<longleftrightarrow> \<not> too_hot_for_sous_vide d"
proof -
  have d: "in_range 0 100 (df_steam_pct d)" "in_range 1 100 (df_probe_target_c d)"
      "(0 :: u64) < ucast (df_timer_mins d) * 60" "elements_on (draft_cook d) \<in> {1, 2}"
    using assms timer_secs_pos [of "df_timer_mins d"] elements_on_cook [of d] by (auto simp: draft_ok_def)
  have "(if Some (if df_mode d = 1 then ''wet'' else ''dry'') = Some ''wet'' then 100 else 250) =
      (if df_mode d = 1 then 100 else 250 :: nat)" by simp
  with d show ?thesis
    unfolding stage_allowed_def draft_cook_fields temperature_ok [OF assms, symmetric]
    by (auto simp: f32_within_range clean_prompt_def turns_off_def)
qed

definition draft_preheat :: "Draft \<Rightarrow> Stage" where
  "draft_preheat d = (draft_cook d)\<lparr>st_kind := ''preheat'', st_duration_secs := None, st_timer_added := Some False,
     st_probe_added := Some False, st_probe_target_c := None,
     st_user_action_required := Some False, st_turn_off_at_end := None\<rparr>"

lemma draft_stages_eq:
  "draft_stages d = (if df_preheat d = NO_PREHEAT then [draft_cook d] else [draft_preheat d, draft_cook d])"
  by (simp add: draft_stages_def draft_preheat_def Let_def)

lemma stage_allowed_preheat:
  assumes "draft_ok d"
  shows "stage_allowed False (draft_preheat d) \<longleftrightarrow> \<not> too_hot_for_sous_vide d"
proof -
  have d: "in_range 0 100 (df_steam_pct d)" "elements_on (draft_preheat d) \<in> {1, 2}"
    using assms elements_on_cook [of d]
    by (auto simp: draft_ok_def draft_preheat_def elements_on_def)
  have "(if Some (if df_mode d = 1 then ''wet'' else ''dry'') = Some ''wet'' then 100 else 250) =
      (if df_mode d = 1 then 100 else 250 :: nat)" by simp
  with d show ?thesis
    unfolding stage_allowed_def temperature_ok [OF assms, symmetric]
    by (auto simp: draft_preheat_def f32_within_range clean_prompt_def)
qed

definition sous_vide_message :: string where
  "sous_vide_message =
     ''stage 1: sous vide temperature must be within 25'' @ en_dash @ ''100 '' @ degree_sign @ ''C''"

lemma stage_hot:
  assumes "too_hot_for_sous_vide d" "s \<in> {draft_cook d, draft_preheat d}"
  shows "normalize_stage u 0 b s = Inl (ReInvalid sous_vide_message)"
proof -
  have "\<not> f32_within 25 100 (df_temperature_c d)"
    using assms(1) not_f32_lt [of "f32_of_nat 100" "df_temperature_c d"]
    by (cases "df_temperature_c d = F_NaN") (auto simp: f32_within_def too_hot_for_sous_vide_def f32_of_nat_small)
  then have "temperature_problem s = Some (''sous vide temperature must be within 25'' @ en_dash @ ''100 '' @ degree_sign @ ''C'')"
    using assms by (auto simp: temperature_problem_def draft_preheat_def too_hot_for_sous_vide_def)
  moreover have "st_kind s = ''cook'' \<or> st_kind s = ''preheat''"
    using assms(2) by (auto simp: draft_preheat_def)
  ultimately have "stage_problem b s = Some (''sous vide temperature must be within 25'' @ en_dash @ ''100 '' @ degree_sign @ ''C'')"
    by (auto simp: stage_problem_def Let_def)
  moreover have "show_nat (0 + 1) = ''1''" by code_simp
  ultimately show ?thesis
    by (simp add: normalize_stage_def stage_message_def sous_vide_message_def)
qed

lemma stored_stage_kept:
  assumes "st_turn_off_at_end s \<in> {None, Some True}" "st_prompt s = None" "st_fan_speed s = 100"
    "st_title s = None" "st_id s = None"
  shows "stored_stage fresh s = s\<lparr>st_id := Some (''ios-'' @ fresh)\<rparr>"
proof -
  have "(if st_turn_off_at_end s = Some True then s else s\<lparr>st_turn_off_at_end := None\<rparr>) = s"
    using assms(1) by (cases s) auto
  moreover have "clean_prompt s = s" using assms(2) by (cases s) (simp add: clean_prompt_def)
  moreover have "normalize_fan_speed s = s"
    using assms(3) by (cases s) (simp add: normalize_fan_speed_def Let_def)
  ultimately show ?thesis
    using assms(4,5) by (simp add: stored_stage_def Let_def needs_fresh_id_def)
qed

lemma stored_draft_stage:
  "s \<in> {draft_cook d, draft_preheat d} \<Longrightarrow> stored_stage fresh s = s\<lparr>st_id := Some (''ios-'' @ fresh)\<rparr>"
  by (rule stored_stage_kept) (auto simp: draft_preheat_def)

lemma draft_ids: "s \<in> {draft_cook d, draft_preheat d} \<Longrightarrow> needs_fresh_id (st_id s)"
  by (auto simp: needs_fresh_id_def draft_preheat_def)

text \<open>Each stage gets the id drawn for it.\<close>

fun with_ids :: "(nat \<Rightarrow> string) \<Rightarrow> nat \<Rightarrow> Stage list \<Rightarrow> Stage list" where
  "with_ids u k [] = []"
| "with_ids u k (s # ss) = s\<lparr>st_id := Some (''ios-'' @ u k)\<rparr> # with_ids u (k + 1) ss"

lemma draft_recipe_cases:
  assumes "draft_ok d"
  shows "draft_recipe debug u d =
    (if too_hot_for_sous_vide d then Inl sous_vide_message
     else Inr \<lparr>rc_id = [], rc_title = TITLE, rc_stage_count = 1,
                rc_stages = with_ids u 0 (draft_stages d), rc_source = Own\<rparr>)"
proof -
  have title: "trim TITLE = TITLE" "TITLE \<noteq> []" by code_simp+
  have stages: "normalize_stages u 0 0 (draft_stages d) =
      (if too_hot_for_sous_vide d then Inl (ReInvalid sous_vide_message) else Inr (with_ids u 0 (draft_stages d)))"
  proof (cases "too_hot_for_sous_vide d")
    case True
    then show ?thesis by (simp add: draft_stages_eq stage_hot)
  next
    case False
    have c: "normalize_stage v i True (draft_cook d) = Inr ((draft_cook d)\<lparr>st_id := Some (''ios-'' @ v)\<rparr>)" for v i
      unfolding normalize_stage_Inr using False stored_draft_stage [of "draft_cook d" d v] by (simp add: stage_allowed_cook [OF assms])
    have p: "normalize_stage v i False (draft_preheat d) = Inr ((draft_preheat d)\<lparr>st_id := Some (''ios-'' @ v)\<rparr>)" for v i
      unfolding normalize_stage_Inr using False stored_draft_stage [of "draft_preheat d" d v] by (simp add: stage_allowed_preheat [OF assms])
    show ?thesis using False by (simp add: draft_stages_eq c p draft_ids [of _ d])
  qed
  have count: "cook_stage_count (with_ids u 0 (draft_stages d)) = 1" and ne: "draft_stages d \<noteq> []"
    by (simp_all add: draft_stages_eq cook_stage_count_def draft_preheat_def)
  show ?thesis
    unfolding draft_recipe_def check_manual_def normalize_def
    by (simp add: title stages ne count)
qed

text \<open>The drafts Home Assistant can set up: any commands, with any payloads.\<close>

definition draft_after :: "(string \<times> string) list \<Rightarrow> Draft" where
  "draft_after cmds = fold (\<lambda>(field, payload) d. snd (draft_set field payload d)) cmds draft_default"

lemma draft_after_ok: "draft_ok (draft_after cmds)"
proof -
  have "draft_ok (fold (\<lambda>(field, payload) d. snd (draft_set field payload d)) cmds d)" if "draft_ok d" for d
    using that by (induction cmds arbitrary: d) (auto simp: draft_set_ok)
  then show ?thesis unfolding draft_after_def using draft_default_ok .
qed

text \<open>
  C38: Whatever Home Assistant sets, in any order and with any payloads, the manual cook can be started
  unless it asks for sous vide above 100 degrees, and then it says just that. What is started is
  the stages of the draft as they are, each with an id of its own.
\<close>

theorem manual_cook_accepted:
  "draft_recipe debug u (draft_after cmds) =
     (let d = draft_after cmds
      in if df_mode d = 1 \<and> f32_lt (f32_of_nat 100) (df_temperature_c d) then Inl sous_vide_message
         else Inr \<lparr>rc_id = [], rc_title = ''Manual cook'', rc_stage_count = 1,
                    rc_stages = with_ids u 0 (draft_stages d), rc_source = Own\<rparr>)"
  using draft_recipe_cases [OF draft_after_ok]
  by (simp add: too_hot_for_sous_vide_def TITLE_def Let_def)

end
