(* ===== verification/Milestones.thy ===== *)
theory Milestones
  imports Mqtt_Recipes
begin

text \<open>
  The events Home Assistant is told of (\<open>processors/mqtt/milestones.rs\<close>): what a snapshot takes from
  the status and the cook, and the milestones between two snapshots.
\<close>

record Snapshot =
  sn_connected :: bool
  sn_cooking :: bool
  sn_cook_key :: "string option"
  sn_recipe_title :: "string option"
  sn_stage_index :: "nat option"
  sn_stages :: "Stage list"
  sn_next_stage_ready :: bool
  sn_cook_done :: bool
  sn_unit :: string

definition no_snapshot :: Snapshot where
  "no_snapshot = \<lparr>sn_connected = False, sn_cooking = False, sn_cook_key = None, sn_recipe_title = None,
     sn_stage_index = None, sn_stages = [], sn_next_stage_ready = False, sn_cook_done = False, sn_unit = []\<rparr>"

definition snapshot_new :: "OvenStatus option \<Rightarrow> CurrentCook option \<Rightarrow> bool \<Rightarrow> Snapshot" where
  "snapshot_new status cook conn =
     (let progress = Option.bind status cook_progress in
      \<lparr>sn_connected = conn,
       sn_cooking = (case status of Some s \<Rightarrow> is_cooking s | None \<Rightarrow> False),
       sn_cook_key = Option.bind status cook_id,
       sn_recipe_title = map_option cc_recipe_title cook,
       sn_stage_index =
         (case map_option cp_current_stage_index progress of
            Some i \<Rightarrow> Some i | None \<Rightarrow> Option.bind status active_stage_index),
       sn_stages = (case cook of Some c \<Rightarrow> cc_stages c | None \<Rightarrow> []),
       sn_next_stage_ready = (case progress of Some p \<Rightarrow> cp_next_stage_ready p | None \<Rightarrow> False),
       sn_cook_done = (case status of Some s \<Rightarrow> cook_done s | None \<Rightarrow> False),
       sn_unit = (case status of Some s \<Rightarrow> temperature_unit s | None \<Rightarrow> ''C'')\<rparr>)"

definition snapshot_stage :: "Snapshot \<Rightarrow> nat option \<Rightarrow> Stage option" where
  "snapshot_stage s index = Option.bind index (get_nth (sn_stages s))"

definition payload :: "(string \<Rightarrow> string) \<Rightarrow> Snapshot \<Rightarrow> string \<Rightarrow> Json" where
  "payload upper s kind = JObj
     [(''event_type'', JStr kind),
      (''cook_id'', j_opt JStr (sn_cook_key s)),
      (''recipe_title'', j_opt JStr (sn_recipe_title s)),
      (''stage_index'', j_opt j_nat (sn_stage_index s)),
      (''stage_count'', j_nat (length (sn_stages s))),
      (''current_stage'', j_opt (\<lambda>st. JStr (summary upper st (sn_unit s))) (snapshot_stage s (sn_stage_index s))),
      (''next_stage'', j_opt (\<lambda>st. JStr (summary upper st (sn_unit s)))
         (snapshot_stage s (map_option (\<lambda>i. i + 1) (sn_stage_index s))))]"

datatype Milestone =
  CookStarted | PreheatDone | StageStarted | StageWaiting | CookDone | CookStopped | OvenLost

fun milestone_name :: "Milestone \<Rightarrow> string" where
  "milestone_name CookStarted = ''cook_started''"
| "milestone_name PreheatDone = ''preheat_done''"
| "milestone_name StageStarted = ''stage_started''"
| "milestone_name StageWaiting = ''stage_waiting''"
| "milestone_name CookDone = ''cook_done''"
| "milestone_name CookStopped = ''cook_stopped''"
| "milestone_name OvenLost = ''oven_lost''"

definition describes_previous :: "Milestone \<Rightarrow> bool" where
  "describes_previous m \<longleftrightarrow> m = CookStopped \<or> m = OvenLost"

definition EVENT_TYPES :: "string list" where
  "EVENT_TYPES = [''cook_started'', ''preheat_done'', ''stage_started'', ''stage_waiting'', ''cook_done'',
     ''cook_stopped'', ''command_failed'', ''oven_lost'']"

definition new_cook :: "Snapshot \<Rightarrow> Snapshot \<Rightarrow> bool" where
  "new_cook prev next =
     (case (sn_cook_key prev, sn_cook_key next) of (Some a, Some b) \<Rightarrow> a \<noteq> b | _ \<Rightarrow> False)"

definition stage_milestone :: "Snapshot \<Rightarrow> Snapshot \<Rightarrow> Milestone list" where
  "stage_milestone prev next =
     (case (sn_stage_index prev, sn_stage_index next) of
        (Some before, Some after) \<Rightarrow>
          if before = after then []
          else if (case snapshot_stage prev (Some before) of
                     Some s \<Rightarrow> st_kind s = ''preheat'' | None \<Rightarrow> False)
          then [PreheatDone] else [StageStarted]
      | _ \<Rightarrow> [])"

definition milestones :: "Snapshot \<Rightarrow> Snapshot \<Rightarrow> Milestone list" where
  "milestones prev next =
     (if sn_connected prev \<and> \<not> sn_connected next \<and> sn_cooking prev then [OvenLost] else []) @
     (if \<not> sn_connected next then []
      else
        (case (sn_cooking prev, sn_cooking next) of
           (False, True) \<Rightarrow> [CookStarted]
         | (True, False) \<Rightarrow> if sn_cook_done prev then [] else [CookStopped]
         | (True, True) \<Rightarrow>
             if new_cook prev next then [CookStarted]
             else
               stage_milestone prev next @
               (if \<not> sn_next_stage_ready prev \<and> sn_next_stage_ready next then [StageWaiting] else []) @
               (if \<not> sn_cook_done prev \<and> sn_cook_done next then [CookDone] else [])
         | (False, False) \<Rightarrow> []))"

section \<open>A run of snapshots\<close>

text \<open>What is announced over a run: the milestones of each step, with the two snapshots of the step.\<close>

fun told :: "Snapshot list \<Rightarrow> (Snapshot \<times> Snapshot \<times> Milestone) list" where
  "told (s # s' # ss) = map (\<lambda>m. (s, s', m)) (milestones s s') @ told (s' # ss)"
| "told _ = []"

section \<open>The cooks of a run\<close>

text \<open>The cook the oven runs, by its id.\<close>

definition running :: "Snapshot \<Rightarrow> string option" where
  "running s = (if sn_cooking s then sn_cook_key s else None)"

text \<open>
  What a later report of the oven looks like: while it is away its last state stands; a cook that is
  done stays done, and no cook is done as it starts.
\<close>

definition follows :: "Snapshot \<Rightarrow> Snapshot \<Rightarrow> bool" where
  "follows prev next \<longleftrightarrow>
     (if \<not> sn_connected next
      then sn_cooking next = sn_cooking prev \<and> running next = running prev \<and> sn_cook_done next = sn_cook_done prev
      else if running next = running prev then sn_cooking next \<and> sn_cook_done prev \<longrightarrow> sn_cook_done next
      else \<not> (sn_cooking next \<and> sn_cook_done next))"

fun follow_up :: "Snapshot list \<Rightarrow> bool" where
  "follow_up (s # s' # ss) = (follows s s' \<and> follow_up (s' # ss))"
| "follow_up _ = True"

text \<open>The ids of the cooks, in the order they ran.\<close>

definition cooks_run :: "Snapshot list \<Rightarrow> string list" where
  "cooks_run ss = List.map_filter (\<lambda>c. c) (remdups_adj (map running ss))"

text \<open>Such reports, in which each cook has an id and none comes back once it has gone.\<close>

definition oven_reports :: "Snapshot list \<Rightarrow> bool" where
  "oven_reports ss \<longleftrightarrow> follow_up ss \<and> list_all (\<lambda>s. sn_cooking s \<longrightarrow> sn_cook_key s \<noteq> None) ss \<and>
     distinct (cooks_run ss)"

text \<open>The announcements that a cook starts, and that it ends.\<close>

definition starts_of :: "string \<Rightarrow> (Snapshot \<times> Snapshot \<times> Milestone) list \<Rightarrow> nat" where
  "starts_of k ms = length (filter (\<lambda>(prev, next, m). m = CookStarted \<and> running next = Some k) ms)"

definition ends_of :: "string \<Rightarrow> (Snapshot \<times> Snapshot \<times> Milestone) list \<Rightarrow> nat" where
  "ends_of k ms = length (filter (\<lambda>(prev, next, m).
     m = CookDone \<and> running next = Some k \<or> m = CookStopped \<and> running prev = Some k) ms)"

text \<open>A cook that is reported as done, and one after which the oven is reported as idle.\<close>

definition seen_done :: "string \<Rightarrow> Snapshot list \<Rightarrow> bool" where
  "seen_done k ss \<longleftrightarrow> list_ex (\<lambda>s. running s = Some k \<and> sn_cook_done s) ss"

fun seen_stopped :: "string \<Rightarrow> Snapshot list \<Rightarrow> bool" where
  "seen_stopped k (s # s' # ss) \<longleftrightarrow> running s = Some k \<and> \<not> sn_cooking s' \<or> seen_stopped k (s' # ss)"
| "seen_stopped k _ \<longleftrightarrow> False"

lemma count_append [simp]:
  "starts_of k (xs @ ys) = starts_of k xs + starts_of k ys" "starts_of k [] = 0"
  "ends_of k (xs @ ys) = ends_of k xs + ends_of k ys" "ends_of k [] = 0"
  by (simp_all add: starts_of_def ends_of_def)

lemma set_cooks_run: "k \<in> set (cooks_run ss) \<longleftrightarrow> Some k \<in> running ` set ss"
proof -
  have "k \<in> set (List.map_filter (\<lambda>c. c) xs) \<longleftrightarrow> Some k \<in> set xs" for xs
    by (induction xs) (auto simp: List.map_filter_def)
  then show ?thesis by (auto simp: cooks_run_def)
qed

lemma oven_reports_Cons:
  assumes "oven_reports (s # s' # ss)"
  shows "oven_reports (s' # ss)" "follows s s'"
    and "sn_cooking s \<Longrightarrow> \<exists>k. sn_cook_key s = Some k" "sn_cooking s' \<Longrightarrow> \<exists>k. sn_cook_key s' = Some k"
    and "running s = Some k \<Longrightarrow> running s' \<noteq> Some k \<Longrightarrow> Some k \<notin> running ` set (s' # ss)"
proof -
  have c: "cooks_run (s # s' # ss) =
      (if running s = running s' then [] else case running s of Some k \<Rightarrow> [k] | None \<Rightarrow> []) @ cooks_run (s' # ss)"
    by (simp add: cooks_run_def List.map_filter_def split: option.split)
  with assms show "oven_reports (s' # ss)" "follows s s'"
    "sn_cooking s \<Longrightarrow> \<exists>k. sn_cook_key s = Some k" "sn_cooking s' \<Longrightarrow> \<exists>k. sn_cook_key s' = Some k"
    by (auto simp: oven_reports_def split: if_splits)
  assume k: "running s = Some k" "running s' \<noteq> Some k"
  with assms c have "k \<notin> set (cooks_run (s' # ss))" by (auto simp: oven_reports_def)
  then show "Some k \<notin> running ` set (s' # ss)" by (simp add: set_cooks_run)
qed

lemma not_stopped: "Some k \<notin> running ` set ss \<Longrightarrow> \<not> seen_stopped k ss \<and> \<not> seen_done k ss"
  by (induction k ss rule: seen_stopped.induct) (auto simp: seen_done_def)

text \<open>What a step announces of one cook.\<close>

lemma step_starts:
  assumes "oven_reports (s # s' # ss)"
  shows "starts_of k (map (\<lambda>m. (s, s', m)) (milestones s s')) = of_bool (running s \<noteq> Some k \<and> running s' = Some k)"
  using oven_reports_Cons(2-4) [OF assms]
  unfolding milestones_def stage_milestone_def new_cook_def follows_def running_def starts_of_def
  by (cases "sn_connected s'"; cases "sn_cooking s"; cases "sn_cooking s'") (auto split: option.split)

lemma step_ends:
  assumes "oven_reports (s # s' # ss)"
  shows "ends_of k (map (\<lambda>m. (s, s', m)) (milestones s s')) =
    of_bool (running s = Some k \<and> \<not> sn_cook_done s \<and> (\<not> sn_cooking s' \<or> running s' = Some k \<and> sn_cook_done s'))"
  using oven_reports_Cons(2-4) [OF assms]
  unfolding milestones_def stage_milestone_def new_cook_def follows_def running_def ends_of_def
  by (cases "sn_connected s'"; cases "sn_cooking s"; cases "sn_cooking s'") (auto split: option.split)

lemma starts_exactly:
  "oven_reports (s # ss) \<Longrightarrow>
   starts_of k (told (s # ss)) = of_bool (running s \<noteq> Some k \<and> Some k \<in> running ` set ss)"
proof (induction ss arbitrary: s)
  case (Cons s' ss)
  show ?case
    using Cons.IH [OF oven_reports_Cons(1) [OF Cons.prems]] step_starts [OF Cons.prems, of k]
      oven_reports_Cons(5) [OF Cons.prems, of k]
    by auto
qed simp

lemma ends_exactly:
  "oven_reports (s # ss) \<Longrightarrow>
   ends_of k (told (s # ss)) =
     of_bool (\<not> (running s = Some k \<and> sn_cook_done s) \<and> (seen_done k ss \<or> seen_stopped k (s # ss)))"
proof (induction ss arbitrary: s)
  case Nil
  then show ?case by (simp add: seen_done_def)
next
  case (Cons s' ss)
  note IH = Cons.IH [OF oven_reports_Cons(1) [OF Cons.prems]]
  show ?case
  proof (cases "running s = Some k \<and> running s' \<noteq> Some k")
    case True
    with not_stopped [of k "s' # ss"] oven_reports_Cons(5) [OF Cons.prems, of k]
    show ?thesis using IH step_ends [OF Cons.prems, of k] oven_reports_Cons(2) [OF Cons.prems]
      by (auto simp: follows_def seen_done_def running_def)
  next
    case False
    then show ?thesis using IH step_ends [OF Cons.prems, of k] oven_reports_Cons(2) [OF Cons.prems]
      by (auto simp: follows_def seen_done_def running_def split: if_splits)
  qed
qed

text \<open>
  A server that looks before the oven has connected takes an idle oven for its first look, so a cook
  that was running before a restart is announced again.
\<close>

lemma restart_announces_again:
  "sn_connected s \<Longrightarrow> sn_cooking s \<Longrightarrow> milestones (snapshot_new None None False) s = [CookStarted]"
  by (simp add: milestones_def snapshot_new_def)

end
