(* ===== verification/Float_Error.thy ===== *)
theory Float_Error
  imports F64
begin

text \<open>
  How far the float operations are from the exact ones: division, rounding to an integer, and an
  absolute bound on the error of each operation where its result is below a power of two.
\<close>

section \<open>More operations\<close>

definition f64_sub :: "f64 \<Rightarrow> f64 \<Rightarrow> f64" where
  "f64_sub a b = f64_add a (f32_neg b)"

text \<open>
  Division of finite values by one that is not zero. The quotient is cut to more bits than the
  precision, its last bit set if anything was cut off.
\<close>

fun f64_div :: "f64 \<Rightarrow> f64 \<Rightarrow> f64" where
  "f64_div (F_Fin s m e) (F_Fin t n f) =
     (let k = nat_bits n + 64; a = m * 2 ^ k
      in f64_round (s \<noteq> t) (2 * (a div n) + (if a mod n = 0 then 0 else 1)) (e - f - int k - 1))"
| "f64_div (F_Inf s) (F_Fin t n f) = F_Inf (s \<noteq> t)"
| "f64_div _ _ = F_NaN"

text \<open>\<open>as i32\<close>: towards zero, saturating, a NaN gives 0.\<close>

fun as_i32 :: "f32 \<Rightarrow> int" where
  "as_i32 F_NaN = 0"
| "as_i32 (F_Inf s) = (if s then - (2 ^ 31) else 2 ^ 31 - 1)"
| "as_i32 (F_Fin s m e) = max (- (2 ^ 31)) (min (2 ^ 31 - 1) (signed s (toward_zero m e)))"

section \<open>The error of rounding\<close>

definition approx :: "f32 \<Rightarrow> rat \<Rightarrow> rat \<Rightarrow> bool" where
  "approx x v err \<longleftrightarrow> (\<exists>q. fval x = Some q \<and> \<bar>q - v\<bar> \<le> err)"

lemma abs_pow2 [simp]: "\<bar>pow2 e\<bar> = pow2 e"
  by (simp add: less_imp_le)

lemma approxE: "approx x v err \<Longrightarrow> (\<And>q. fval x = Some q \<Longrightarrow> v - err \<le> q \<Longrightarrow> q \<le> v + err \<Longrightarrow> thesis) \<Longrightarrow> thesis"
  by (auto simp: approx_def abs_le_iff)

lemma approx_near: "approx x v err \<Longrightarrow> \<bar>v - w\<bar> + err \<le> err' \<Longrightarrow> approx x w err'"
  by (auto simp: approx_def)

lemma round_shift_error: "\<bar>of_nat (round_shift a d * 2 ^ d) - of_nat a\<bar> \<le> (2 ^ d / 2 :: rat)"
proof -
  define w q r :: nat where "w = 2 ^ d" and "q = a div 2 ^ d" and "r = a mod 2 ^ d"
  have a: "a = q * w + r" and r: "r < w"
    unfolding w_def q_def r_def by (rule div_mult_mod_eq [symmetric], simp)
  have "2 * (round_shift a d * w) \<le> 2 * a + w \<and> 2 * a \<le> 2 * (round_shift a d * w) + w"
  proof (cases "w < 2 * r \<or> (2 * r = w \<and> odd q)")
    case True
    then have "round_shift a d = Suc q" by (simp add: round_shift_def Let_def w_def q_def r_def)
    moreover have "w \<le> 2 * r" using True by linarith
    ultimately show ?thesis using r by (simp add: a)
  next
    case False
    then have "round_shift a d = q" by (simp add: round_shift_def Let_def w_def q_def r_def)
    moreover have "2 * r \<le> w" using False by linarith
    ultimately show ?thesis by (simp add: a)
  qed
  then have "of_nat (2 * (round_shift a d * w)) \<le> (of_nat (2 * a + w) :: rat)"
    "of_nat (2 * a) \<le> (of_nat (2 * (round_shift a d * w) + w) :: rat)"
    by (simp_all only: of_nat_le_iff)
  then show ?thesis unfolding abs_le_iff by (simp add: w_def)
qed

lemma signed_zero [simp]: "signed s 0 = 0"
  by (simp add: signed_def)

lemma abs_signed: "\<bar>of_int (signed s m) * x\<bar> = \<bar>of_nat m * (x :: rat)\<bar>"
  by (simp add: signed_def)

lemma signed_diff: "\<bar>of_int (signed s m) * x - of_int (signed s n) * y\<bar> = \<bar>of_nat m * x - (of_nat n * y :: rat)\<bar>"
  by (simp add: signed_def abs_minus_commute)

lemma fp_round_approx:
  assumes "of_nat a * pow2 e < 2 ^ k" "k < p" "emin \<le> 0" "emin \<le> int k - int p" "int p \<le> emax"
  shows "approx (fp_round p emin emax s a e) (of_int (signed s a) * pow2 e) (pow2 (int k - int p) / 2)"
proof -
  let ?d = "max (int (nat_bits a) - int p) (emin - e)"
  have fin: "\<exists>m f. fp_round p emin emax s a e = F_Fin s m f"
    using fp_round_bounds [of a e "2 ^ k" p emin emax s] assms by (auto intro: less_imp_le)
  show ?thesis
  proof (cases "?d \<le> 0 \<or> a = 0")
    case True
    then have "fp_round p emin emax s a e = F_Fin s a e \<or> a = 0 \<and> fp_round p emin emax s a e = F_Fin s 0 0"
    proof (cases "a = 0")
      case False
      with True have "?d \<le> 0" by blast
      with False fin show ?thesis by (auto simp: fp_round_def Let_def)
    qed (simp add: fp_round_def Let_def round_shift_def)
    then show ?thesis by (auto simp: approx_def signed_def less_imp_le)
  next
    case d: False
    define m where "m = round_shift a (nat ?d)"
    have pd: "pow2 (e + ?d) = pow2 e * 2 ^ nat ?d" 
    proof -
      have "0 \<le> ?d" using d by linarith
      then have "pow2 ?d = 2 ^ nat ?d" unfolding pow2_def by (rule if_P)
      then show ?thesis by (simp only: pow2_add)
    qed
    have val: "fp_round p emin emax s a e = F_Fin s m (e + ?d) \<or> m = 0 \<and> fp_round p emin emax s a e = F_Fin s 0 0"
      using fin d unfolding fp_round_def Let_def m_def by (auto split: if_splits)
    have "\<bar>of_nat m * pow2 (e + ?d) - of_nat a * pow2 e\<bar> = \<bar>of_nat (m * 2 ^ nat ?d) - of_nat a\<bar> * pow2 e"
    proof -
      have "of_nat m * pow2 (e + ?d) - of_nat a * pow2 e = (of_nat (m * 2 ^ nat ?d) - of_nat a) * pow2 e"
        unfolding pd by (simp add: algebra_simps)
      then show ?thesis by (simp only: abs_mult abs_pow2)
    qed
    also have "\<dots> \<le> 2 ^ nat ?d / 2 * pow2 e"
      by (intro mult_right_mono) (use round_shift_error [of a "nat ?d"] in \<open>simp_all add: m_def less_imp_le\<close>)
    also have "\<dots> = pow2 (e + ?d) / 2" using pd by simp
    also have "\<dots> \<le> pow2 (int k - int p) / 2"
    proof -
      have "e + int (nat_bits a) \<le> int k" using bits_of_small [OF _ assms(1)] d by simp
      then have "e + ?d \<le> int k - int p" using assms(4) by linarith
      then show ?thesis by (simp add: pow2_powi power_int_increasing)
    qed
    finally have "\<bar>of_nat m * pow2 (e + ?d) - of_nat a * pow2 e\<bar> \<le> pow2 (int k - int p) / 2" .
    with val show ?thesis by (auto simp: approx_def signed_diff abs_signed)
  qed
qed

lemma f32_round_approx:
  "of_nat a * pow2 e < 2 ^ k \<Longrightarrow> k < 24 \<Longrightarrow> approx (f32_round s a e) (of_int (signed s a) * pow2 e) (pow2 (int k - 24) / 2)"
  unfolding round_fp by (drule fp_round_approx [where p = 24]) simp_all

lemma f64_round_approx:
  "of_nat a * pow2 e < 2 ^ k \<Longrightarrow> k < 53 \<Longrightarrow> approx (f64_round s a e) (of_int (signed s a) * pow2 e) (pow2 (int k - 53) / 2)"
  unfolding round_fp by (drule fp_round_approx [where p = 53]) simp_all

section \<open>The error of the operations\<close>

lemma fval_Some: "fval x = Some q \<Longrightarrow> (\<And>s m e. x = F_Fin s m e \<Longrightarrow> q = of_int (signed s m) * pow2 e \<Longrightarrow> thesis) \<Longrightarrow> thesis"
  by (cases x) auto

lemma signed_nat_abs: "signed (x < 0) (nat \<bar>x\<bar>) = x"
  by (simp add: signed_def)

lemma of_nat_nat_abs: "of_nat (nat \<bar>x\<bar>) = (of_int \<bar>x\<bar> :: rat)"
  by simp

lemma fval_neg: "fval x = Some a \<Longrightarrow> fval (f32_neg x) = Some (- a)"
  by (cases x) (auto simp: signed_def)

lemma aligned_sum:
  fixes s m e t n f
  defines "x \<equiv> align (signed s m) e (min e f) + align (signed t n) f (min e f)"
  shows "of_int x * pow2 (min e f) = of_int (signed s m) * pow2 e + of_int (signed t n) * pow2 f"
  unfolding x_def by (simp add: distrib_right align_val)

lemma add_approx:
  assumes "fval x = Some a" "fval y = Some b" "\<bar>a + b\<bar> < 2 ^ k"
  shows "k < 24 \<Longrightarrow> approx (f32_add x y) (a + b) (pow2 (int k - 24) / 2)"
    and "k < 53 \<Longrightarrow> approx (f64_add x y) (a + b) (pow2 (int k - 53) / 2)"
proof -
  obtain s m e where x: "x = F_Fin s m e" "a = of_int (signed s m) * pow2 e" using assms(1) by (rule fval_Some)
  obtain t n f where y: "y = F_Fin t n f" "b = of_int (signed t n) * pow2 f" using assms(2) by (rule fval_Some)
  let ?z = "align (signed s m) e (min e f) + align (signed t n) f (min e f)"
  have z: "of_int ?z * pow2 (min e f) = a + b" unfolding x(2) y(2) by (rule aligned_sum)
  then have l: "of_nat (nat \<bar>?z\<bar>) * pow2 (min e f) < 2 ^ k"
    using assms(3) unfolding z [symmetric] of_nat_nat_abs by (simp add: abs_mult del: of_int_add)
  have zero: "?z = 0 \<Longrightarrow> a + b = 0" using z by (metis mult_zero_left of_int_0)
  show "k < 24 \<Longrightarrow> approx (f32_add x y) (a + b) (pow2 (int k - 24) / 2)"
    using f32_round_approx [OF l, of "?z < 0"] zero
    unfolding x(1) y(1) f32_add.simps f32_of_int_exp_def Let_def signed_nat_abs z
    by (auto simp: approx_def signed_def less_imp_le)
  show "k < 53 \<Longrightarrow> approx (f64_add x y) (a + b) (pow2 (int k - 53) / 2)"
    using f64_round_approx [OF l, of "?z < 0"] zero
    unfolding x(1) y(1) f64_add.simps Let_def signed_nat_abs z
    by (auto simp: approx_def signed_def less_imp_le)
qed

lemma sub_approx:
  "fval x = Some a \<Longrightarrow> fval y = Some b \<Longrightarrow> \<bar>a - b\<bar> < 2 ^ k \<Longrightarrow> k < 53 \<Longrightarrow>
   approx (f64_sub x y) (a - b) (pow2 (int k - 53) / 2)"
  using add_approx(2) [of x a "f32_neg y" "- b" k] by (simp add: f64_sub_def fval_neg)

lemma signed_mult: "of_int (signed (s \<noteq> t) (m * n)) = (of_int (signed s m) * of_int (signed t n) :: rat)"
  by (simp add: signed_def)

lemma mul_approx:
  assumes "fval x = Some a" "fval y = Some b" "\<bar>a * b\<bar> < 2 ^ k"
  shows "k < 24 \<Longrightarrow> approx (f32_mul x y) (a * b) (pow2 (int k - 24) / 2)"
    and "k < 53 \<Longrightarrow> approx (f64_mul x y) (a * b) (pow2 (int k - 53) / 2)"
proof -
  obtain s m e where x: "x = F_Fin s m e" "a = of_int (signed s m) * pow2 e" using assms(1) by (rule fval_Some)
  obtain t n f where y: "y = F_Fin t n f" "b = of_int (signed t n) * pow2 f" using assms(2) by (rule fval_Some)
  have z: "of_int (signed (s \<noteq> t) (m * n)) * pow2 (e + f) = a * b"
    unfolding x(2) y(2) signed_mult by (simp add: pow2_add)
  have "of_nat (m * n) * pow2 (e + f) = \<bar>a * b\<bar>"
    unfolding z [symmetric] by (simp add: abs_mult signed_def)
  with assms(3) have l: "of_nat (m * n) * pow2 (e + f) < 2 ^ k" by simp
  have zero: "m * n = 0 \<Longrightarrow> a * b = 0" unfolding x(2) y(2) by (auto simp: signed_def)
  show "k < 24 \<Longrightarrow> approx (f32_mul x y) (a * b) (pow2 (int k - 24) / 2)"
    using f32_round_approx [OF l, of "s \<noteq> t"] zero unfolding x(1) y(1) f32_mul.simps z
    by (auto simp: approx_def signed_def less_imp_le)
  show "k < 53 \<Longrightarrow> approx (f64_mul x y) (a * b) (pow2 (int k - 53) / 2)"
    using f64_round_approx [OF l, of "s \<noteq> t"] zero unfolding x(1) y(1) f64_mul.simps z
    by (auto simp: approx_def signed_def less_imp_le)
qed

lemma div_approx:
  assumes "fval x = Some a" "fval y = Some b" "b \<noteq> 0" "\<bar>a / b\<bar> < 2 ^ k" "k < 52"
  shows "approx (f64_div x y) (a / b) (pow2 (int k - 51))"
proof -
  obtain s m e where x: "x = F_Fin s m e" "a = of_int (signed s m) * pow2 e" using assms(1) by (rule fval_Some)
  obtain t n f where y: "y = F_Fin t n f" "b = of_int (signed t n) * pow2 f" using assms(2) by (rule fval_Some)
  define j where "j = nat_bits n + 64"
  define q r z where "q = m * 2 ^ j div n" and "r = m * 2 ^ j mod n" and "z = 2 * q + (if r = 0 then 0 else 1 :: nat)"
  have n: "n \<noteq> 0" using assms(3) unfolding y(2) by (cases "n = 0") simp_all
  have mq: "m * 2 ^ j = q * n + r" "r < n" using n by (simp_all add: q_def r_def)
  define g where "g = e - f - int j - 1"
  have sh: "pow2 (e - f) = 2 ^ j * 2 * pow2 g"
  proof -
    have "e - f = (int j + 1) + g" by (simp add: g_def)
    then have "pow2 (e - f) = pow2 (int j + 1) * pow2 g" by (simp only: pow2_add)
    then show ?thesis by (simp add: pow2_def nat_add_distrib)
  qed
  define v where "v = of_nat m / of_nat n * pow2 (e - f)"
  have v: "of_int (signed (s \<noteq> t) 1) * v = a / b" "v = \<bar>a / b\<bar>"
  proof -
    have "pow2 (e - f) = pow2 e / pow2 f" by (simp add: pow2_powi power_int_diff)
    then show *: "of_int (signed (s \<noteq> t) 1) * v = a / b" using n by (auto simp: v_def x(2) y(2) signed_def)
    have "0 \<le> v" by (simp add: v_def less_imp_le)
    then show "v = \<bar>a / b\<bar>" unfolding * [symmetric] by (simp add: abs_mult signed_def)
  qed
  have vz: "v = (2 * of_nat q + 2 * of_nat r / of_nat n) * pow2 g"
  proof -
    have "of_nat m * (2 :: rat) ^ j = of_nat q * of_nat n + of_nat r"
      using arg_cong [OF mq(1), of "of_nat :: nat \<Rightarrow> rat"] by simp
    then have "of_nat m / of_nat n * 2 ^ j = of_nat q + of_nat r / (of_nat n :: rat)"
      using n by (simp add: field_simps)
    then show ?thesis unfolding v_def sh by (simp add: algebra_simps)
  qed
  have rn: "0 \<le> of_nat r / (of_nat n :: rat)" "of_nat r / (of_nat n :: rat) < 1"
    "r = 0 \<Longrightarrow> of_nat r / (of_nat n :: rat) = 0"
    using mq(2) n by simp_all
  have zv: "\<bar>of_nat z * pow2 g - v\<bar> \<le> pow2 g"
  proof -
    have "\<bar>of_nat z - (2 * of_nat q + 2 * of_nat r / of_nat n)\<bar> \<le> (1 :: rat)"
      using rn by (auto simp: z_def abs_le_iff)
    then have "\<bar>of_nat z - (2 * of_nat q + 2 * of_nat r / of_nat n)\<bar> * pow2 g \<le> 1 * pow2 g"
      by (rule mult_right_mono) (simp add: less_imp_le)
    then have "\<bar>(of_nat z - (2 * of_nat q + 2 * of_nat r / of_nat n)) * pow2 g\<bar> \<le> pow2 g"
      by (simp add: abs_mult)
    then show ?thesis unfolding vz by (simp add: left_diff_distrib)
  qed
  have res: "f64_div x y = f64_round (s \<noteq> t) z g"
    by (simp add: x(1) y(1) Let_def z_def q_def r_def g_def j_def)
  show ?thesis
  proof (cases "m = 0")
    case True
    then have "z = 0" "a / b = 0" using x(2) by (simp_all add: z_def q_def r_def signed_def)
    then show ?thesis unfolding res
      by (auto simp: approx_def f64_round_def Let_def round_shift_def signed_def less_imp_le)
  next
    case False
    have small: "pow2 g * 2 ^ 64 \<le> v"
    proof -
      have "n \<le> 1 * 2 ^ nat_bits n" using nat_bits_upper [of n] by simp
      also have "\<dots> \<le> m * 2 ^ nat_bits n" by (rule mult_le_mono1) (use False in simp)
      finally have "n * 2 ^ 64 \<le> m * 2 ^ nat_bits n * 2 ^ 64" by (rule mult_le_mono1)
      then have "n * 2 ^ 64 \<le> m * 2 ^ j" by (simp add: j_def power_add mult.assoc)
      then have "of_nat (n * 2 ^ 64) \<le> (of_nat (m * 2 ^ j) :: rat)" by (simp only: of_nat_le_iff)
      then have "2 ^ 64 \<le> of_nat m / of_nat n * (2 :: rat) ^ j" using n by (simp add: field_simps)
      then have "2 ^ 64 * pow2 g \<le> of_nat m / of_nat n * 2 ^ j * pow2 g"
        by (rule mult_right_mono) (simp add: less_imp_le)
      also have "\<dots> \<le> v"
      proof -
        have v2: "v = 2 * (of_nat m / of_nat n * 2 ^ j * pow2 g)" by (simp add: v_def sh)
        have twice: "t \<le> 2 * t" if "0 \<le> t" for t :: rat using that by simp
        show ?thesis unfolding v2 by (rule twice) (simp add: less_imp_le)
      qed
      finally show ?thesis by (simp add: mult.commute)
    qed
    have vk: "v < 2 ^ k" using assms(4) v(2) by simp
    have "pow2 g \<le> 2 ^ k / 2 ^ 64" using small vk by (simp add: field_simps)
    also have "\<dots> \<le> pow2 (int k - 52) / 2"
      by (simp add: pow2_powi power_int_diff field_simps)
    finally have gk: "pow2 g \<le> pow2 (int k - 52) / 2" .
    have "of_nat z * pow2 g < 2 ^ Suc k"
    proof -
      have "of_nat z * pow2 g \<le> v + pow2 g" using zv by (simp add: abs_le_iff)
      also have "\<dots> \<le> v + v"
      proof -
        have "pow2 g * 1 \<le> pow2 g * 2 ^ 64" by (rule mult_left_mono) (simp_all add: less_imp_le)
        from order.trans [OF this small] show ?thesis by simp
      qed
      finally show ?thesis using vk by simp
    qed
    from f64_round_approx [OF this, of "s \<noteq> t"] assms(5)
    have "approx (f64_div x y) (of_int (signed (s \<noteq> t) z) * pow2 g) (pow2 (int k - 52) / 2)"
      unfolding res by simp
    moreover have "\<bar>of_int (signed (s \<noteq> t) z) * pow2 g - a / b\<bar> \<le> pow2 (int k - 52) / 2"
    proof -
      have "\<bar>of_int (signed (s \<noteq> t) z) * pow2 g - a / b\<bar> = \<bar>of_nat z * pow2 g - v\<bar>"
        unfolding v(1) [symmetric] signed_diff by simp
      then show ?thesis using order.trans [OF zv gk] by (simp only:)
    qed
    moreover have "pow2 (int k - 52) / 2 + pow2 (int k - 52) / 2 \<le> pow2 (int k - 51)"
      by (simp add: pow2_powi power_int_increasing)
    ultimately show ?thesis by (rule approx_near [OF _ order.trans [OF add_right_mono]])
  qed
qed

lemma f64_to_f32_approx:
  assumes "fval x = Some a" "\<bar>a\<bar> < 2 ^ 9"
  shows "approx (f64_to_f32 x) a (1 / 10000)"
proof -
  obtain s m e where x: "x = F_Fin s m e" "a = of_int (signed s m) * pow2 e" using assms(1) by (rule fval_Some)
  have "of_nat m * pow2 e < 2 ^ 9" using assms(2) unfolding x(2) abs_signed by (simp add: less_imp_le abs_mult)
  from f32_round_approx [OF this, of s] have "approx (f64_to_f32 x) a (1 / 65536)"
    by (simp add: x pow2_def)
  then show ?thesis by (rule approx_near) simp
qed

lemma f64_1_8_val: "fval f64_1_8 = Some (8106479329266893 / 2 ^ 52)"
  by (simp add: f64_1_8_def signed_def pow2_def)

lemma fval_f64_of_nat: "fval (f64_of_nat n) = Some (of_nat n)"
  by (simp add: f64_of_nat_def signed_def pow2_def)

lemma in_range_val: "in_range a b x \<longleftrightarrow> (\<exists>q. fval x = Some q \<and> of_nat a \<le> q \<and> q \<le> of_nat b)"
proof (cases x)
  case (F_Fin s m e)
  then show ?thesis by (simp add: in_range_Fin)
qed (simp_all add: in_range_def)

text \<open>Rounding to an integer, of a value that is not negative.\<close>

lemma nearest_val:
  assumes "fval x = Some q" "0 \<le> q"
  shows "\<exists>s n e. f64_nearest x = F_Fin s n e \<and> 0 \<le> e \<and> int (n * 2 ^ nat e) = \<lfloor>q + 1 / 2\<rfloor> \<and> (s \<longrightarrow> n = 0)"
proof -
  obtain s m e where x: "x = F_Fin s m e" "q = of_int (signed s m) * pow2 e" using assms(1) by (rule fval_Some)
  have s: "s \<longrightarrow> m = 0"
  proof
    assume s
    then have "of_nat m * pow2 e \<le> 0" using assms(2) x(2) by (simp add: signed_def)
    then show "m = 0" using pow2_pos [of e] by (simp add: mult_le_0_iff not_less)
  qed
  then have q: "q = of_nat m * pow2 e" using x(2) by (auto simp: signed_def)
  show ?thesis
  proof (cases "0 \<le> e")
    case True
    then have "q = of_int (int (m * 2 ^ nat e))" unfolding q by (simp add: pow2_def)
    then have "\<lfloor>q + 1 / 2\<rfloor> = int (m * 2 ^ nat e)" by (intro floor_unique) simp_all
    with True s x(1) show ?thesis by simp
  next
    case False
    define d :: nat where "d = 2 ^ nat (- e)"
    have "q + 1 / 2 = of_int (int (2 * m + d)) / of_int (int (2 * d))"
      using False unfolding q by (simp add: pow2_def d_def field_simps)
    then have "\<lfloor>q + 1 / 2\<rfloor> = int (2 * m + d) div int (2 * d)" by (simp only: floor_divide_of_int_eq)
    then have "int ((2 * m + d) div (2 * d)) = \<lfloor>q + 1 / 2\<rfloor>" by (simp add: zdiv_int)
    moreover have "(2 * m + d) div (2 * d) = 0" if "m = 0" using that by (simp add: d_def)
    ultimately show ?thesis using False s x(1) by (auto simp: d_def)
  qed
qed

lemma nearest_fval:
  assumes "fval x = Some q" "0 \<le> q"
  shows "fval (f64_nearest x) = Some (of_int \<lfloor>q + 1 / 2\<rfloor>)"
proof -
  have v: "fval (F_Fin s n e) = Some (of_int (int (n * 2 ^ nat e)))" if "0 \<le> e" "s \<longrightarrow> n = 0" for s n e
    using that by (auto simp: signed_def pow2_def)
  from nearest_val [OF assms] v show ?thesis by metis
qed

lemma nearest_as_i32:
  assumes "fval x = Some q" "0 \<le> q" "q < 2 ^ 30"
  shows "as_i32 (f64_nearest x) = \<lfloor>q + 1 / 2\<rfloor>"
proof -
  have "\<lfloor>q + 1 / 2\<rfloor> \<le> 2 ^ 31 - 1" using assms(3) by (simp add: floor_le_iff)
  moreover have "0 \<le> \<lfloor>q + 1 / 2\<rfloor>" using assms(2) by simp
  ultimately show ?thesis
    using nearest_val [OF assms(1,2)] by (auto simp: toward_zero_def signed_def)
qed

end
