(* ===== verification/Discovery.thy ===== *)
theory Discovery
  imports Mqtt_Manual Milestones Float_Error
begin

text \<open>
  Home Assistant's discovery configs (\<open>processors/mqtt/discovery.rs\<close>): the topics, the entities in
  the code's order and the config of each. \<open>render\<close> prints a JSON document (the crate
  \<open>serde_json\<close>); the version is the package's, from \<open>Cargo.toml\<close>.
\<close>

section \<open>Topics\<close>

record Topics =
  tp_prefix :: string
  tp_discovery :: string

definition under :: "Topics \<Rightarrow> string \<Rightarrow> string" where
  "under t path = tp_prefix t @ ''/'' @ path"

definition availability :: "Topics \<Rightarrow> string" where "availability t = under t ''availability''"
definition next_stage_availability :: "Topics \<Rightarrow> string" where
  "next_stage_availability t = under t ''next_stage/availability''"
definition state_topic :: "Topics \<Rightarrow> string" where "state_topic t = under t ''state''"
definition recipes_topic :: "Topics \<Rightarrow> string" where "recipes_topic t = under t ''recipes''"
definition selected_topic :: "Topics \<Rightarrow> string" where "selected_topic t = under t ''recipe/selected''"
definition selected_attributes :: "Topics \<Rightarrow> string" where
  "selected_attributes t = under t ''recipe/selected/attributes''"
definition manual_topic :: "Topics \<Rightarrow> string" where "manual_topic t = under t ''manual''"
definition event_topic :: "Topics \<Rightarrow> string" where "event_topic t = under t ''event''"
definition command :: "Topics \<Rightarrow> string \<Rightarrow> string" where "command t name = under t (''cmd/'' @ name)"
definition commands :: "Topics \<Rightarrow> string" where "commands t = under t ''cmd/#''"
definition config_topic :: "Topics \<Rightarrow> string \<Rightarrow> string \<Rightarrow> string" where
  "config_topic t component object = tp_discovery t @ ''/'' @ component @ ''/anova_oven/'' @ object @ ''/config''"

section \<open>Entities\<close>

datatype Needs = NdServer | NdOven | NdWaitingStage

record Entity =
  en_component :: string
  en_object :: string
  en_name :: string
  en_local_only :: bool
  en_needs :: Needs
  en_fields :: Json

abbreviation (input) entity :: "string \<Rightarrow> string \<Rightarrow> string \<Rightarrow> Needs \<Rightarrow> Json \<Rightarrow> Entity" where
  "entity component object name needs fs \<equiv>
     \<lparr>en_component = component, en_object = object, en_name = name, en_local_only = False,
      en_needs = needs, en_fields = fs\<rparr>"

abbreviation (input) local_entity :: "string \<Rightarrow> string \<Rightarrow> string \<Rightarrow> Needs \<Rightarrow> Json \<Rightarrow> Entity" where
  "local_entity component object name needs fs \<equiv>
     \<lparr>en_component = component, en_object = object, en_name = name, en_local_only = True,
      en_needs = needs, en_fields = fs\<rparr>"

definition quote :: string where "quote = [CHR 0x27]"

definition value_get :: "string \<Rightarrow> string" where
  "value_get field = ''value_json.get('' @ quote @ field @ quote @ '')''"

fun obj_fields :: "Json \<Rightarrow> (string \<times> Json) list" where
  "obj_fields (JObj kvs) = kvs"
| "obj_fields _ = []"

definition reading :: "Topics \<Rightarrow> string \<Rightarrow> Json \<Rightarrow> Json" where
  "reading t field extra = j_set_all
     (JObj [(''state_topic'', JStr (state_topic t)),
            (''value_template'', JStr (''{{ '' @ value_get field @ '' }}''))])
     (obj_fields extra)"

definition on_off :: "Topics \<Rightarrow> string \<Rightarrow> string option \<Rightarrow> Json" where
  "on_off t condition device_class =
     (let v = JObj [(''state_topic'', JStr (state_topic t)),
            (''value_template'', JStr (''{{ 'ON' if '' @ condition @ '' else 'OFF' }}''))]
      in case device_class of Some c \<Rightarrow> j_set ''device_class'' (JStr c) v | None \<Rightarrow> v)"

definition manual_select :: "Topics \<Rightarrow> string \<Rightarrow> string list \<Rightarrow> Json" where
  "manual_select t field opts = JObj
     [(''state_topic'', JStr (manual_topic t)),
      (''value_template'', JStr (''{{ value_json.'' @ field @ '' }}'')),
      (''command_topic'', JStr (command t (''manual/'' @ field))),
      (''options'', JArr (map JStr opts))]"

definition manual_number :: "Topics \<Rightarrow> string \<Rightarrow> string \<Rightarrow> nat \<Rightarrow> nat \<Rightarrow> Json \<Rightarrow> Json" where
  "manual_number t field cmd lo hi extra = j_set_all
     (JObj [(''state_topic'', JStr (manual_topic t)),
            (''value_template'', JStr (''{{ value_json.'' @ field @ '' }}'')),
            (''command_topic'', JStr (command t (''manual/'' @ cmd))),
            (''min'', j_nat lo), (''max'', j_nat hi), (''step'', JInt 1), (''mode'', JStr ''box'')])
     (obj_fields extra)"

definition to_fahrenheit :: "nat \<Rightarrow> f64" where
  "to_fahrenheit c = f64_add (f64_mul (f64_of_nat c) f64_1_8) (f64_of_nat 32)"

definition temperature_number :: "string \<Rightarrow> string \<Rightarrow> string \<Rightarrow> nat \<Rightarrow> nat \<Rightarrow> string \<Rightarrow> Json" where
  "temperature_number state field cmd lo hi unit =
     (let get = value_get field;
          v = JObj [(''state_topic'', JStr state), (''command_topic'', JStr cmd), (''step'', JInt 1),
                    (''mode'', JStr ''box''), (''device_class'', JStr ''temperature'')]
      in if eq_ignore_ascii_case unit ''F'' then
           j_set_all v
             [(''value_template'', JStr (''{% set c = '' @ get @
                '' %}{{ (c * 1.8 + 32) | round | int if c is not none else 'None' }}'')),
              (''command_template'', JStr ''{{ (value - 32) * 5 / 9 }}''),
              (''min'', j_float (f64_ceil (to_fahrenheit lo))),
              (''max'', j_float (f64_floor (to_fahrenheit hi))),
              (''unit_of_measurement'', JStr (degree_sign @ ''F''))]
         else
           j_set_all v
             [(''value_template'', JStr (''{{ '' @ get @ '' }}'')),
              (''min'', j_nat lo), (''max'', j_nat hi),
              (''unit_of_measurement'', JStr (degree_sign @ ''C''))])"

definition celsius :: Json where
  "celsius = JObj
     [(''device_class'', JStr ''temperature''), (''unit_of_measurement'', JStr (degree_sign @ ''C'')),
      (''state_class'', JStr ''measurement''), (''suggested_display_precision'', JInt 0)]"

definition progress_get :: string where "progress_get = value_get ''cook_progress''"

definition sensors :: "Topics \<Rightarrow> Entity list" where
  "sensors t =
     [entity ''sensor'' ''mode'' ''Mode'' NdOven (reading t ''phase'' (JObj [])),
      entity ''sensor'' ''temperature'' ''Temperature'' NdOven (reading t ''temperature_c'' celsius),
      entity ''sensor'' ''target_temperature'' ''Target temperature'' NdOven
        (reading t ''target_temperature_c'' celsius),
      entity ''sensor'' ''wet_bulb_temperature'' ''Wet bulb temperature'' NdOven
        (reading t ''wet_bulb_temperature_c'' celsius),
      entity ''sensor'' ''probe_temperature'' ''Probe temperature'' NdOven
        (reading t ''probe_temperature_c'' celsius),
      entity ''sensor'' ''steam'' ''Steam'' NdOven
        (reading t ''steam_pct'' (JObj [(''device_class'', JStr ''humidity''),
           (''unit_of_measurement'', JStr ''%''), (''state_class'', JStr ''measurement'')])),
      entity ''sensor'' ''timer_remaining'' ''Timer remaining'' NdOven
        (reading t ''timer_remaining_secs'' (JObj [(''device_class'', JStr ''duration''),
           (''unit_of_measurement'', JStr ''s'')])),
      entity ''sensor'' ''stage_ends_at'' ''Stage ends at'' NdOven
        (reading t ''stage_ends_at'' (JObj [(''device_class'', JStr ''timestamp'')])),
      entity ''sensor'' ''current_recipe'' ''Current recipe'' NdOven (reading t ''recipe_title'' (JObj [])),
      entity ''sensor'' ''stage'' ''Stage'' NdOven
        (JObj [(''state_topic'', JStr (state_topic t)),
           (''value_template'', JStr (''{% set p = '' @ progress_get @
              '' %}{{ (p.current_stage_index + 1) ~ ' of ' ~ p.total_stage_count if p else none }}''))]),
      entity ''sensor'' ''stage_description'' ''Stage description'' NdOven
        (JObj [(''state_topic'', JStr (state_topic t)),
           (''value_template'', JStr (''{% set p = '' @ progress_get @
              '' %}{{ p.current_stage_description if p else none }}''))]),
      entity ''sensor'' ''selected_recipe'' ''Selected recipe'' NdServer
        (JObj [(''state_topic'', JStr (selected_topic t)),
           (''json_attributes_topic'', JStr (selected_attributes t))])]"

definition binary_sensors :: "Topics \<Rightarrow> Entity list" where
  "binary_sensors t =
     [entity ''binary_sensor'' ''connected'' ''Connected'' NdServer
        (on_off t ''value_json.connected'' (Some ''connectivity'')),
      entity ''binary_sensor'' ''cooking'' ''Cooking'' NdOven
        (on_off t (''value_json.mode != '' @ quote @ ''idle'' @ quote) (Some ''running'')),
      entity ''binary_sensor'' ''door'' ''Door'' NdOven (on_off t ''value_json.door_open'' (Some ''door'')),
      entity ''binary_sensor'' ''water_tank_empty'' ''Water tank empty'' NdOven
        (on_off t ''value_json.water_tank_empty'' (Some ''problem'')),
      entity ''binary_sensor'' ''next_stage_ready'' ''Next stage ready'' NdOven
        (on_off t (progress_get @ '' and '' @ progress_get @ ''.next_stage_ready'') None),
      entity ''binary_sensor'' ''descale_required'' ''Descale required'' NdOven
        (on_off t ''value_json.boiler_descale_required'' (Some ''problem''))]"

definition recipe_controls :: "Topics \<Rightarrow> string list \<Rightarrow> Entity list" where
  "recipe_controls t opts =
     [entity ''select'' ''recipe'' ''Recipe'' NdServer
        (JObj [(''state_topic'', JStr (selected_topic t)),
           (''command_topic'', JStr (command t ''select_recipe'')), (''options'', JArr (map JStr opts))]),
      entity ''button'' ''start'' ''Start'' NdOven (JObj [(''command_topic'', JStr (command t ''start''))]),
      entity ''button'' ''stop'' ''Stop'' NdOven (JObj [(''command_topic'', JStr (command t ''stop''))])]"

definition manual_controls :: "Topics \<Rightarrow> string \<Rightarrow> Entity list" where
  "manual_controls t unit =
     [entity ''number'' ''manual_temperature'' ''Manual temperature'' NdServer
        (temperature_number (manual_topic t) ''temperature_c'' (command t ''manual/temperature'') 25 250 unit),
      entity ''select'' ''manual_mode'' ''Manual mode'' NdServer (manual_select t ''mode'' MODES),
      entity ''number'' ''manual_steam'' ''Manual steam'' NdServer
        (manual_number t ''steam_pct'' ''steam'' 0 100 (JObj [(''unit_of_measurement'', JStr ''%'')])),
      entity ''select'' ''manual_elements'' ''Manual heating elements'' NdServer
        (manual_select t ''elements'' ELEMENTS),
      entity ''select'' ''manual_preheat'' ''Manual preheat'' NdServer (manual_select t ''preheat'' PREHEATS),
      entity ''select'' ''manual_ends'' ''Manual ends'' NdServer (manual_select t ''ends'' ENDS),
      entity ''number'' ''manual_timer'' ''Manual timer'' NdServer
        (manual_number t ''timer_mins'' ''timer'' 1 1440 (JObj [(''unit_of_measurement'', JStr ''min'')])),
      entity ''number'' ''manual_probe_target'' ''Manual probe target'' NdServer
        (temperature_number (manual_topic t) ''probe_target_c'' (command t ''manual/probe_target'') 1 100 unit),
      entity ''select'' ''manual_at_end'' ''Manual at end'' NdServer (manual_select t ''at_end'' AT_END),
      entity ''sensor'' ''manual_cook'' ''Manual cook'' NdServer
        (JObj [(''state_topic'', JStr (manual_topic t)),
           (''value_template'', JStr ''{{ value_json.summary }}''),
           (''json_attributes_topic'', JStr (manual_topic t)),
           (''json_attributes_template'', JStr ''{{ {'problem': value_json.problem} | tojson }}'')]),
      entity ''button'' ''start_manual'' ''Start manual cook'' NdOven
        (JObj [(''command_topic'', JStr (command t ''start_manual''))])]"

definition milestone_event :: "Topics \<Rightarrow> Entity list" where
  "milestone_event t =
     [entity ''event'' ''cook'' ''Cook'' NdServer
        (JObj [(''state_topic'', JStr (event_topic t)), (''event_types'', JArr (map JStr EVENT_TYPES))])]"

definition local_controls :: "Topics \<Rightarrow> string \<Rightarrow> Entity list" where
  "local_controls t unit =
     [local_entity ''button'' ''next_stage'' ''Next stage'' NdWaitingStage
        (JObj [(''command_topic'', JStr (command t ''next_stage''))]),
      local_entity ''light'' ''lamp'' ''Lamp'' NdOven
        (JObj [(''command_topic'', JStr (command t ''lamp'')), (''state_topic'', JStr (state_topic t)),
           (''state_value_template'', JStr ''{{ 'ON' if value_json.lamp_on else 'OFF' }}''),
           (''payload_on'', JStr ''ON''), (''payload_off'', JStr ''OFF'')]),
      local_entity ''number'' ''set_temperature'' ''Set temperature'' NdOven
        (temperature_number (state_topic t) ''target_temperature_c'' (command t ''temperature'') 25 250 unit),
      local_entity ''number'' ''set_timer'' ''Set timer'' NdOven
        (JObj [(''command_topic'', JStr (command t ''timer'')),
           (''command_template'', JStr ''{{ (value * 60) | int }}''),
           (''state_topic'', JStr (state_topic t)),
           (''value_template'', JStr (''{% set s = value_json.timer_total_secs %}{{ '' @
              ''[(s / 60) | round(0) | int, 1] | max if s else 'None' }}'')),
           (''min'', JInt 1), (''max'', JInt 1440), (''step'', JInt 1), (''mode'', JStr ''box''),
           (''unit_of_measurement'', JStr ''min'')])]"

definition entities :: "Topics \<Rightarrow> string list \<Rightarrow> string \<Rightarrow> Entity list" where
  "entities t opts unit =
     sensors t @ binary_sensors t @ recipe_controls t (if opts = [] then [''No recipes''] else opts) @
     manual_controls t unit @ milestone_event t @ local_controls t unit"

section \<open>Configs\<close>

definition VERSION :: string where "VERSION = ''0.1.0''"

definition config :: "Topics \<Rightarrow> Entity \<Rightarrow> Json" where
  "config t e = j_set_all
     (JObj
       [(''name'', JStr (en_name e)),
        (''unique_id'', JStr (''anova_oven_'' @ en_object e)),
        (''default_entity_id'', JStr (en_component e @ ''.anova_oven_'' @ en_object e)),
        (''has_entity_name'', JBool True),
        (''availability'', JArr
          ([JObj [(''topic'', JStr (availability t))]] @
           (if en_needs e = NdOven \<or> en_needs e = NdWaitingStage then
              [JObj [(''topic'', JStr (state_topic t)),
                 (''value_template'', JStr ''{{ 'online' if value_json.connected else 'offline' }}'')]]
            else []) @
           (if en_needs e = NdWaitingStage then [JObj [(''topic'', JStr (next_stage_availability t))]] else []))),
        (''availability_mode'', JStr ''all''),
        (''device'', JObj
          [(''identifiers'', JArr [JStr ''anova_oven'']), (''name'', JStr ''Anova Oven''),
           (''manufacturer'', JStr ''Anova''), (''model'', JStr ''Precision Oven'')]),
        (''origin'', JObj [(''name'', JStr ''anova-oven-server''), (''sw_version'', JStr VERSION)])])
     (obj_fields (en_fields e))"

definition configs ::
  "(Json \<Rightarrow> string) \<Rightarrow> Topics \<Rightarrow> bool \<Rightarrow> string list \<Rightarrow> string \<Rightarrow> (string \<times> string) list" where
  "configs render t is_local opts unit =
     map (\<lambda>e. (config_topic t (en_component e) (en_object e),
                if en_local_only e \<and> \<not> is_local then [] else render (config t e)))
       (entities t opts unit)"

text \<open>\<open>select_config\<close>; the select is always there (\<open>expect\<close>), as \<open>select_config_found\<close> shows.\<close>

definition select_config :: "(Json \<Rightarrow> string) \<Rightarrow> Topics \<Rightarrow> string list \<Rightarrow> string \<times> string" where
  "select_config render t opts =
     the (find (\<lambda>(topic, _). topic = config_topic t ''select'' ''recipe'')
       (configs render t True opts ''C''))"

section \<open>The set of configs\<close>

definition entity_path :: "Entity \<Rightarrow> string" where
  "entity_path e = en_component e @ ''/anova_oven/'' @ en_object e"

lemma entity_paths_closed:
  "map entity_path (entities t opts unit) =
     map entity_path (entities \<lparr>tp_prefix = [], tp_discovery = []\<rparr> [] [])"
  by (simp add: entities_def sensors_def binary_sensors_def recipe_controls_def manual_controls_def
    milestone_event_def local_controls_def entity_path_def)

lemma entity_paths_distinct: "distinct (map entity_path (entities t opts unit))"
  by (subst entity_paths_closed) code_simp

lemma configs_topics: "map fst (configs render t is_local opts unit) =
    map (\<lambda>e. tp_discovery t @ ''/'' @ entity_path e @ ''/config'') (entities t opts unit)"
  by (simp add: configs_def config_topic_def entity_path_def)

lemma configs_distinct: "distinct (map fst (configs render t is_local opts unit))"
proof -
  have "inj (\<lambda>p. tp_discovery t @ ''/'' @ p @ ''/config'')" by (simp add: inj_def)
  with entity_paths_distinct [of t opts unit]
  have "distinct (map (\<lambda>p. tp_discovery t @ ''/'' @ p @ ''/config'') (map entity_path (entities t opts unit)))"
    by (simp add: distinct_map inj_on_subset [OF _ subset_UNIV] comp_inj_on del: map_map)
  then show ?thesis by (simp add: configs_topics comp_def)
qed

text \<open>Every config's topic ends in \<open>/config\<close>, which no other topic does.\<close>

lemma configs_suffix: "(topic, pl) \<in> set (configs render t is_local opts unit) \<Longrightarrow> \<exists>p. topic = p @ ''/config''"
  by (auto simp: configs_def config_topic_def)

section \<open>What the controls offer\<close>

text \<open>A template that reads a key of the state document.\<close>

definition reads_key :: "Json option \<Rightarrow> string \<Rightarrow> bool" where
  "reads_key template key \<longleftrightarrow>
     list_all (\<lambda>c. c \<noteq> CHR ''('') key \<and> template = Some (JStr (''{{ value_json.'' @ key @ '' }}'')) \<or>
     template = Some (JStr (''{{ '' @ value_get key @ '' }}''))"

lemma command_eq [simp]: "command t a = command t b \<longleftrightarrow> a = b"
  by (simp add: command_def under_def)

text \<open>
  The templates of a temperature box in Fahrenheit, and their arithmetic, which Home Assistant does in
  doubles: the degrees Celsius it sends for \<open>n\<close> degrees Fahrenheit, and the degrees Fahrenheit it
  rounds and shows for a number in the state.
\<close>

definition to_celsius_template :: string where
  "to_celsius_template = ''{{ (value - 32) * 5 / 9 }}''"

definition to_fahrenheit_template :: "string \<Rightarrow> string" where
  "to_fahrenheit_template key = ''{% set c = value_json.get('' @ quote @ key @ quote @
     '') %}{{ (c * 1.8 + 32) | round | int if c is not none else 'None' }}''"

definition celsius_of :: "nat \<Rightarrow> f64" where
  "celsius_of n = f64_div (f64_mul (f64_sub (f64_of_nat n) (f64_of_nat 32)) (f64_of_nat 5)) (f64_of_nat 9)"

definition fahrenheit_of :: "f64 \<Rightarrow> f64" where
  "fahrenheit_of c = f64_add (f64_mul c f64_1_8) (f64_of_nat 32)"

lemma some_nat_bits:
  "nat_bits 9 = 4" "nat_bits 45 = 6" "nat_bits 180 = 8" "nat_bits 225 = 8" "nat_bits 450 = 9" "nat_bits 900 = 10"
  "nat_bits 2250 = 12" "nat_bits 14757395258967641292800 = 74" "nat_bits 59029581035870565171200 = 76"
  "nat_bits 147573952589676412928000 = 77" "nat_bits 7036874417766400 = 53" "nat_bits 8796093022208000 = 53"
  by (simp_all add: nat_bits.simps)

lemma celsius_of_ends:
  "fval (celsius_of 77) = Some 25" "fval (celsius_of 482) = Some 250" "fval (celsius_of 212) = Some 100"
  by (simp_all add: celsius_of_def f64_sub_def f64_of_nat_def f64_round_def some_nat_bits round_shift_def
    align_def signed_def Let_def pow2_def)

lemma celsius_of_val:
  assumes "32 \<le> n" "n \<le> 482"
  shows "\<exists>c. fval (celsius_of n) = Some c \<and> 5 * of_nat n - 160 - 1 / 100000 \<le> 9 * c \<and>
    9 * c \<le> 5 * of_nat n - 160 + 1 / 100000"
proof -
  obtain m :: rat where m: "m = of_nat n" by blast
  have mb: "32 \<le> m" "m \<le> 482" using assms by (simp_all add: m)
  have "approx (f64_sub (f64_of_nat n) (f64_of_nat 32)) (m - 32) (1 / 17592186044416)"
    using sub_approx [OF fval_f64_of_nat fval_f64_of_nat, of n 32 10] mb unfolding m by (simp add: pow2_def)
  then obtain a where a: "fval (f64_sub (f64_of_nat n) (f64_of_nat 32)) = Some a" "\<bar>a - (m - 32)\<bar> \<le> 1 / 17592186044416"
    by (auto simp: approx_def)
  have "\<bar>a * 5\<bar> < 4096" using a(2) mb by linarith
  then have "approx (f64_mul (f64_sub (f64_of_nat n) (f64_of_nat 32)) (f64_of_nat 5)) (a * 5) (1 / 4398046511104)"
    using mul_approx(2) [OF a(1) fval_f64_of_nat [of 5], of 12] by (simp add: pow2_def approx_def)
  then obtain b where b: "fval (f64_mul (f64_sub (f64_of_nat n) (f64_of_nat 32)) (f64_of_nat 5)) = Some b"
      "\<bar>b - a * 5\<bar> \<le> 1 / 4398046511104"
    by (auto simp: approx_def)
  have "\<bar>b / 9\<bar> < 512" using a(2) b(2) mb by linarith
  then have "approx (celsius_of n) (b / 9) (1 / 4398046511104)"
    using div_approx [OF b(1) fval_f64_of_nat [of 9], of 9] by (simp add: celsius_of_def pow2_def approx_def)
  then obtain c where c: "fval (celsius_of n) = Some c" "\<bar>c - b / 9\<bar> \<le> 1 / 4398046511104" by (auto simp: approx_def)
  have "5 * m - 160 - 1 / 100000 \<le> 9 * c" "9 * c \<le> 5 * m - 160 + 1 / 100000" using a(2) b(2) c(2) by linarith+
  with c(1) show ?thesis unfolding m by blast
qed

lemma fahrenheit_of_val:
  assumes "fval x = Some c" "0 \<le> c" "c \<le> 251"
  shows "\<exists>q. fval (fahrenheit_of x) = Some q \<and> \<bar>q - (9 / 5 * c + 32)\<bar> \<le> 1 / 1000"
proof -
  have v: "fval f64_1_8 = Some (8106479329266893 / 4503599627370496)" by (simp add: f64_1_8_val)
  have "\<bar>c * (8106479329266893 / 4503599627370496)\<bar> < 1024" using assms(2,3) by linarith
  then have "approx (f64_mul x f64_1_8) (c * (8106479329266893 / 4503599627370496)) (1 / 1000000)"
    using mul_approx(2) [OF assms(1) v, of 10] by (auto simp: pow2_def approx_def)
  then obtain a where a: "fval (f64_mul x f64_1_8) = Some a"
      "\<bar>a - c * (8106479329266893 / 4503599627370496)\<bar> \<le> 1 / 1000000"
    by (auto simp: approx_def)
  have a': "\<bar>a - 9 / 5 * c\<bar> \<le> 1 / 5000" using a(2) assms(2,3) by linarith
  have "\<bar>a + 32\<bar> < 1024" using a' assms(2,3) by linarith
  then have "approx (fahrenheit_of x) (a + 32) (1 / 1000000)"
    using add_approx(2) [OF a(1) fval_f64_of_nat [of 32], of 10] by (auto simp: fahrenheit_of_def pow2_def approx_def)
  then obtain q where q: "fval (fahrenheit_of x) = Some q" "\<bar>q - (a + 32)\<bar> \<le> 1 / 1000000" by (auto simp: approx_def)
  have "\<bar>q - (9 / 5 * c + 32)\<bar> \<le> 1 / 1000" using q(2) a' by linarith
  with q(1) show ?thesis by blast
qed

text \<open>A whole degree Fahrenheit survives the rounding of the server's single-precision number.\<close>

lemma fahrenheit_survives:
  assumes "fval y = fval (celsius_of n)" "34 \<le> n" "n \<le> 482"
  shows "\<exists>q. fval (fahrenheit_of (f64_to_f32 y)) = Some q \<and> \<bar>q - of_nat n\<bar> \<le> 1 / 100"
proof -
  obtain m :: rat where m: "m = of_nat n" by blast
  have mb: "34 \<le> m" "m \<le> 482" using assms by (simp_all add: m)
  obtain c where c: "fval (celsius_of n) = Some c" "5 * m - 160 - 1 / 100000 \<le> 9 * c" "9 * c \<le> 5 * m - 160 + 1 / 100000"
    using celsius_of_val [of n] assms unfolding m by auto
  have "\<bar>c\<bar> < 2 ^ 9" using c(2,3) mb by (simp add: abs_less_iff)
  then obtain r where r: "fval (f64_to_f32 y) = Some r" "\<bar>r - c\<bar> \<le> 1 / 10000"
    using f64_to_f32_approx [of y c] assms(1) c(1) by (auto simp: approx_def)
  have "0 \<le> r" "r \<le> 251" using r(2) c(2,3) mb by linarith+
  from fahrenheit_of_val [OF r(1) this] obtain q where
      q: "fval (fahrenheit_of (f64_to_f32 y)) = Some q" "\<bar>q - (9 / 5 * r + 32)\<bar> \<le> 1 / 1000" by blast
  have "\<bar>q - m\<bar> \<le> 1 / 100" using q(2) r(2) c(2,3) by linarith
  with q(1) show ?thesis by (simp add: m)
qed

text \<open>A box's bounds in Fahrenheit are within its bounds in Celsius.\<close>

lemma celsius_of_in_range:
  assumes "(lo, hi, n0, n1) \<in> {(25, 250, 77, 482), (1, 100, 34, 212)}" "n0 \<le> n" "n \<le> n1"
  shows "in_range lo hi (celsius_of n)"
proof -
  have n: "32 \<le> n" "n \<le> 482" using assms by auto
  obtain m :: rat where m: "m = of_nat n" by blast
  obtain c where c: "fval (celsius_of n) = Some c" "5 * m - 160 - 1 / 100000 \<le> 9 * c" "9 * c \<le> 5 * m - 160 + 1 / 100000"
    using celsius_of_val [OF n] unfolding m by auto
  have "of_nat lo \<le> c \<and> c \<le> of_nat hi"
  proof (cases "n = 77 \<or> n = 482 \<or> n = 212")
    case True
    with c(1) assms show ?thesis by (auto simp: celsius_of_ends)
  next
    case False
    with assms have "lo = 25 \<and> hi = 250 \<and> 78 \<le> n \<and> n \<le> 481 \<or> lo = 1 \<and> hi = 100 \<and> 34 \<le> n \<and> n \<le> 211" by auto
    moreover have "of_nat k \<le> m" if "k \<le> n" for k unfolding m using that by (rule of_nat_mono)
    moreover have "m \<le> of_nat k" if "n \<le> k" for k unfolding m using that by (rule of_nat_mono)
    ultimately have "lo = 25 \<and> hi = 250 \<and> 78 \<le> m \<and> m \<le> 481 \<or> lo = 1 \<and> hi = 100 \<and> 34 \<le> m \<and> m \<le> 211"
      by (metis of_nat_numeral)
    with c(2,3) show ?thesis by (elim disjE conjE) (simp only: of_nat_numeral of_nat_1, intro conjI; linarith)+
  qed
  with c(1) show ?thesis by (auto simp: in_range_val)
qed

lemma fahrenheit_limits:
  "f64_ceil (to_fahrenheit 25) = F_Fin False 77 0" "f64_floor (to_fahrenheit 250) = F_Fin False 482 0"
  "f64_ceil (to_fahrenheit 1) = F_Fin False 34 0" "f64_floor (to_fahrenheit 100) = F_Fin False 212 0"
  by (simp_all add: to_fahrenheit_def f64_of_nat_def f64_1_8_def f64_round_def nat_bits.simps round_shift_def
    align_def signed_def away_from_zero_def toward_zero_def Let_def)

text \<open>The manual cook's controls: selects by field and options, numbers by command, key and bounds.\<close>

definition manual_choices :: "(string \<times> string list) list" where
  "manual_choices = [(''mode'', MODES), (''elements'', ELEMENTS), (''preheat'', PREHEATS), (''ends'', ENDS), (''at_end'', AT_END)]"

definition manual_numbers :: "(string \<times> string \<times> nat \<times> nat) list" where
  "manual_numbers = [(''temperature'', ''temperature_c'', 25, 250), (''steam'', ''steam_pct'', 0, 100),
     (''timer'', ''timer_mins'', 1, 1440), (''probe_target'', ''probe_target_c'', 1, 100)]"

lemma manual_select_get:
  "j_get ''command_topic'' (manual_select t f os) = Some (JStr (command t (''manual/'' @ f)))"
  "j_get ''value_template'' (manual_select t f os) = Some (JStr (''{{ value_json.'' @ f @ '' }}''))"
  "j_get ''options'' (manual_select t f os) = Some (JArr (map JStr os))"
  by (simp_all add: manual_select_def)

lemma manual_number_get:
  "j_get ''command_topic'' (manual_number t f c lo hi (JObj [(''unit_of_measurement'', x)])) = Some (JStr (command t (''manual/'' @ c)))"
  "j_get ''value_template'' (manual_number t f c lo hi (JObj [(''unit_of_measurement'', x)])) = Some (JStr (''{{ value_json.'' @ f @ '' }}''))"
  "j_get ''command_template'' (manual_number t f c lo hi (JObj [(''unit_of_measurement'', x)])) = None"
  "j_get ''min'' (manual_number t f c lo hi (JObj [(''unit_of_measurement'', x)])) = Some (j_nat lo)"
  "j_get ''max'' (manual_number t f c lo hi (JObj [(''unit_of_measurement'', x)])) = Some (j_nat hi)"
  by (simp_all add: manual_number_def j_set_all_def)

lemma temperature_number_get:
  assumes "\<not> eq_ignore_ascii_case unit ''F''"
  shows "j_get ''command_topic'' (temperature_number st f c lo hi unit) = Some (JStr c)"
    "j_get ''value_template'' (temperature_number st f c lo hi unit) = Some (JStr (''{{ '' @ value_get f @ '' }}''))"
    "j_get ''command_template'' (temperature_number st f c lo hi unit) = None"
    "j_get ''min'' (temperature_number st f c lo hi unit) = Some (j_nat lo)"
    "j_get ''max'' (temperature_number st f c lo hi unit) = Some (j_nat hi)"
  using assms by (simp_all add: temperature_number_def j_set_all_def Let_def)

lemma temperature_number_get_F:
  assumes "eq_ignore_ascii_case unit ''F''"
  shows "j_get ''command_topic'' (temperature_number st f c lo hi unit) = Some (JStr c)"
    "j_get ''value_template'' (temperature_number st f c lo hi unit) = Some (JStr (to_fahrenheit_template f))"
    "j_get ''command_template'' (temperature_number st f c lo hi unit) = Some (JStr to_celsius_template)"
    "j_get ''min'' (temperature_number st f c lo hi unit) = Some (j_float (f64_ceil (to_fahrenheit lo)))"
    "j_get ''max'' (temperature_number st f c lo hi unit) = Some (j_float (f64_floor (to_fahrenheit hi)))"
  using assms by (simp_all add: temperature_number_def j_set_all_def Let_def to_fahrenheit_template_def
    to_celsius_template_def value_get_def)

text \<open>An entity of the manual cook is one of its selects or numbers, or has no command of that kind.\<close>

lemma manual_controls_fields:
  assumes "e \<in> set (manual_controls t unit)"
    and "j_get ''command_topic'' (en_fields e) = Some (JStr (command t (''manual/'' @ field)))"
  obtains os where "(field, os) \<in> set manual_choices" "en_fields e = manual_select t field os"
  | c k lo hi x where "(c, k, lo, hi) \<in> set manual_numbers"
      "en_fields e = manual_number t k c lo hi (JObj [(''unit_of_measurement'', x)])"
  | c k lo hi where "(c, k, lo, hi) \<in> set manual_numbers" "(lo, hi) \<in> {(25, 250), (1, 100)}"
      "en_fields e = temperature_number (manual_topic t) k (command t (''manual/'' @ c)) lo hi unit"
proof -
  let ?cmd = "j_get ''command_topic'' (en_fields e)"
  from assms(1) consider
    "en_fields e = manual_select t ''mode'' MODES"
  | "en_fields e = manual_select t ''elements'' ELEMENTS"
  | "en_fields e = manual_select t ''preheat'' PREHEATS"
  | "en_fields e = manual_select t ''ends'' ENDS"
  | "en_fields e = manual_select t ''at_end'' AT_END"
  | "en_fields e = manual_number t ''steam_pct'' ''steam'' 0 100 (JObj [(''unit_of_measurement'', JStr ''%'')])"
  | "en_fields e = manual_number t ''timer_mins'' ''timer'' 1 1440 (JObj [(''unit_of_measurement'', JStr ''min'')])"
  | "en_fields e = temperature_number (manual_topic t) ''temperature_c'' (command t ''manual/temperature'') 25 250 unit"
  | "en_fields e = temperature_number (manual_topic t) ''probe_target_c'' (command t ''manual/probe_target'') 1 100 unit"
  | "?cmd = None \<or> ?cmd = Some (JStr (command t ''start_manual''))"
    unfolding manual_controls_def by force
  then show thesis
  proof cases
    assume f: "en_fields e = manual_select t ''mode'' MODES"
    with assms(2) have "field = ''mode''" by (simp add: manual_select_get)
    with f show thesis by (intro that(1) [of MODES]) (simp_all add: manual_choices_def)
  next
    assume f: "en_fields e = manual_select t ''elements'' ELEMENTS"
    with assms(2) have "field = ''elements''" by (simp add: manual_select_get)
    with f show thesis by (intro that(1) [of ELEMENTS]) (simp_all add: manual_choices_def)
  next
    assume f: "en_fields e = manual_select t ''preheat'' PREHEATS"
    with assms(2) have "field = ''preheat''" by (simp add: manual_select_get)
    with f show thesis by (intro that(1) [of PREHEATS]) (simp_all add: manual_choices_def)
  next
    assume f: "en_fields e = manual_select t ''ends'' ENDS"
    with assms(2) have "field = ''ends''" by (simp add: manual_select_get)
    with f show thesis by (intro that(1) [of ENDS]) (simp_all add: manual_choices_def)
  next
    assume f: "en_fields e = manual_select t ''at_end'' AT_END"
    with assms(2) have "field = ''at_end''" by (simp add: manual_select_get)
    with f show thesis by (intro that(1) [of AT_END]) (simp_all add: manual_choices_def)
  next
    assume "en_fields e = manual_number t ''steam_pct'' ''steam'' 0 100 (JObj [(''unit_of_measurement'', JStr ''%'')])"
    then show thesis by (rule that(2) [rotated]) (simp add: manual_numbers_def)
  next
    assume "en_fields e = manual_number t ''timer_mins'' ''timer'' 1 1440 (JObj [(''unit_of_measurement'', JStr ''min'')])"
    then show thesis by (rule that(2) [rotated]) (simp add: manual_numbers_def)
  next
    assume "en_fields e = temperature_number (manual_topic t) ''temperature_c'' (command t ''manual/temperature'') 25 250 unit"
    then show thesis
      by (intro that(3) [of "''temperature''" "''temperature_c''" 25 250]) (simp_all add: manual_numbers_def)
  next
    assume "en_fields e = temperature_number (manual_topic t) ''probe_target_c'' (command t ''manual/probe_target'') 1 100 unit"
    then show thesis
      by (intro that(3) [of "''probe_target''" "''probe_target_c''" 1 100]) (simp_all add: manual_numbers_def)
  next
    assume "?cmd = None \<or> ?cmd = Some (JStr (command t ''start_manual''))"
    with assms(2) show thesis by auto
  qed
qed

lemma manual_control_cases:
  assumes e: "e \<in> set (entities t opts unit)"
    and cmd: "j_get ''command_topic'' (en_fields e) = Some (JStr (command t (''manual/'' @ field)))"
  obtains os where "(field, os) \<in> set manual_choices" "j_get ''options'' (en_fields e) = Some (JArr (map JStr os))"
      "reads_key (j_get ''value_template'' (en_fields e)) field"
  | key lo hi where "(field, key, lo, hi) \<in> set manual_numbers" "j_get ''command_template'' (en_fields e) = None"
      "reads_key (j_get ''value_template'' (en_fields e)) key"
      "j_get ''min'' (en_fields e) = Some (j_nat lo)" "j_get ''max'' (en_fields e) = Some (j_nat hi)"
  | key lo hi n0 n1 where "eq_ignore_ascii_case unit ''F''" "(field, key, lo, hi) \<in> set manual_numbers"
      "(lo, hi, n0, n1) \<in> {(25, 250, 77, 482), (1, 100, 34, 212)}"
      "j_get ''command_template'' (en_fields e) = Some (JStr to_celsius_template)"
      "j_get ''value_template'' (en_fields e) = Some (JStr (to_fahrenheit_template key))"
      "j_get ''min'' (en_fields e) = Some (JFloat (f64_of_nat n0))"
      "j_get ''max'' (en_fields e) = Some (JFloat (f64_of_nat n1))"
proof -
  have "e \<notin> set (sensors t)"
    using cmd by (auto simp: sensors_def reading_def j_set_all_def celsius_def)
  moreover have "e \<notin> set (binary_sensors t)"
    using cmd by (auto simp: binary_sensors_def on_off_def Let_def)
  moreover have "e \<notin> set (recipe_controls t os)" for os
    using cmd by (auto simp: recipe_controls_def)
  moreover have "e \<notin> set (milestone_event t)" using cmd by (auto simp: milestone_event_def)
  moreover have "e \<notin> set (local_controls t unit)"
    using cmd by (auto simp: local_controls_def temperature_number_def Let_def j_set_all_def)
  ultimately have "e \<in> set (manual_controls t unit)" using e by (auto simp: entities_def)
  from this cmd show thesis
  proof (rule manual_controls_fields, goal_cases)
    case (1 os)
    then have "list_all (\<lambda>c. c \<noteq> CHR ''('') field" by (auto simp: manual_choices_def)
    with 1 show thesis by (intro that(1)) (auto simp: manual_select_get reads_key_def)
  next
    case (2 c k lo hi x)
    then have "c = field" using cmd by (simp add: manual_number_get)
    moreover have "list_all (\<lambda>c. c \<noteq> CHR ''('') k" using 2 by (auto simp: manual_numbers_def)
    ultimately show thesis using 2 by (intro that(2)) (auto simp: manual_number_get reads_key_def)
  next
    case (3 c k lo hi)
    show thesis
    proof (cases "eq_ignore_ascii_case unit ''F''")
      case False
      with 3 cmd show thesis by (intro that(2)) (auto simp: temperature_number_get reads_key_def)
    next
      case True
      then have c: "c = field" using 3 cmd by (simp add: temperature_number_get_F)
      from 3(2) have "\<exists>n0 n1. (lo, hi, n0, n1) \<in> {(25, 250, 77, 482), (1, 100, 34, 212)} \<and>
          j_float (f64_ceil (to_fahrenheit lo)) = JFloat (f64_of_nat n0) \<and>
          j_float (f64_floor (to_fahrenheit hi)) = JFloat (f64_of_nat n1)"
        by (auto simp: fahrenheit_limits j_float_def f64_of_nat_def simp del: One_nat_def)
      with True 3 c show thesis by (elim exE conjE) (rule that(3), auto simp: temperature_number_get_F)
    qed
  qed
qed

text \<open>Setting and showing, field by field.\<close>

lemma draft_set_fields:
  "draft_set ''temperature'' p d =
     assign (number p 25 250 ''temperature'') (\<lambda>v d. d\<lparr>df_temperature_c := f64_to_f32 v\<rparr>) d"
  "draft_set ''mode'' p d =
     assign (choice p MODES) (\<lambda>i d. d\<lparr>df_mode := i\<rparr>) d"
  "draft_set ''steam'' p d =
     assign (number p 0 100 ''steam'') (\<lambda>v d. d\<lparr>df_steam_pct := f64_to_f32 v\<rparr>) d"
  "draft_set ''elements'' p d =
     assign (choice p ELEMENTS) (\<lambda>i d. d\<lparr>df_elements := i\<rparr>) d"
  "draft_set ''preheat'' p d =
     assign (choice p PREHEATS) (\<lambda>i d. d\<lparr>df_preheat := i\<rparr>) d"
  "draft_set ''ends'' p d =
     assign (choice p ENDS) (\<lambda>i d. d\<lparr>df_ends := i\<rparr>) d"
  "draft_set ''timer'' p d =
     assign (number p 1 1440 ''timer'') (\<lambda>v d. d\<lparr>df_timer_mins := float_to_word (f64_nearest v)\<rparr>) d"
  "draft_set ''probe_target'' p d =
     assign (number p 1 100 ''probe target'') (\<lambda>v d. d\<lparr>df_probe_target_c := f64_to_f32 v\<rparr>) d"
  "draft_set ''at_end'' p d =
     assign (choice p AT_END) (\<lambda>i d. d\<lparr>df_at_end := i\<rparr>) d"
  unfolding draft_set_def by simp_all

lemma draft_state_fields:
  "j_get ''temperature_c'' (draft_state upper debug u d un) = Some (j_float (df_temperature_c d))"
  "j_get ''mode'' (draft_state upper debug u d un) = Some (JStr (MODES ! df_mode d))"
  "j_get ''steam_pct'' (draft_state upper debug u d un) = Some (j_float (df_steam_pct d))"
  "j_get ''elements'' (draft_state upper debug u d un) = Some (JStr (ELEMENTS ! df_elements d))"
  "j_get ''preheat'' (draft_state upper debug u d un) = Some (JStr (PREHEATS ! df_preheat d))"
  "j_get ''ends'' (draft_state upper debug u d un) = Some (JStr (ENDS ! df_ends d))"
  "j_get ''timer_mins'' (draft_state upper debug u d un) = Some (j_nat (unat (df_timer_mins d)))"
  "j_get ''probe_target_c'' (draft_state upper debug u d un) = Some (j_float (df_probe_target_c d))"
  "j_get ''at_end'' (draft_state upper debug u d un) = Some (JStr (AT_END ! df_at_end d))"
  unfolding draft_state_def by simp_all

lemma assign_Inr: "x = Inr v \<Longrightarrow> assign x put d = (Inr (), put v d)"
  by (simp add: assign_def)

text \<open>What the state shows at a key after a message was set, if the server accepted it.\<close>

definition shown_after ::
  "(string \<Rightarrow> string) \<Rightarrow> (StoreError \<Rightarrow> string) \<Rightarrow> (nat \<Rightarrow> string) \<Rightarrow> string \<Rightarrow> Draft \<Rightarrow> string \<Rightarrow> string \<Rightarrow> string \<Rightarrow> Json option" where
  "shown_after upper debug u un d field msg key =
     (case draft_set field msg d of
        (Inl _, _) \<Rightarrow> None
      | (Inr _, d') \<Rightarrow> j_get key (draft_state upper debug u d' un))"

lemma choice_round_trip:
  assumes "(field, os) \<in> set manual_choices" "opt \<in> set os"
  shows "shown_after upper debug u un d field opt field = Some (JStr opt)"
proof -
  have "distinct os" using assms(1)
    by (auto simp: manual_choices_def MODES_def ELEMENTS_def PREHEATS_def ENDS_def AT_END_def)
  with assms(2) obtain i where i: "choice opt os = Inr i" "os ! i = opt"
    using choice_nth by (metis in_set_conv_nth)
  from assms(1) show ?thesis
    unfolding manual_choices_def list.set insert_iff empty_iff prod.inject
    by (elim disjE conjE FalseE)
      (use i in \<open>simp_all add: shown_after_def draft_set_fields assign_Inr draft_state_fields\<close>)
qed

lemma number_accepted:
  assumes "(field, key, lo, hi) \<in> set manual_numbers" "parse_f64 msg = Some x" "in_range lo hi x"
  shows "shown_after upper debug u un d field msg key =
      Some (if key = ''timer_mins'' then j_nat (unat (float_to_word (f64_nearest x) :: u32)) else JFloat (f64_to_f32 x))"
proof -
  have num: "number msg lo hi w = Inr x" for w using assms(2,3) by (simp add: number_Inr)
  have "hi < 2 ^ 24" using assms(1) by (auto simp: manual_numbers_def)
  then have "in_range lo hi (f64_to_f32 x)" using assms(3) by (intro in_range_f64_to_f32)
  then have j: "j_float (f64_to_f32 x) = JFloat (f64_to_f32 x)"
    by (rule in_range_finite) (simp add: j_float_def)
  from assms(1) show ?thesis unfolding manual_numbers_def list.set insert_iff empty_iff prod.inject
    by (elim disjE conjE FalseE)
      (use num j in \<open>simp_all add: shown_after_def draft_set_fields assign_Inr draft_state_fields\<close>)
qed

lemma number_round_trip:
  assumes "(field, key, lo, hi) \<in> set manual_numbers" "lo \<le> n" "n \<le> hi" "tail \<in> {[], ''.0''}"
  shows "\<exists>v. shown_after upper debug u un d field (show_nat n @ tail) key = Some v \<and>
     (v = j_nat n \<or> (\<exists>x. v = JFloat x \<and> in_range n n x))"
proof -
  have hi: "hi \<le> 1440" using assms(1) by (auto simp: manual_numbers_def)
  with assms(3,4) obtain x where x: "parse_f64 (show_nat n @ tail) = Some x" "in_range n n x"
    using parse_float_exact(1) [of n tail] by auto
  have f: "in_range n n (f64_to_f32 x)" using in_range_f64_to_f32 [OF x(2)] assms(3) hi by simp
  have t: "unat (float_to_word (f64_nearest x) :: u32) = n"
    using nearest_in_range [OF x(2)] assms(3) hi by simp
  from number_accepted [OF assms(1) x(1) in_range_mono [OF x(2) assms(2,3)]] f t show ?thesis by auto
qed

lemma fahrenheit_round_trip:
  assumes "(field, key, lo, hi) \<in> set manual_numbers" "(lo, hi, n0, n1) \<in> {(25, 250, 77, 482), (1, 100, 34, 212)}"
    and "n0 \<le> n" "n \<le> n1" "parse_f64 msg = Some y" "fval y = fval (celsius_of n)"
  shows "\<exists>x q. shown_after upper debug u un d field msg key = Some (JFloat x) \<and>
     fval (fahrenheit_of x) = Some q \<and> \<bar>q - of_nat n\<bar> \<le> 1 / 100"
proof -
  have "in_range lo hi y" using celsius_of_in_range [OF assms(2,3,4)] assms(6) by (simp add: in_range_val)
  moreover have "key \<noteq> ''timer_mins''" using assms(1,2) by (auto simp: manual_numbers_def)
  moreover have "34 \<le> n" "n \<le> 482" using assms(2,3,4) by auto
  ultimately show ?thesis
    using number_accepted [OF assms(1,5)] fahrenheit_survives [OF assms(6)] by auto
qed

text \<open>
  C39: Home Assistant's controls for the manual cook fit the server, in both units. Every control
  whose command topic is one of the manual cook's is a select, a number box in the server's own
  unit, or, where the configured unit is Fahrenheit, a temperature box in degrees Fahrenheit. Every
  option a select offers is accepted on the control's command topic, and the state the control reads
  shows it afterwards. So is every whole number within the bounds of a number box, which is shown as
  that number. For a box in Fahrenheit, Home Assistant sends the degrees Celsius its command template
  computes in doubles, printed so that they parse as that double: for every whole number of degrees
  within the bounds it is accepted, and what the value template computes of the number the state
  then shows is within a hundredth of that number of degrees, which it rounds to.
\<close>

theorem manual_controls_round_trip:
  assumes "e \<in> set (entities t opts unit)"
    and "j_get ''command_topic'' (en_fields e) = Some (JStr (command t (''manual/'' @ field)))"
  shows "(\<exists>key os. reads_key (j_get ''value_template'' (en_fields e)) key \<and>
      j_get ''options'' (en_fields e) = Some (JArr (map JStr os)) \<and>
      (\<forall>opt \<in> set os. shown_after upper debug u unit d field opt key = Some (JStr opt))) \<or>
    (\<exists>key lo hi. reads_key (j_get ''value_template'' (en_fields e)) key \<and>
      j_get ''command_template'' (en_fields e) = None \<and>
      j_get ''min'' (en_fields e) = Some (j_nat lo) \<and> j_get ''max'' (en_fields e) = Some (j_nat hi) \<and> lo < hi \<and>
      (\<forall>n \<in> {lo..hi}. \<forall>tail \<in> {[], ''.0''}. \<exists>v.
         shown_after upper debug u unit d field (show_nat n @ tail) key = Some v \<and>
         (v = j_nat n \<or> (\<exists>x. v = JFloat x \<and> in_range n n x)))) \<or>
    (\<exists>key lo hi. eq_ignore_ascii_case unit ''F'' \<and>
      j_get ''value_template'' (en_fields e) = Some (JStr (to_fahrenheit_template key)) \<and>
      j_get ''command_template'' (en_fields e) = Some (JStr to_celsius_template) \<and>
      j_get ''min'' (en_fields e) = Some (JFloat (f64_of_nat lo)) \<and>
      j_get ''max'' (en_fields e) = Some (JFloat (f64_of_nat hi)) \<and> lo < hi \<and>
      (\<forall>n \<in> {lo..hi}. \<forall>msg y. parse_f64 msg = Some y \<and> fval y = fval (celsius_of n) \<longrightarrow>
         (\<exists>x q. shown_after upper debug u unit d field msg key = Some (JFloat x) \<and>
            fval (fahrenheit_of x) = Some q \<and> \<bar>q - of_nat n\<bar> \<le> 1 / 100)))"
    (is "?S \<or> ?N \<or> ?F")
  using assms
proof (rule manual_control_cases)
  fix os
  assume "(field, os) \<in> set manual_choices" "j_get ''options'' (en_fields e) = Some (JArr (map JStr os))"
    "reads_key (j_get ''value_template'' (en_fields e)) field"
  then have ?S using choice_round_trip by blast
  then show ?thesis ..
next
  fix key lo hi
  assume *: "(field, key, lo, hi) \<in> set manual_numbers" and "j_get ''command_template'' (en_fields e) = None"
    "reads_key (j_get ''value_template'' (en_fields e)) key"
    "j_get ''min'' (en_fields e) = Some (j_nat lo)" "j_get ''max'' (en_fields e) = Some (j_nat hi)"
  moreover have "lo < hi" using * by (auto simp: manual_numbers_def)
  ultimately have ?N using number_round_trip [OF *] by (intro exI [of _ key] exI [of _ lo] exI [of _ hi] conjI ballI) simp_all
  then show ?thesis by blast
next
  fix key lo hi n0 n1
  assume *: "(field, key, lo, hi) \<in> set manual_numbers" "(lo, hi, n0, n1) \<in> {(25, 250, 77, 482), (1, 100, 34, 212)}"
    and "eq_ignore_ascii_case unit ''F''" "j_get ''command_template'' (en_fields e) = Some (JStr to_celsius_template)"
    "j_get ''value_template'' (en_fields e) = Some (JStr (to_fahrenheit_template key))"
    "j_get ''min'' (en_fields e) = Some (JFloat (f64_of_nat n0))" "j_get ''max'' (en_fields e) = Some (JFloat (f64_of_nat n1))"
  moreover have "n0 < n1" using *(2) by auto
  ultimately have ?F using fahrenheit_round_trip [OF *] by (intro exI [of _ key] exI [of _ n0] exI [of _ n1] conjI ballI allI impI) simp_all
  then show ?thesis by blast
qed

text \<open>A box in Fahrenheit, set to 77 degrees.\<close>

theorem manual_controls_round_trip_witness:
  "\<exists>x q. shown_after (\<lambda>c. c) (\<lambda>_. '''') show_nat ''F'' draft_default ''temperature'' ''25.0'' ''temperature_c'' = Some (JFloat x) \<and>
     fval (fahrenheit_of x) = Some q \<and> \<bar>q - 77\<bar> \<le> 1 / 100"
proof -
  let ?t = "\<lparr>tp_prefix = ''anova/oven'', tp_discovery = ''homeassistant''\<rparr>"
  define e where "e = \<lparr>en_component = ''number'', en_object = ''manual_temperature'', en_name = ''Manual temperature'',
     en_local_only = False, en_needs = NdServer, en_fields = temperature_number (manual_topic ?t) ''temperature_c''
       (command ?t ''manual/temperature'') 25 250 ''F''\<rparr>"
  have F: "eq_ignore_ascii_case ''F'' ''F''" by code_simp
  have 1: "e \<in> set (entities ?t [] ''F'')" by (simp add: e_def entities_def manual_controls_def)
  have 2: "j_get ''command_topic'' (en_fields e) = Some (JStr (command ?t (''manual/'' @ ''temperature'')))"
    by (simp add: e_def temperature_number_get_F [OF F])
  have fields: "j_get ''value_template'' (en_fields e) = Some (JStr (to_fahrenheit_template ''temperature_c''))"
    "j_get ''command_template'' (en_fields e) = Some (JStr to_celsius_template)"
    "j_get ''min'' (en_fields e) = Some (JFloat (f64_of_nat 77))" "j_get ''max'' (en_fields e) = Some (JFloat (f64_of_nat 482))"
    by (simp_all add: e_def temperature_number_get_F [OF F] fahrenheit_limits j_float_def f64_of_nat_def)
  have opts: "j_get ''options'' (en_fields e) = None"
    by (simp add: e_def temperature_number_def j_set_all_def Let_def F)
  obtain y where "parse_f64 (show_nat 25 @ ''.0'') = Some y" "in_range 25 25 y"
    using parse_float_exact(1) [of 25 "''.0''"] by auto
  moreover have "show_nat 25 @ ''.0'' = ''25.0''" by code_simp
  ultimately have y: "parse_f64 ''25.0'' = Some y" "fval y = fval (celsius_of 77)"
    by (auto simp: in_range_val celsius_of_ends)
  have key: "key = ''temperature_c''" if "to_fahrenheit_template key = to_fahrenheit_template ''temperature_c''" for key
    using that by (simp add: to_fahrenheit_template_def quote_def)
  have "\<exists>key. to_fahrenheit_template key = to_fahrenheit_template ''temperature_c'' \<and>
      (\<forall>n \<in> {77..482}. \<forall>msg y. parse_f64 msg = Some y \<and> fval y = fval (celsius_of n) \<longrightarrow>
        (\<exists>x q. shown_after (\<lambda>c. c) (\<lambda>_. '''') show_nat ''F'' draft_default ''temperature'' msg key = Some (JFloat x) \<and>
          fval (fahrenheit_of x) = Some q \<and> \<bar>q - of_nat n\<bar> \<le> 1 / 100))"
    using manual_controls_round_trip [OF 1 2, of "\<lambda>c. c" "\<lambda>_. ''''" show_nat draft_default]
    unfolding fields opts by (auto simp: f64_of_nat_def)
  then obtain key where k: "to_fahrenheit_template key = to_fahrenheit_template ''temperature_c''" and
    all: "\<forall>n \<in> {77..482}. \<forall>msg y. parse_f64 msg = Some y \<and> fval y = fval (celsius_of n) \<longrightarrow>
        (\<exists>x q. shown_after (\<lambda>c. c) (\<lambda>_. '''') show_nat ''F'' draft_default ''temperature'' msg key = Some (JFloat x) \<and>
          fval (fahrenheit_of x) = Some q \<and> \<bar>q - of_nat n\<bar> \<le> 1 / 100)" by blast
  have "77 \<in> {77..482 :: nat}" by simp
  from all [rule_format, OF this conjI [OF y]] show ?thesis unfolding key [OF k] by simp
qed

end
