(* ===== verification/Mqtt.thy ===== *)
theory Mqtt
  imports Discovery State_Machine
begin

text \<open>
  The MQTT processor (\<open>processors/mqtt.rs\<close>): what it publishes on each connect, change, command and
  failure, and the commands it gives the state machine. The client (\<open>rumqttc\<close>) is a sink: a
  publish that fails is only logged. Printing and reading JSON (\<open>serde_json\<close> and the derived
  conversions), the text of a timestamp (\<open>jiff\<close>) and Unicode's tables are parameters. What the
  processor borrows from its watches and \<open>Liveness\<close> is the input of a change, and the state machine's
  reply is an input of a command. UUIDs come from a function that each event brings along.
\<close>

section \<open>Configuration\<close>

record MqttConfig =
  mc_url :: string
  mc_username :: "string option"
  mc_password :: "string option"
  mc_topics :: Topics
  mc_local :: bool

definition from_env :: "(string \<Rightarrow> string option) \<Rightarrow> bool \<Rightarrow> MqttConfig option" where
  "from_env var is_local =
     (case var ''ANOVA_MQTT_URL'' of
        None \<Rightarrow> None
      | Some url \<Rightarrow> Some
          \<lparr>mc_url = url,
           mc_username = var ''ANOVA_MQTT_USERNAME'',
           mc_password = var ''ANOVA_MQTT_PASSWORD'',
           mc_topics =
             \<lparr>tp_prefix = (case var ''ANOVA_MQTT_TOPIC_PREFIX'' of Some p \<Rightarrow> p | None \<Rightarrow> ''anova/oven''),
              tp_discovery = (case var ''ANOVA_MQTT_DISCOVERY_PREFIX'' of Some p \<Rightarrow> p | None \<Rightarrow> ''homeassistant'')\<rparr>,
           mc_local = is_local\<rparr>)"

text \<open>\<open>str::parse::<u16>\<close>: an optional plus, then digits.\<close>

definition parse_u16 :: "string \<Rightarrow> nat option" where
  "parse_u16 s =
     (let ds = (case s of c # cs \<Rightarrow> if c = CHR ''+'' then cs else s | [] \<Rightarrow> [])
      in if ds \<noteq> [] \<and> list_all is_digit ds \<and> read_nat_acc 0 ds < 2 ^ 16 then Some (read_nat_acc 0 ds) else None)"

text \<open>\<open>rsplit_once(':')\<close>.\<close>

definition rsplit_colon :: "string \<Rightarrow> (string \<times> string) option" where
  "rsplit_colon s =
     (let after = takeWhile (\<lambda>c. c \<noteq> CHR '':'') (rev s); before = dropWhile (\<lambda>c. c \<noteq> CHR '':'') (rev s)
      in case before of [] \<Rightarrow> None | _ # b \<Rightarrow> Some (rev b, rev after))"

definition broker_address :: "string \<Rightarrow> string + (string \<times> nat)" where
  "broker_address url =
     (case (case strip_prefix ''mqtt://'' url of Some r \<Rightarrow> Some r | None \<Rightarrow> strip_prefix ''tcp://'' url) of
        None \<Rightarrow> Inl (''`'' @ url @ ''` must start with mqtt:// (mqtts:// isn't supported yet)'')
      | Some rest \<Rightarrow>
          (let authority = takeWhile (\<lambda>c. c \<noteq> CHR ''/'' \<and> c \<noteq> CHR ''?'') rest
           in if authority = [] \<or> CHR ''@'' \<in> set authority
              then Inl (''`'' @ url @ ''` needs a host, and credentials go in ANOVA_MQTT_USERNAME/PASSWORD'')
              else
                (case rsplit_colon authority of
                   Some (host, port) \<Rightarrow>
                     (case parse_u16 port of
                        Some n \<Rightarrow> Inr (host, n) | None \<Rightarrow> Inl (''bad port in `'' @ url @ ''`''))
                 | None \<Rightarrow> Inr (authority, 1883))))"

text \<open>The client's options: those the code sets.\<close>

record ClientOptions =
  co_client_id :: string
  co_address :: "string \<times> nat"
  co_credentials :: "(string \<times> string) option"
  co_keep_alive_secs :: nat
  co_max_packet :: "nat \<times> nat"
  co_last_will :: "string \<times> string \<times> bool"     \<comment> \<open>topic, payload, retained\<close>

definition client_options :: "MqttConfig \<Rightarrow> string + ClientOptions" where
  "client_options c =
     (case broker_address (mc_url c) of
        Inl e \<Rightarrow> Inl e
      | Inr address \<Rightarrow> Inr
          \<lparr>co_client_id = ''anova-oven-server'', co_address = address,
           co_credentials =
             (case (mc_username c, mc_password c) of (Some u, Some p) \<Rightarrow> Some (u, p) | _ \<Rightarrow> None),
           co_keep_alive_secs = 30, co_max_packet = (256 * 1024, 256 * 1024),
           co_last_will = (availability (mc_topics c), ''offline'', True)\<rparr>)"

section \<open>The client's event loop\<close>

definition MAX_BACKOFF :: nat where "MAX_BACKOFF = 60"

datatype Polled = PConnAck | PPublish string string | POther | PError

datatype Incoming = Connected | Command string string

text \<open>One turn of \<open>drive\<close>: what it hands on, how long it sleeps, and the next backoff, in seconds.\<close>

fun drive :: "Polled \<Rightarrow> nat \<Rightarrow> Incoming option \<times> nat \<times> nat" where
  "drive PConnAck backoff = (Some Connected, 0, 1)"
| "drive (PPublish topic body) backoff = (Some (Command topic body), 0, backoff)"
| "drive POther backoff = (None, 0, backoff)"
| "drive PError backoff = (None, backoff, min (backoff * 2) MAX_BACKOFF)"

section \<open>The processor\<close>

record MqttEnv =
  to_upper :: "string \<Rightarrow> string"
  store_debug :: "StoreError \<Rightarrow> string"
  render :: "Json \<Rightarrow> string"                                    \<comment> \<open>\<open>to_string\<close>\<close>
  parse_json :: "string \<Rightarrow> Json option"                         \<comment> \<open>\<open>from_str::<Value>\<close>\<close>
  parse_manual_start :: "string \<Rightarrow> (string option \<times> Stage list) option"  \<comment> \<open>\<open>from_str::<ManualStart>\<close>\<close>
  status_json :: "OvenStatus \<Rightarrow> Json"                           \<comment> \<open>\<open>to_value(status)\<close>\<close>
  timestamp_text :: "int \<Rightarrow> string option"                      \<comment> \<open>\<open>Timestamp::from_second(s)\<close>, printed\<close>
  utf8_lossy :: "string \<Rightarrow> string"                              \<comment> \<open>\<open>String::from_utf8_lossy\<close>\<close>

text \<open>What a change looks at.\<close>

record Sources =
  so_model :: ReadModel
  so_progress :: "CookProgress option"
  so_connected :: bool
  so_disconnected_secs :: u64
  so_oven_offline_secs :: "u64 option"
  so_now :: int

record Processor =
  mp_topics :: Topics
  mp_local :: bool
  mp_recipes :: "Recipe list"
  mp_options :: "(string \<times> string) list"
  mp_selected :: "string option"
  mp_manual :: Draft
  mp_last_manual :: "string option"
  mp_last_state :: "string option"
  mp_unit :: "string option"
  mp_discovered_unit :: "string option"
  mp_last_snapshot :: "Snapshot option"
  mp_next_stage_ready :: "bool option"

definition processor_new :: "MqttConfig \<Rightarrow> Processor" where
  "processor_new c =
     \<lparr>mp_topics = mc_topics c, mp_local = mc_local c, mp_recipes = [], mp_options = [], mp_selected = None,
      mp_manual = draft_default, mp_last_manual = None, mp_last_state = None, mp_unit = None,
      mp_discovered_unit = None, mp_last_snapshot = None, mp_next_stage_ready = None\<rparr>"

datatype Out =
  Publish string bool string          \<comment> \<open>topic, retained, payload\<close>
| Subscribe string
| Send StateMachineCommand

text \<open>An operation gives what it sends and the processor after it.\<close>

type_synonym op = "Processor \<Rightarrow> Out list \<times> Processor"

definition andthen :: "op \<Rightarrow> op \<Rightarrow> op" where
  "andthen f g p = (let (o1, p) = f p; (o2, p) = g p in (o1 @ o2, p))"

definition tells :: "(Processor \<Rightarrow> Out list) \<Rightarrow> op" where "tells f p = (f p, p)"

definition changes :: "(Processor \<Rightarrow> Processor) \<Rightarrow> op" where "changes f p = ([], f p)"

definition only_if :: "(Processor \<Rightarrow> bool) \<Rightarrow> op \<Rightarrow> op" where "only_if c f p = (if c p then f p else ([], p))"

definition unit_of :: "Processor \<Rightarrow> string" where
  "unit_of p = (case mp_unit p of Some u \<Rightarrow> u | None \<Rightarrow> ''C'')"

definition titles :: "Processor \<Rightarrow> string list" where "titles p = map fst (mp_options p)"

definition publish_discovery :: "MqttEnv \<Rightarrow> op" where
  "publish_discovery env =
     andthen
       (tells (\<lambda>p. map (\<lambda>(topic, pl). Publish topic True pl)
          (configs (render env) (mp_topics p) (mp_local p) (titles p) (unit_of p))))
       (changes (\<lambda>p. p\<lparr>mp_discovered_unit := Some (unit_of p)\<rparr>))"

text \<open>The selected recipe with its option, if both are there.\<close>

definition selected_recipe :: "Processor \<Rightarrow> (string \<times> Recipe) option" where
  "selected_recipe p =
     (case mp_selected p of
        None \<Rightarrow> None
      | Some i \<Rightarrow>
          (case find (\<lambda>(_, j). j = i) (mp_options p) of
             None \<Rightarrow> None
           | Some (title, _) \<Rightarrow>
               (case find (\<lambda>r. rc_id r = i) (mp_recipes p) of None \<Rightarrow> None | Some r \<Rightarrow> Some (title, r))))"

definition selected_texts :: "MqttEnv \<Rightarrow> Processor \<Rightarrow> string \<times> string" where
  "selected_texts env p =
     (case selected_recipe p of
        Some (title, r) \<Rightarrow> (title, render env (attributes (to_upper env) r (unit_of p)))
      | None \<Rightarrow> (''No recipes'', render env (JObj [])))"

definition publish_selected :: "MqttEnv \<Rightarrow> op" where
  "publish_selected env = tells (\<lambda>p.
     [Publish (selected_topic (mp_topics p)) True (fst (selected_texts env p)),
      Publish (selected_attributes (mp_topics p)) True (snd (selected_texts env p))])"

definition reselect :: "Processor \<Rightarrow> Processor" where
  "reselect p =
     (if (case mp_selected p of Some i \<Rightarrow> \<exists>(_, j) \<in> set (mp_options p). j = i | None \<Rightarrow> False) then p
      else p\<lparr>mp_selected := (case mp_options p of [] \<Rightarrow> None | (_, i) # _ \<Rightarrow> Some i)\<rparr>)"

definition publish_recipes :: "MqttEnv \<Rightarrow> op" where
  "publish_recipes env =
     andthen (changes reselect)
       (andthen
         (tells (\<lambda>p. [Publish (recipes_topic (mp_topics p)) True (render env (JArr (map JStr (titles p))))]))
         (publish_selected env))"

definition manual_text :: "MqttEnv \<Rightarrow> (nat \<Rightarrow> string) \<Rightarrow> Processor \<Rightarrow> string" where
  "manual_text env u p =
     render env (draft_state (to_upper env) (store_debug env) u (mp_manual p) (unit_of p))"

definition publish_manual :: "MqttEnv \<Rightarrow> (nat \<Rightarrow> string) \<Rightarrow> op" where
  "publish_manual env u =
     only_if (\<lambda>p. mp_last_manual p \<noteq> Some (manual_text env u p))
       (andthen (tells (\<lambda>p. [Publish (manual_topic (mp_topics p)) True (manual_text env u p)]))
          (changes (\<lambda>p. p\<lparr>mp_last_manual := Some (manual_text env u p)\<rparr>)))"

section \<open>Changes\<close>

definition state_json :: "MqttEnv \<Rightarrow> int \<Rightarrow> OvenStatus option \<Rightarrow> CurrentCook option \<Rightarrow> bool \<Rightarrow> Json" where
  "state_json env now status cook conn =
     (case status of
        None \<Rightarrow> JObj [(''connected'', JBool conn), (''mode'', JStr ''unknown'')]
      | Some s \<Rightarrow>
          (let remaining = timer_remaining_secs s
           in j_set_all (status_json env s)
             [(''connected'', JBool conn),
              (''phase'', JStr (phase s)),
              (''recipe_title'', j_opt (\<lambda>c. JStr (display_name c)) cook),
              (''timer_remaining_secs'', j_opt (\<lambda>r. j_nat (unat r)) remaining),
              (''stage_ends_at'', j_opt (\<lambda>r. JStr
                 (case timestamp_text env (sint (word_of_int now + r)) of Some t \<Rightarrow> t | None \<Rightarrow> [])) remaining)]))"

definition seen_status :: "Sources \<Rightarrow> OvenStatus option" where
  "seen_status so = map_option (\<lambda>s. s\<lparr>cook_progress := so_progress so,
       upstream := Some \<lparr>connected = so_connected so, disconnected_secs = so_disconnected_secs so,
                         oven_offline_secs = so_oven_offline_secs so\<rparr>\<rparr>)
     (rm_status (so_model so))"

definition seen_state :: "MqttEnv \<Rightarrow> Sources \<Rightarrow> string" where
  "seen_state env so =
     render env (state_json env (so_now so) (seen_status so) (rm_current_cook (so_model so)) (so_connected so))"

definition seen_snapshot :: "Sources \<Rightarrow> Snapshot" where
  "seen_snapshot so = snapshot_new (seen_status so) (rm_current_cook (so_model so)) (so_connected so)"

definition refresh_recipes :: "MqttEnv \<Rightarrow> Recipe list \<Rightarrow> op" where
  "refresh_recipes env rs p =
     (if options rs \<noteq> mp_options p then
        andthen (changes (\<lambda>p. p\<lparr>mp_recipes := rs, mp_options := options rs\<rparr>))
          (andthen
            (tells (\<lambda>p. case select_config (render env) (mp_topics p) (titles p) of
               (topic, pl) \<Rightarrow> [Publish topic True pl]))
            (publish_recipes env)) p
      else if length rs = length (mp_recipes p) then ([], p\<lparr>mp_recipes := rs\<rparr>)
      else ([], p))"

definition refresh_unit :: "MqttEnv \<Rightarrow> Sources \<Rightarrow> op" where
  "refresh_unit env so =
     (case seen_status so of
        None \<Rightarrow> (\<lambda>p. ([], p))
      | Some s \<Rightarrow>
          andthen (changes (\<lambda>p. p\<lparr>mp_unit := Some (temperature_unit s)\<rparr>))
            (only_if (\<lambda>p. mp_discovered_unit p \<noteq> None \<and> mp_discovered_unit p \<noteq> mp_unit p)
              (publish_discovery env)))"

definition refresh_state :: "MqttEnv \<Rightarrow> Sources \<Rightarrow> bool \<Rightarrow> op" where
  "refresh_state env so force =
     only_if (\<lambda>p. force \<or> mp_last_state p \<noteq> Some (seen_state env so))
       (andthen (tells (\<lambda>p. [Publish (state_topic (mp_topics p)) True (seen_state env so)]))
          (changes (\<lambda>p. p\<lparr>mp_last_state := Some (seen_state env so)\<rparr>)))"

definition refresh_ready :: "Sources \<Rightarrow> bool \<Rightarrow> op" where
  "refresh_ready so force =
     (let ready = (sn_next_stage_ready (seen_snapshot so) \<and> sn_connected (seen_snapshot so)) in
      only_if (\<lambda>p. force \<or> mp_next_stage_ready p \<noteq> Some ready)
        (andthen (tells (\<lambda>p. [Publish (next_stage_availability (mp_topics p)) True
             (if ready then ''online'' else ''offline'')]))
          (changes (\<lambda>p. p\<lparr>mp_next_stage_ready := Some ready\<rparr>))))"

definition event_text :: "MqttEnv \<Rightarrow> Snapshot \<Rightarrow> Snapshot \<Rightarrow> Milestone \<Rightarrow> string" where
  "event_text env prev next m =
     render env (payload (to_upper env) (if describes_previous m then prev else next) (milestone_name m))"

definition announce :: "MqttEnv \<Rightarrow> Snapshot \<Rightarrow> op" where
  "announce env snapshot =
     andthen
       (tells (\<lambda>p. case mp_last_snapshot p of
          None \<Rightarrow> []
        | Some prev \<Rightarrow> map (\<lambda>m. Publish (event_topic (mp_topics p)) False (event_text env prev snapshot m))
            (milestones prev snapshot)))
       (changes (\<lambda>p. p\<lparr>mp_last_snapshot := Some snapshot\<rparr>))"

definition on_change :: "MqttEnv \<Rightarrow> (nat \<Rightarrow> string) \<Rightarrow> Sources \<Rightarrow> bool \<Rightarrow> op" where
  "on_change env u so force =
     andthen (refresh_recipes env (rm_recipes (so_model so)))
       (andthen (refresh_unit env so)
         (andthen (refresh_state env so force)
           (andthen (refresh_ready so force)
             (andthen (announce env (seen_snapshot so)) (publish_manual env u)))))"

definition take_recipes :: "Sources \<Rightarrow> Processor \<Rightarrow> Processor" where
  "take_recipes so p =
     (let p = p\<lparr>mp_recipes := rm_recipes (so_model so), mp_options := options (rm_recipes (so_model so))\<rparr>
      in case rm_status (so_model so) of Some s \<Rightarrow> p\<lparr>mp_unit := Some (temperature_unit s)\<rparr> | None \<Rightarrow> p)"

text \<open>
  \<open>on_connected\<close> looks at the read model twice: for the recipes and the unit, and, after its first
  publishes, in \<open>on_change\<close>.
\<close>

definition on_connected :: "MqttEnv \<Rightarrow> (nat \<Rightarrow> string) \<Rightarrow> Sources \<Rightarrow> Sources \<Rightarrow> op" where
  "on_connected env u so so' =
     andthen (changes (take_recipes so))
       (andthen (publish_discovery env)
         (andthen
           (tells (\<lambda>p. [Publish (availability (mp_topics p)) True ''online'', Subscribe (commands (mp_topics p))]))
           (andthen (publish_recipes env)
             (andthen
               (changes (\<lambda>p. p\<lparr>mp_last_state := None, mp_last_manual := None, mp_next_stage_ready := None\<rparr>))
               (on_change env u so' True)))))"

section \<open>Commands\<close>

definition mqtt_command_failed :: "MqttEnv \<Rightarrow> string \<Rightarrow> string \<Rightarrow> op" where
  "mqtt_command_failed env name reason =
     tells (\<lambda>p. [Publish (event_topic (mp_topics p)) False
       (render env (j_set_all
          (payload (to_upper env) (case mp_last_snapshot p of Some s \<Rightarrow> s | None \<Rightarrow> no_snapshot)
             ''command_failed'')
          [(''command'', JStr name), (''reason'', JStr reason)]))])"

definition control_request :: "string \<Rightarrow> string \<Rightarrow> string + ControlRequest" where
  "control_request name text0 =
     (if name = ''next_stage'' then Inr RqNextStage
      else if name = ''lamp'' then
        (if map to_ascii_uppercase text0 = ''ON'' then Inr (RqLamp True)
         else if map to_ascii_uppercase text0 = ''OFF'' then Inr (RqLamp False)
         else Inl (''lamp wants ON or OFF, not `'' @ text0 @ ''`''))
      else if name = ''timer'' then
        (case parse_f64 text0 of
           Some secs \<Rightarrow>
             if f32_le (F_Fin False 1 0) secs then Inr (RqTimer (float_to_word secs))
             else Inl (''timer wants seconds, not `'' @ text0 @ ''`'')
         | None \<Rightarrow> Inl (''timer wants seconds, not `'' @ text0 @ ''`''))
      else if name = ''temperature'' then
        (case parse_f32 text0 of
           Some c \<Rightarrow>
             if in_range 25 250 c then Inr (RqTemperature c)
             else Inl (''temperature wants 25'' @ en_dash @ ''250 '' @ degree_sign @ ''C, not `'' @ text0 @ ''`'')
         | None \<Rightarrow>
             Inl (''temperature wants 25'' @ en_dash @ ''250 '' @ degree_sign @ ''C, not `'' @ text0 @ ''`''))
      else Inl (''unknown command `'' @ name @ ''`''))"

datatype Reply = ChannelClosed | ReplyDropped | Replied "SmError + unit"

text \<open>\<open>send\<close> and the wait for the reply.\<close>

definition send_command :: "MqttEnv \<Rightarrow> (StateMachineCommand \<Rightarrow> Reply) \<Rightarrow> string \<Rightarrow> StateMachineCommand \<Rightarrow> op" where
  "send_command env answer name cmd =
     (case answer cmd of
        ChannelClosed \<Rightarrow> (\<lambda>p. ([], p))
      | Replied (Inr _) \<Rightarrow> tells (\<lambda>p. [Send cmd])
      | Replied (Inl e) \<Rightarrow> andthen (tells (\<lambda>p. [Send cmd])) (mqtt_command_failed env name (sm_error_message e))
      | ReplyDropped \<Rightarrow>
          andthen (tells (\<lambda>p. [Send cmd])) (mqtt_command_failed env name ''state machine dropped the reply''))"

definition on_command ::
  "MqttEnv \<Rightarrow> (nat \<Rightarrow> string) \<Rightarrow> string \<Rightarrow> string \<Rightarrow> (StateMachineCommand \<Rightarrow> Reply) \<Rightarrow> op" where
  "on_command env u topic body answer p =
     (case strip_prefix (command (mp_topics p) []) topic of
        None \<Rightarrow> ([], p)
      | Some name \<Rightarrow>
          (let text0 = trim (utf8_lossy env body) in
           if name = ''select_recipe'' then
             (case find (\<lambda>(title, _). title = text0) (mp_options p) of
                Some (_, i) \<Rightarrow> andthen (changes (\<lambda>p. p\<lparr>mp_selected := Some i\<rparr>)) (publish_selected env) p
              | None \<Rightarrow> ([], p))
           else if name = ''start'' then
             (case (case Option.bind (Option.bind (parse_json env text0) (j_get ''recipe_id'')) j_as_str of
                      Some i \<Rightarrow> Some i | None \<Rightarrow> mp_selected p) of
                None \<Rightarrow> mqtt_command_failed env ''start'' ''no recipe selected'' p
              | Some i \<Rightarrow> send_command env answer name (StartCook i) p)
           else if name = ''start_manual'' then
             (case (case parse_manual_start env text0 of
                      Some (title, stages) \<Rightarrow> check_manual (store_debug env) u title stages
                    | None \<Rightarrow> draft_recipe (store_debug env) u (mp_manual p)) of
                Inl e \<Rightarrow> mqtt_command_failed env ''start_manual'' e p
              | Inr r \<Rightarrow> send_command env answer name (StartManualCook (rc_title r) (rc_stages r)) p)
           else if starts_with name ''manual/'' then
             (case draft_set (drop (length ''manual/'') name) text0 (mp_manual p) of
                (res, d) \<Rightarrow>
                  andthen (changes (\<lambda>p. p\<lparr>mp_manual := d\<rparr>))
                    (andthen (case res of Inl e \<Rightarrow> mqtt_command_failed env name e | Inr _ \<Rightarrow> (\<lambda>p. ([], p)))
                      (publish_manual env u)) p)
           else if name = ''stop'' then send_command env answer name StopCook p
           else
             (case control_request name text0 of
                Inl e \<Rightarrow> mqtt_command_failed env name e p
              | Inr rq \<Rightarrow> send_command env answer name (Control rq) p)))"

section \<open>The loop\<close>

text \<open>
  The branches of \<open>select!\<close>. Changes of the read model, changes of the progress and the poll do the
  same. \<open>MFailure None\<close> is a lagged failure channel.
\<close>

datatype MqttEvent =
  MIncoming Incoming "Sources \<times> Sources" "StateMachineCommand \<Rightarrow> Reply"
| MChanged Sources
| MFailure "CommandFailure option"

fun mqtt_step :: "MqttEnv \<Rightarrow> (nat \<Rightarrow> string) \<times> MqttEvent \<Rightarrow> op" where
  "mqtt_step env (u, MIncoming Connected (so, so') _) = on_connected env u so so'"
| "mqtt_step env (u, MIncoming (Command topic body) _ answer) = on_command env u topic body answer"
| "mqtt_step env (u, MChanged so) = on_change env u so False"
| "mqtt_step env (u, MFailure (Some f)) = mqtt_command_failed env (cf_command f) (cf_reason f)"
| "mqtt_step env (u, MFailure None) = (\<lambda>p. ([], p))"

text \<open>A run: everything sent, and the processor at the end.\<close>

fun mqtt_run :: "MqttEnv \<Rightarrow> ((nat \<Rightarrow> string) \<times> MqttEvent) list \<Rightarrow> op" where
  "mqtt_run env [] = (\<lambda>p. ([], p))"
| "mqtt_run env (ev # evs) = andthen (mqtt_step env ev) (mqtt_run env evs)"

end
