(* ===== verification/Mqtt_Runs.thy ===== *)
theory Mqtt_Runs
  imports Mqtt
begin

text \<open>
  Runs of the MQTT processor: what the broker's retained topics hold after any of them, what is
  announced of the cooks, and which commands reach the state machine.
\<close>

section \<open>The broker's retained topics\<close>

text \<open>A retained message replaces the topic's, an empty one removes it.\<close>

definition shown :: "string \<Rightarrow> string option" where
  "shown pl = (if pl = [] then None else Some pl)"

fun deliver :: "Out \<Rightarrow> (string \<Rightarrow> string option) \<Rightarrow> (string \<Rightarrow> string option)" where
  "deliver (Publish topic True pl) b = b(topic := shown pl)"
| "deliver _ b = b"

text \<open>An operation on the processor and the broker together.\<close>

definition exec :: "op \<Rightarrow> Processor \<times> (string \<Rightarrow> string option) \<Rightarrow> Processor \<times> (string \<Rightarrow> string option)" where
  "exec f = (\<lambda>(p, b). (snd (f p), fold deliver (fst (f p)) b))"

lemma exec_andthen [simp]: "exec (andthen f g) pb = exec g (exec f pb)"
  by (simp add: exec_def andthen_def Let_def case_prod_beta)

lemma exec_tells [simp]: "exec (tells f) (p, b) = (p, fold deliver (f p) b)"
  by (simp add: exec_def tells_def)

lemma exec_changes [simp]: "exec (changes f) (p, b) = (f p, b)"
  by (simp add: exec_def changes_def)

lemma exec_only_if [simp]: "exec (only_if c f) (p, b) = (if c p then exec f (p, b) else (p, b))"
  by (simp add: exec_def only_if_def)

lemma exec_nothing [simp]: "exec (\<lambda>p. ([], p)) pb = pb"
  by (cases pb) (simp add: exec_def)

lemma deliver_publishes:
  "distinct (map fst cs) \<Longrightarrow>
   fold deliver (map (\<lambda>(topic, pl). Publish topic True pl) cs) b topic =
     (case map_of cs topic of Some pl \<Rightarrow> shown pl | None \<Rightarrow> b topic)"
proof (induction cs arbitrary: b)
  case (Cons c cs)
  then have "map_of cs (fst c) = None" by (simp add: map_of_eq_None_iff)
  with Cons show ?case by (cases c) (auto split: option.split)
qed simp

section \<open>The processor's own topics\<close>

lemmas topic_defs = availability_def next_stage_availability_def state_topic_def recipes_topic_def
  selected_topic_def selected_attributes_def manual_topic_def event_topic_def under_def

lemma topics_distinct [simp]:
  "availability t \<noteq> next_stage_availability t" "availability t \<noteq> state_topic t"
  "availability t \<noteq> recipes_topic t" "availability t \<noteq> selected_topic t"
  "availability t \<noteq> selected_attributes t" "availability t \<noteq> manual_topic t"
  "next_stage_availability t \<noteq> state_topic t" "next_stage_availability t \<noteq> recipes_topic t"
  "next_stage_availability t \<noteq> selected_topic t" "next_stage_availability t \<noteq> selected_attributes t"
  "next_stage_availability t \<noteq> manual_topic t" "state_topic t \<noteq> recipes_topic t"
  "state_topic t \<noteq> selected_topic t" "state_topic t \<noteq> selected_attributes t"
  "state_topic t \<noteq> manual_topic t" "recipes_topic t \<noteq> selected_topic t"
  "recipes_topic t \<noteq> selected_attributes t" "recipes_topic t \<noteq> manual_topic t"
  "selected_topic t \<noteq> selected_attributes t" "selected_topic t \<noteq> manual_topic t"
  "selected_attributes t \<noteq> manual_topic t"
  by (simp_all add: topic_defs)

lemmas topics_distinct_sym [simp] = topics_distinct [symmetric]

definition own_topics :: "Topics \<Rightarrow> string set" where
  "own_topics t = {availability t, next_stage_availability t, state_topic t, recipes_topic t,
     selected_topic t, selected_attributes t, manual_topic t}"

lemma config_not_own: "p @ ''/config'' \<notin> own_topics t"
proof -
  have "last (p @ ''/config'') = CHR ''g''" by simp
  moreover have "last q \<noteq> CHR ''g''" if "q \<in> own_topics t" for q
    using that by (auto simp: own_topics_def topic_defs)
  ultimately show ?thesis by metis
qed

lemma config_topic_not_own: "config_topic t c ob \<notin> own_topics t'"
  using config_not_own [of "tp_discovery t @ ''/'' @ c @ ''/anova_oven/'' @ ob" t'] by (simp add: config_topic_def)

lemma configs_not_own:
  "topic \<in> own_topics t \<Longrightarrow> map_of (configs rnd t loc opts un) topic = None"
  using configs_suffix [of topic _ rnd t loc opts un] config_not_own [of _ t]
  by (force simp: map_of_eq_None_iff)

section \<open>What the broker should hold\<close>

definition holds_discovery :: "MqttEnv \<Rightarrow> Processor \<Rightarrow> (string \<Rightarrow> string option) \<Rightarrow> bool" where
  "holds_discovery env p b \<longleftrightarrow>
     mp_discovered_unit p = Some (unit_of p) \<and>
     (\<forall>(topic, pl) \<in> set (configs (render env) (mp_topics p) (mp_local p) (titles p) (unit_of p)).
        b topic = shown pl)"

definition holds_recipes :: "MqttEnv \<Rightarrow> Processor \<Rightarrow> (string \<Rightarrow> string option) \<Rightarrow> bool" where
  "holds_recipes env p b \<longleftrightarrow>
     b (availability (mp_topics p)) = Some ''online'' \<and>
     b (recipes_topic (mp_topics p)) = shown (render env (JArr (map JStr (titles p)))) \<and>
     b (selected_topic (mp_topics p)) = shown (fst (selected_texts env p)) \<and>
     mp_options p = options (mp_recipes p)"

definition holds_manual :: "MqttEnv \<Rightarrow> Processor \<Rightarrow> (string \<Rightarrow> string option) \<Rightarrow> bool" where
  "holds_manual env p b \<longleftrightarrow>
     draft_ok (mp_manual p) \<and>
     (\<forall>u. b (manual_topic (mp_topics p)) = shown (manual_text env u p)) \<and>
     (\<forall>u. mp_last_manual p = Some (manual_text env u p))"

definition holds_status :: "MqttEnv \<Rightarrow> Sources \<Rightarrow> Processor \<Rightarrow> (string \<Rightarrow> string option) \<Rightarrow> bool" where
  "holds_status env so p b \<longleftrightarrow>
     options (rm_recipes (so_model so)) = mp_options p \<and>
     b (state_topic (mp_topics p)) = shown (seen_state env so) \<and>
     mp_last_state p = Some (seen_state env so) \<and>
     b (next_stage_availability (mp_topics p)) =
       Some (if sn_next_stage_ready (seen_snapshot so) \<and> so_connected so then ''online'' else ''offline'') \<and>
     mp_next_stage_ready p = Some (sn_next_stage_ready (seen_snapshot so) \<and> so_connected so) \<and>
     (\<forall>s. rm_status (so_model so) = Some s \<longrightarrow> mp_unit p = Some (temperature_unit s))"

definition mirrors :: "MqttEnv \<Rightarrow> Sources \<Rightarrow> Processor \<times> (string \<Rightarrow> string option) \<Rightarrow> bool" where
  "mirrors env so = (\<lambda>(p, b). holds_discovery env p b \<and> holds_recipes env p b \<and> holds_manual env p b \<and>
     holds_status env so p b)"

section \<open>Configs and options\<close>

definition select_entity :: "Topics \<Rightarrow> string list \<Rightarrow> Entity" where
  "select_entity t opts = hd (recipe_controls t (if opts = [] then [''No recipes''] else opts))"

text \<open>Only the recipe select depends on the options, and it depends on nothing else.\<close>

lemma configs_split:
  "\<exists>A B. \<forall>opts. configs rnd t loc opts un =
     A @ (config_topic t ''select'' ''recipe'', rnd (config t (select_entity t opts))) # B"
proof -
  let ?f = "\<lambda>e. (config_topic t (en_component e) (en_object e),
                if en_local_only e \<and> \<not> loc then [] else rnd (config t e))"
  have "configs rnd t loc opts un = map ?f (sensors t @ binary_sensors t) @
      (config_topic t ''select'' ''recipe'', rnd (config t (select_entity t opts))) #
      map ?f (tl (recipe_controls t []) @ manual_controls t un @ milestone_event t @ local_controls t un)" for opts
    by (simp add: configs_def entities_def recipe_controls_def select_entity_def)
  then show ?thesis by blast
qed

lemma select_config_eq:
  "select_config rnd t opts = (config_topic t ''select'' ''recipe'', rnd (config t (select_entity t opts)))"
proof -
  obtain A B where s: "\<And>opts. configs rnd t True opts ''C'' =
     A @ (config_topic t ''select'' ''recipe'', rnd (config t (select_entity t opts))) # B"
    using configs_split [of rnd t True "''C''"] by blast
  have "config_topic t ''select'' ''recipe'' \<notin> fst ` set A"
    using configs_distinct [of rnd t True opts "''C''"] unfolding s by auto
  then have "find (\<lambda>(topic, _). topic = config_topic t ''select'' ''recipe'') A = None"
    by (force simp: find_None_iff)
  then have "find (\<lambda>(topic, _). topic = config_topic t ''select'' ''recipe'') (configs rnd t True opts ''C'') =
      Some (config_topic t ''select'' ''recipe'', rnd (config t (select_entity t opts)))"
    unfolding s by (induction A) (auto split: if_splits)
  then show ?thesis by (simp add: select_config_def)
qed

lemma configs_reoption:
  assumes "\<forall>(topic, pl) \<in> set (configs rnd t loc opts un). b topic = shown pl"
  shows "\<forall>(topic, pl) \<in> set (configs rnd t loc opts' un).
    (b(config_topic t ''select'' ''recipe'' := shown (rnd (config t (select_entity t opts'))))) topic = shown pl"
proof -
  obtain A B where s: "\<And>opts. configs rnd t loc opts un =
     A @ (config_topic t ''select'' ''recipe'', rnd (config t (select_entity t opts))) # B"
    using configs_split [of rnd t loc un] by blast
  show ?thesis using assms configs_distinct [of rnd t loc opts' un] unfolding s
    by (auto split: prod.splits simp: rev_image_eqI)
qed

lemma length_options [simp]: "length (options rs) = length rs"
proof -
  have "length (labels seen xs) = length xs" for seen xs by (induction xs arbitrary: seen) simp_all
  then show ?thesis by (simp add: options_labels)
qed

lemma options_ids: "snd ` set (options rs) = rc_id ` set rs"
  using arg_cong [OF map_snd_labels [of "[]" "sort_key option_key rs"], of set] by (simp add: options_labels)

text \<open>The option on show, by the selected id.\<close>

definition shown_option :: "string option \<Rightarrow> (string \<times> string) list \<Rightarrow> string" where
  "shown_option sel opts =
     (case Option.bind sel (\<lambda>i. find (\<lambda>(_, j). j = i) opts) of Some (title, _) \<Rightarrow> title | None \<Rightarrow> ''No recipes'')"

lemma selected_option:
  assumes "mp_options p = options (mp_recipes p)"
  shows "fst (selected_texts env p) = shown_option (mp_selected p) (mp_options p)"
proof (cases "Option.bind (mp_selected p) (\<lambda>i. find (\<lambda>(_, j). j = i) (mp_options p))")
  case None
  then show ?thesis
    by (auto simp: selected_texts_def selected_recipe_def shown_option_def split: option.split)
next
  case (Some x)
  obtain title j where x: "x = (title, j)" by (cases x)
  from Some obtain i where i: "mp_selected p = Some i" "find (\<lambda>(_, j). j = i) (mp_options p) = Some (title, j)"
    using x by (auto simp: bind_eq_Some_conv)
  then have "(title, i) \<in> set (mp_options p)" by (auto simp: find_Some_iff dest: nth_mem)
  then have "i \<in> snd ` set (mp_options p)" by force
  then have "i \<in> rc_id ` set (mp_recipes p)" using assms options_ids by metis
  then have "find (\<lambda>r. rc_id r = i) (mp_recipes p) \<noteq> None" by (auto simp: find_None_iff)
  with i Some x show ?thesis
    by (auto simp: selected_texts_def selected_recipe_def shown_option_def)
qed

section \<open>Each operation\<close>

lemma manual_text_fresh: "draft_ok (mp_manual p) \<Longrightarrow> manual_text env u p = manual_text env u' p"
  by (simp add: manual_text_def draft_state_def draft_recipe_cases)

text \<open>What the processor remembers having published is what the broker holds.\<close>

definition cached :: "Processor \<Rightarrow> (string \<Rightarrow> string option) \<Rightarrow> bool" where
  "cached p b \<longleftrightarrow>
     (\<forall>s. mp_last_state p = Some s \<longrightarrow> b (state_topic (mp_topics p)) = shown s) \<and>
     (\<forall>s. mp_last_manual p = Some s \<longrightarrow> b (manual_topic (mp_topics p)) = shown s) \<and>
     (\<forall>r. mp_next_stage_ready p = Some r \<longrightarrow>
        b (next_stage_availability (mp_topics p)) = Some (if r then ''online'' else ''offline''))"

lemma exec_publish_discovery:
  assumes "exec (publish_discovery env) (p, b) = (p', b')"
  shows "holds_discovery env p' b' \<and> p' = p\<lparr>mp_discovered_unit := Some (unit_of p)\<rparr> \<and>
    (\<forall>topic \<in> own_topics (mp_topics p). b' topic = b topic)"
proof -
  let ?cs = "configs (render env) (mp_topics p) (mp_local p) (titles p) (unit_of p)"
  have p': "p' = p\<lparr>mp_discovered_unit := Some (unit_of p)\<rparr>"
    and b': "b' = fold deliver (map (\<lambda>(topic, pl). Publish topic True pl) ?cs) b"
    using assms by (auto simp: publish_discovery_def)
  have l: "b' topic = (case map_of ?cs topic of Some pl \<Rightarrow> shown pl | None \<Rightarrow> b topic)" for topic
    unfolding b' by (rule deliver_publishes [OF configs_distinct])
  have "b' topic = shown pl" if "(topic, pl) \<in> set ?cs" for topic pl
    using that configs_distinct [of "render env" "mp_topics p" "mp_local p" "titles p" "unit_of p"]
    by (simp add: l)
  then show ?thesis
    using configs_not_own [of _ "mp_topics p"] by (auto simp: p' l holds_discovery_def titles_def unit_of_def)
qed

lemma holds_discovery_own [simp]:
  "topic \<in> own_topics (mp_topics p) \<Longrightarrow> holds_discovery env p (b(topic := x)) \<longleftrightarrow> holds_discovery env p b"
proof -
  assume own: "topic \<in> own_topics (mp_topics p)"
  have "topic' \<noteq> topic" if "(topic', pl) \<in> set (configs (render env) (mp_topics p) (mp_local p) (titles p) (unit_of p))"
    for topic' pl
    using that configs_not_own [OF own, of "render env" "mp_local p" "titles p" "unit_of p"] by (auto simp: map_of_eq_None_iff rev_image_eqI)
  then show ?thesis unfolding holds_discovery_def by fastforce
qed

lemma holds_discovery_cong:
  assumes "mp_topics q = mp_topics p" "mp_local q = mp_local p" "mp_options q = mp_options p"
    "mp_unit q = mp_unit p" "mp_discovered_unit q = mp_discovered_unit p"
  shows "holds_discovery env q b \<longleftrightarrow> holds_discovery env p b"
  using assms by (simp add: holds_discovery_def titles_def unit_of_def)

lemma own_topics_mem [simp]:
  "availability t \<in> own_topics t" "next_stage_availability t \<in> own_topics t" "state_topic t \<in> own_topics t"
  "recipes_topic t \<in> own_topics t" "selected_topic t \<in> own_topics t" "selected_attributes t \<in> own_topics t"
  "manual_topic t \<in> own_topics t"
  by (simp_all add: own_topics_def)

lemma reselect_fields [simp]:
  "mp_topics (reselect p) = mp_topics p" "mp_local (reselect p) = mp_local p"
  "mp_options (reselect p) = mp_options p" "mp_recipes (reselect p) = mp_recipes p"
  "mp_unit (reselect p) = mp_unit p" "mp_discovered_unit (reselect p) = mp_discovered_unit p"
  "mp_manual (reselect p) = mp_manual p" "mp_last_manual (reselect p) = mp_last_manual p"
  "mp_last_state (reselect p) = mp_last_state p" "mp_next_stage_ready (reselect p) = mp_next_stage_ready p"
  "mp_last_snapshot (reselect p) = mp_last_snapshot p"
  by (simp_all add: reselect_def)

text \<open>What the operations on recipes, options and units leave alone.\<close>

definition same_rest :: "Processor \<Rightarrow> Processor \<Rightarrow> bool" where
  "same_rest p q \<longleftrightarrow>
     mp_topics q = mp_topics p \<and> mp_local q = mp_local p \<and> mp_manual q = mp_manual p \<and>
     mp_last_manual q = mp_last_manual p \<and> mp_last_state q = mp_last_state p \<and>
     mp_next_stage_ready q = mp_next_stage_ready p \<and> mp_last_snapshot q = mp_last_snapshot p"

lemma exec_publish_recipes:
  "exec (publish_recipes env) (p, b) =
     (reselect p, b(recipes_topic (mp_topics p) := shown (render env (JArr (map JStr (titles p)))),
        selected_topic (mp_topics p) := shown (fst (selected_texts env (reselect p))),
        selected_attributes (mp_topics p) := shown (snd (selected_texts env (reselect p)))))"
  by (simp add: publish_recipes_def publish_selected_def titles_def)

lemma exec_refresh_recipes:
  assumes "holds_discovery env p b" "holds_recipes env p b" "cached p b"
    and "exec (refresh_recipes env rs) (p, b) = (p', b')"
  shows "holds_discovery env p' b' \<and> holds_recipes env p' b' \<and> cached p' b' \<and> same_rest p p' \<and>
    mp_options p' = options rs \<and> mp_unit p' = mp_unit p"
proof (cases "options rs = mp_options p")
  case True
  have len: "length rs = length (mp_recipes p)"
    using True assms(2) by (metis holds_recipes_def length_options)
  then have p': "p' = p\<lparr>mp_recipes := rs\<rparr>" "b' = b"
    using assms(4) True by (auto simp: exec_def refresh_recipes_def)
  have "fst (selected_texts env p') = fst (selected_texts env p)"
    using True assms(2) p'(1) selected_option [of p' env] selected_option [of p env]
    by (simp add: holds_recipes_def)
  with assms True show ?thesis
    by (simp add: p' holds_recipes_def cached_def same_rest_def titles_def
      holds_discovery_cong [of "p\<lparr>mp_recipes := rs\<rparr>" p])
next
  case False
  define q where "q = p\<lparr>mp_recipes := rs, mp_options := options rs\<rparr>"
  define b1 where "b1 = b(config_topic (mp_topics p) ''select'' ''recipe'' :=
      shown (render env (config (mp_topics p) (select_entity (mp_topics p) (titles q)))))"
  have ex: "exec (refresh_recipes env rs) (p, b) = exec (publish_recipes env) (q, b1)"
  proof -
    have "exec (refresh_recipes env rs) (p, b) =
      exec (andthen (changes (\<lambda>p. p\<lparr>mp_recipes := rs, mp_options := options rs\<rparr>))
          (andthen
            (tells (\<lambda>p. case select_config (render env) (mp_topics p) (titles p) of
               (topic, pl) \<Rightarrow> [Publish topic True pl]))
            (publish_recipes env))) (p, b)"
      using False by (simp only: exec_def prod.case refresh_recipes_def if_True not_False_eq_True)
    then show ?thesis by (simp add: q_def b1_def select_config_eq)
  qed
  have d1: "holds_discovery env q b1"
    using assms(1) configs_reoption [of "render env" "mp_topics p" "mp_local p" "titles p" "unit_of p" b "titles q"]
    unfolding b1_def by (simp add: holds_discovery_def q_def unit_of_def titles_def)
  have own: "b1 topic = b topic" if "topic \<in> own_topics (mp_topics p)" for topic
    using that config_topic_not_own [of "mp_topics p" _ _ "mp_topics p"]
    by (auto simp: b1_def)
  have mt: "mp_topics q = mp_topics p" by (simp add: q_def)
  have p': "p' = reselect q"
    and b': "b' = b1(recipes_topic (mp_topics p) := shown (render env (JArr (map JStr (titles q)))),
        selected_topic (mp_topics p) := shown (fst (selected_texts env (reselect q))),
        selected_attributes (mp_topics p) := shown (snd (selected_texts env (reselect q))))"
    using assms(4) unfolding ex exec_publish_recipes mt by (auto simp only: prod.inject)
  have "holds_discovery env (reselect q) b1"
    using d1 holds_discovery_cong [of "reselect q" q] by simp
  then have "holds_discovery env p' b'" by (simp add: p' b' q_def)
  moreover have "holds_recipes env p' b'"
    using assms(2) own by (simp add: p' b' q_def holds_recipes_def titles_def)
  moreover have "cached p' b'" using assms(3) own by (simp add: p' b' q_def cached_def)
  ultimately show ?thesis by (simp add: p' q_def same_rest_def)
qed

lemma exec_refresh_unit:
  assumes "holds_discovery env p b" "holds_recipes env p b" "cached p b"
    and "exec (refresh_unit env so) (p, b) = (p', b')"
  shows "holds_discovery env p' b' \<and> holds_recipes env p' b' \<and> cached p' b' \<and> same_rest p p' \<and>
    mp_options p' = mp_options p \<and>
    (\<forall>s. rm_status (so_model so) = Some s \<longrightarrow> mp_unit p' = Some (temperature_unit s))"
proof (cases "seen_status so")
  case None
  with assms show ?thesis
    by (simp add: refresh_unit_def same_rest_def seen_status_def)
next
  case (Some s)
  define q where "q = p\<lparr>mp_unit := Some (temperature_unit s)\<rparr>"
  have rec: "holds_recipes env r b' = holds_recipes env p b"
    if "mp_topics r = mp_topics p" "mp_options r = mp_options p" "mp_recipes r = mp_recipes p"
      "mp_selected r = mp_selected p" "\<forall>topic \<in> own_topics (mp_topics p). b' topic = b topic" for r b'
    using that selected_option [of p env] selected_option [of r env]
    by (auto simp: holds_recipes_def titles_def)
  have ex: "exec (refresh_unit env so) (p, b) =
      (if mp_discovered_unit p \<noteq> None \<and> mp_discovered_unit p \<noteq> mp_unit q
       then exec (publish_discovery env) (q, b) else (q, b))"
    by (simp add: refresh_unit_def Some q_def)
  have unit: "rm_status (so_model so) = Some s' \<Longrightarrow> temperature_unit s' = temperature_unit s" for s'
    using Some by (auto simp: seen_status_def)
  show ?thesis
  proof (cases "mp_discovered_unit p = mp_unit q")
    case True
    then have p': "p' = q" "b' = b" using assms(4) unfolding ex by simp_all
    have "holds_discovery env q b"
      using assms(1) True by (simp add: holds_discovery_def q_def titles_def unit_of_def split: option.splits)
    moreover have "holds_recipes env q b" using assms(2) rec [of q b] by (simp add: q_def)
    moreover have "cached q b" using assms(3) by (simp add: q_def cached_def)
    moreover have "same_rest p q \<and> mp_options q = mp_options p" by (simp add: same_rest_def q_def)
    moreover have "mp_unit q = Some (temperature_unit s)" by (simp add: q_def)
    ultimately show ?thesis using unit unfolding p' by simp
  next
    case False
    with assms(1,4) ex have "exec (publish_discovery env) (q, b) = (p', b')"
      by (simp add: holds_discovery_def)
    note r = exec_publish_discovery [OF this]
    then have p': "p' = q\<lparr>mp_discovered_unit := Some (unit_of q)\<rparr>"
      and own: "\<forall>topic \<in> own_topics (mp_topics p). b' topic = b topic" by (simp_all add: q_def)
    have "holds_recipes env p' b'" using assms(2) rec [of p' b'] own by (simp add: p' q_def)
    moreover have "cached p' b'" using assms(3) own by (simp add: p' q_def cached_def)
    moreover have "holds_discovery env p' b'" using r by blast
    moreover have "same_rest p p' \<and> mp_options p' = mp_options p" by (simp add: same_rest_def p' q_def)
    moreover have "mp_unit p' = Some (temperature_unit s)" by (simp add: p' q_def)
    ultimately show ?thesis using unit by simp
  qed
qed

lemma exec_refresh_state:
  assumes "cached p b"
  shows "exec (refresh_state env so force) (p, b) =
    (p\<lparr>mp_last_state := Some (seen_state env so)\<rparr>, b(state_topic (mp_topics p) := shown (seen_state env so)))"
proof -
  have "p = p\<lparr>mp_last_state := Some s\<rparr> \<and> b = b(state_topic (mp_topics p) := shown s)"
    if "mp_last_state p = Some s" for s
    using assms that by (auto simp: cached_def)
  then show ?thesis by (auto simp: refresh_state_def)
qed

lemma exec_refresh_ready:
  assumes "cached p b"
  defines "ready so \<equiv> sn_next_stage_ready (seen_snapshot so) \<and> so_connected so"
  shows "exec (refresh_ready so force) (p, b) =
    (p\<lparr>mp_next_stage_ready := Some (ready so)\<rparr>,
     b(next_stage_availability (mp_topics p) := Some (if ready so then ''online'' else ''offline'')))"
proof -
  have "p = p\<lparr>mp_next_stage_ready := Some r\<rparr> \<and>
      b = b(next_stage_availability (mp_topics p) := Some (if r then ''online'' else ''offline''))"
    if "mp_next_stage_ready p = Some r" for r
    using assms(1) that by (auto simp: cached_def)
  moreover have "sn_connected (seen_snapshot so) = so_connected so"
    by (simp add: seen_snapshot_def snapshot_new_def Let_def)
  ultimately show ?thesis by (auto simp: refresh_ready_def ready_def shown_def)
qed

lemma exec_announce: "exec (announce env sn) (p, b) = (p\<lparr>mp_last_snapshot := Some sn\<rparr>, b)"
proof -
  have "fold deliver (map (\<lambda>m. Publish t False (f m)) ms) b = b" for t :: string and f and ms :: "Milestone list"
    by (induction ms) simp_all
  then show ?thesis by (simp add: announce_def split: option.split)
qed

lemma exec_publish_manual:
  assumes "cached p b" "draft_ok (mp_manual p)"
  shows "exec (publish_manual env u) (p, b) =
    (p\<lparr>mp_last_manual := Some (manual_text env u p)\<rparr>, b(manual_topic (mp_topics p) := shown (manual_text env u p)))"
proof -
  have "p = p\<lparr>mp_last_manual := Some s\<rparr> \<and> b = b(manual_topic (mp_topics p) := shown s)"
    if "mp_last_manual p = Some s" for s
    using assms(1) that by (auto simp: cached_def)
  then show ?thesis by (auto simp: publish_manual_def)
qed

lemma selected_texts_cong:
  assumes "mp_selected q = mp_selected p" "mp_options q = mp_options p" "mp_recipes q = mp_recipes p"
    "mp_unit q = mp_unit p"
  shows "selected_texts env q = selected_texts env p"
  unfolding selected_texts_def selected_recipe_def unit_of_def assms ..

lemma exec_on_change:
  assumes "holds_discovery env p b" "holds_recipes env p b" "cached p b" "draft_ok (mp_manual p)"
  shows "mirrors env so (exec (on_change env u so force) (p, b))"
proof -
  obtain p1 b1 where e1: "exec (refresh_recipes env (rm_recipes (so_model so))) (p, b) = (p1, b1)" by (cases "exec (refresh_recipes env (rm_recipes (so_model so))) (p, b)")
  obtain p2 b2 where e2: "exec (refresh_unit env so) (p1, b1) = (p2, b2)" by (cases "exec (refresh_unit env so) (p1, b1)")
  note r1 = exec_refresh_recipes [OF assms(1-3) e1]
  then have r2: "holds_discovery env p2 b2 \<and> holds_recipes env p2 b2 \<and> cached p2 b2 \<and> same_rest p1 p2 \<and>
      mp_options p2 = mp_options p1 \<and>
      (\<forall>s. rm_status (so_model so) = Some s \<longrightarrow> mp_unit p2 = Some (temperature_unit s))"
    using exec_refresh_unit [OF _ _ _ e2] by blast
  define rdy where "rdy \<longleftrightarrow> sn_next_stage_ready (seen_snapshot so) \<and> so_connected so"
  define p3 where "p3 = p2\<lparr>mp_last_state := Some (seen_state env so)\<rparr>"
  define b3 where "b3 = b2(state_topic (mp_topics p2) := shown (seen_state env so))"
  define p4 where "p4 = p3\<lparr>mp_next_stage_ready := Some rdy, mp_last_snapshot := Some (seen_snapshot so)\<rparr>"
  define b4 where "b4 = b3(next_stage_availability (mp_topics p2) := Some (if rdy then ''online'' else ''offline''))"
  define p5 where "p5 = p4\<lparr>mp_last_manual := Some (manual_text env u p4)\<rparr>"
  define b5 where "b5 = b4(manual_topic (mp_topics p2) := shown (manual_text env u p4))"
  have c2: "cached p2 b2" using r2 by blast
  have c3: "cached p3 b3" using c2 by (simp add: cached_def p3_def b3_def)
  have c4: "cached p4 b4" using c3 by (simp add: cached_def p3_def p4_def b4_def)
  have d: "draft_ok (mp_manual p4)" using assms(4) r1 r2 by (simp add: same_rest_def p3_def p4_def)
  have ex: "exec (on_change env u so force) (p, b) = (p5, b5)"
    unfolding on_change_def exec_andthen e1 e2 exec_refresh_state [OF c2] p3_def [symmetric] b3_def [symmetric]
      exec_refresh_ready [OF c3] exec_announce
    using exec_publish_manual [OF c4 d]
    by (simp add: p4_def b4_def p5_def b5_def rdy_def p3_def)
  have disc: "holds_discovery env p5 b5"
    using r2 holds_discovery_cong [of p5 p2] by (simp add: p5_def p4_def p3_def b5_def b4_def b3_def)
  have rec: "holds_recipes env p5 b5"
  proof -
    have "selected_texts env p5 = selected_texts env p2"
      by (rule selected_texts_cong) (simp_all add: p5_def p4_def p3_def)
    with r2 show ?thesis
      by (simp add: holds_recipes_def p5_def p4_def p3_def b5_def b4_def b3_def titles_def)
  qed
  have mt: "manual_text env v p5 = manual_text env u p4" for v
  proof -
    have "manual_text env v p5 = manual_text env v p4"
      by (simp add: p5_def manual_text_def unit_of_def)
    then show ?thesis using manual_text_fresh [OF d] by simp
  qed
  have man: "holds_manual env p5 b5"
    using d mt by (simp add: holds_manual_def p5_def b5_def p4_def p3_def)
  have "holds_status env so p5 b5"
    using r1 r2 by (simp add: holds_status_def p5_def b5_def p4_def b4_def p3_def b3_def rdy_def)
  with disc rec man show ?thesis by (simp add: mirrors_def ex)
qed

lemma exec_on_connected:
  assumes "draft_ok (mp_manual p)"
  shows "mirrors env so' (exec (on_connected env u so so') (p, b))"
proof -
  define p1 where "p1 = take_recipes so p"
  obtain p2 b2 where e2: "exec (publish_discovery env) (p1, b) = (p2, b2)" by (cases "exec (publish_discovery env) (p1, b)")
  note r2 = exec_publish_discovery [OF e2]
  define b3 where "b3 = b2(availability (mp_topics p2) := Some ''online'')"
  define b4 where "b4 = b3(recipes_topic (mp_topics p2) := shown (render env (JArr (map JStr (titles p2)))),
        selected_topic (mp_topics p2) := shown (fst (selected_texts env (reselect p2))),
        selected_attributes (mp_topics p2) := shown (snd (selected_texts env (reselect p2))))"
  define p5 where "p5 = (reselect p2)\<lparr>mp_last_state := None, mp_last_manual := None, mp_next_stage_ready := None\<rparr>"
  have opts: "mp_options p2 = options (mp_recipes p2)" and man: "mp_manual p2 = mp_manual p"
    using r2 by (simp_all add: p1_def take_recipes_def Let_def split: option.split)
  have ex: "exec (on_connected env u so so') (p, b) = exec (on_change env u so' True) (p5, b4)"
    unfolding on_connected_def exec_andthen exec_changes p1_def [symmetric] e2
    by (simp add: exec_publish_recipes b4_def b3_def p5_def shown_def)
  have "holds_discovery env (reselect p2) b4"
    using conjunct1 [OF r2] holds_discovery_cong [of "reselect p2" p2 env b2] by (simp add: b4_def b3_def)
  then have "holds_discovery env p5 b4" using holds_discovery_cong [of p5 "reselect p2"] by (simp add: p5_def)
  moreover have "holds_recipes env p5 b4"
  proof -
    have "selected_texts env p5 = selected_texts env (reselect p2)"
      by (rule selected_texts_cong) (simp_all add: p5_def)
    then show ?thesis using opts by (simp add: holds_recipes_def b4_def b3_def p5_def titles_def)
  qed
  moreover have "cached p5 b4" by (simp add: cached_def p5_def)
  moreover have "draft_ok (mp_manual p5)" using assms man by (simp add: p5_def)
  ultimately show ?thesis unfolding ex by (rule exec_on_change)
qed

lemma exec_failed [simp]: "exec (mqtt_command_failed env name reason) pb = pb"
  by (cases pb) (simp add: mqtt_command_failed_def)

lemma exec_send [simp]: "exec (send_command env answer name cmd) pb = pb"
  by (cases pb) (simp add: send_command_def split: Reply.split sum.split)

lemma mirrors_cached: "mirrors env so (p, b) \<Longrightarrow> cached p b \<and> draft_ok (mp_manual p)"
  by (auto simp: mirrors_def holds_status_def holds_manual_def cached_def)

lemma exec_select:
  assumes "mirrors env so (p, b)"
  shows "mirrors env so (exec (andthen (changes (\<lambda>p. p\<lparr>mp_selected := Some i\<rparr>)) (publish_selected env)) (p, b))"
proof -
  define q where "q = p\<lparr>mp_selected := Some i\<rparr>"
  have "holds_discovery env q b"
    using assms holds_discovery_cong [of q p] by (simp add: mirrors_def q_def)
  moreover have "manual_text env v q = manual_text env v p" for v by (simp add: q_def manual_text_def unit_of_def)
  ultimately show ?thesis using assms
    by (auto simp: mirrors_def publish_selected_def q_def [symmetric] holds_recipes_def holds_manual_def
      holds_status_def titles_def) (simp_all add: q_def)
qed

lemma exec_set_manual:
  assumes "mirrors env so (p, b)" "draft_ok d"
  shows "mirrors env so (exec (publish_manual env u) (p\<lparr>mp_manual := d\<rparr>, b))"
proof -
  define q where "q = p\<lparr>mp_manual := d\<rparr>"
  have c: "cached q b" "draft_ok (mp_manual q)"
    using mirrors_cached [OF assms(1)] assms(2) by (simp_all add: q_def cached_def)
  have disc: "holds_discovery env q b"
    using assms(1) holds_discovery_cong [of q p] by (simp add: mirrors_def q_def)
  have sel: "selected_texts env q = selected_texts env p"
    by (rule selected_texts_cong) (simp_all add: q_def)
  define r where "r = q\<lparr>mp_last_manual := Some (manual_text env u q)\<rparr>"
  have mt: "manual_text env v r = manual_text env u q" for v
    using manual_text_fresh [OF c(2), of env v u] by (simp add: r_def manual_text_def unit_of_def)
  have st: "selected_texts env r = selected_texts env p"
    by (rule selected_texts_cong) (simp_all add: r_def q_def)
  define b' where "b' = b(manual_topic (mp_topics q) := shown (manual_text env u q))"
  have old: "holds_recipes env p b" "holds_status env so p b" using assms(1) by (simp_all add: mirrors_def)
  have "holds_discovery env r b'"
    using disc holds_discovery_cong [of r q] by (simp add: r_def b'_def)
  moreover have "holds_recipes env r b'"
    using old(1) st by (simp add: holds_recipes_def b'_def r_def q_def titles_def)
  moreover have "holds_manual env r b'"
    using c(2) mt by (simp add: holds_manual_def b'_def) (simp add: r_def)
  moreover have "holds_status env so r b'"
    using old(2) by (simp add: holds_status_def b'_def r_def q_def)
  moreover have "exec (publish_manual env u) (q, b) = (r, b')"
    using exec_publish_manual [OF c] by (simp add: r_def b'_def)
  ultimately show ?thesis by (simp add: mirrors_def q_def)
qed

lemma exec_eqI: "f p = g p \<Longrightarrow> exec f (p, b) = exec g (p, b)"
  by (simp add: exec_def)

text \<open>A result that changes neither the processor nor the broker.\<close>

definition leaves_alone :: "Processor \<Rightarrow> (string \<Rightarrow> string option) \<Rightarrow> Out list \<times> Processor \<Rightarrow> bool" where
  "leaves_alone p b r \<longleftrightarrow> snd r = p \<and> fold deliver (fst r) b = b"

lemma leaves_alone_intros:
  "leaves_alone p b (send_command env answer name cmd p)"
  "leaves_alone p b (mqtt_command_failed env name reason p)"
  "c \<longrightarrow> leaves_alone p b r \<Longrightarrow> \<not> c \<longrightarrow> leaves_alone p b r' \<Longrightarrow> leaves_alone p b (if c then r else r')"
  "leaves_alone p b r \<Longrightarrow> (\<And>x. leaves_alone p b (f x)) \<Longrightarrow> leaves_alone p b (case o1 of None \<Rightarrow> r | Some x \<Rightarrow> f x)"
  "(\<And>e. leaves_alone p b (h e)) \<Longrightarrow> (\<And>x. leaves_alone p b (g x)) \<Longrightarrow> leaves_alone p b (case s1 of Inl e \<Rightarrow> h e | Inr x \<Rightarrow> g x)"
  "leaves_alone p b r \<Longrightarrow> c \<longrightarrow> leaves_alone p b r"
  using exec_send [of env answer name cmd "(p, b)"] exec_failed [of env name reason "(p, b)"]
  by (auto simp: leaves_alone_def exec_def case_prod_beta split: option.split sum.split)

text \<open>What a command can do to the processor and the retained topics: nothing, choose, or set up.\<close>

lemma exec_on_command_cases:
  obtains "exec (on_command env u topic body answer) (p, b) = (p, b)"
  | i where "exec (on_command env u topic body answer) (p, b) =
      exec (andthen (changes (\<lambda>p. p\<lparr>mp_selected := Some i\<rparr>)) (publish_selected env)) (p, b)"
  | f t where "exec (on_command env u topic body answer) (p, b) =
      exec (publish_manual env u) (p\<lparr>mp_manual := snd (draft_set f t (mp_manual p))\<rparr>, b)"
proof (cases "strip_prefix (command (mp_topics p) []) topic")
  case None
  then show ?thesis by (intro that(1)) (simp add: exec_def on_command_def)
next
  case (Some name)
  let ?t = "trim (utf8_lossy env body)"
  consider "name = ''select_recipe''" | "starts_with name ''manual/''"
    | "name \<noteq> ''select_recipe''" "\<not> starts_with name ''manual/''" by blast
  then show ?thesis
  proof cases
    case 1
    show ?thesis
    proof (cases "find (\<lambda>(title, _). title = ?t) (mp_options p)")
      case None
      with 1 Some show ?thesis by (intro that(1)) (simp add: exec_def on_command_def)
    next
      case (Some x)
      with 1 \<open>strip_prefix _ _ = _\<close> show ?thesis
        by (intro that(2) [of "snd x"] exec_eqI) (simp add: on_command_def case_prod_beta)
    qed
  next
    case 2
    define d where "d = snd (draft_set (drop (length ''manual/'') name) ?t (mp_manual p))"
    have ne: "name \<noteq> ''select_recipe''" "name \<noteq> ''start''" "name \<noteq> ''start_manual''" using 2 by auto
    obtain res where res: "draft_set (drop (length ''manual/'') name) ?t (mp_manual p) = (res, d)"
      unfolding d_def by (metis prod.collapse)
    have "exec (on_command env u topic body answer) (p, b) =
        exec (andthen (changes (\<lambda>p. p\<lparr>mp_manual := d\<rparr>))
          (andthen (case res of Inl e \<Rightarrow> mqtt_command_failed env name e | Inr _ \<Rightarrow> (\<lambda>p. ([], p)))
            (publish_manual env u))) (p, b)"
      by (intro exec_eqI) (simp only: on_command_def Some option.case Let_def ne 2 if_True if_False res prod.case)
    then show ?thesis by (intro that(3) [of "drop (length ''manual/'') name" ?t]) (cases res; simp add: d_def)
  next
    case 3
    have "leaves_alone p b (on_command env u topic body answer p)"
      unfolding on_command_def Some option.case Let_def if_not_P [OF 3(1)] if_not_P [OF 3(2)]
      by (intro leaves_alone_intros)
    then show ?thesis by (intro that(1)) (simp add: leaves_alone_def exec_def case_prod_beta)
  qed
qed

lemma exec_on_command:
  assumes "mirrors env so (p, b)"
  shows "mirrors env so (exec (on_command env u topic body answer) (p, b))"
proof -
  have "draft_ok (snd (draft_set f t (mp_manual p)))" for f t
    by (rule draft_set_ok) (use mirrors_cached [OF assms] in simp)
  then show ?thesis using assms exec_select [OF assms] exec_set_manual [OF assms]
    by (cases rule: exec_on_command_cases [of env u topic body answer p b]) simp_all
qed

section \<open>Home Assistant mirrors the oven\<close>

fun event_sources :: "MqttEvent \<Rightarrow> Sources option" where
  "event_sources (MIncoming Connected (_, so) _) = Some so"
| "event_sources (MChanged so) = Some so"
| "event_sources _ = None"

text \<open>What the last connect or change looked at.\<close>

fun latest :: "Sources \<Rightarrow> ((nat \<Rightarrow> string) \<times> MqttEvent) list \<Rightarrow> Sources" where
  "latest so [] = so"
| "latest so ((_, e) # evs) = latest (case event_sources e of Some s \<Rightarrow> s | None \<Rightarrow> so) evs"

lemma exec_mqtt_step:
  assumes "mirrors env so (p, b)"
  shows "mirrors env (case event_sources (snd ev) of Some s \<Rightarrow> s | None \<Rightarrow> so) (exec (mqtt_step env ev) (p, b))"
proof -
  have m: "holds_discovery env p b" "holds_recipes env p b" "cached p b" "draft_ok (mp_manual p)"
    using assms mirrors_cached [OF assms] by (simp_all add: mirrors_def)
  show ?thesis
    using assms exec_on_change [OF m] exec_on_connected [OF m(4)] exec_on_command [OF assms]
    by (induction env ev rule: mqtt_step.induct) simp_all
qed

lemma exec_mqtt_run: "mirrors env so pb \<Longrightarrow> mirrors env (latest so evs) (exec (mqtt_run env evs) pb)"
proof (induction evs arbitrary: so pb)
  case (Cons ev evs)
  obtain p b where pb: "pb = (p, b)" by (cases pb)
  have "mirrors env (case event_sources (snd ev) of Some s \<Rightarrow> s | None \<Rightarrow> so) (exec (mqtt_step env ev) pb)"
    using exec_mqtt_step Cons.prems unfolding pb .
  from Cons.IH [OF this] show ?case by (cases ev) simp
qed (cases pb, simp)

text \<open>An operation that keeps an invariant of the processor; the composite operations inherit it.\<close>

definition keeps :: "(Processor \<Rightarrow> bool) \<Rightarrow> op \<Rightarrow> bool" where
  "keeps I f \<longleftrightarrow> (\<forall>p. I p \<longrightarrow> I (snd (f p)))"

lemma keepsD: "keeps I f \<Longrightarrow> I p \<Longrightarrow> I (snd (f p))"
  by (simp add: keeps_def)

lemma keeps_intros [intro!]:
  "keeps I f \<Longrightarrow> keeps I g \<Longrightarrow> keeps I (andthen f g)"
  "keeps I (tells out)"
  "(\<And>p. I p \<Longrightarrow> I (h p)) \<Longrightarrow> keeps I (changes h)"
  "keeps I f \<Longrightarrow> keeps I (only_if c f)"
  "keeps I (\<lambda>p. ([], p))"
  by (auto simp: keeps_def andthen_def Let_def tells_def changes_def only_if_def case_prod_beta)

lemma keeps_send: "keeps I (send_command env answer name cmd)" "keeps I (mqtt_command_failed env name reason)"
  by (auto simp: send_command_def mqtt_command_failed_def split: Reply.split sum.split)

text \<open>The draft stays in its ranges.\<close>

abbreviation "draft_fine \<equiv> (\<lambda>p. draft_ok (mp_manual p))"

lemma keeps_parts:
  "keeps draft_fine (publish_discovery env)" "keeps draft_fine (publish_selected env)"
  "keeps draft_fine (publish_recipes env)" "keeps draft_fine (publish_manual env u)"
  "keeps draft_fine (refresh_state env so force)" "keeps draft_fine (refresh_ready so force)"
  "keeps draft_fine (announce env sn)" "keeps draft_fine (refresh_unit env so)"
  by (auto simp: publish_discovery_def publish_selected_def publish_recipes_def publish_manual_def
    refresh_state_def refresh_ready_def Let_def announce_def refresh_unit_def split: option.split)

lemma keeps_refresh_recipes: "keeps draft_fine (refresh_recipes env rs)"
proof -
  have k: "keeps draft_fine (andthen (changes (\<lambda>p. p\<lparr>mp_recipes := rs, mp_options := options rs\<rparr>))
          (andthen (tells out) (publish_recipes env)))" for out
    using keeps_parts by auto
  show ?thesis
    unfolding keeps_def refresh_recipes_def using keepsD [OF k] by simp
qed

lemma keeps_on_change: "keeps draft_fine (on_change env u so force)"
  unfolding on_change_def by (intro keeps_intros keeps_refresh_recipes keeps_parts)

lemma keeps_on_connected: "keeps draft_fine (on_connected env u so so')"
  unfolding on_connected_def
  by (intro keeps_intros keeps_on_change keeps_parts) (simp_all add: take_recipes_def Let_def split: option.split)

lemma keeps_publish_manual:
  "(\<And>p x. I p \<Longrightarrow> I (p\<lparr>mp_last_manual := x\<rparr>)) \<Longrightarrow> keeps I (publish_manual env u)"
  by (auto simp: publish_manual_def)

lemma strip_command [simp]: "strip_prefix (command t []) (command t name) = Some name"
  by (simp add: strip_prefix_def command_def under_def starts_with_iff)

lemma strip_command_topic: "strip_prefix (command t []) topic = Some name \<Longrightarrow> topic = command t name"
  by (auto simp: strip_prefix_def command_def under_def starts_with_iff split: if_splits)

text \<open>A command touches the selection and the draft alone.\<close>

lemma keeps_on_command:
  assumes sel: "\<And>p i. I p \<Longrightarrow> topic = command (mp_topics p) ''select_recipe'' \<Longrightarrow> I (p\<lparr>mp_selected := Some i\<rparr>)"
    and man: "\<And>p f t. I p \<Longrightarrow> I (p\<lparr>mp_manual := snd (draft_set f t (mp_manual p))\<rparr>)"
    and last: "\<And>p x. I p \<Longrightarrow> I (p\<lparr>mp_last_manual := x\<rparr>)"
  shows "keeps I (on_command env u topic body answer)"
  unfolding keeps_def
proof (intro allI impI)
  fix p :: Processor
  assume p: "I p"
  show "I (snd (on_command env u topic body answer p))"
  proof (cases "strip_prefix (command (mp_topics p) []) topic")
    case None
    with p show ?thesis by (simp add: on_command_def)
  next
    case (Some name)
    let ?t = "trim (utf8_lossy env body)"
    have "topic = command (mp_topics p) name" using Some strip_command_topic by blast
    then have s: "I (snd (andthen (changes (\<lambda>p. p\<lparr>mp_selected := Some i\<rparr>)) (publish_selected env) p))"
      if "name = ''select_recipe''" for i
      using sel [OF p] that by (simp add: andthen_def changes_def publish_selected_def tells_def)
    have m: "I (snd (case draft_set f ?t (mp_manual p) of (res, d) \<Rightarrow>
        andthen (changes (\<lambda>p. p\<lparr>mp_manual := d\<rparr>))
          (andthen (case res of Inl e \<Rightarrow> mqtt_command_failed env name e | Inr _ \<Rightarrow> (\<lambda>p. ([], p)))
            (publish_manual env u)) p))" for f
    proof -
      obtain res d where r: "draft_set f ?t (mp_manual p) = (res, d)" by (metis prod.exhaust)
      have k: "keeps I (andthen (case res of Inl e \<Rightarrow> mqtt_command_failed env name e | Inr _ \<Rightarrow> (\<lambda>p. ([], p)))
            (publish_manual env u))"
        using keeps_send(2) [of I] keeps_publish_manual [of I env u, OF last] by (auto split: sum.split)
      have "I (p\<lparr>mp_manual := d\<rparr>)" using man [OF p, of f ?t] r by simp
      from keepsD [OF k this] show ?thesis by (simp add: r andthen_def [of "changes h" for h] changes_def Let_def case_prod_beta)
    qed
    note f = keepsD [where I = I, OF keeps_send(1) p] keepsD [where I = I, OF keeps_send(2) p]
    consider "name = ''select_recipe''" | "starts_with name ''manual/''"
      | "name \<noteq> ''select_recipe''" "\<not> starts_with name ''manual/''" by blast
    then show ?thesis
    proof cases
      case 1
      then show ?thesis using p s by (simp add: on_command_def Some case_prod_beta split: option.split)
    next
      case 2
      then have "name \<noteq> ''select_recipe''" "name \<noteq> ''start''" "name \<noteq> ''start_manual''" by auto
      then show ?thesis
        using m unfolding on_command_def Some option.case Let_def by (simp only: 2 if_True if_False)
    next
      case 3
      then show ?thesis
        unfolding on_command_def Some option.case Let_def if_not_P [OF 3(1)] if_not_P [OF 3(2)]
        using f by (simp split: option.split sum.split)
    qed
  qed
qed

lemma keeps_draft_command: "keeps draft_fine (on_command env u topic body answer)"
  by (rule keeps_on_command) (simp_all add: draft_set_ok)

lemma mqtt_step_draft: "draft_ok (mp_manual p) \<Longrightarrow> draft_ok (mp_manual (snd (mqtt_step env ev p)))"
  using keepsD [OF keeps_on_change] keepsD [OF keeps_on_connected] keepsD [OF keeps_draft_command]
    keepsD [where I = draft_fine, OF keeps_send(2)]
  by (induction env ev rule: mqtt_step.induct) simp_all

lemma mqtt_run_draft: "draft_ok (mp_manual p) \<Longrightarrow> draft_ok (mp_manual (snd (mqtt_run env evs p)))"
  by (induction evs arbitrary: p) (simp_all add: andthen_def Let_def case_prod_beta mqtt_step_draft)

text \<open>
  C40: the manual cook's state is well typed. Whatever happened since the start, each field of the
  state that Home Assistant's controls read is one of its select's options, or a number within the
  bounds of its number box.
\<close>

theorem manual_state_is_well_typed:
  "let s = draft_state upper debug u (mp_manual (snd (mqtt_run env evs (processor_new c)))) unit
   in list_all (\<lambda>(key, opts). \<exists>opt \<in> set opts. j_get key s = Some (JStr opt))
        [(''mode'', MODES), (''elements'', ELEMENTS), (''preheat'', PREHEATS), (''ends'', ENDS), (''at_end'', AT_END)] \<and>
      list_all (\<lambda>(key, lo, hi). \<exists>x. j_get key s = Some (j_float x) \<and> in_range lo hi x)
        [(''temperature_c'', 25, 250), (''steam_pct'', 0, 100), (''probe_target_c'', 1, 100)] \<and>
      (\<exists>mins. j_get ''timer_mins'' s = Some (j_nat mins) \<and> 1 \<le> mins \<and> mins \<le> 1440)"
proof -
  let ?d = "mp_manual (snd (mqtt_run env evs (processor_new c)))"
  have d: "draft_ok ?d" by (rule mqtt_run_draft) (simp add: processor_new_def draft_default_ok)
  then have "1 \<le> unat (df_timer_mins ?d) \<and> unat (df_timer_mins ?d) \<le> 1440"
    by (simp add: draft_ok_def word_le_nat_alt)
  with d show ?thesis
    by (auto simp: Let_def draft_state_fields draft_ok_def intro!: nth_mem)
qed

text \<open>The options on offer are those of the recipes the processor has.\<close>

abbreviation "offers_recipes \<equiv> (\<lambda>p. mp_options p = options (mp_recipes p))"

lemma offers_parts:
  "keeps offers_recipes (publish_discovery env)" "keeps offers_recipes (publish_selected env)"
  "keeps offers_recipes (publish_recipes env)" "keeps offers_recipes (publish_manual env u)"
  "keeps offers_recipes (refresh_state env so force)" "keeps offers_recipes (refresh_ready so force)"
  "keeps offers_recipes (announce env sn)" "keeps offers_recipes (refresh_unit env so)"
  by (auto simp: publish_discovery_def publish_selected_def publish_recipes_def publish_manual_def
    refresh_state_def refresh_ready_def Let_def announce_def refresh_unit_def split: option.split)

lemma offers_refresh_recipes: "keeps offers_recipes (refresh_recipes env rs)"
proof -
  have k: "keeps offers_recipes (andthen (tells out) (publish_recipes env))" for out
    using offers_parts by auto
  have "offers_recipes (snd (andthen (changes (\<lambda>p. p\<lparr>mp_recipes := rs, mp_options := options rs\<rparr>))
          (andthen (tells out) (publish_recipes env)) p))" for out p
    using keepsD [OF k, of "p\<lparr>mp_recipes := rs, mp_options := options rs\<rparr>"]
    by (simp add: andthen_def [of "changes h" for h] changes_def Let_def case_prod_beta)
  then show ?thesis unfolding keeps_def refresh_recipes_def by simp
qed

lemma offers_on_change: "keeps offers_recipes (on_change env u so force)"
  unfolding on_change_def by (intro keeps_intros offers_refresh_recipes offers_parts)

lemma offers_run: "offers_recipes p \<Longrightarrow> offers_recipes (snd (mqtt_run env evs p))"
proof (induction evs arbitrary: p)
  case (Cons ev evs)
  have c: "keeps offers_recipes (on_connected env u so so')" for u so so'
    unfolding on_connected_def
    by (intro keeps_intros offers_on_change offers_parts) (simp_all add: take_recipes_def Let_def split: option.split)
  have d: "keeps offers_recipes (on_command env u topic body answer)" for u topic body answer
    by (rule keeps_on_command) simp_all
  have "offers_recipes (snd (mqtt_step env ev p))"
    using Cons.prems keepsD [OF offers_on_change] keepsD [OF c] keepsD [OF d]
      keepsD [where I = offers_recipes, OF keeps_send(2)]
    by (induction env ev rule: mqtt_step.induct) auto
  from Cons.IH [OF this] show ?case by (simp add: andthen_def Let_def case_prod_beta)
qed simp

section \<open>The selected recipe's attributes\<close>

text \<open>The attributes of the recipe selected, out of some recipes and in some unit.\<close>

definition attributes_text :: "MqttEnv \<Rightarrow> string option \<Rightarrow> Recipe list \<Rightarrow> string \<Rightarrow> string" where
  "attributes_text env sel rs un =
     (case Option.bind sel (\<lambda>i. find (\<lambda>r. rc_id r = i) rs) of
        Some r \<Rightarrow> render env (attributes (to_upper env) r un)
      | None \<Rightarrow> render env (JObj []))"

lemma selected_attributes_text:
  assumes "offers_recipes p"
  shows "snd (selected_texts env p) = attributes_text env (mp_selected p) (mp_recipes p) (unit_of p)"
proof (cases "mp_selected p")
  case (Some i)
  have "find (\<lambda>(_, j). j = i) (mp_options p) = None \<longleftrightarrow> i \<notin> snd ` set (mp_options p)"
    by (force simp: find_None_iff)
  moreover have "find (\<lambda>r. rc_id r = i) (mp_recipes p) = None \<longleftrightarrow> i \<notin> rc_id ` set (mp_recipes p)"
    by (auto simp: find_None_iff)
  ultimately show ?thesis using options_ids [of "mp_recipes p"] assms Some
    by (auto simp: selected_texts_def selected_recipe_def attributes_text_def split: option.split)
qed (simp add: selected_texts_def selected_recipe_def attributes_text_def)

text \<open>
  The recipes and the unit the processor has are among those seen (\<open>L\<close>, \<open>U\<close>), and the retained
  attributes are those of recipes and a unit seen, with the same options.
\<close>

definition has_seen :: "Recipe list set \<Rightarrow> string set \<Rightarrow> Processor \<Rightarrow> bool" where
  "has_seen L U p \<longleftrightarrow> offers_recipes p \<and> mp_recipes p \<in> L \<and> unit_of p \<in> U"

definition seen_attributes :: "MqttEnv \<Rightarrow> Recipe list set \<Rightarrow> string set \<Rightarrow> Processor \<Rightarrow> string option \<Rightarrow> bool" where
  "seen_attributes env L U p v \<longleftrightarrow>
     (\<exists>rs \<in> L. \<exists>un \<in> U. options rs = mp_options p \<and> v = shown (attributes_text env (mp_selected p) rs un))"

definition attrs_hold :: "MqttEnv \<Rightarrow> Recipe list set \<Rightarrow> string set \<Rightarrow> Processor \<times> (string \<Rightarrow> string option) \<Rightarrow> bool" where
  "attrs_hold env L U pb \<longleftrightarrow> has_seen L U (fst pb) \<and>
     seen_attributes env L U (fst pb) (snd pb (selected_attributes (mp_topics (fst pb))))"

lemma seen_attributes_cong:
  "mp_options q = mp_options p \<Longrightarrow> mp_selected q = mp_selected p \<Longrightarrow>
   seen_attributes env L U q v \<longleftrightarrow> seen_attributes env L U p v"
  by (simp add: seen_attributes_def)

lemma seen_attributes_now:
  "has_seen L U p \<Longrightarrow> seen_attributes env L U p (shown (snd (selected_texts env p)))"
  unfolding seen_attributes_def by (intro bexI [of _ "mp_recipes p"] bexI [of _ "unit_of p"])
    (simp_all add: has_seen_def selected_attributes_text)

text \<open>An operation aside: it leaves the recipes, the selection, the unit and the attributes' topic as they are.\<close>

definition same_choice :: "Processor \<Rightarrow> Processor \<Rightarrow> bool" where
  "same_choice p p' \<longleftrightarrow> mp_topics p' = mp_topics p \<and> mp_recipes p' = mp_recipes p \<and>
     mp_options p' = mp_options p \<and> mp_selected p' = mp_selected p \<and> mp_unit p' = mp_unit p"

lemma same_choice_refl [simp]: "same_choice p p"
  by (simp add: same_choice_def)

lemma same_choice_seen: "same_choice p p' \<Longrightarrow> has_seen L U p' = has_seen L U p"
  by (simp add: same_choice_def has_seen_def unit_of_def)

definition aside :: "op \<Rightarrow> bool" where
  "aside f \<longleftrightarrow> (\<forall>p b. same_choice p (fst (exec f (p, b))) \<and>
     snd (exec f (p, b)) (selected_attributes (mp_topics p)) = b (selected_attributes (mp_topics p)))"

lemma aside_andthen:
  assumes "aside f" "aside g"
  shows "aside (andthen f g)"
  unfolding aside_def
proof (intro allI)
  fix p b
  obtain p1 b1 where e: "exec f (p, b) = (p1, b1)" by fastforce
  have f: "same_choice p p1" "b1 (selected_attributes (mp_topics p)) = b (selected_attributes (mp_topics p))"
    using assms(1) e unfolding aside_def by (metis fst_conv snd_conv)+
  have g: "same_choice p1 (fst (exec g (p1, b1)))"
    "snd (exec g (p1, b1)) (selected_attributes (mp_topics p1)) = b1 (selected_attributes (mp_topics p1))"
    using assms(2) by (simp_all add: aside_def)
  have t: "mp_topics p1 = mp_topics p" using f(1) by (simp add: same_choice_def)
  show "same_choice p (fst (exec (andthen f g) (p, b))) \<and>
     snd (exec (andthen f g) (p, b)) (selected_attributes (mp_topics p)) = b (selected_attributes (mp_topics p))"
    using f g(2) g(1) by (simp add: e t) (simp add: same_choice_def)
qed

lemma aside_intros:
  "(\<And>p b. fold deliver (out p) b (selected_attributes (mp_topics p)) = b (selected_attributes (mp_topics p))) \<Longrightarrow>
   aside (tells out)"
  "(\<And>p. same_choice p (h p)) \<Longrightarrow> aside (changes h)"
  "aside f \<Longrightarrow> aside (only_if c f)"
  by (simp_all add: aside_def)

lemma aside_parts:
  "aside (refresh_state env so force)" "aside (refresh_ready so force)" "aside (publish_manual env u)"
  "aside (announce env sn)" "aside (publish_discovery env)"
proof -
  show "aside (refresh_state env so force)" "aside (refresh_ready so force)" "aside (publish_manual env u)"
    unfolding refresh_state_def refresh_ready_def publish_manual_def Let_def
    by (intro aside_intros aside_andthen; simp add: same_choice_def)+
  show "aside (announce env sn)" by (simp add: aside_def exec_announce same_choice_def)
  show "aside (publish_discovery env)"
    unfolding aside_def
  proof (intro allI)
    fix p b
    obtain p' b' where e: "exec (publish_discovery env) (p, b) = (p', b')" by fastforce
    from exec_publish_discovery [OF this] show "same_choice p (fst (exec (publish_discovery env) (p, b))) \<and>
     snd (exec (publish_discovery env) (p, b)) (selected_attributes (mp_topics p)) = b (selected_attributes (mp_topics p))"
      by (simp add: e same_choice_def)
  qed
qed

lemma aside_seen: "aside f \<Longrightarrow> has_seen L U p \<Longrightarrow> has_seen L U (fst (exec f (p, b)))"
  unfolding aside_def by (metis same_choice_seen)

lemma aside_attrs:
  assumes "aside f" "attrs_hold env L U pb"
  shows "attrs_hold env L U (exec f pb)"
proof -
  obtain p b where pb: "pb = (p, b)" by (cases pb)
  have a: "same_choice p (fst (exec f (p, b)))"
    "snd (exec f (p, b)) (selected_attributes (mp_topics p)) = b (selected_attributes (mp_topics p))"
    using assms(1) by (simp_all add: aside_def)
  have t: "mp_topics (fst (exec f (p, b))) = mp_topics p" using a(1) by (simp add: same_choice_def)
  have "seen_attributes env L U (fst (exec f (p, b))) v = seen_attributes env L U p v" for v
    by (rule seen_attributes_cong) (use a(1) in \<open>simp_all add: same_choice_def\<close>)
  with assms(2) a show ?thesis by (simp add: attrs_hold_def pb same_choice_seen t)
qed

lemma attrs_fresh:
  assumes "has_seen L U p"
  shows "attrs_hold env L U (exec (publish_selected env) (p, b))"
    and "attrs_hold env L U (exec (publish_recipes env) (p, b))"
proof -
  have r: "has_seen L U (reselect p)" using assms by (simp add: has_seen_def unit_of_def)
  show "attrs_hold env L U (exec (publish_selected env) (p, b))"
    using assms seen_attributes_now [OF assms] by (simp add: attrs_hold_def publish_selected_def)
  show "attrs_hold env L U (exec (publish_recipes env) (p, b))"
    using r seen_attributes_now [OF r] by (simp add: attrs_hold_def exec_publish_recipes)
qed

lemma attrs_refresh_recipes:
  assumes "attrs_hold env L U (p, b)" "rs \<in> L"
  shows "attrs_hold env L U (exec (refresh_recipes env rs) (p, b))"
proof (cases "options rs = mp_options p")
  case True
  then have "length rs = length (mp_recipes p)"
    using assms(1) by (auto simp: attrs_hold_def has_seen_def dest: arg_cong [where f = length])
  then have "exec (refresh_recipes env rs) (p, b) = (p\<lparr>mp_recipes := rs\<rparr>, b)"
    using True by (simp add: exec_def refresh_recipes_def)
  moreover have "seen_attributes env L U (p\<lparr>mp_recipes := rs\<rparr>) v = seen_attributes env L U p v" for v
    by (rule seen_attributes_cong) simp_all
  ultimately show ?thesis using assms True by (simp add: attrs_hold_def has_seen_def unit_of_def)
next
  case False
  let ?q = "p\<lparr>mp_recipes := rs, mp_options := options rs\<rparr>"
  have "exec (refresh_recipes env rs) (p, b) =
      exec (andthen (changes (\<lambda>p. p\<lparr>mp_recipes := rs, mp_options := options rs\<rparr>))
          (andthen
            (tells (\<lambda>p. case select_config (render env) (mp_topics p) (titles p) of
               (topic, pl) \<Rightarrow> [Publish topic True pl]))
            (publish_recipes env))) (p, b)"
    using False by (simp only: exec_def prod.case refresh_recipes_def if_True not_False_eq_True)
  moreover have "has_seen L U ?q" using assms by (simp add: attrs_hold_def has_seen_def unit_of_def)
  ultimately show ?thesis using attrs_fresh(2) by (simp add: case_prod_beta)
qed

lemma attrs_refresh_unit:
  assumes "attrs_hold env L U (p, b)" "\<forall>s. rm_status (so_model so) = Some s \<longrightarrow> temperature_unit s \<in> U"
  shows "attrs_hold env L U (exec (refresh_unit env so) (p, b))"
proof (cases "seen_status so")
  case None
  with assms(1) show ?thesis by (simp add: refresh_unit_def)
next
  case (Some s)
  let ?q = "p\<lparr>mp_unit := Some (temperature_unit s)\<rparr>"
  have "temperature_unit s \<in> U" using Some assms(2) by (auto simp: seen_status_def)
  moreover have "seen_attributes env L U ?q v = seen_attributes env L U p v" for v
    by (rule seen_attributes_cong) simp_all
  ultimately have "attrs_hold env L U (?q, b)"
    using assms(1) by (simp add: attrs_hold_def has_seen_def unit_of_def)
  then show ?thesis using aside_attrs [OF aside_parts(5)] by (simp add: refresh_unit_def Some)
qed

text \<open>What a look at the oven shows: recipes, and a unit if there is a status.\<close>

definition look_seen :: "Recipe list set \<Rightarrow> string set \<Rightarrow> Sources \<Rightarrow> bool" where
  "look_seen L U so \<longleftrightarrow> rm_recipes (so_model so) \<in> L \<and>
     (\<forall>s. rm_status (so_model so) = Some s \<longrightarrow> temperature_unit s \<in> U)"

lemma attrs_on_change:
  assumes "attrs_hold env L U pb" "look_seen L U so"
  shows "attrs_hold env L U (exec (on_change env u so force) pb)"
proof -
  obtain p b where pb: "pb = (p, b)" by (cases pb)
  obtain p1 b1 where e: "exec (refresh_recipes env (rm_recipes (so_model so))) (p, b) = (p1, b1)" by fastforce
  have "attrs_hold env L U (p1, b1)"
    using attrs_refresh_recipes [of env L U p b "rm_recipes (so_model so)"] assms e by (simp add: pb look_seen_def)
  then have "attrs_hold env L U (exec (refresh_unit env so) (p1, b1))"
    using attrs_refresh_unit assms(2) by (simp add: look_seen_def)
  then show ?thesis
    unfolding on_change_def pb exec_andthen e
    using aside_attrs [OF aside_parts(1)] aside_attrs [OF aside_parts(2)] aside_attrs [OF aside_parts(3)]
      aside_attrs [OF aside_parts(4)] by simp
qed

lemma attrs_on_connected:
  assumes "unit_of p \<in> U" "look_seen L U so" "look_seen L U so'"
  shows "attrs_hold env L U (exec (on_connected env u so so') (p, b))"
proof -
  have "has_seen L U (take_recipes so p)"
    using assms by (auto simp: has_seen_def look_seen_def take_recipes_def Let_def unit_of_def split: option.split)
  from aside_seen [OF aside_parts(5) this, of env b] obtain p2 b2 where
      e: "exec (publish_discovery env) (take_recipes so p, b) = (p2, b2)" "has_seen L U p2"
    by (metis prod.exhaust fst_conv)
  have c: "aside (changes (\<lambda>p. p\<lparr>mp_last_state := None, mp_last_manual := None, mp_next_stage_ready := None\<rparr>))"
    by (intro aside_intros) (simp add: same_choice_def)
  show ?thesis
    unfolding on_connected_def exec_andthen exec_changes e(1) exec_tells
    by (intro attrs_on_change aside_attrs [OF c] attrs_fresh(2) e(2) assms(3))
qed

lemma attrs_on_command:
  assumes "attrs_hold env L U (p, b)"
  shows "attrs_hold env L U (exec (on_command env u topic body answer) (p, b))"
proof (cases rule: exec_on_command_cases [of env u topic body answer p b])
  case 1
  with assms show ?thesis by simp
next
  case (2 i)
  have "has_seen L U (p\<lparr>mp_selected := Some i\<rparr>)" using assms by (simp add: attrs_hold_def has_seen_def unit_of_def)
  with attrs_fresh(1) 2 show ?thesis by simp
next
  case (3 f t)
  have "attrs_hold env L U (p\<lparr>mp_manual := snd (draft_set f t (mp_manual p))\<rparr>, b)"
    using assms seen_attributes_cong [of "p\<lparr>mp_manual := snd (draft_set f t (mp_manual p))\<rparr>" p env L U]
    by (simp add: attrs_hold_def has_seen_def unit_of_def)
  with aside_attrs [OF aside_parts(3)] 3 show ?thesis by simp
qed

fun looks :: "MqttEvent \<Rightarrow> Sources list" where
  "looks (MIncoming Connected (so, so') _) = [so, so']"
| "looks (MChanged so) = [so]"
| "looks _ = []"

lemma attrs_run:
  "attrs_hold env L U pb \<Longrightarrow> \<forall>ev \<in> set evs. \<forall>so \<in> set (looks (snd ev)). look_seen L U so \<Longrightarrow>
   attrs_hold env L U (exec (mqtt_run env evs) pb)"
proof (induction evs arbitrary: pb)
  case (Cons ev evs)
  obtain p b where pb: "pb = (p, b)" by (cases pb)
  have u: "unit_of p \<in> U" using Cons.prems(1) by (simp add: pb attrs_hold_def has_seen_def)
  have "attrs_hold env L U (exec (mqtt_step env ev) pb)"
    using Cons.prems u attrs_on_change [where pb = "(p, b)"] attrs_on_connected [where p = p and b = b]
      attrs_on_command [where p = p and b = b] unfolding pb
    by (induction env ev rule: mqtt_step.induct) simp_all
  from Cons.IH [OF this] Cons.prems(2) show ?case by simp
qed (cases pb, simp)

section \<open>The mirror\<close>

lemma exec_eq: "exec f (p, b) = (snd (f p), fold deliver (fst (f p)) b)"
  by (simp add: exec_def)

text \<open>The recipes and the units a run's looks show.\<close>

definition recipes_seen :: "((nat \<Rightarrow> string) \<times> MqttEvent) list \<Rightarrow> Recipe list set" where
  "recipes_seen evs = (\<Union>ev \<in> set evs. rm_recipes ` so_model ` set (looks (snd ev)))"

definition units_seen :: "((nat \<Rightarrow> string) \<times> MqttEvent) list \<Rightarrow> string set" where
  "units_seen evs = (\<Union>ev \<in> set evs. \<Union>so \<in> set (looks (snd ev)). temperature_unit ` set_option (rm_status (so_model so)))"

text \<open>
  C26: Home Assistant mirrors the oven. Whatever happened before a connect to the broker and whatever the
  broker still held, after the connect and any further changes, commands and failures these retained
  topics are those of the latest state the processor looked at: the state document, the recipe
  options and the selected one, whether a stage waits, the manual cook as it is set up, and the
  discovery configs in the oven's unit.

  The attributes of the selected recipe may lag: they are those of the recipe with the selected id in
  a recipe list \<open>rs\<close> that the processor saw since the connect, with the same titles and ids as the
  latest one, and in a unit it saw since or had before. So they are the latest if neither a stage of
  a recipe nor the unit changed since the connect.
\<close>

theorem home_assistant_mirrors_the_oven:
  assumes "p0 = snd (mqtt_run env before (processor_new c))"
    and "run = (u, MIncoming Connected (so', so) answer) # evs"
    and "mqtt_run env run p0 = (outs, p)"
    and "b = fold deliver outs b0" "now = latest so evs" "t = mp_topics p"
    and "opts = options (rm_recipes (so_model now))"
  shows "b (availability t) = Some ''online'' \<and>
    b (state_topic t) = shown (seen_state env now) \<and>
    b (next_stage_availability t) =
      Some (if sn_next_stage_ready (seen_snapshot now) \<and> so_connected now then ''online'' else ''offline'') \<and>
    b (recipes_topic t) = shown (render env (JArr (map (JStr \<circ> fst) opts))) \<and>
    b (selected_topic t) = shown (shown_option (mp_selected p) opts) \<and>
    (\<exists>rs \<in> recipes_seen run. \<exists>un \<in> insert (unit_of p0) (units_seen run). options rs = opts \<and>
       b (selected_attributes t) = shown (attributes_text env (mp_selected p) rs un)) \<and>
    b (manual_topic t) =
      shown (render env (draft_state (to_upper env) (store_debug env) v (mp_manual p) (unit_of p))) \<and>
    (\<forall>(topic, pl) \<in> set (configs (render env) t (mp_local p) (map fst opts) (unit_of p)). b topic = shown pl) \<and>
    (\<forall>s. rm_status (so_model now) = Some s \<longrightarrow> unit_of p = temperature_unit s)"
proof -
  have d: "draft_ok (mp_manual p0)"
    unfolding assms(1) by (rule mqtt_run_draft) (simp add: processor_new_def draft_default_ok)
  have ex: "exec (mqtt_run env run) (p0, b0) = (p, b)"
    using assms(3,4) by (simp only: exec_eq fst_conv snd_conv)
  then have m: "mirrors env now (p, b)"
    using exec_mqtt_run [OF exec_on_connected [OF d, of env so u so' b0], of evs] by (simp add: assms(2,5))
  let ?L = "recipes_seen run" and ?U = "insert (unit_of p0) (units_seen run)"
  have look: "\<forall>ev \<in> set run. \<forall>so \<in> set (looks (snd ev)). look_seen ?L ?U so"
    by (force simp: look_seen_def recipes_seen_def units_seen_def)
  then have "attrs_hold env ?L ?U (exec (on_connected env u so' so) (p0, b0))"
    by (intro attrs_on_connected) (simp_all add: assms(2))
  with attrs_run [of env ?L ?U _ evs] look have "attrs_hold env ?L ?U (exec (mqtt_run env run) (p0, b0))"
    by (simp add: assms(2))
  then have a: "\<exists>rs \<in> ?L. \<exists>un \<in> ?U. options rs = mp_options p \<and>
      b (selected_attributes (mp_topics p)) = shown (attributes_text env (mp_selected p) rs un)"
    unfolding ex by (simp add: attrs_hold_def seen_attributes_def)
  have o: "mp_options p = opts" using m by (simp add: assms(7) mirrors_def holds_status_def)
  show ?thesis
    unfolding assms(6) using m a selected_option [of p env] unfolding o [symmetric]
    by (auto simp: mirrors_def holds_discovery_def holds_recipes_def holds_manual_def holds_status_def
      manual_text_def titles_def unit_of_def)
qed

section \<open>What is announced\<close>

text \<open>The messages that are not retained.\<close>

definition spoken :: "Out list \<Rightarrow> (string \<times> string) list" where
  "spoken outs = List.map_filter (\<lambda>x. case x of Publish topic False pl \<Rightarrow> Some (topic, pl) | _ \<Rightarrow> None) outs"

definition silent :: "op \<Rightarrow> bool" where
  "silent f \<longleftrightarrow> (\<forall>p. spoken (fst (f p)) = [] \<and> mp_last_snapshot (snd (f p)) = mp_last_snapshot p \<and>
     mp_topics (snd (f p)) = mp_topics p)"

lemma spoken_simps [simp]:
  "spoken [] = []" "spoken (xs @ ys) = spoken xs @ spoken ys"
  "spoken (Publish topic True pl # xs) = spoken xs"
  "spoken (Publish topic False pl # xs) = (topic, pl) # spoken xs"
  "spoken (Subscribe topic # xs) = spoken xs" "spoken (Send cmd # xs) = spoken xs"
  by (simp_all add: spoken_def List.map_filter_def)

lemma silent_intros [intro!]:
  "silent f \<Longrightarrow> silent g \<Longrightarrow> silent (andthen f g)"
  "(\<And>p. spoken (out p) = []) \<Longrightarrow> silent (tells out)"
  "(\<And>p. mp_last_snapshot (h p) = mp_last_snapshot p \<and> mp_topics (h p) = mp_topics p) \<Longrightarrow> silent (changes h)"
  "silent f \<Longrightarrow> silent (only_if c f)"
  "silent (\<lambda>p. ([], p))"
  by (auto simp: silent_def andthen_def Let_def tells_def changes_def only_if_def case_prod_beta)

lemma silent_parts:
  "silent (publish_discovery env)" "silent (publish_selected env)" "silent (publish_recipes env)"
  "silent (publish_manual env u)" "silent (refresh_state env so force)" "silent (refresh_ready so force)"
  "silent (refresh_unit env so)"
proof -
  have "spoken (map (\<lambda>(topic, pl). Publish topic True pl) cs) = []" for cs by (induction cs) auto
  then show "silent (publish_discovery env)" unfolding publish_discovery_def by auto
  then show "silent (refresh_unit env so)" by (auto simp: refresh_unit_def split: option.split)
qed (auto simp: publish_selected_def publish_recipes_def publish_manual_def refresh_state_def refresh_ready_def Let_def)

lemma silent_refresh_recipes: "silent (refresh_recipes env rs)"
proof -
  have k: "silent (andthen (changes (\<lambda>p. p\<lparr>mp_recipes := rs, mp_options := options rs\<rparr>))
          (andthen
            (tells (\<lambda>p. case select_config (render env) (mp_topics p) (titles p) of
               (topic, pl) \<Rightarrow> [Publish topic True pl]))
            (publish_recipes env)))"
    using silent_parts by (auto split: prod.split)
  then show ?thesis unfolding silent_def refresh_recipes_def by simp
qed

definition told_event :: "MqttEnv \<Rightarrow> Topics \<Rightarrow> Snapshot \<times> Snapshot \<times> Milestone \<Rightarrow> string \<times> string" where
  "told_event env t = (\<lambda>(s, s', m). (event_topic t, event_text env s s' m))"

lemma spoken_on_change:
  "spoken (fst (on_change env u so force p)) =
     (case mp_last_snapshot p of None \<Rightarrow> []
      | Some s \<Rightarrow> map (told_event env (mp_topics p)) (told [s, seen_snapshot so])) \<and>
   mp_last_snapshot (snd (on_change env u so force p)) = Some (seen_snapshot so) \<and>
   mp_topics (snd (on_change env u so force p)) = mp_topics p"
proof -
  have s: "silent f \<Longrightarrow> spoken (fst (andthen f g p)) = spoken (fst (g (snd (f p)))) \<and>
      snd (andthen f g p) = snd (g (snd (f p))) \<and> mp_last_snapshot (snd (f p)) = mp_last_snapshot p \<and>
      mp_topics (snd (f p)) = mp_topics p" for f g p
    by (simp add: silent_def andthen_def Let_def case_prod_beta)
  have m: "spoken (fst (publish_manual env u q)) = []"
      "mp_last_snapshot (snd (publish_manual env u q)) = mp_last_snapshot q"
      "mp_topics (snd (publish_manual env u q)) = mp_topics q" for q
    using silent_parts(4) by (simp_all add: silent_def)
  have l: "spoken (map (\<lambda>x. Publish topic False (f x)) ms) = map (\<lambda>x. (topic, f x)) ms" for topic f and ms :: "Milestone list"
    by (induction ms) simp_all
  have a: "spoken (fst (andthen (announce env sn) (publish_manual env u) q)) =
        (case mp_last_snapshot q of None \<Rightarrow> [] | Some s \<Rightarrow> map (told_event env (mp_topics q)) (told [s, sn])) \<and>
      mp_last_snapshot (snd (andthen (announce env sn) (publish_manual env u) q)) = Some sn \<and>
      mp_topics (snd (andthen (announce env sn) (publish_manual env u) q)) = mp_topics q" for q sn
    using m by (simp add: andthen_def [of "announce env sn"] announce_def andthen_def tells_def changes_def Let_def
      case_prod_beta l told_event_def comp_def split: option.split)
  show ?thesis
    unfolding on_change_def
    using s [OF silent_refresh_recipes] s [OF silent_parts(7)] s [OF silent_parts(5)] s [OF silent_parts(6)] a
    by (cases "mp_last_snapshot p") simp_all
qed

text \<open>On a connect the processor looks at the same as on a change.\<close>

lemma spoken_on_connected:
  "spoken (fst (on_connected env u so' so p)) =
     (case mp_last_snapshot p of None \<Rightarrow> []
      | Some s \<Rightarrow> map (told_event env (mp_topics p)) (told [s, seen_snapshot so])) \<and>
   mp_last_snapshot (snd (on_connected env u so' so p)) = Some (seen_snapshot so) \<and>
   mp_topics (snd (on_connected env u so' so p)) = mp_topics p"
proof -
  have s: "silent f \<Longrightarrow> spoken (fst (andthen f g p)) = spoken (fst (g (snd (f p)))) \<and>
      snd (andthen f g p) = snd (g (snd (f p))) \<and> mp_last_snapshot (snd (f p)) = mp_last_snapshot p \<and>
      mp_topics (snd (f p)) = mp_topics p" for f g p
    by (simp add: silent_def andthen_def Let_def case_prod_beta)
  have q: "silent (changes (take_recipes so'))"
      "silent (tells (\<lambda>p. [Publish (availability (mp_topics p)) True ''online'', Subscribe (commands (mp_topics p))]))"
      "silent (changes (\<lambda>p. p\<lparr>mp_last_state := None, mp_last_manual := None, mp_next_stage_ready := None\<rparr>))"
    by (auto simp: take_recipes_def Let_def split: option.split)
  show ?thesis
    unfolding on_connected_def
    using s [OF q(1)] s [OF silent_parts(1)] s [OF q(2)] s [OF silent_parts(3)] s [OF q(3)] spoken_on_change
    by (cases "mp_last_snapshot p") simp_all
qed

lemma on_command_keeps_snapshot:
  "mp_last_snapshot (snd (on_command env u topic body answer p)) = mp_last_snapshot p \<and>
   mp_topics (snd (on_command env u topic body answer p)) = mp_topics p"
  by (rule keepsD [OF keeps_on_command [where I = "\<lambda>q. mp_last_snapshot q = mp_last_snapshot p \<and> mp_topics q = mp_topics p"]])
    simp_all





section \<open>Commands\<close>

lemma timer_pos: "f32_le (F_Fin False 1 0) x \<Longrightarrow> (float_to_word x :: u64) \<noteq> 0"
proof (cases x)
  case (F_Fin s m e)
  assume le: "f32_le (F_Fin False 1 0) x"
  then have v: "(1 :: rat) \<le> of_int (signed s m) * pow2 e"
    using f32_le_val [of "F_Fin False 1 0" _ x] F_Fin by (simp add: signed_def pow2_def)
  have s: "\<not> s"
  proof
    assume s
    then have "of_int (signed s m) * pow2 e = - (of_nat m * pow2 e)" by (simp add: signed_def)
    moreover have "0 \<le> of_nat m * pow2 e" by (intro mult_nonneg_nonneg) (simp_all add: less_imp_le)
    ultimately show False using v by linarith
  qed
  with v have w: "of_nat 1 \<le> of_nat m * pow2 e" by (simp add: signed_def)
  have "1 \<le> toward_zero m e"
  proof (cases "0 \<le> e")
    case True
    with w have "m \<noteq> 0" by (cases "m = 0") auto
    with True show ?thesis by (simp add: toward_zero_def)
  next
    case False
    then have "1 * 2 ^ nat (- e) \<le> m" using w le_pow2_iff(2) [of e 1 m] by simp
    with False show ?thesis by (simp add: toward_zero_def less_eq_div_iff_mult_less_eq)
  qed
  then have "unat (of_nat (min (toward_zero m e) (2 ^ 64 - 1)) :: u64) \<noteq> 0"
    by (simp add: unat_of_nat min_def)
  then show ?thesis using F_Fin s by auto
qed simp_all

lemma control_request_valid: "control_request name text0 = Inr rq \<Longrightarrow> valid_command (Control rq)"
  using timer_pos
  by (auto simp: control_request_def f32_within_range split: if_splits option.splits)

lemma check_manual_valid: "check_manual dbg u title stages = Inr r \<Longrightarrow> valid_command (StartManualCook (rc_title r) (rc_stages r))"
proof -
  assume "check_manual dbg u title stages = Inr r"
  then obtain r0 where "normalize u 0 r0 = Inr r"
    by (auto simp: check_manual_def split: sum.splits RecipeError.splits)
  from normalize_Inr [OF this] have "recipe_normal r" by blast
  then show ?thesis by (simp add: recipe_normal_def)
qed

definition failure_event :: "MqttEnv \<Rightarrow> Processor \<Rightarrow> string \<Rightarrow> string \<Rightarrow> Out" where
  "failure_event env p name reason = hd (fst (mqtt_command_failed env name reason p))"

lemma failed_event: "mqtt_command_failed env name reason p = ([failure_event env p name reason], p)"
  by (simp add: failure_event_def mqtt_command_failed_def tells_def)

text \<open>How a command ends: with the state machine's consent, with a failure event, or as the server stops.\<close>

definition answered :: "MqttEnv \<Rightarrow> (StateMachineCommand \<Rightarrow> Reply) \<Rightarrow> string \<Rightarrow> Processor \<Rightarrow> Out list \<times> Processor \<Rightarrow> bool" where
  "answered env answer name p r \<longleftrightarrow> snd r = p \<and>
     ((\<exists>reason. fst r = [failure_event env p name reason]) \<or>
      (\<exists>cmd. valid_command cmd \<and>
         fst r = (case answer cmd of
             ChannelClosed \<Rightarrow> []
           | Replied (Inr _) \<Rightarrow> [Send cmd]
           | Replied (Inl e) \<Rightarrow> [Send cmd, failure_event env p name (sm_error_message e)]
           | ReplyDropped \<Rightarrow> [Send cmd, failure_event env p name ''state machine dropped the reply''])))"

lemma answered_failed: "answered env answer name p (mqtt_command_failed env name reason p)"
  by (auto simp: answered_def failed_event)

lemma answered_send: "valid_command cmd \<Longrightarrow> answered env answer name p (send_command env answer name cmd p)"
  by (auto simp: answered_def send_command_def andthen_def tells_def Let_def failed_event intro!: exI [of _ cmd]
    split: Reply.split sum.split)

lemma answered_on_command:
  assumes "strip_prefix (command (mp_topics p) []) topic = Some name"
    and "name \<noteq> ''select_recipe''" "\<not> starts_with name ''manual/''"
  shows "answered env answer name p (on_command env u topic body answer p)"
  unfolding on_command_def assms(1) option.case Let_def if_not_P [OF assms(2)] if_not_P [OF assms(3)]
  using answered_failed answered_send control_request_valid check_manual_valid
  by (auto simp: draft_recipe_def split: option.split sum.split)

lemma answered_valid:
  assumes "answered env answer name p r" "Send cmd \<in> set (fst r)"
  shows "valid_command cmd"
proof -
  have f: "Send cmd \<noteq> failure_event env p name reason" for reason
    by (simp add: failure_event_def mqtt_command_failed_def tells_def)
  with assms obtain cmd' where c: "valid_command cmd'" "fst r = (case answer cmd' of
             ChannelClosed \<Rightarrow> []
           | Replied (Inr _) \<Rightarrow> [Send cmd']
           | Replied (Inl e) \<Rightarrow> [Send cmd', failure_event env p name (sm_error_message e)]
           | ReplyDropped \<Rightarrow> [Send cmd', failure_event env p name ''state machine dropped the reply''])"
    by (auto simp: answered_def)
  have "cmd = cmd'"
  proof (cases "answer cmd'")
    case (Replied x)
    with assms(2) c(2) f show ?thesis by (cases x) auto
  qed (use assms(2) c(2) f in auto)
  with c(1) show ?thesis by simp
qed

lemma send_not_set_up:
  assumes "Send cmd \<in> set (fst (on_command env u topic body answer p))"
  shows "\<exists>name. strip_prefix (command (mp_topics p) []) topic = Some name \<and>
    name \<noteq> ''select_recipe'' \<and> \<not> starts_with name ''manual/''"
proof (cases "strip_prefix (command (mp_topics p) []) topic")
  case None
  with assms show ?thesis by (simp add: on_command_def)
next
  case (Some name)
  have m: "Send cmd \<notin> set (fst (publish_manual env u q))" for q
    by (simp add: publish_manual_def only_if_def andthen_def tells_def changes_def)
  have "Send cmd \<notin> set (fst (on_command env u topic body answer p))" if "name = ''select_recipe''"
    using Some that by (simp add: on_command_def Let_def andthen_def changes_def publish_selected_def tells_def
      case_prod_beta split: option.split)
  moreover have "Send cmd \<notin> set (fst (on_command env u topic body answer p))" if n: "starts_with name ''manual/''"
  proof -
    have ne: "name \<noteq> ''select_recipe''" "name \<noteq> ''start''" "name \<noteq> ''start_manual''" using n by auto
    obtain res d where res: "draft_set (drop (length ''manual/'') name) (trim (utf8_lossy env body)) (mp_manual p) = (res, d)"
      by (metis prod.exhaust)
    show ?thesis
      unfolding on_command_def Some option.case Let_def res prod.case
      using m by (cases res) (simp_all add: ne n andthen_def changes_def Let_def case_prod_beta failed_event
        mqtt_command_failed_def tells_def)
  qed
  ultimately show ?thesis using assms Some by blast
qed

text \<open>
  C28: commands from Home Assistant are checked like those of the HTTP API, and none is lost: each command
  given to the state machine is a valid one, and a command that is not about the selection or the
  manual cook's fields either reaches the state machine, or Home Assistant gets a failure event that
  names the command, and likewise when the state machine refuses it. The processor itself stays as
  it was.
\<close>

theorem mqtt_sends_checked_commands:
  assumes "on_command env u topic body answer p = (outs, p')"
  shows "(\<forall>cmd. Send cmd \<in> set outs \<longrightarrow> valid_command cmd) \<and>
    (\<forall>name. topic = command (mp_topics p) name \<and> name \<noteq> ''select_recipe'' \<and> \<not> starts_with name ''manual/'' \<longrightarrow>
       p' = p \<and>
       ((\<exists>reason. outs = [failure_event env p name reason]) \<or>
        (\<exists>cmd. valid_command cmd \<and> outs = (case answer cmd of
             ChannelClosed \<Rightarrow> []
           | Replied (Inr _) \<Rightarrow> [Send cmd]
           | Replied (Inl e) \<Rightarrow> [Send cmd, failure_event env p name (sm_error_message e)]
           | ReplyDropped \<Rightarrow> [Send cmd, failure_event env p name ''state machine dropped the reply'']))))"
proof (intro conjI allI impI; (elim conjE)?)
  fix cmd
  assume "Send cmd \<in> set outs"
  then have send: "Send cmd \<in> set (fst (on_command env u topic body answer p))" by (simp add: assms)
  from send_not_set_up [OF this] obtain name where
    "strip_prefix (command (mp_topics p) []) topic = Some name" "name \<noteq> ''select_recipe''" "\<not> starts_with name ''manual/''"
    by blast
  from answered_valid [OF answered_on_command [OF this, of env answer u body] send] show "valid_command cmd" .
next
  fix name
  assume t: "topic = command (mp_topics p) name" "name \<noteq> ''select_recipe''" "\<not> starts_with name ''manual/''"
  have "strip_prefix (command (mp_topics p) []) topic = Some name"
    by (simp add: t(1) strip_prefix_def command_def under_def starts_with_iff)
  from answered_on_command [OF this t(2,3), of env answer u body] assms
  show "p' = p" and "(\<exists>reason. outs = [failure_event env p name reason]) \<or>
        (\<exists>cmd. valid_command cmd \<and> outs = (case answer cmd of
             ChannelClosed \<Rightarrow> []
           | Replied (Inr _) \<Rightarrow> [Send cmd]
           | Replied (Inl e) \<Rightarrow> [Send cmd, failure_event env p name (sm_error_message e)]
           | ReplyDropped \<Rightarrow> [Send cmd, failure_event env p name ''state machine dropped the reply'']))"
    by (simp_all add: answered_def)
qed

section \<open>Choosing and starting\<close>

text \<open>The selected recipe stays selected while it is there.\<close>

abbreviation "chosen i \<equiv> (\<lambda>p. mp_selected p = Some i \<and> i \<in> snd ` set (mp_options p))"

lemma chosen_reselect: "mp_selected p = Some i \<Longrightarrow> (opt, i) \<in> set (mp_options p) \<Longrightarrow> reselect p = p"
  by (force simp: reselect_def)

lemma chosen_parts:
  "keeps (chosen i) (publish_discovery env)" "keeps (chosen i) (publish_selected env)"
  "keeps (chosen i) (publish_recipes env)" "keeps (chosen i) (publish_manual env u)"
  "keeps (chosen i) (refresh_state env so force)" "keeps (chosen i) (refresh_ready so force)"
  "keeps (chosen i) (announce env sn)" "keeps (chosen i) (refresh_unit env so)"
  by (auto simp: publish_discovery_def publish_selected_def publish_recipes_def publish_manual_def chosen_reselect
    refresh_state_def refresh_ready_def Let_def announce_def refresh_unit_def split: option.split)

lemma chosen_refresh_recipes:
  assumes "i \<in> rc_id ` set rs"
  shows "keeps (chosen i) (refresh_recipes env rs)"
proof -
  have k: "keeps (chosen i) (andthen (changes (\<lambda>p. p\<lparr>mp_recipes := rs, mp_options := options rs\<rparr>))
          (andthen (tells out) (publish_recipes env)))" for out
    using chosen_parts assms options_ids by auto
  show ?thesis
    unfolding keeps_def refresh_recipes_def using keepsD [OF k] by simp
qed

lemma chosen_on_change: "i \<in> rc_id ` set (rm_recipes (so_model so)) \<Longrightarrow> keeps (chosen i) (on_change env u so force)"
  unfolding on_change_def by (intro keeps_intros chosen_refresh_recipes chosen_parts)

lemma chosen_on_connected:
  "i \<in> rc_id ` set (rm_recipes (so_model so)) \<Longrightarrow> i \<in> rc_id ` set (rm_recipes (so_model so')) \<Longrightarrow>
   keeps (chosen i) (on_connected env u so so')"
  unfolding on_connected_def
  by (intro keeps_intros chosen_on_change chosen_parts)
    (auto simp: take_recipes_def Let_def options_ids split: option.split)

lemma chosen_on_command:
  assumes "topic \<noteq> command t ''select_recipe''"
  shows "keeps (\<lambda>p. mp_topics p = t \<and> chosen i p) (on_command env u topic body answer)"
  by (rule keeps_on_command) (use assms in auto)

text \<open>
  What leaves a choice alone: a connect or a change at which every look finds the recipe, a failure,
  and any command but another choice.
\<close>

fun leaves_choice :: "Topics \<Rightarrow> string \<Rightarrow> MqttEvent \<Rightarrow> bool" where
  "leaves_choice t i (MIncoming Connected (so, so') _) \<longleftrightarrow>
     i \<in> rc_id ` set (rm_recipes (so_model so)) \<and> i \<in> rc_id ` set (rm_recipes (so_model so'))"
| "leaves_choice t i (MIncoming (Command topic body) _ _) \<longleftrightarrow> topic \<noteq> command t ''select_recipe''"
| "leaves_choice t i (MChanged so) \<longleftrightarrow> i \<in> rc_id ` set (rm_recipes (so_model so))"
| "leaves_choice t i (MFailure _) \<longleftrightarrow> True"

lemma step_topics: "mp_topics (snd (mqtt_step env ev p)) = mp_topics p"
  using spoken_on_change spoken_on_connected on_command_keeps_snapshot
  by (induction env ev rule: mqtt_step.induct) (simp_all add: mqtt_command_failed_def tells_def)

lemma run_topics [simp]: "mp_topics (snd (mqtt_run env evs p)) = mp_topics p"
  by (induction evs arbitrary: p) (simp_all add: andthen_def Let_def case_prod_beta step_topics)

lemma chosen_step:
  assumes "leaves_choice (mp_topics p) i (snd ev)" "chosen i p"
  shows "chosen i (snd (mqtt_step env ev p))"
  using assms keepsD [OF chosen_on_change] keepsD [OF chosen_on_connected] keepsD [OF chosen_on_command]
    keepsD [where I = "chosen i", OF keeps_send(2)]
  by (induction env ev rule: mqtt_step.induct) auto

lemma chosen_run:
  assumes "\<forall>ev \<in> set evs. leaves_choice (mp_topics p) i (snd ev)" "chosen i p"
  shows "chosen i (snd (mqtt_run env evs p))"
  using assms
proof (induction evs arbitrary: p)
  case (Cons ev evs)
  then have "chosen i (snd (mqtt_step env ev p))" using chosen_step [of p i ev env] by simp
  from Cons.IH [OF _ this] Cons.prems(1) show ?case
    by (simp add: andthen_def Let_def case_prod_beta step_topics)
qed simp

lemma find_key_map_of: "find (\<lambda>(k, _). k = x) kvs = map_option (Pair x) (map_of kvs x)"
  by (induction kvs) auto

text \<open>The commands that went to the state machine.\<close>

definition sends :: "Out list \<Rightarrow> StateMachineCommand list" where
  "sends outs = List.map_filter (\<lambda>x. case x of Send cmd \<Rightarrow> Some cmd | _ \<Rightarrow> None) outs"

lemma sends_send: "sends (fst (send_command env answer name cmd p)) = (if answer cmd = ChannelClosed then [] else [cmd])"
  by (auto simp: sends_def List.map_filter_def send_command_def tells_def andthen_def mqtt_command_failed_def
    split: Reply.split sum.split)

text \<open>
  C29: what is chosen is started. At any time Home Assistant picks an option of the recipe select; the
  option is the label of one of the processor's recipes, its title with a number where titles
  repeat. Then, whatever happens, as long as the recipe is not deleted and no other is chosen, and
  though recipes be renamed, edited, added or reordered, commands come and fail and the broker
  reconnect, a press of the start button that names no recipe itself sends the state machine
  exactly one command, the start of that recipe (and none only if the state machine is gone).

  Where two options have the same label, which only titles that look like numbered ones bring about,
  it is the first of them that is picked; otherwise the option stands for that recipe alone.
\<close>

theorem chosen_recipe_is_started:
  assumes "p = snd (mqtt_run env before (processor_new c))"
    and "opt \<in> fst ` set (mp_options p)" "trim (utf8_lossy env body) = opt"
    and "i = the (map_of (mp_options p) opt)"
    and "p1 = snd (on_command env u (command (mp_topics p) ''select_recipe'') body a1 p)"
    and "\<forall>ev \<in> set evs. leaves_choice (mp_topics p) i (snd ev)"
    and "p2 = snd (mqtt_run env evs p1)"
    and "Option.bind (Option.bind (parse_json env (trim (utf8_lossy env press))) (j_get ''recipe_id'')) j_as_str = None"
  shows "sends (fst (on_command env u' (command (mp_topics p2) ''start'') press answer p2)) =
      (if answer (StartCook i) = ChannelClosed then [] else [StartCook i]) \<and>
    (\<exists>r \<in> set (mp_recipes p). rc_id r = i \<and> (\<exists>n \<ge> 1. opt = label (rc_title r) n)) \<and>
    (titles_clear (rc_title ` set (mp_recipes p)) \<longrightarrow> (\<forall>j. (opt, j) \<in> set (mp_options p) \<longrightarrow> j = i))"
proof -
  have o: "mp_options p = options (mp_recipes p)"
    unfolding assms(1) by (rule offers_run) (simp add: processor_new_def options_labels)
  obtain j where m: "map_of (mp_options p) opt = Some j" using assms(2) by (metis domD dom_map_of_conv_image_fst)
  then have i: "map_of (mp_options p) opt = Some i" by (simp add: assms(4))
  then have f: "find (\<lambda>(title, _). title = opt) (mp_options p) = Some (opt, i)" by (simp add: find_key_map_of)
  have mem: "(opt, i) \<in> set (mp_options p)" using i by (rule map_of_SomeD)
  have "p1 = snd (andthen (changes (\<lambda>p. p\<lparr>mp_selected := Some i\<rparr>)) (publish_selected env) p)"
    unfolding assms(5) on_command_def strip_command option.case Let_def assms(3) f by simp
  then have p1: "p1 = p\<lparr>mp_selected := Some i\<rparr>"
    by (simp add: andthen_def changes_def publish_selected_def tells_def)
  have "chosen i p1" using mem by (force simp: p1)
  then have "chosen i p2" unfolding assms(7) by (rule chosen_run [rotated]) (use assms(6) p1 in simp)
  then have "on_command env u' (command (mp_topics p2) ''start'') press answer p2 =
      send_command env answer ''start'' (StartCook i) p2"
    unfolding on_command_def strip_command option.case Let_def assms(8) by simp
  moreover obtain r n where "r \<in> set (mp_recipes p)" "0 < n" "opt = label (rc_title r) n" "i = rc_id r"
    using label_in_labels [OF mem [unfolded o options_labels]] by auto
  moreover have "j = i" if "titles_clear (rc_title ` set (mp_recipes p))" "(opt, j) \<in> set (mp_options p)" for j
  proof -
    have "distinct (map fst (mp_options p))"
      unfolding o options_labels by (rule distinct_labels) (use that(1) in simp)
    with that(2) i show ?thesis by simp
  qed
  ultimately show ?thesis
    by (intro conjI bexI [of _ r] exI [of _ n]) (simp_all add: sends_send)
qed

section \<open>The properties at work\<close>

definition demo_mqtt :: MqttEnv where
  "demo_mqtt = \<lparr>to_upper = (\<lambda>c. c), store_debug = (\<lambda>_. ''''),
     render = (\<lambda>j. case j of
       JArr xs \<Rightarrow> join '', '' (map (\<lambda>x. case x of JStr s \<Rightarrow> s | _ \<Rightarrow> ''{}'') xs) | _ \<Rightarrow> ''{}''), parse_json = (\<lambda>_. None), parse_manual_start = (\<lambda>_. None),
     status_json = (\<lambda>_. JObj []), timestamp_text = (\<lambda>_. None), utf8_lossy = (\<lambda>s. s)\<rparr>"

definition demo_config :: MqttConfig where
  "demo_config = \<lparr>mc_url = ''mqtt://broker'', mc_username = None, mc_password = None,
     mc_topics = \<lparr>tp_prefix = ''anova/oven'', tp_discovery = ''homeassistant''\<rparr>, mc_local = True\<rparr>"

definition demo_sources :: "OvenStatus option \<Rightarrow> Recipe list \<Rightarrow> Sources" where
  "demo_sources status rs =
     \<lparr>so_model = \<lparr>rm_status = status, rm_current_cook = None, rm_recipes = rs, rm_history = [],
                  rm_last_transition_origin = None\<rparr>,
      so_progress = None, so_connected = True, so_disconnected_secs = 0, so_oven_offline_secs = None, so_now = 0\<rparr>"

definition demo_change :: "OvenStatus option \<Rightarrow> Recipe list \<Rightarrow> (nat \<Rightarrow> string) \<times> MqttEvent" where
  "demo_change status rs = (show_nat, MChanged (demo_sources status rs))"

definition two_breads :: "Recipe list" where
  "two_breads = [titled ''Bread'' ''2'', titled ''Bread'' ''1'']"

theorem home_assistant_mirrors_the_oven_witness:
  "fold deliver (fst (mqtt_run demo_mqtt
       [(show_nat, MIncoming Connected (demo_sources None [], demo_sources None []) (\<lambda>_. ChannelClosed)), demo_change (Some demo_status) two_breads]
       (processor_new demo_config))) (\<lambda>_. None) ''anova/oven/recipes'' = Some ''Bread, Bread (2)''"
proof -
  let ?evs = "[demo_change (Some demo_status) two_breads]"
  let ?p0 = "snd (mqtt_run demo_mqtt [] (processor_new demo_config))"
  obtain outs p where run: "mqtt_run demo_mqtt ((show_nat, MIncoming Connected (demo_sources None [], demo_sources None []) (\<lambda>_. ChannelClosed)) # ?evs) ?p0 = (outs, p)"
    by (metis prod.exhaust)
  have last: "latest (demo_sources None []) ?evs = demo_sources (Some demo_status) two_breads"
    by (simp add: demo_change_def)
  have opts: "options (rm_recipes (so_model (demo_sources (Some demo_status) two_breads))) =
      [(''Bread'', ''1''), (''Bread (2)'', ''2'')]" by code_simp
  have topics: "mp_topics p = mc_topics demo_config"
    using spoken_on_connected spoken_on_change arg_cong [OF run, of snd]
    by (auto simp: andthen_def Let_def case_prod_beta demo_change_def processor_new_def)
  have "fold deliver outs (\<lambda>_. None) (recipes_topic (mp_topics p)) =
      shown (render demo_mqtt (JArr (map (JStr \<circ> fst)
        (options (rm_recipes (so_model (demo_sources (Some demo_status) two_breads)))))))"
    using home_assistant_mirrors_the_oven [OF refl refl run refl last [symmetric] refl refl, of "\<lambda>_. None"] by blast
  then have "fold deliver outs (\<lambda>_. None) (recipes_topic (mp_topics p)) = Some ''Bread, Bread (2)''"
    unfolding opts by (simp add: shown_def demo_mqtt_def)
  moreover have "recipes_topic (mp_topics p) = ''anova/oven/recipes''"
    unfolding topics by (simp add: demo_config_def recipes_topic_def under_def)
  moreover have "outs = fst (mqtt_run demo_mqtt
       [(show_nat, MIncoming Connected (demo_sources None [], demo_sources None []) (\<lambda>_. ChannelClosed)), demo_change (Some demo_status) two_breads]
       (processor_new demo_config))"
    using run by simp
  ultimately show ?thesis by simp
qed


theorem mqtt_sends_checked_commands_witness:
  "on_command demo_mqtt show_nat (command (mc_topics demo_config) ''temperature'') ''500'' (\<lambda>_. ChannelClosed)
       (processor_new demo_config) =
     ([failure_event demo_mqtt (processor_new demo_config) ''temperature''
         (''temperature wants 25'' @ en_dash @ ''250 '' @ degree_sign @ ''C, not `500`'')], processor_new demo_config)"
proof -
  obtain outs p' where run: "on_command demo_mqtt show_nat (command (mc_topics demo_config) ''temperature'') ''500''
      (\<lambda>_. ChannelClosed) (processor_new demo_config) = (outs, p')" by (metis prod.exhaust)
  have t: "mp_topics (processor_new demo_config) = mc_topics demo_config" by (simp add: processor_new_def)
  have "control_request ''temperature'' ''500'' =
      Inl (''temperature wants 25'' @ en_dash @ ''250 '' @ degree_sign @ ''C, not `500`'')" by code_simp
  moreover have "trim (utf8_lossy demo_mqtt ''500'') = ''500''" by code_simp
  ultimately have "outs = [failure_event demo_mqtt (processor_new demo_config) ''temperature''
         (''temperature wants 25'' @ en_dash @ ''250 '' @ degree_sign @ ''C, not `500`'')]"
    using run strip_command [of "mc_topics demo_config" "''temperature''"]
    unfolding on_command_def t by (auto simp: failed_event)
  moreover have "p' = processor_new demo_config"
    using mqtt_sends_checked_commands [OF run] unfolding t by (auto dest!: conjunct2 spec [of _ "''temperature''"])
  ultimately show ?thesis using run by simp
qed

theorem chosen_recipe_is_started_witness:
  "let p = snd (mqtt_run demo_mqtt [demo_change None two_breads] (processor_new demo_config));
       p1 = snd (on_command demo_mqtt show_nat (command (mp_topics p) ''select_recipe'') ''Bread (2)'' (\<lambda>_. ChannelClosed) p);
       p2 = snd (mqtt_run demo_mqtt
         [demo_change None [titled ''Rolls'' ''2''], (show_nat, MFailure None)] p1)
   in sends (fst (on_command demo_mqtt show_nat (command (mp_topics p2) ''start'') ''PRESS'' (\<lambda>_. Replied (Inr ())) p2)) =
        [StartCook ''2'']"
proof -
  let ?p = "snd (mqtt_run demo_mqtt [demo_change None two_breads] (processor_new demo_config))"
  let ?p1 = "snd (on_command demo_mqtt show_nat (command (mp_topics ?p) ''select_recipe'') ''Bread (2)'' (\<lambda>_. ChannelClosed) ?p)"
  let ?evs = "[demo_change None [titled ''Rolls'' ''2''], (show_nat, MFailure None)]"
  let ?p2 = "snd (mqtt_run demo_mqtt ?evs ?p1)"
  have o: "mp_options ?p = [(''Bread'', ''1''), (''Bread (2)'', ''2'')]" by code_simp
  have opt: "''Bread (2)'' \<in> fst ` set (mp_options ?p)" unfolding o by simp
  have tr: "trim (utf8_lossy demo_mqtt ''Bread (2)'') = ''Bread (2)''" by code_simp
  have i: "the (map_of (mp_options ?p) ''Bread (2)'') = ''2''" unfolding o by simp
  have evs: "\<forall>ev \<in> set ?evs. leaves_choice (mp_topics ?p) (the (map_of (mp_options ?p) ''Bread (2)'')) (snd ev)"
    unfolding i by (simp add: demo_change_def demo_sources_def titled_def)
  have pj: "Option.bind (Option.bind (parse_json demo_mqtt (trim (utf8_lossy demo_mqtt ''PRESS''))) (j_get ''recipe_id'')) j_as_str = None"
    by (simp add: demo_mqtt_def)
  from chosen_recipe_is_started [OF refl opt tr refl refl evs refl pj, where answer = "\<lambda>_. Replied (Inr ())" and u' = show_nat]
  show ?thesis unfolding i Let_def by simp
qed

section \<open>The broker's address\<close>

text \<open>A host and a port are read back from a URL made of them, whatever path follows.\<close>

lemma parse_u16_show: "n < 2 ^ 16 \<Longrightarrow> parse_u16 (show_nat n) = Some n"
proof -
  assume n: "n < 2 ^ 16"
  obtain c cs where s: "show_nat n = c # cs" "is_digit c" by (rule show_nat_first)
  then have "c \<noteq> CHR ''+''" using digit_not_letter by blast
  with n show ?thesis
    using show_nat_is_digit [of n] read_show_nat [of n] by (simp add: parse_u16_def s(1))
qed

lemma broker_address_of_url:
  assumes "host \<noteq> []" "set host \<inter> {CHR ''/'', CHR ''?'', CHR ''@''} = {}" "n < 2 ^ 16"
    and "path = [] \<or> (\<exists>q. path = CHR ''/'' # q)"
  shows "broker_address (''mqtt://'' @ host @ '':'' @ show_nat n @ path) = Inr (host, n)"
proof -
  have d: "c \<notin> {CHR ''/'', CHR ''?'', CHR ''@'', CHR '':''}" if "c \<in> set (show_nat n)" for c
    using show_nat_digits [OF that] by auto
  have "takeWhile (\<lambda>c. c \<noteq> CHR ''/'' \<and> c \<noteq> CHR ''?'') (host @ '':'' @ show_nat n @ path) = host @ '':'' @ show_nat n"
  proof -
    have "\<forall>c \<in> set (host @ '':'' @ show_nat n). c \<noteq> CHR ''/'' \<and> c \<noteq> CHR ''?''" using assms(2) d by auto
    then have "takeWhile (\<lambda>c. c \<noteq> CHR ''/'' \<and> c \<noteq> CHR ''?'') ((host @ '':'' @ show_nat n) @ path) =
        (host @ '':'' @ show_nat n) @ takeWhile (\<lambda>c. c \<noteq> CHR ''/'' \<and> c \<noteq> CHR ''?'') path"
      by (simp add: takeWhile_append2)
    with assms(4) show ?thesis by auto
  qed
  moreover have "CHR ''@'' \<notin> set (host @ '':'' @ show_nat n)" using assms(2) d by auto
  moreover have "rsplit_colon (host @ '':'' @ show_nat n) = Some (host, show_nat n)"
  proof -
    have l: "list_all (\<lambda>c. c \<noteq> CHR '':'') (rev (show_nat n))" using d by (auto simp: list_all_iff)
    have "takeWhile (\<lambda>c. c \<noteq> CHR '':'') (rev (show_nat n) @ '':'' @ rev host) = rev (show_nat n)"
      "dropWhile (\<lambda>c. c \<noteq> CHR '':'') (rev (show_nat n) @ '':'' @ rev host) = '':'' @ rev host"
      unfolding takeWhile_digits [OF l] by simp_all
    then show ?thesis by (simp add: rsplit_colon_def)
  qed
  ultimately show ?thesis
    using assms(1) by (simp add: broker_address_def strip_prefix_def parse_u16_show [OF assms(3)])
qed

lemma drive_backoff: "1 \<le> backoff \<Longrightarrow> backoff \<le> MAX_BACKOFF \<Longrightarrow>
    1 \<le> snd (snd (drive ev backoff)) \<and> snd (snd (drive ev backoff)) \<le> MAX_BACKOFF"
  by (cases ev) (simp_all add: MAX_BACKOFF_def)

text \<open>What the broker announces when the client is gone is the topic each connect sets to online.\<close>

lemma last_will_matches:
  "client_options cfg = Inr o1 \<Longrightarrow> co_last_will o1 = (availability (mp_topics (processor_new cfg)), ''offline'', True)"
  by (auto simp: client_options_def processor_new_def split: sum.splits)

end
