(* ===== verification/Oven_Stages.thy ===== *)
theory Oven_Stages
  imports Json Float_Error Runtime_Types
begin

text \<open>
  Stages as the oven takes and reports them (\<open>protocol/stages.rs\<close>): the documents of a start and an
  update, the stage read back from one, and the edits on a reported stage.
\<close>

section \<open>Reading JSON\<close>

text \<open>\<open>as_f64\<close>, \<open>as_u64\<close>, \<open>as_bool\<close>.\<close>

fun j_as_f64 :: "Json \<Rightarrow> f64 option" where
  "j_as_f64 (JInt i) = Some (f64_round (i < 0) (nat \<bar>i\<bar>) 0)"
| "j_as_f64 (JFloat x) = Some x"
| "j_as_f64 _ = None"

fun j_as_u64 :: "Json \<Rightarrow> u64 option" where
  "j_as_u64 (JInt i) = (if 0 \<le> i \<and> i < 2 ^ 64 then Some (word_of_int i) else None)"
| "j_as_u64 _ = None"

fun j_as_bool :: "Json \<Rightarrow> bool option" where
  "j_as_bool (JBool b) = Some b"
| "j_as_bool _ = None"

text \<open>A chain of \<open>get\<close>s.\<close>

fun j_path :: "string list \<Rightarrow> Json \<Rightarrow> Json option" where
  "j_path [] j = Some j"
| "j_path (k # ks) j = Option.bind (j_get k j) (j_path ks)"

text \<open>
  \<open>v[k] = x\<close> with \<open>x\<close> from the value there (a missing one is null). On a value that is neither an object
  nor null the crate panics: no value.
\<close>

fun j_update :: "string \<Rightarrow> (Json \<Rightarrow> Json option) \<Rightarrow> Json \<Rightarrow> Json option" where
  "j_update k f (JObj kvs) =
     map_option (\<lambda>x. JObj (j_put k x kvs)) (f (case map_of kvs k of Some v \<Rightarrow> v | None \<Rightarrow> JNull))"
| "j_update k f JNull = map_option (\<lambda>x. JObj [(k, x)]) (f JNull)"
| "j_update k f _ = None"

definition j_insert :: "string \<Rightarrow> Json \<Rightarrow> Json \<Rightarrow> Json option" where
  "j_insert k x = j_update k (\<lambda>_. Some x)"

section \<open>Sending\<close>

definition degrees_f :: "f32 \<Rightarrow> int" where
  "degrees_f c = as_i32 (f64_nearest (f32_add (f32_mul c f32_1_8) (f32_of_nat 32)))"

definition degrees_c :: "f32 \<Rightarrow> int" where
  "degrees_c c = as_i32 (f64_nearest c)"

definition setpoint_json :: "f32 \<Rightarrow> Json" where
  "setpoint_json celsius = JObj [(''celsius'', JInt (degrees_c celsius)), (''fahrenheit'', JInt (degrees_f celsius))]"

definition temperature_bulbs_payload :: "string \<Rightarrow> f32 \<Rightarrow> Json" where
  "temperature_bulbs_payload m celsius =
     j_set m (JObj [(''setpoint'', setpoint_json celsius)]) (JObj [(''mode'', JStr m)])"

definition temperature_bulbs_json :: "Stage \<Rightarrow> Json" where
  "temperature_bulbs_json s =
     (let m = (if st_temperature_bulbs_mode s = Some ''wet'' then ''wet'' else ''dry'')
      in JObj [(''mode'', JStr m), (m, JObj [(''setpoint'', setpoint_json (st_temperature_c s))])])"

definition or_default :: "'a option \<Rightarrow> 'a \<Rightarrow> 'a" where
  "or_default x d = (case x of Some v \<Rightarrow> v | None \<Rightarrow> d)"

definition heating_elements_json :: "Stage \<Rightarrow> Json" where
  "heating_elements_json s =
     (let on = (\<lambda>b. JObj [(''on'', JBool (or_default b True))])
      in JObj [(''top'', on (st_heating_element_top s)), (''rear'', on (st_heating_element_rear s)),
               (''bottom'', on (st_heating_element_bottom s))])"

definition timer_json :: "u64 \<Rightarrow> Json" where
  "timer_json secs = JObj [(''initial'', j_nat (unat secs))]"

definition end_fields :: "Stage \<Rightarrow> (string \<times> Json) list" where
  "end_fields s =
     (case (st_duration_secs s, st_probe_target_c s) of
        (Some d, _) \<Rightarrow>
          [(''timerAdded'', JBool True), (''probeAdded'', JBool False), (''timerStartOnDetect'', JBool False),
           (''timer'', timer_json d)]
      | (None, Some p) \<Rightarrow>
          [(''timerAdded'', JBool False), (''probeAdded'', JBool True),
           (''temperatureProbe'', JObj [(''setpoint'', setpoint_json p)])]
      | (None, None) \<Rightarrow> [])"

definition steam_fields :: "Stage \<Rightarrow> (string \<times> Json) list" where
  "steam_fields s =
     (if f32_gt (st_steam_pct s) (f32_of_nat 0) then
        [(''steamGenerators'', JObj [(''mode'', JStr ''steam-percentage''),
            (''steamPercentage'', JObj [(''setpoint'', j_float (st_steam_pct s))])])]
      else [])"

definition start_stage_json :: "string \<Rightarrow> Stage \<Rightarrow> Json" where
  "start_stage_json fresh s =
     JObj ([(''stepType'', JStr ''stage''),
       (''id'', JStr (normalize_stage_id_for_ws fresh (st_id s))),
       (''title'', JStr (or_default (st_title s) [])),
       (''description'', JStr []),
       (''type'', JStr (st_kind s)),
       (''userActionRequired'', JBool (or_default (st_user_action_required s) False)),
       (''stageTransitionType'', JStr ''automatic''),
       (''temperatureBulbs'', temperature_bulbs_json s),
       (''heatingElements'', heating_elements_json s),
       (''fan'', JObj [(''speed'', j_nat (unat (st_fan_speed s)))]),
       (''vent'', JObj [(''open'', JBool (or_default (st_vent_open s) False))]),
       (''rackPosition'', j_nat (unat (or_default (st_rack_position s) 3)))] @ steam_fields s @ end_fields s)"

text \<open>\<open>u i\<close> is the UUID stage \<open>i\<close> draws if it needs one.\<close>

definition start_stages_json :: "(nat \<Rightarrow> string) \<Rightarrow> Stage list \<Rightarrow> Json list" where
  "start_stages_json u ss = map (\<lambda>(i, s). start_stage_json (u i) s) (enumerate 0 ss)"

definition update_stage_json :: "string \<Rightarrow> string \<Rightarrow> Stage \<Rightarrow> Json" where
  "update_stage_json active fresh s =
     (let i = normalize_stage_id_for_ws fresh (st_id s)
      in JObj ([(''stepType'', JStr ''stage''),
         (''id'', JStr i),
         (''title'', JStr (or_default (st_title s) [])),
         (''type'', JStr (st_kind s)),
         (''userActionRequired'', JBool (or_default (st_user_action_required s) False)),
         (''temperatureBulbs'', temperature_bulbs_json s),
         (''heatingElements'', heating_elements_json s),
         (''fan'', JObj [(''speed'', j_nat (unat (st_fan_speed s)))]),
         (''vent'', JObj [(''open'', JBool (or_default (st_vent_open s) False))]),
         (''stageTransitionType'', JStr (if i = active then ''manual'' else ''automatic''))] @
        (case st_duration_secs s of
           Some d \<Rightarrow> [(''timerAdded'', JBool True), (''timer'', timer_json d)]
         | None \<Rightarrow> [])))"

definition update_cook_stages_json :: "(nat \<Rightarrow> string) \<Rightarrow> Stage list \<Rightarrow> string \<Rightarrow> Json list" where
  "update_cook_stages_json u ss active = map (\<lambda>(i, s). update_stage_json active (u i) s) (enumerate 0 ss)"

section \<open>Reading back\<close>

definition ten :: f64 where "ten = f64_of_nat 10"

definition setpoint_celsius :: "Json \<Rightarrow> f64 option" where
  "setpoint_celsius j =
     (case Option.bind (j_get ''celsius'' j) j_as_f64 of
        None \<Rightarrow> None
      | Some celsius \<Rightarrow>
          Some (case Option.bind (j_get ''fahrenheit'' j) j_as_f64 of
             None \<Rightarrow> celsius
           | Some f \<Rightarrow>
               (let c = f64_div (f64_nearest (f64_mul (f64_div (f64_sub f (f64_of_nat 32)) f64_1_8) ten)) ten
                in if f32_le (f32_abs (f64_sub c celsius)) (f64_of_nat 1) then c else celsius)))"

definition non_empty :: "string option \<Rightarrow> string option" where
  "non_empty x = (case x of Some [] \<Rightarrow> None | _ \<Rightarrow> x)"

definition read_str :: "string list \<Rightarrow> Json \<Rightarrow> string option" where
  "read_str ks j = Option.bind (j_path ks j) j_as_str"

definition read_bool :: "string list \<Rightarrow> Json \<Rightarrow> bool option" where
  "read_bool ks j = Option.bind (j_path ks j) j_as_bool"

definition read_u64 :: "string list \<Rightarrow> Json \<Rightarrow> u64 option" where
  "read_u64 ks j = Option.bind (j_path ks j) j_as_u64"

definition read_temperature :: "Json \<Rightarrow> f64 option" where
  "read_temperature j =
     Option.bind (j_get ''temperatureBulbs'' j) (\<lambda>tb.
       Option.bind (read_str [''mode''] tb) (\<lambda>m.
         Option.bind (j_path [m, ''setpoint''] tb) setpoint_celsius))"

definition read_steam :: "Json \<Rightarrow> f64 option" where
  "read_steam j =
     Option.bind (j_get ''steamGenerators'' j) (\<lambda>sg.
       Option.bind (read_str [''mode''] sg) (\<lambda>m.
         if m = ''steam-percentage'' then Option.bind (j_path [''steamPercentage'', ''setpoint''] sg) j_as_f64
         else if m = ''relative-humidity'' then Option.bind (j_path [''relativeHumidity'', ''setpoint''] sg) j_as_f64
         else None))"

definition stage_from_json :: "Json \<Rightarrow> Stage" where
  "stage_from_json j =
     \<lparr>st_id = non_empty (read_str [''id''] j),
      st_kind = or_default (read_str [''type''] j) ''cook'',
      st_temperature_c = f64_to_f32 (or_default (read_temperature j) (f64_of_nat 0)),
      st_temperature_bulbs_mode = read_str [''temperatureBulbs'', ''mode''] j,
      st_duration_secs = read_u64 [''timer'', ''initial''] j,
      st_timer_added = read_bool [''timerAdded''] j,
      st_probe_added = read_bool [''probeAdded''] j,
      st_probe_target_c = map_option f64_to_f32 (Option.bind (j_path [''temperatureProbe'', ''setpoint''] j) setpoint_celsius),
      st_steam_pct = f64_to_f32 (or_default (read_steam j) (f64_of_nat 0)),
      st_fan_speed = ucast (or_default (read_u64 [''fan'', ''speed''] j) 0),
      st_user_action_required = read_bool [''userActionRequired''] j,
      st_rack_position = map_option ucast (read_u64 [''rackPosition''] j),
      st_heating_element_top = read_bool [''heatingElements'', ''top'', ''on''] j,
      st_heating_element_rear = read_bool [''heatingElements'', ''rear'', ''on''] j,
      st_heating_element_bottom = read_bool [''heatingElements'', ''bottom'', ''on''] j,
      st_vent_open = read_bool [''vent'', ''open''] j,
      st_title = non_empty (read_str [''title''] j),
      st_turn_off_at_end = None,
      st_prompt = None\<rparr>"

section \<open>Edits of a reported stage\<close>

definition with_temperature_json :: "Json \<Rightarrow> f32 \<Rightarrow> Json option" where
  "with_temperature_json raw celsius =
     (let m = or_default (read_str [''temperatureBulbs'', ''mode''] raw) ''dry''
      in Option.bind (j_update ''temperatureBulbs'' (j_insert ''mode'' (JStr m)) raw)
           (j_update ''temperatureBulbs'' (j_update m (j_insert ''setpoint'' (setpoint_json celsius)))))"

definition with_timer_json :: "Json \<Rightarrow> u64 \<Rightarrow> Json option" where
  "with_timer_json raw secs = j_insert ''timer'' (timer_json secs) raw"

definition insert_missing :: "string \<Rightarrow> Json \<Rightarrow> Json \<Rightarrow> Json option" where
  "insert_missing k x j = (if j_get k j = None then j_insert k x j else Some j)"

definition for_update_json :: "Json \<Rightarrow> Json option" where
  "for_update_json raw =
     Option.bind (insert_missing ''stepType'' (JStr ''stage'') raw)
       (insert_missing ''stageTransitionType'' (JStr ''automatic''))"

section \<open>What is sent is what is read back\<close>

definition read_back :: "f32 \<Rightarrow> f32" where
  "read_back c = f64_to_f32 (or_default (setpoint_celsius (setpoint_json c)) (f64_of_nat 0))"

text \<open>A stage as the document of a start says it: defaults filled in, the extras left out.\<close>

definition sent_stage :: "string \<Rightarrow> Stage \<Rightarrow> Stage" where
  "sent_stage fresh s =
     s\<lparr>st_id := Some (normalize_stage_id_for_ws fresh (st_id s)),
       st_temperature_c := read_back (st_temperature_c s),
       st_temperature_bulbs_mode := Some (if st_temperature_bulbs_mode s = Some ''wet'' then ''wet'' else ''dry''),
       st_timer_added := (if st_duration_secs s \<noteq> None then Some True
         else if st_probe_target_c s \<noteq> None then Some False else None),
       st_probe_added := (if st_duration_secs s \<noteq> None then Some False
         else if st_probe_target_c s \<noteq> None then Some True else None),
       st_probe_target_c := (if st_duration_secs s \<noteq> None then None else map_option read_back (st_probe_target_c s)),
       st_steam_pct := (case j_float (st_steam_pct s) of
         JFloat x \<Rightarrow> if f32_gt x (f32_of_nat 0) then f64_to_f32 x else f32_of_nat 0 | _ \<Rightarrow> f32_of_nat 0),
       st_user_action_required := Some (or_default (st_user_action_required s) False),
       st_rack_position := Some (or_default (st_rack_position s) 3),
       st_heating_element_top := Some (or_default (st_heating_element_top s) True),
       st_heating_element_rear := Some (or_default (st_heating_element_rear s) True),
       st_heating_element_bottom := Some (or_default (st_heating_element_bottom s) True),
       st_vent_open := Some (or_default (st_vent_open s) False),
       st_title := non_empty (st_title s),
       st_turn_off_at_end := None,
       st_prompt := None\<rparr>"

lemma setpoint_Some: "\<exists>r. setpoint_celsius (setpoint_json c) = Some r"
  by (simp add: setpoint_celsius_def setpoint_json_def)

lemma setpoint_read: "setpoint_celsius (setpoint_json c) = Some (or_default (setpoint_celsius (setpoint_json c)) (f64_of_nat 0))"
  using setpoint_Some [of c] by (auto simp: or_default_def)

lemma j_as_u64_nat: "n < 2 ^ 64 \<Longrightarrow> j_as_u64 (j_nat n) = Some (word_of_nat n)"
  by (simp add: j_nat_def)

lemma j_as_u64_unat [simp]: "j_as_u64 (j_nat (unat (w :: u64))) = Some w"
  using unsigned_less [of w, where 'a = nat] by (subst j_as_u64_nat) simp_all

lemma j_as_u64_u8 [simp]: "j_as_u64 (j_nat (unat (w :: u8))) = Some (ucast w)"
  using unsigned_less [of w, where 'a = nat] by (subst j_as_u64_nat) simp_all

lemma u8_u64_u8 [simp]: "(ucast (ucast (x :: u8) :: u64) :: u8) = x"
  by (simp add: ucast_up_ucast_id is_up)

lemma non_empty_Cons [simp]: "non_empty (Some (c # cs)) = Some (c # cs)"
  by (simp add: non_empty_def)

lemma normalized_id_Cons: "\<exists>c cs. normalize_stage_id_for_ws fresh i = c # cs"
  using normalized_id_prefix [of fresh i] by (cases "normalize_stage_id_for_ws fresh i") auto

lemma non_empty_title: "non_empty (Some (or_default t [])) = non_empty t"
  by (cases t) (simp_all add: non_empty_def or_default_def)

lemmas stage_json_defs = start_stage_json_def temperature_bulbs_json_def heating_elements_json_def
  steam_fields_def end_fields_def timer_json_def

lemmas read_defs = stage_from_json_def read_str_def read_bool_def read_u64_def


text \<open>The fields of a start's document.\<close>

lemma start_get:
  "j_get ''id'' (start_stage_json fresh s) = Some (JStr (normalize_stage_id_for_ws fresh (st_id s)))"
  "j_get ''title'' (start_stage_json fresh s) = Some (JStr (or_default (st_title s) []))"
  "j_get ''type'' (start_stage_json fresh s) = Some (JStr (st_kind s))"
  "j_get ''userActionRequired'' (start_stage_json fresh s) = Some (JBool (or_default (st_user_action_required s) False))"
  "j_get ''temperatureBulbs'' (start_stage_json fresh s) = Some (temperature_bulbs_json s)"
  "j_get ''heatingElements'' (start_stage_json fresh s) = Some (heating_elements_json s)"
  "j_get ''fan'' (start_stage_json fresh s) = Some (JObj [(''speed'', j_nat (unat (st_fan_speed s)))])"
  "j_get ''vent'' (start_stage_json fresh s) = Some (JObj [(''open'', JBool (or_default (st_vent_open s) False))])"
  "j_get ''rackPosition'' (start_stage_json fresh s) = Some (j_nat (unat (or_default (st_rack_position s) 3)))"
  by (simp_all add: start_stage_json_def)

lemma start_get_end:
  "j_get ''timer'' (start_stage_json fresh s) = map_option timer_json (st_duration_secs s)"
  "j_get ''timerAdded'' (start_stage_json fresh s) =
     (if st_duration_secs s \<noteq> None then Some (JBool True)
      else if st_probe_target_c s \<noteq> None then Some (JBool False) else None)"
  "j_get ''probeAdded'' (start_stage_json fresh s) =
     (if st_duration_secs s \<noteq> None then Some (JBool False)
      else if st_probe_target_c s \<noteq> None then Some (JBool True) else None)"
  "j_get ''temperatureProbe'' (start_stage_json fresh s) =
     (if st_duration_secs s \<noteq> None then None
      else map_option (\<lambda>p. JObj [(''setpoint'', setpoint_json p)]) (st_probe_target_c s))"
  "j_get ''steamGenerators'' (start_stage_json fresh s) =
     (if f32_gt (st_steam_pct s) (f32_of_nat 0) then
        Some (JObj [(''mode'', JStr ''steam-percentage''),
            (''steamPercentage'', JObj [(''setpoint'', j_float (st_steam_pct s))])])
      else None)"
  by (cases "st_duration_secs s"; cases "st_probe_target_c s";
    simp add: start_stage_json_def steam_fields_def end_fields_def)+

lemma stage_from_start: "stage_from_json (start_stage_json fresh s) = sent_stage fresh s"
proof -
  obtain c cs where i: "normalize_stage_id_for_ws fresh (st_id s) = c # cs"
    using normalized_id_Cons by blast
  have st: "read_steam (start_stage_json fresh s) =
      (if f32_gt (st_steam_pct s) (f32_of_nat 0) then j_as_f64 (j_float (st_steam_pct s)) else None)"
    by (simp add: read_steam_def read_str_def start_get_end)
  have steam: "f64_to_f32 (or_default (read_steam (start_stage_json fresh s)) (f64_of_nat 0)) = st_steam_pct (sent_stage fresh s)"
    unfolding st by (cases "st_steam_pct s")
      (auto simp: sent_stage_def or_default_def j_float_def f64_of_nat_def f32_of_nat_def)
  have t: "read_temperature (start_stage_json fresh s) = setpoint_celsius (setpoint_json (st_temperature_c s))"
    by (simp add: read_temperature_def read_str_def start_get temperature_bulbs_json_def Let_def)
  have p: "map_option f64_to_f32 (Option.bind (j_path [''temperatureProbe'', ''setpoint''] (start_stage_json fresh s)) setpoint_celsius) =
      st_probe_target_c (sent_stage fresh s)"
  proof (cases "st_probe_target_c s")
    case (Some x)
    obtain r where "setpoint_celsius (setpoint_json x) = Some r" using setpoint_Some by blast
    with Some show ?thesis by (simp add: start_get_end sent_stage_def read_back_def or_default_def)
  qed (simp add: start_get_end sent_stage_def)
  have d: "read_u64 [''timer'', ''initial''] (start_stage_json fresh s) = st_duration_secs s"
    by (cases "st_duration_secs s") (simp_all add: read_u64_def start_get_end timer_json_def)
  show ?thesis
    unfolding stage_from_json_def steam t p d
    by (rule Stage.equality)
      (simp_all add: sent_stage_def read_defs start_get start_get_end i non_empty_title read_back_def
        temperature_bulbs_json_def heating_elements_json_def Let_def or_default_def non_empty_def split: option.split list.split)
qed

section \<open>Temperatures\<close>

lemma f32_1_8_val: "fval f32_1_8 = Some (15099494 / 2 ^ 23)"
  by (simp add: f32_1_8_def signed_def pow2_def)

lemma f32_of_nat_32: "f32_of_nat 32 = F_Fin False 32 0"
  by code_simp

lemma fval_32: "fval (f32_of_nat 32) = Some 32"
  by (simp add: f32_of_nat_32 signed_def pow2_def)

lemma half_floor: "\<bar>of_int \<lfloor>x + 1 / 2\<rfloor> - x\<bar> \<le> (1 / 2 :: rat)"
  by linarith

lemma floor_near: "\<bar>x - of_int n\<bar> < (1 / 2 :: rat) \<Longrightarrow> \<lfloor>x + 1 / 2\<rfloor> = n"
  by linarith

text \<open>The degrees sent, to within the arithmetic's error.\<close>

lemma degrees_c_val: "fval c = Some q \<Longrightarrow> 0 \<le> q \<Longrightarrow> q < 300 \<Longrightarrow> degrees_c c = \<lfloor>q + 1 / 2\<rfloor>"
  unfolding degrees_c_def by (rule nearest_as_i32) simp_all

lemma degrees_f_val:
  assumes "fval c = Some q" "0 \<le> q" "q < 300"
  shows "\<exists>y. \<bar>y - (9 / 5 * q + 32)\<bar> \<le> 1 / 1000 \<and> degrees_f c = \<lfloor>y + 1 / 2\<rfloor>"
proof -
  have v: "fval f32_1_8 = Some (7549747 / 4194304)" by (simp add: f32_1_8_val)
  have "approx (f32_mul c f32_1_8) (q * (7549747 / 4194304)) (1 / 32768)"
    using mul_approx(1) [OF assms(1) v, of 10] assms(2,3) by (simp add: abs_mult pow2_def)
  then obtain a where a: "fval (f32_mul c f32_1_8) = Some a" "\<bar>a - q * (7549747 / 4194304)\<bar> \<le> 1 / 32768"
    by (auto simp: approx_def)
  then have a': "9 / 5 * q - 1 / 20000 \<le> a" "a \<le> 9 / 5 * q + 1 / 20000"
    using assms(2,3) by linarith+
  have "\<bar>a + 32\<bar> < 2 ^ 10" using a' assms(2,3) by simp
  then have "approx (f32_add (f32_mul c f32_1_8) (f32_of_nat 32)) (a + 32) (1 / 32768)"
    using add_approx(1) [OF a(1) fval_32, of 10] by (simp add: pow2_def)
  then obtain y where y: "fval (f32_add (f32_mul c f32_1_8) (f32_of_nat 32)) = Some y" "\<bar>y - (a + 32)\<bar> \<le> 1 / 32768"
    by (auto simp: approx_def)
  have y': "\<bar>y - (9 / 5 * q + 32)\<bar> \<le> 1 / 1000" using y(2) a' by linarith
  have "0 \<le> y" "y < 1073741824" using y' assms(2,3) by linarith+
  with y(1) have "degrees_f c = \<lfloor>y + 1 / 2\<rfloor>"
    unfolding degrees_f_def by (intro nearest_as_i32) simp_all
  with y' show ?thesis by blast
qed

text \<open>The degrees read: tenths of a degree from the Fahrenheit value.\<close>

lemma j_int_val:
  assumes "0 < f" "f < 1000"
  shows "\<exists>x a. j_as_f64 (JInt f) = Some x \<and> fval x = Some a \<and> \<bar>a - of_int f\<bar> \<le> 1 / 100000"
proof -
  have "of_nat (nat f) * pow2 0 < (2 :: rat) ^ 10" using assms by (simp add: pow2_def)
  from f64_round_approx [OF this, of False]
  have "approx (f64_round False (nat f) 0) (of_int f) (1 / 2 ^ 44)"
    using assms by (simp add: pow2_def signed_def)
  then obtain a where "fval (f64_round False (nat f) 0) = Some a" "\<bar>a - of_int f\<bar> \<le> 1 / 2 ^ 44"
    by (auto simp: approx_def)
  moreover have "(1 / 2 ^ 44 :: rat) \<le> 1 / 100000" by simp
  ultimately have "fval (f64_round False (nat f) 0) = Some a" "\<bar>a - of_int f\<bar> \<le> 1 / 100000" by linarith+
  with assms show ?thesis by simp
qed

lemma tenths_val:
  assumes "fval x = Some a" "\<bar>a - (h + 32)\<bar> \<le> 1 / 100000" and f: "1 \<le> h" "h < 568"
  shows "\<exists>b k. fval (f64_div (f64_nearest (f64_mul (f64_div (f64_sub x (f64_of_nat 32)) f64_1_8) ten)) ten) = Some b \<and>
    \<bar>b - of_int k / 10\<bar> \<le> 1 / 100000 \<and> \<bar>of_int k - 50 / 9 * h\<bar> \<le> 1 / 2 + 1 / 800"
proof -
  have ten: "fval ten = Some 10" by (simp add: ten_def fval_f64_of_nat)
  have v: "fval f64_1_8 = Some (8106479329266893 / 4503599627370496)" by (simp add: f64_1_8_val)
  have "\<bar>a - 32\<bar> < 1024" using assms(2) f by linarith
  then have "approx (f64_sub x (f64_of_nat 32)) (a - 32) (1 / 17592186044416)"
    using sub_approx [OF assms(1) fval_f64_of_nat [of 32], of 10] by (simp add: pow2_def)
  then obtain b where b: "fval (f64_sub x (f64_of_nat 32)) = Some b" "\<bar>b - (a - 32)\<bar> \<le> 1 / 17592186044416"
    by (auto simp: approx_def)
  have b': "\<bar>b - h\<bar> \<le> 1 / 50000" using b(2) assms(2) by linarith
  let ?c = "8106479329266893 / 4503599627370496 :: rat"
  have b0: "0 \<le> b" using b' f by linarith
  obtain z where z: "z = b / ?c" by blast
  have bc: "b / ?c = b * (4503599627370496 / 8106479329266893)" by simp
  have "z \<le> b * (5 / 9)" "b * (5555555 / 10000000) \<le> z"
    unfolding z bc by (rule mult_left_mono [OF _ b0]; simp)+
  then have "\<bar>z - 5 / 9 * h\<bar> \<le> 1 / 10000" using b' f by linarith
  note q = this [unfolded z]
  then have "\<bar>b / ?c\<bar> < 1024" using f by linarith
  then have "approx (f64_div (f64_sub x (f64_of_nat 32)) f64_1_8) (b / ?c) (1 / 2199023255552)"
    using div_approx [OF b(1) v, of 10] by (simp add: pow2_def)
  then obtain d where d: "fval (f64_div (f64_sub x (f64_of_nat 32)) f64_1_8) = Some d" "\<bar>d - b / ?c\<bar> \<le> 1 / 2199023255552"
    by (auto simp: approx_def)
  have d': "\<bar>d - 5 / 9 * h\<bar> \<le> 1 / 9000" using d(2) q by linarith
  then have "\<bar>d * 10\<bar> < 4096" using f by linarith
  then have "approx (f64_mul (f64_div (f64_sub x (f64_of_nat 32)) f64_1_8) ten) (d * 10) (1 / 4398046511104)"
    using mul_approx(2) [OF d(1) ten, of 12] by (simp add: pow2_def)
  then obtain e where e: "fval (f64_mul (f64_div (f64_sub x (f64_of_nat 32)) f64_1_8) ten) = Some e" "\<bar>e - d * 10\<bar> \<le> 1 / 4398046511104"
    by (auto simp: approx_def)
  have e': "\<bar>e - 50 / 9 * h\<bar> \<le> 1 / 800" using e(2) d' by linarith
  have e0: "0 \<le> e" using e' f by linarith
  let ?k = "\<lfloor>e + 1 / 2\<rfloor>"
  have k: "\<bar>of_int ?k - 50 / 9 * h\<bar> \<le> 1 / 2 + 1 / 800" using half_floor [of e] e' by linarith
  note n = nearest_fval [OF e(1) e0]
  have "\<bar>(of_int ?k :: rat) / 10\<bar> < 1024" using k f by linarith
  then have "approx (f64_div (f64_nearest (f64_mul (f64_div (f64_sub x (f64_of_nat 32)) f64_1_8) ten)) ten) (of_int ?k / 10) (1 / 2199023255552)"
    using div_approx [OF n ten, of 10] by (simp add: pow2_def)
  then obtain r where r: "fval (f64_div (f64_nearest (f64_mul (f64_div (f64_sub x (f64_of_nat 32)) f64_1_8) ten)) ten) = Some r"
      "\<bar>r - of_int ?k / 10\<bar> \<le> 1 / 2199023255552"
    by (auto simp: approx_def)
  have "\<bar>r - of_int ?k / 10\<bar> \<le> 1 / 100000" using r(2) by linarith
  with r(1) k show ?thesis by blast
qed

lemma fval_abs: "fval x = Some a \<Longrightarrow> fval (f32_abs x) = Some \<bar>a\<bar>"
  by (cases x) (auto simp: abs_mult signed_def)

lemma setpoint_val:
  assumes c: "0 < c" "c < 1000" and h: "1 \<le> f - 32" "f < 600"
    and near: "\<bar>5 / 9 * of_int (f - 32) - of_int c\<bar> \<le> (9 / 10 :: rat)"
  shows "\<exists>r b k. setpoint_celsius (JObj [(''celsius'', JInt c), (''fahrenheit'', JInt f)]) = Some r \<and>
    fval r = Some b \<and> \<bar>b - of_int k / 10\<bar> \<le> 1 / 100000 \<and> \<bar>of_int k - 50 / 9 * of_int (f - 32)\<bar> \<le> (1 / 2 + 1 / 800 :: rat)"
proof -
  obtain xc ac where xc: "j_as_f64 (JInt c) = Some xc" "fval xc = Some ac" "\<bar>ac - of_int c\<bar> \<le> 1 / 100000"
    using j_int_val [OF c] by blast
  obtain x a where x: "j_as_f64 (JInt f) = Some x" "fval x = Some a" "\<bar>a - of_int f\<bar> \<le> 1 / 100000"
    using j_int_val [of f] h by auto
  define hh :: rat where "hh = of_int (f - 32)"
  have hh: "1 \<le> hh" "hh < 568" "\<bar>a - (hh + 32)\<bar> \<le> 1 / 100000"
    using h x(3) by (simp_all add: hh_def)
  let ?c = "f64_div (f64_nearest (f64_mul (f64_div (f64_sub x (f64_of_nat 32)) f64_1_8) ten)) ten"
  obtain b k where b: "fval ?c = Some b" "\<bar>b - of_int k / 10\<bar> \<le> 1 / 100000" "\<bar>of_int k - 50 / 9 * hh\<bar> \<le> 1 / 2 + 1 / 800"
    using tenths_val [OF x(2) hh(3,1,2)] by blast
  have diff: "\<bar>b - ac\<bar> \<le> 98 / 100" using b(2,3) xc(3) near unfolding hh_def [symmetric] by linarith
  then have "\<bar>b - ac\<bar> < 2 ^ 1" by simp
  then have "approx (f64_sub ?c xc) (b - ac) (1 / 100)"
    using sub_approx [OF b(1) xc(2), of 1] by (auto simp: pow2_def elim: approx_near)
  then obtain d where d: "fval (f64_sub ?c xc) = Some d" "\<bar>d - (b - ac)\<bar> \<le> 1 / 100" by (auto simp: approx_def)
  have "f32_le (f32_abs (f64_sub ?c xc)) (f64_of_nat 1)"
    unfolding f32_le_val [OF fval_abs [OF d(1)] fval_f64_of_nat] of_nat_1 using d(2) diff by linarith
  then have "setpoint_celsius (JObj [(''celsius'', JInt c), (''fahrenheit'', JInt f)]) = Some ?c"
    using xc(1) x(1) by (simp add: setpoint_celsius_def Let_def del: j_as_f64.simps)
  with b show ?thesis unfolding hh_def by blast
qed

text \<open>
  C22: a temperature set on the oven is the one shown afterwards: the stage the oven reports is within a
  third of a degree Celsius, a whole number of degrees Celsius stays that number, and so does a
  whole number of degrees Fahrenheit, whichever unit it was set in.
\<close>

theorem temperatures_survive_the_oven:
  assumes "in_range 1 250 c" "fval c = Some q"
  shows "\<exists>r. fval (read_back c) = Some r \<and> \<bar>r - q\<bar> \<le> 1 / 3 \<and>
    (\<forall>n. q = of_int n \<longrightarrow> degrees_c (read_back c) = n) \<and>
    (\<forall>n. \<bar>9 / 5 * q + 32 - of_int n\<bar> \<le> 1 / 100 \<longrightarrow> degrees_f (read_back c) = n)"
proof -
  have q: "1 \<le> q" "q \<le> 250" using assms by (auto simp: in_range_val)
  obtain y where y: "\<bar>y - (9 / 5 * q + 32)\<bar> \<le> 1 / 1000" "degrees_f c = \<lfloor>y + 1 / 2\<rfloor>"
    using degrees_f_val [OF assms(2)] q by auto
  have dc: "degrees_c c = \<lfloor>q + 1 / 2\<rfloor>" using degrees_c_val [OF assms(2)] q by auto
  define h :: rat where "h = of_int (degrees_f c - 32)"
  have hy: "\<bar>h + 32 - y\<bar> \<le> 1 / 2" using half_floor [of y] unfolding h_def y(2) by simp
  have h: "\<bar>h - 9 / 5 * q\<bar> \<le> 501 / 1000" using hy y(1) by linarith
  have cq: "\<bar>of_int (degrees_c c) - q\<bar> \<le> 1 / 2" unfolding dc by (rule half_floor)
  have "1 \<le> h" "h < 568" using h q by linarith+
  then have f: "1 \<le> degrees_f c - 32" "degrees_f c < 600" unfolding h_def by linarith+
  have "0 < (of_int (degrees_c c) :: rat)" "of_int (degrees_c c) < (1000 :: rat)" using cq q by linarith+
  then have c: "0 < degrees_c c" "degrees_c c < 1000" by simp_all
  have "\<bar>5 / 9 * h - of_int (degrees_c c)\<bar> \<le> 9 / 10" using h cq by linarith
  from setpoint_val [OF c f this [unfolded h_def]] obtain x b k where
      x: "setpoint_celsius (setpoint_json c) = Some x" "fval x = Some b" and
      b: "\<bar>b - of_int k / 10\<bar> \<le> 1 / 100000" "\<bar>of_int k - 50 / 9 * h\<bar> \<le> 1 / 2 + 1 / 800"
    unfolding h_def setpoint_json_def by blast
  have "\<bar>b\<bar> < 512" using b h q by linarith
  then have "approx (f64_to_f32 x) b (1 / 10000)" using f64_to_f32_approx [OF x(2)] by simp
  then obtain r where r: "fval (read_back c) = Some r" "\<bar>r - b\<bar> \<le> 1 / 10000"
    using x(1) by (auto simp: approx_def read_back_def or_default_def)
  have rk: "\<bar>r - 5 / 9 * h\<bar> \<le> 51 / 1000" using r(2) b by linarith
  have rq: "\<bar>r - q\<bar> \<le> 1 / 3" using rk h by linarith
  have r0: "0 \<le> r" "r < 300" using rq q by linarith+
  have "degrees_c (read_back c) = n" if "q = of_int n" for n
    unfolding degrees_c_val [OF r(1) r0] by (rule floor_near) (use rq that in linarith)
  moreover have "degrees_f (read_back c) = n" if n: "\<bar>9 / 5 * q + 32 - of_int n\<bar> \<le> 1 / 100" for n
  proof -
    have "degrees_f c = n" unfolding y(2) by (rule floor_near) (use y(1) n in linarith)
    then have hn: "h = of_int n - 32" by (simp add: h_def)
    obtain z where z: "\<bar>z - (9 / 5 * r + 32)\<bar> \<le> 1 / 1000" "degrees_f (read_back c) = \<lfloor>z + 1 / 2\<rfloor>"
      using degrees_f_val [OF r(1) r0] by blast
    show ?thesis unfolding z(2) by (rule floor_near) (use z(1) rk hn in linarith)
  qed
  ultimately show ?thesis using r(1) rq by blast
qed

section \<open>A reported stage\<close>

text \<open>
  What the oven does with a stage it was sent, as \<open>docs/oven-cloud-emulation.md\<close> records it: the
  stage it reports is its own copy, cut down to these keys. The description, the rack position, the
  transition type and the flags that say what ends a stage are among those it drops.
\<close>

definition OVEN_KEEPS :: "string list" where
  "OVEN_KEEPS = [''title'', ''id'', ''type'', ''userActionRequired'', ''temperatureBulbs'', ''timer'', ''heatingElements'',
     ''fan'', ''vent'', ''temperatureProbe'', ''steamGenerators'']"

definition reported_as :: "Json \<Rightarrow> Json \<Rightarrow> bool" where
  "reported_as j j' \<longleftrightarrow> (\<forall>k. j_get k j' = (if k \<in> set OVEN_KEEPS then j_get k j else None))"

lemma reported_stage:
  "reported_as j j' \<Longrightarrow> stage_from_json j' =
     (stage_from_json j)\<lparr>st_timer_added := None, st_probe_added := None, st_rack_position := None\<rparr>"
  by (simp add: reported_as_def OVEN_KEEPS_def read_defs read_temperature_def read_steam_def)

text \<open>What ends a stage, as its flags have it: a timer with its duration, a probe with its target.\<close>

definition ends_match :: "Stage \<Rightarrow> bool" where
  "ends_match s \<longleftrightarrow>
     (st_timer_added s = Some True \<longleftrightarrow> st_duration_secs s \<noteq> None) \<and> st_duration_secs s \<noteq> Some 0 \<and>
     (if st_timer_added s = Some True then st_probe_added s \<noteq> Some True
      else (st_probe_added s = Some True \<longleftrightarrow> st_probe_target_c s \<noteq> None))"

text \<open>
  C21: a stage survives the oven, but for its rack position. The oven reports only some keys of a stage it
  was sent (\<open>OVEN_KEEPS\<close>); the stage read from its report, with its end restored, is the stage that
  was sent with its defaults filled in, and a stage that cooks ends on the timer or the probe it was
  set to end on. Lost are the rack position, which comes back as none, and the note and end setting,
  which only this server knows. The stage's flags must match what it ends on: a timer that is added
  has a duration that is not zero, a probe that is added has a target, and not both are added.
\<close>

theorem stage_round_trip:
  assumes "reported_as (start_stage_json fresh s) j" "ends_match s"
  shows "restore_end_flags (stage_from_json j) =
    (sent_stage fresh s)\<lparr>
      st_timer_added := (if st_kind s = ''preheat'' then None else Some (st_timer_added s = Some True)),
      st_probe_added := (if st_kind s = ''preheat'' then None else Some (st_probe_added s = Some True)),
      st_rack_position := None\<rparr>"
proof -
  have r: "stage_from_json j =
      (sent_stage fresh s)\<lparr>st_timer_added := None, st_probe_added := None, st_rack_position := None\<rparr>"
    using reported_stage [OF assms(1)] by (simp add: stage_from_start)
  have f: "st_kind (sent_stage fresh s) = st_kind s" "st_duration_secs (sent_stage fresh s) = st_duration_secs s"
    "st_probe_target_c (sent_stage fresh s) = None \<longleftrightarrow> st_duration_secs s \<noteq> None \<or> st_probe_target_c s = None"
    by (simp_all add: sent_stage_def)
  have pos: "0 < d" if "st_duration_secs s = Some d" for d
    using that assms(2) by (auto simp: ends_match_def word_gt_0)
  show ?thesis
    using assms(2) pos unfolding r
    by (cases "st_duration_secs s") (auto simp: restore_end_flags_def f ends_match_def Let_def split: if_splits)
qed

section \<open>Edits\<close>

lemma j_get_update:
  assumes "j_update k f j = Some j'"
  shows "\<exists>x. f (case j_get k j of Some v \<Rightarrow> v | None \<Rightarrow> JNull) = Some x \<and>
    (\<forall>k'. j_get k' j' = (if k' = k then Some x else j_get k' j))"
  using assms by (cases j) auto

lemma j_updateE:
  assumes "j_update k f j = Some j'"
  obtains x where "f (case j_get k j of Some v \<Rightarrow> v | None \<Rightarrow> JNull) = Some x"
    "\<forall>k'. j_get k' j' = (if k' = k then Some x else j_get k' j)"
  using j_get_update [OF assms] by blast

lemma j_get_insert: "j_insert k x j = Some j' \<Longrightarrow> j_get k' j' = (if k' = k then Some x else j_get k' j)"
  unfolding j_insert_def by (drule j_get_update) auto

lemma j_update_object: "j_update k f (JObj kvs) = None \<longleftrightarrow> f (case map_of kvs k of Some v \<Rightarrow> v | None \<Rightarrow> JNull) = None"
  by simp

lemma stage_from_json_cong:
  assumes "\<And>k. k \<noteq> ''stepType'' \<Longrightarrow> k \<noteq> ''stageTransitionType'' \<Longrightarrow> j_get k j' = j_get k j"
  shows "stage_from_json j' = stage_from_json j"
  by (simp add: assms read_defs read_temperature_def read_steam_def)

lemma insert_missing_get:
  "insert_missing k x j = Some j' \<Longrightarrow> k' \<noteq> k \<Longrightarrow> j_get k' j' = j_get k' j"
  by (auto simp: insert_missing_def j_get_insert split: if_splits)

lemma for_update_stage:
  assumes "for_update_json j = Some j'"
  shows "stage_from_json j' = stage_from_json j"
proof (rule stage_from_json_cong)
  fix k assume k: "k \<noteq> ''stepType''" "k \<noteq> ''stageTransitionType''"
  obtain j1 where "insert_missing ''stepType'' (JStr ''stage'') j = Some j1"
      "insert_missing ''stageTransitionType'' (JStr ''automatic'') j1 = Some j'"
    using assms by (auto simp: for_update_json_def bind_eq_Some_conv)
  with k show "j_get k j' = j_get k j" by (simp add: insert_missing_get)
qed

lemma with_timer_stage:
  assumes "with_timer_json j secs = Some j'"
  shows "stage_from_json j' = (stage_from_json j)\<lparr>st_duration_secs := Some secs\<rparr>"
proof -
  have "j_get k j' = (if k = ''timer'' then Some (timer_json secs) else j_get k j)" for k
    using assms unfolding with_timer_json_def by (rule j_get_insert)
  then show ?thesis by (simp add: read_defs read_temperature_def read_steam_def timer_json_def)
qed

text \<open>A mode names its bulb; the oven has two.\<close>

definition bulbs_ok :: "Json \<Rightarrow> bool" where
  "bulbs_ok j \<longleftrightarrow> (case read_str [''temperatureBulbs'', ''mode''] j of Some m \<Rightarrow> m = ''dry'' \<or> m = ''wet'' | None \<Rightarrow> False)"

lemma with_temperature_stage:
  assumes "with_temperature_json j celsius = Some j'" "bulbs_ok j"
  shows "stage_from_json j' = (stage_from_json j)\<lparr>st_temperature_c := read_back celsius\<rparr>" and "bulbs_ok j'"
proof -
  obtain m where m: "read_str [''temperatureBulbs'', ''mode''] j = Some m" "m = ''dry'' \<or> m = ''wet''"
    using assms(2) by (auto simp: bulbs_ok_def split: option.splits)
  then have mm: "m \<noteq> ''mode''" by auto
  obtain j1 where j1: "j_update ''temperatureBulbs'' (j_insert ''mode'' (JStr m)) j = Some j1"
      "j_update ''temperatureBulbs'' (j_update m (j_insert ''setpoint'' (setpoint_json celsius))) j1 = Some j'"
    using assms(1) m(1) by (auto simp: with_temperature_json_def or_default_def bind_eq_Some_conv)
  from j1(1) obtain x1 where
      i1: "j_insert ''mode'' (JStr m) (case j_get ''temperatureBulbs'' j of Some v \<Rightarrow> v | None \<Rightarrow> JNull) = Some x1"
    and x1: "\<forall>k. j_get k j1 = (if k = ''temperatureBulbs'' then Some x1 else j_get k j)"
    by (rule j_updateE)
  have mode1: "j_get ''mode'' x1 = Some (JStr m)" by (simp add: j_get_insert [OF i1])
  from j1(2) obtain x2 where
      u2: "j_update m (j_insert ''setpoint'' (setpoint_json celsius)) (case j_get ''temperatureBulbs'' j1 of Some v \<Rightarrow> v | None \<Rightarrow> JNull) = Some x2"
    and x2: "\<forall>k. j_get k j' = (if k = ''temperatureBulbs'' then Some x2 else j_get k j1)"
    by (rule j_updateE)
  from u2 obtain x3 where
      i3: "j_insert ''setpoint'' (setpoint_json celsius)
        (case j_get m (case j_get ''temperatureBulbs'' j1 of Some v \<Rightarrow> v | None \<Rightarrow> JNull) of Some v \<Rightarrow> v | None \<Rightarrow> JNull) = Some x3"
    and y3: "\<forall>k. j_get k x2 = (if k = m then Some x3 else j_get k (case j_get ''temperatureBulbs'' j1 of Some v \<Rightarrow> v | None \<Rightarrow> JNull))"
    by (rule j_updateE)
  have x3: "j_get k x2 = (if k = m then Some x3 else j_get k x1)" for k by (simp add: y3 x1)
  have sp: "j_get ''setpoint'' x3 = Some (setpoint_json celsius)" by (simp add: j_get_insert [OF i3])
  have mode: "read_str [''temperatureBulbs'', ''mode''] j' = Some m"
    using mm by (simp add: read_str_def x2 x3 mode1)
  obtain r where r: "setpoint_celsius (setpoint_json celsius) = Some r" using setpoint_Some by blast
  have t: "read_temperature j' = setpoint_celsius (setpoint_json celsius)"
    using mm by (simp add: read_temperature_def read_str_def x2 x3 mode1 sp)
  show "stage_from_json j' = (stage_from_json j)\<lparr>st_temperature_c := read_back celsius\<rparr>"
    unfolding stage_from_json_def mode m(1) t
    by (simp add: read_back_def read_steam_def read_str_def read_bool_def read_u64_def x2 x1)
  show "bulbs_ok j'" using m(2) by (simp add: bulbs_ok_def mode)
qed

section \<open>The edits' interface\<close>

text \<open>
  What the state machine relies on: each edit changes what is read of a stage in one place. \<open>ok\<close> is
  what a reported stage is like, \<open>reads_as\<close> the temperature read after one is set.
\<close>

locale raw_stages =
  fixes ops :: "'j RawOps" and read :: "'j \<Rightarrow> Stage" and ok :: "'j \<Rightarrow> bool" and reads_as :: "f32 \<Rightarrow> f32"
  assumes read_with_temperature: "ok j \<Longrightarrow> read (with_temperature ops j c) = (read j)\<lparr>st_temperature_c := reads_as c\<rparr>"
    and read_with_timer: "ok j \<Longrightarrow> read (with_timer ops j secs) = (read j)\<lparr>st_duration_secs := Some secs\<rparr>"
    and read_for_update: "read (for_update ops j) = read j"

begin

lemma read_update: "map read (map (for_update ops) js) = map read js"
  by (simp add: read_for_update)

lemma read_edited:
  assumes "i < length js" "\<forall>j \<in> set js. ok j"
  shows "map read (js[i := with_temperature ops (js ! i) c]) =
      (map read js)[i := (map read js ! i)\<lparr>st_temperature_c := reads_as c\<rparr>]"
    and "map read (js[i := with_timer ops (js ! i) secs]) =
      (map read js)[i := (map read js ! i)\<lparr>st_duration_secs := Some secs\<rparr>]"
  using assms by (simp_all add: map_update read_with_temperature read_with_timer)

end

definition json_ops :: "Json RawOps" where
  "json_ops = \<lparr>with_temperature = (\<lambda>j c. or_default (with_temperature_json j c) j),
     with_timer = (\<lambda>j secs. or_default (with_timer_json j secs) j),
     for_update = (\<lambda>j. or_default (for_update_json j) j)\<rparr>"

text \<open>A stage with its setpoint under its mode, on which the edits do not panic.\<close>

definition raw_ok :: "Json \<Rightarrow> bool" where
  "raw_ok j \<longleftrightarrow> bulbs_ok j \<and>
     (\<forall>m. read_str [''temperatureBulbs'', ''mode''] j = Some m \<longrightarrow>
        (\<exists>kvs. j_path [''temperatureBulbs'', m] j = Some (JObj kvs)))"

lemma j_get_Some_object: "j_get k j = Some v \<Longrightarrow> \<exists>kvs. j = JObj kvs \<and> map_of kvs k = Some v"
  by (cases j) auto

lemma raw_ok_edits:
  assumes "raw_ok j"
  shows "with_temperature_json j c \<noteq> None" "with_timer_json j secs \<noteq> None"
proof -
  obtain m where m: "read_str [''temperatureBulbs'', ''mode''] j = Some m" "m = ''dry'' \<or> m = ''wet''"
    using assms by (auto simp: raw_ok_def bulbs_ok_def split: option.splits)
  then obtain kvs where "j_path [''temperatureBulbs'', m] j = Some (JObj kvs)" using assms by (auto simp: raw_ok_def)
  then obtain tb where tb: "j_get ''temperatureBulbs'' j = Some tb" "j_get m tb = Some (JObj kvs)"
    by (auto simp: bind_eq_Some_conv)
  obtain js ts where o: "j = JObj js" "map_of js ''temperatureBulbs'' = Some tb" "tb = JObj ts" "map_of ts m = Some (JObj kvs)"
    using tb j_get_Some_object by metis
  show "with_temperature_json j c \<noteq> None"
    using m(2) o(2-4) unfolding with_temperature_json_def m(1) by (auto simp: o(1) or_default_def j_insert_def Let_def)
  show "with_timer_json j secs \<noteq> None" by (simp add: with_timer_json_def j_insert_def o(1))
qed

interpretation oven_raw: raw_stages json_ops stage_from_json raw_ok read_back
proof unfold_locales
  fix j c secs
  show "raw_ok j \<Longrightarrow> stage_from_json (with_temperature json_ops j c) = (stage_from_json j)\<lparr>st_temperature_c := read_back c\<rparr>"
    using raw_ok_edits(1) [of j c] with_temperature_stage(1) [of j c]
    by (auto simp: json_ops_def or_default_def raw_ok_def)
  show "raw_ok j \<Longrightarrow> stage_from_json (with_timer json_ops j secs) = (stage_from_json j)\<lparr>st_duration_secs := Some secs\<rparr>"
    using raw_ok_edits(2) [of j secs] with_timer_stage [of j secs] by (auto simp: json_ops_def or_default_def)
  show "stage_from_json (for_update json_ops j) = stage_from_json j"
    using for_update_stage [of j] by (auto simp: json_ops_def or_default_def split: option.split)
qed

section \<open>Examples\<close>

text \<open>A stage that ends on the probe, with a duration left over.\<close>

definition probe_stage :: Stage where
  "probe_stage = \<lparr>st_id = Some ''ios-1'', st_kind = ''cook'', st_temperature_c = F_Fin False 180 0,
     st_temperature_bulbs_mode = Some ''dry'', st_duration_secs = Some 600, st_timer_added = Some False,
     st_probe_added = Some True, st_probe_target_c = Some (F_Fin False 60 0), st_steam_pct = F_Fin False 0 0,
     st_fan_speed = 100, st_user_action_required = Some False, st_rack_position = None,
     st_heating_element_top = Some False, st_heating_element_rear = Some True,
     st_heating_element_bottom = Some False, st_vent_open = None, st_title = None,
     st_turn_off_at_end = None, st_prompt = None\<rparr>"

theorem temperatures_survive_the_oven_witness:
  "\<exists>r. fval (read_back (F_Fin False 204 0)) = Some r \<and> \<bar>r - 204\<bar> \<le> 1 / 3 \<and>
     degrees_c (read_back (F_Fin False 204 0)) = 204"
proof -
  have "in_range 1 250 (F_Fin False 204 0)" "fval (F_Fin False 204 0) = Some 204"
    by (simp_all add: in_range_Fin signed_def pow2_def)
  from temperatures_survive_the_oven [OF this] show ?thesis by (metis of_int_numeral)
qed

text \<open>The stage of \<open>testdata/device-state-cooking.json\<close>, as this server would send it and as the oven has it.\<close>

definition timed_stage :: Stage where
  "timed_stage = \<lparr>st_id = Some ''ios-180718f6'', st_kind = ''cook'', st_temperature_c = F_Fin False 60 0,
     st_temperature_bulbs_mode = Some ''dry'', st_duration_secs = Some 120, st_timer_added = Some True,
     st_probe_added = Some False, st_probe_target_c = None, st_steam_pct = F_Fin False 0 0,
     st_fan_speed = 100, st_user_action_required = Some False, st_rack_position = Some 2,
     st_heating_element_top = Some False, st_heating_element_rear = Some True,
     st_heating_element_bottom = Some False, st_vent_open = None, st_title = Some ''local probe test'',
     st_turn_off_at_end = None, st_prompt = None\<rparr>"

definition timed_report :: Json where
  "timed_report = JObj
     [(''title'', JStr ''local probe test''), (''id'', JStr ''ios-180718f6''), (''type'', JStr ''cook''),
      (''userActionRequired'', JBool False),
      (''temperatureBulbs'', JObj [(''mode'', JStr ''dry''),
         (''dry'', JObj [(''setpoint'', JObj [(''celsius'', JInt 60), (''fahrenheit'', JInt 140)])])]),
      (''timer'', JObj [(''initial'', JInt 120)]),
      (''heatingElements'', JObj [(''top'', JObj [(''on'', JBool False)]), (''rear'', JObj [(''on'', JBool True)]),
         (''bottom'', JObj [(''on'', JBool False)])]),
      (''fan'', JObj [(''speed'', JInt 100)]), (''vent'', JObj [(''open'', JBool False)])]"

theorem stage_round_trip_witness:
  "restore_end_flags (stage_from_json timed_report) =
     (sent_stage ''u'' timed_stage)\<lparr>st_timer_added := Some True, st_probe_added := Some False, st_rack_position := None\<rparr>"
proof -
  have "normalize_stage_id_for_ws ''u'' (Some ''ios-180718f6'') = ''ios-180718f6''" by code_simp
  moreover have "\<not> f32_gt (F_Fin False 0 0) (f32_of_nat 0)" by code_simp
  moreover have "setpoint_json (F_Fin False 60 0) = JObj [(''celsius'', JInt 60), (''fahrenheit'', JInt 140)]" by code_simp
  ultimately have d: "start_stage_json ''u'' timed_stage = JObj
     [(''stepType'', JStr ''stage''), (''id'', JStr ''ios-180718f6''), (''title'', JStr ''local probe test''),
      (''description'', JStr []), (''type'', JStr ''cook''), (''userActionRequired'', JBool False),
      (''stageTransitionType'', JStr ''automatic''),
      (''temperatureBulbs'', JObj [(''mode'', JStr ''dry''),
         (''dry'', JObj [(''setpoint'', JObj [(''celsius'', JInt 60), (''fahrenheit'', JInt 140)])])]),
      (''heatingElements'', JObj [(''top'', JObj [(''on'', JBool False)]), (''rear'', JObj [(''on'', JBool True)]),
         (''bottom'', JObj [(''on'', JBool False)])]),
      (''fan'', JObj [(''speed'', JInt 100)]), (''vent'', JObj [(''open'', JBool False)]), (''rackPosition'', JInt 2),
      (''timerAdded'', JBool True), (''probeAdded'', JBool False), (''timerStartOnDetect'', JBool False),
      (''timer'', JObj [(''initial'', JInt 120)])]"
    by (simp add: timed_stage_def stage_json_defs or_default_def Let_def j_nat_def)
  have "reported_as (start_stage_json ''u'' timed_stage) timed_report"
    unfolding reported_as_def d by (auto simp: timed_report_def OVEN_KEEPS_def)
  moreover have "ends_match timed_stage" by (simp add: ends_match_def timed_stage_def)
  ultimately show ?thesis
    using stage_round_trip [of "''u''" timed_stage timed_report] by (simp add: timed_stage_def)
qed

end
