(* ===== verification/Protocol.thy ===== *)
theory Protocol
  imports Oven_Stages State_Machine Recipe_Files
begin

text \<open>
  The oven's reports (\<open>protocol/mod.rs\<close>) and the frames that carry them, from Anova's cloud
  (\<open>protocol/app.rs\<close>) and from the oven itself (\<open>protocol/device.rs\<close>). The state is the record that
  \<open>serde\<close> fills in; reading JSON text and the derived decoders are parameters.
\<close>

section \<open>The oven's state\<close>

record SystemInfo =
  si_online :: "bool option"
  si_firmware_version :: "string option"
  si_hardware_version :: "string option"
  si_last_disconnected_timestamp :: "string option"

text \<open>\<open>parse_utc_timestamp_ms\<close>; \<open>read_ms\<close> is the \<open>jiff\<close> crate's reading of a timestamp, in milliseconds.\<close>

definition parse_utc_timestamp_ms :: "(string \<Rightarrow> int option) \<Rightarrow> string \<Rightarrow> u64 option" where
  "parse_utc_timestamp_ms read_ms s =
     (case read_ms s of
        None \<Rightarrow> None
      | Some ms \<Rightarrow> if 0 \<le> ms \<and> ms < 2 ^ 64 then Some (word_of_int ms) else None)"

definition last_disconnected_unix_ms :: "(string \<Rightarrow> int option) \<Rightarrow> SystemInfo \<Rightarrow> u64 option" where
  "last_disconnected_unix_ms read_ms si =
     Option.bind (si_last_disconnected_timestamp si) (parse_utc_timestamp_ms read_ms)"

record 'j Cook =
  ck_cook_id :: "string option"
  ck_active_stage_index :: "nat option"
  ck_active_stage_id :: "string option"
  ck_stages :: "'j list"
  ck_pending_user_action :: bool
  ck_seconds_elapsed :: "u64 option"
  ck_active_stage_seconds_elapsed :: "u64 option"

record StateInfo =
  sti_mode :: string
  sti_temperature_unit :: string
  sti_processed_command_ids :: "string list"

record HeatingElement =
  hel_on :: bool
  hel_watts :: f32

record HeatingElements =
  hes_bottom :: HeatingElement
  hes_top :: HeatingElement
  hes_rear :: HeatingElement

record Lamp =
  lp_on :: bool
  lp_preference :: string

record RelativeHumidity =
  rh_current :: f64
  rh_setpoint :: "f64 option"

record Boiler =
  bo_celsius :: f32
  bo_watts :: f32
  bo_descale_required :: bool

record Evaporator =
  ev_celsius :: f32
  ev_watts :: f32

record SteamGenerators =
  sg_relative_humidity :: "RelativeHumidity option"
  sg_mode :: string
  sg_boiler :: Boiler
  sg_evaporator :: Evaporator

text \<open>A \<open>Temperature\<close> is its Celsius value, a \<open>SimpleBulb\<close> its current temperature.\<close>

record SetpointBulb =
  sb_current :: f64
  sb_setpoint :: "f64 option"

record TemperatureBulbs =
  tb_dry :: SetpointBulb
  tb_dry_top :: f64
  tb_dry_bottom :: f64
  tb_wet :: SetpointBulb
  tb_mode :: string

record TemperatureProbe =
  tp_connected :: bool
  tp_current :: "f64 option"
  tp_setpoint :: "f64 option"

record Timer =
  ti_current :: u64
  ti_initial :: u64
  ti_mode :: string

record Nodes =
  nd_door_closed :: bool
  nd_fan_speed :: u32
  nd_heating_elements :: HeatingElements
  nd_lamp :: Lamp
  nd_steam_generators :: SteamGenerators
  nd_temperature_bulbs :: TemperatureBulbs
  nd_temperature_probe :: "TemperatureProbe option"
  nd_timer :: Timer
  nd_vent_open :: bool
  nd_water_tank_empty :: bool

record 'j OvenState =
  os_nodes :: Nodes
  os_state :: StateInfo
  os_cook :: "'j Cook option"
  os_updated_timestamp :: "string option"
  os_system_info :: "SystemInfo option"

section \<open>What is made of it\<close>

definition to_oven_cook :: "Json OvenState \<Rightarrow> Json OvenCook option" where
  "to_oven_cook oven =
     (case os_cook oven of
        None \<Rightarrow> None
      | Some cook \<Rightarrow>
          (case ck_cook_id cook of
             None \<Rightarrow> None
           | Some i \<Rightarrow> Some \<lparr>oc_cook_id = i, oc_stages = map stage_from_json (ck_stages cook),
               oc_raw_stages = ck_stages cook, oc_seconds_elapsed = or_default (ck_seconds_elapsed cook) 0\<rparr>))"

definition oven_cook_done :: "'j OvenState \<Rightarrow> bool" where
  "oven_cook_done oven =
     (case os_cook oven of
        None \<Rightarrow> False
      | Some cook \<Rightarrow>
          (let on_last_stage = (case ck_active_stage_index cook of
                 Some i \<Rightarrow> i + 1 = length (ck_stages cook) | None \<Rightarrow> False)
           in ck_pending_user_action cook \<and> ti_mode (nd_timer (os_nodes oven)) = ''idle'' \<and> on_last_stage))"

definition to_oven_status :: "'j OvenState \<Rightarrow> OvenStatus" where
  "to_oven_status oven =
     (let nodes = os_nodes oven; sg = nd_steam_generators nodes; he = nd_heating_elements nodes;
          tb = nd_temperature_bulbs nodes;
          probe = (case nd_temperature_probe nodes of
            Some p \<Rightarrow> if tp_connected p then Some p else None | None \<Rightarrow> None)
      in \<lparr>mode = sti_mode (os_state oven),
          temperature_unit = sti_temperature_unit (os_state oven),
          temperature_c = f64_to_f32 (sb_current (tb_dry tb)),
          target_temperature_c = map_option f64_to_f32 (sb_setpoint (tb_dry tb)),
          wet_target_temperature_c = map_option f64_to_f32 (sb_setpoint (tb_wet tb)),
          temperature_bulbs_mode = tb_mode tb,
          dry_top_temperature_c = f64_to_f32 (tb_dry_top tb),
          dry_bottom_temperature_c = f64_to_f32 (tb_dry_bottom tb),
          wet_bulb_temperature_c = f64_to_f32 (sb_current (tb_wet tb)),
          probe_temperature_c = map_option f64_to_f32 (Option.bind probe tp_current),
          probe_target_temperature_c = map_option f64_to_f32 (Option.bind probe tp_setpoint),
          timer_current_secs = ti_current (nd_timer nodes),
          timer_total_secs = ti_initial (nd_timer nodes),
          timer_mode = ti_mode (nd_timer nodes),
          steam_pct = (case sg_relative_humidity sg of
            None \<Rightarrow> f32_of_nat 0 | Some rh \<Rightarrow> f64_to_f32 (rh_current rh)),
          steam_target_pct = map_option f64_to_f32 (Option.bind (sg_relative_humidity sg) rh_setpoint),
          steam_generator_mode = sg_mode sg,
          boiler_celsius = bo_celsius (sg_boiler sg),
          boiler_watts = bo_watts (sg_boiler sg),
          boiler_descale_required = bo_descale_required (sg_boiler sg),
          evaporator_celsius = ev_celsius (sg_evaporator sg),
          evaporator_watts = ev_watts (sg_evaporator sg),
          fan_speed = nd_fan_speed nodes,
          heating_element_top_on = hel_on (hes_top he),
          heating_element_top_watts = hel_watts (hes_top he),
          heating_element_rear_on = hel_on (hes_rear he),
          heating_element_rear_watts = hel_watts (hes_rear he),
          heating_element_bottom_on = hel_on (hes_bottom he),
          heating_element_bottom_watts = hel_watts (hes_bottom he),
          lamp_on = lp_on (nd_lamp nodes),
          lamp_preference = lp_preference (nd_lamp nodes),
          vent_open = nd_vent_open nodes,
          door_open = (\<not> nd_door_closed nodes),
          water_tank_empty = nd_water_tank_empty nodes,
          active_stage_index = Option.bind (os_cook oven) ck_active_stage_index,
          active_stage_id = Option.bind (os_cook oven) ck_active_stage_id,
          cook_done = oven_cook_done oven,
          cook_id = Option.bind (os_cook oven) ck_cook_id,
          stage_transition_pending_user_action = (case os_cook oven of
            Some c \<Rightarrow> ck_pending_user_action c | None \<Rightarrow> False),
          cook_progress = None,
          upstream = None\<rparr>)"

section \<open>Frames\<close>

text \<open>
  What \<open>serde_json\<close> makes of a frame: the envelope's name, and the parts the code asks for. The left
  of a sum is the text of the error.
\<close>

record Decoders =
  de_action :: "string \<Rightarrow> string + string"                      \<comment> \<open>the device side's envelope\<close>
  de_command :: "string \<Rightarrow> string + string"                     \<comment> \<open>the app side's envelope\<close>
  de_state :: "string \<Rightarrow> string + Json OvenState"                \<comment> \<open>\<open>data\<close>\<close>
  de_payload :: "string \<Rightarrow> string + (string \<times> Json OvenState)"    \<comment> \<open>\<open>cookerId\<close> and \<open>state\<close> of \<open>payload\<close>\<close>
  de_value :: "string \<Rightarrow> string + Json"
  de_response :: "string \<Rightarrow> string + (string \<times> string)"          \<comment> \<open>\<open>requestId\<close>, \<open>payload.status\<close>\<close>

datatype DeviceEvent = DeState "Json OvenState" | DeOther string

definition parse_device_message :: "Decoders \<Rightarrow> string \<Rightarrow> string + DeviceEvent" where
  "parse_device_message de frame =
     (case de_action de frame of
        Inl e \<Rightarrow> Inl e
      | Inr action \<Rightarrow>
          if action = ''state'' then
            (case de_state de frame of Inl e \<Rightarrow> Inl e | Inr st \<Rightarrow> Inr (DeState st))
          else Inr (DeOther action))"

datatype AppEvent =
  ApApoState string "Json OvenState"
| ApApoWifiList "string option"
| ApUserState
| ApResponse string string
| ApUnknown

text \<open>\<open>v[k]\<close> and \<open>v[i]\<close>: null where there is nothing.\<close>

definition j_at :: "string \<Rightarrow> Json \<Rightarrow> Json" where
  "j_at k j = or_default (j_get k j) JNull"

fun j_nth :: "nat \<Rightarrow> Json \<Rightarrow> Json" where
  "j_nth i (JArr xs) = (if i < length xs then xs ! i else JNull)"
| "j_nth i _ = JNull"

definition parse_app_message :: "Decoders \<Rightarrow> string \<Rightarrow> string + AppEvent" where
  "parse_app_message de frame =
     (case de_command de frame of
        Inl e \<Rightarrow> Inl e
      | Inr command \<Rightarrow>
          if command = ''EVENT_APO_STATE'' then
            (case de_payload de frame of Inl e \<Rightarrow> Inl e | Inr (i, st) \<Rightarrow> Inr (ApApoState i st))
          else if command = ''EVENT_APO_WIFI_LIST'' then
            (case de_value de frame of
               Inl e \<Rightarrow> Inl e
             | Inr v \<Rightarrow> Inr (ApApoWifiList (j_as_str (j_at ''cookerId'' (j_nth 0 (j_at ''payload'' v))))))
          else if command = ''EVENT_USER_STATE'' then Inr ApUserState
          else if command = ''RESPONSE'' then
            (case de_response de frame of Inl e \<Rightarrow> Inl e | Inr (i, status) \<Rightarrow> Inr (ApResponse i status))
          else Inr ApUnknown)"

section \<open>Controls during a preheat\<close>

context raw_stages

begin

lemma control_edits:
  assumes c: "control env s rq = Inr (UpdateCookStages js)" and env: "raw_ops env = ops"
    and cook: "oven_cook s = Some cook" and stages: "oc_stages cook = map read (oc_raw_stages cook)"
    and good: "\<forall>raw \<in> set (oc_raw_stages cook). ok raw"
  shows "\<exists>active. active < length (oc_stages cook) \<and> st_kind (oc_stages cook ! active) = ''preheat'' \<and>
    Option.bind (sm_status s) active_stage_index = Some active \<and>
    ((\<exists>celsius. rq = RqTemperature celsius \<and>
        map read js = (oc_stages cook)[active := (oc_stages cook ! active)\<lparr>st_temperature_c := reads_as celsius\<rparr>]) \<or>
     (\<exists>secs. rq = RqTimer secs \<and> active + 1 < length (oc_stages cook) \<and>
        map read js = (oc_stages cook)[active + 1 := (oc_stages cook ! (active + 1))\<lparr>st_duration_secs := Some secs\<rparr>]))"
proof -
  obtain status where status: "sm_status s = Some status"
    using c by (auto simp: control_def split: ControlRequest.splits option.splits if_splits)
  obtain active where a: "active_stage_index status = Some active" "active < length (oc_raw_stages cook)"
    using c status cook by (auto simp: control_def split: ControlRequest.splits option.splits if_splits)
  let ?raw = "oc_raw_stages cook"
  have get: "get_nth (oc_stages cook) i = (if i < length ?raw then Some (map read ?raw ! i) else None)" for i
    by (simp add: stages get_nth_def)
  have k: "st_kind (map read ?raw ! active) = ''preheat''"
    using c status cook a by (auto simp: control_def get Let_def split: ControlRequest.splits option.splits if_splits)
  have "(\<exists>celsius. rq = RqTemperature celsius \<and>
        js = map (for_update ops) (?raw[active := with_temperature ops (?raw ! active) celsius])) \<or>
     (\<exists>secs. rq = RqTimer secs \<and> active + 1 < length ?raw \<and>
        js = map (for_update ops) (?raw[active + 1 := with_timer ops (?raw ! (active + 1)) secs]))"
    using c status cook a k env
    by (auto simp: control_def get update_cook_stages_def Let_def split: ControlRequest.splits option.splits if_splits)
  then show ?thesis
  proof (elim disjE exE conjE)
    fix celsius
    assume "rq = RqTemperature celsius" "js = map (for_update ops) (?raw[active := with_temperature ops (?raw ! active) celsius])"
    with read_edited(1) [OF a(2) good] a k status show ?thesis by (simp only: read_update stages length_map) auto
  next
    fix secs
    assume "rq = RqTimer secs" "active + 1 < length ?raw"
      "js = map (for_update ops) (?raw[active + 1 := with_timer ops (?raw ! (active + 1)) secs])"
    with read_edited(2) [of "active + 1" ?raw secs] good a k status show ?thesis by (simp only: read_update stages length_map) auto
  qed
qed

end

text \<open>
  C23: in local mode, setting the temperature or the timer while the oven preheats sends the oven its own
  cook with one change: the temperature of the preheat, or the timer of the stage after it. Every
  other setting of every stage is as the oven reported it.
\<close>

theorem preheat_controls_edit_one_stage:
  assumes "control env s rq = Inr (UpdateCookStages js)" "raw_ops env = json_ops"
    and "oven_cook s = to_oven_cook oven" "to_oven_cook oven = Some cook"
    and "\<forall>raw \<in> set (oc_raw_stages cook). raw_ok raw"
  shows "\<exists>active. active < length (oc_stages cook) \<and> st_kind (oc_stages cook ! active) = ''preheat'' \<and>
    Option.bind (sm_status s) active_stage_index = Some active \<and>
    ((\<exists>celsius. rq = RqTemperature celsius \<and>
        map stage_from_json js = (oc_stages cook)[active := (oc_stages cook ! active)\<lparr>st_temperature_c := read_back celsius\<rparr>]) \<or>
     (\<exists>secs. rq = RqTimer secs \<and> active + 1 < length (oc_stages cook) \<and>
        map stage_from_json js = (oc_stages cook)[active + 1 := (oc_stages cook ! (active + 1))\<lparr>st_duration_secs := Some secs\<rparr>]))"
proof -
  have "oc_stages cook = map stage_from_json (oc_raw_stages cook)"
    using assms(4) by (auto simp: to_oven_cook_def split: option.splits)
  then show ?thesis using oven_raw.control_edits [OF assms(1,2) _ _ assms(5)] assms(3,4) by simp
qed

section \<open>A stage's end\<close>

text \<open>
  A recipe the store accepts may be sent with another end than it asks for: what ends a stage is read
  off its duration alone, which a stage that ends on the probe may carry as well.
\<close>

theorem probe_stage_sent_with_a_timer:
  "stage_normal True probe_stage \<and> on_probe probe_stage \<and> \<not> on_timer probe_stage \<and>
   on_timer (stage_from_json (start_stage_json fresh probe_stage)) \<and>
   \<not> on_probe (stage_from_json (start_stage_json fresh probe_stage)) \<and>
   st_probe_target_c (stage_from_json (start_stage_json fresh probe_stage)) = None"
proof -
  have "f32_within 25 250 (F_Fin False 180 0)" "f32_within 0 100 (F_Fin False 0 0)" "f32_within 1 100 (F_Fin False 60 0)"
    by code_simp+
  then have "stage_normal True probe_stage"
    by (simp add: stage_normal_def stage_allowed_def probe_stage_def fan_ok_def elements_on_def needs_fresh_id_def clean_prompt_def)
  then show ?thesis by (simp add: stage_from_start sent_stage_def probe_stage_def)
qed

section \<open>Examples\<close>

definition demo_oven :: "string \<Rightarrow> string list \<Rightarrow> Json OvenState" where
  "demo_oven md ids =
     \<lparr>os_nodes =
        \<lparr>nd_door_closed = True, nd_fan_speed = 100,
         nd_heating_elements =
           (let off = \<lparr>hel_on = False, hel_watts = F_Fin False 0 0\<rparr>
            in \<lparr>hes_bottom = off, hes_top = off, hes_rear = off\<rparr>),
         nd_lamp = \<lparr>lp_on = False, lp_preference = ''on''\<rparr>,
         nd_steam_generators =
           \<lparr>sg_relative_humidity = None, sg_mode = ''idle'',
            sg_boiler = \<lparr>bo_celsius = F_Fin False 20 0, bo_watts = F_Fin False 0 0, bo_descale_required = False\<rparr>,
            sg_evaporator = \<lparr>ev_celsius = F_Fin False 20 0, ev_watts = F_Fin False 0 0\<rparr>\<rparr>,
         nd_temperature_bulbs =
           (let bulb = \<lparr>sb_current = F_Fin False 60 0, sb_setpoint = None\<rparr>
            in \<lparr>tb_dry = bulb, tb_dry_top = F_Fin False 60 0, tb_dry_bottom = F_Fin False 60 0, tb_wet = bulb,
                tb_mode = ''dry''\<rparr>),
         nd_temperature_probe = None,
         nd_timer = \<lparr>ti_current = 0, ti_initial = 0, ti_mode = ''idle''\<rparr>,
         nd_vent_open = False, nd_water_tank_empty = False\<rparr>,
      os_state = \<lparr>sti_mode = md, sti_temperature_unit = ''C'', sti_processed_command_ids = ids\<rparr>,
      os_cook = Some \<lparr>ck_cook_id = Some ''c'', ck_active_stage_index = Some 0, ck_active_stage_id = Some ''ios-1'',
        ck_stages =
          [JObj [(''id'', JStr ''ios-1''), (''type'', JStr ''preheat''),
                 (''temperatureBulbs'', JObj [(''mode'', JStr ''dry''), (''dry'', JObj [])])],
           JObj [(''id'', JStr ''ios-2''), (''type'', JStr ''cook''),
                 (''temperatureBulbs'', JObj [(''mode'', JStr ''dry''), (''dry'', JObj [])])]],
        ck_pending_user_action = False, ck_seconds_elapsed = None, ck_active_stage_seconds_elapsed = None\<rparr>,
      os_updated_timestamp = None, os_system_info = None\<rparr>"

definition demo_preheating :: "Json SmState" where
  "demo_preheating =
     (sm_new True (F_Fin False 1 0))\<lparr>connectivity := Connected (Some ''oven''),
       sm_status := Some (to_oven_status (demo_oven ''cook'' [])), oven_cook := to_oven_cook (demo_oven ''cook'' [])\<rparr>"

definition demo_json_env :: "Json Env" where
  "demo_json_env = \<lparr>uuid = (\<lambda>n. replicate n CHR ''u''), raw_ops = json_ops, now_ms = 0, unix_secs = None\<rparr>"

theorem preheat_controls_edit_one_stage_witness:
  "\<exists>js. control demo_json_env demo_preheating (RqTimer 600) = Inr (UpdateCookStages js) \<and>
     map st_duration_secs (map stage_from_json js) = [None, Some 600]"
proof -
  obtain cook where cook: "to_oven_cook (demo_oven ''cook'' []) = Some cook" "length (oc_stages cook) = 2"
      "map st_duration_secs (oc_stages cook) = [None, None]" "\<forall>raw \<in> set (oc_raw_stages cook). raw_ok raw"
    by (simp add: to_oven_cook_def demo_oven_def read_defs raw_ok_def bulbs_ok_def)
  obtain js where js: "control demo_json_env demo_preheating (RqTimer 600) = Inr (UpdateCookStages js)"
    by (simp add: control_def demo_preheating_def demo_json_env_def demo_oven_def to_oven_cook_def to_oven_status_def
      sm_new_def is_cooking_def read_defs update_cook_stages_def Let_def get_nth_def or_default_def)
  have env: "raw_ops demo_json_env = json_ops" "oven_cook demo_preheating = to_oven_cook (demo_oven ''cook'' [])"
    by (simp_all add: demo_json_env_def demo_preheating_def)
  obtain a b where ab: "oc_stages cook = [a, b]" using cook(2) by (auto simp: length_Suc_conv numeral_2_eq_2)
  have "map st_duration_secs (map stage_from_json js) = [None, Some 600]"
    using preheat_controls_edit_one_stage [OF js env cook(1,4)]
  proof (elim exE conjE disjE)
    fix active secs
    assume "RqTimer 600 = RqTimer secs" "active + 1 < length (oc_stages cook)"
      "map stage_from_json js = (oc_stages cook)[active + 1 := (oc_stages cook ! (active + 1))\<lparr>st_duration_secs := Some secs\<rparr>]"
    then show ?thesis using cook(3) by (simp add: ab)
  qed simp
  with js show ?thesis by (intro exI conjI)
qed

end
