(* ===== verification/Device.thy ===== *)
theory Device
  imports Protocol Liveness "HOL-Library.Multiset"
begin

text \<open>
  Local mode: the task that stands in for Anova's cloud (\<open>processors/device.rs\<close>) and the log of what
  the oven does by itself (\<open>oven_log.rs\<close>). The task is a step per branch of its \<open>select\<close>; what it
  tells the state machine and the liveness tracker, sends the oven and logs is its output. TLS, the
  WebSocket handshake and the metrics counters are not modelled. Once the state machine is gone the
  task returns where it is, so what it has done then is a prefix of a step's output.
\<close>

section \<open>The oven's log\<close>

record Outputs =
  ou_lamp_on :: bool
  ou_lamp_preference :: string
  ou_fan_speed :: u32
  ou_vent_open :: bool

definition outputs_of :: "OvenStatus \<Rightarrow> Outputs" where
  "outputs_of s = \<lparr>ou_lamp_on = lamp_on s, ou_lamp_preference = lamp_preference s,
     ou_fan_speed = fan_speed s, ou_vent_open = vent_open s\<rparr>"

definition outputs_text :: "Outputs \<Rightarrow> string" where
  "outputs_text ou =
     ''lamp='' @ (if ou_lamp_on ou then ''on'' else ''off'') @
     '' lamp_preference='' @ ou_lamp_preference ou @
     '' fan='' @ show_nat (unat (ou_fan_speed ou)) @
     '' vent='' @ (if ou_vent_open ou then ''open'' else ''closed'')"

record OvenLog =
  ol_outputs :: "Outputs option"
  ol_stage :: "(string option \<times> nat) option"

definition oven_log_new :: OvenLog where
  "oven_log_new = \<lparr>ol_outputs = None, ol_stage = None\<rparr>"

datatype Logged = StageStarted nat | LoggedOutputs string

definition observe_stage :: "OvenStatus \<Rightarrow> OvenLog \<Rightarrow> Logged list \<times> OvenLog" where
  "observe_stage s l =
     (let stage = map_option (Pair (cook_id s)) (active_stage_index s)
      in (case stage of
            Some (_, index) \<Rightarrow> if stage \<noteq> ol_stage l then [StageStarted index] else []
          | None \<Rightarrow> [],
          l\<lparr>ol_stage := stage\<rparr>))"

definition observe :: "OvenStatus \<Rightarrow> OvenLog \<Rightarrow> Logged list \<times> OvenLog" where
  "observe s l =
     (let (logged, l) = observe_stage s l;
          ou = outputs_of s
      in (logged @ (if ol_outputs l \<noteq> Some ou then [LoggedOutputs (outputs_text ou)] else []),
          l\<lparr>ol_outputs := Some ou\<rparr>))"

section \<open>Commands to the oven\<close>

definition command_json :: "string \<Rightarrow> string \<Rightarrow> Json option \<Rightarrow> Json" where
  "command_json i kind pl =
     (let msg = JObj [(''id'', JStr i), (''type'', JStr kind)]
      in case pl of Some p \<Rightarrow> j_set ''payload'' p msg | None \<Rightarrow> msg)"

fun control_command :: "Json OvenControl \<Rightarrow> string \<times> Json option" where
  "control_command (StartStage stage_id) =
     (''CMD_APO_START_STAGE'', Some (JObj [(''stageId'', JStr stage_id)]))"
| "control_command (SetTimer secs) =
     (''CMD_APO_SET_TIMER'', Some (JObj [(''initial'', j_nat (unat secs))]))"
| "control_command (SetTemperatureBulbs m celsius) =
     (''CMD_APO_SET_TEMPERATURE_BULBS'', Some (temperature_bulbs_payload m celsius))"
| "control_command (SetLamp on) = (''CMD_APO_SET_LAMP'', Some (JObj [(''on'', JBool on)]))"
| "control_command (SetTemperatureUnit unit) =
     (''CMD_APO_SET_TEMPERATURE_UNIT'', Some (JObj [(''temperatureUnit'', JStr unit)]))"
| "control_command (UpdateCookStages stages) =
     (''CMD_APO_UPDATE_COOK_STAGES'', Some (JObj [(''stages'', JArr stages)]))"

definition device_start_json :: "(nat \<Rightarrow> string) \<Rightarrow> string \<Rightarrow> string \<Rightarrow> Stage list \<Rightarrow> Json" where
  "device_start_json u i cid stages =
     command_json i ''CMD_APO_START''
       (Some (JObj [(''cookId'', JStr cid), (''stages'', JArr (start_stages_json u stages))]))"

text \<open>A command of the state machine: its id, its kind and its document.\<close>

fun encode_command :: "(nat \<Rightarrow> string) \<Rightarrow> Json WsCommand \<Rightarrow> string \<times> string \<times> Json" where
  "encode_command u (SendStart i cid _ stages) = (i, ''CMD_APO_START'', device_start_json u i cid stages)"
| "encode_command u (SendStop i) = (i, ''CMD_APO_STOP'', command_json i ''CMD_APO_STOP'' None)"
| "encode_command u (WsControl i ctl) =
     (case control_command ctl of (kind, pl) \<Rightarrow> (i, kind, command_json i kind pl))"

text \<open>A time zone: its abbreviation and offset at a time, and its name.\<close>

record TimeZone =
  tz_offset_info :: "int \<Rightarrow> string \<times> int"
  tz_iana_name :: "string option"

definition time_zone_payload :: "TimeZone \<Rightarrow> int \<Rightarrow> Json" where
  "time_zone_payload tz now =
     (case tz_offset_info tz now of (code, offset) \<Rightarrow>
        JObj [(''time_zone'', JObj [(''code'', JStr code), (''gmt_offset'', JInt offset),
                (''id'', JStr (or_default (tz_iana_name tz) ''UTC''))])])"

definition report_rate_payload :: Json where
  "report_rate_payload = JObj [(''idle'', j_nat 5), (''cooking'', j_nat 5)]"

section \<open>The device id\<close>

text \<open>\<open>device_id_from_jwt\<close>; base64 and JSON are the crates'.\<close>

definition device_id_from_jwt :: "(string \<Rightarrow> string option) \<Rightarrow> (string \<Rightarrow> Json option) \<Rightarrow> string \<Rightarrow> string option" where
  "device_id_from_jwt base64 parse token =
     (let token = (case strip_prefix ''Bearer '' token of Some t \<Rightarrow> t | None \<Rightarrow> token);
          rest = dropWhile (\<lambda>c. c \<noteq> CHR ''.'') token
      in case rest of
           [] \<Rightarrow> None
         | _ # r \<Rightarrow>
             Option.bind (base64 (takeWhile (\<lambda>c. c \<noteq> CHR ''.'') r)) (\<lambda>bytes.
               Option.bind (parse bytes) (\<lambda>claims. Option.bind (j_get ''deviceId'' claims) j_as_str)))"

definition session_device_id :: "string option \<Rightarrow> string" where
  "session_device_id i = or_default i ''unknown''"

section \<open>The task\<close>

record PendingAck =
  pa_id :: string
  pa_kind :: string
  pa_deadline :: nat

text \<open>\<open>take_acked\<close> and \<open>take_expired\<close>: those taken, and the rest.\<close>

definition take_acked :: "string list \<Rightarrow> PendingAck list \<Rightarrow> PendingAck list \<times> PendingAck list" where
  "take_acked processed waiting = partition (\<lambda>p. pa_id p \<in> set processed) waiting"

definition take_expired :: "nat \<Rightarrow> PendingAck list \<Rightarrow> PendingAck list \<times> PendingAck list" where
  "take_expired now waiting = partition (\<lambda>p. pa_deadline p \<le> now) waiting"

record DeviceConfig =
  dc_decoders :: Decoders
  dc_state_timeout :: nat
  dc_time_zone :: "TimeZone option"
  dc_ack_timeout :: nat

record Session =
  se_device_id :: string
  se_log :: OvenLog

record Device =
  dv_current :: "Session option"
  dv_pending :: "PendingAck list"
  dv_last_state_frame :: nat

definition device_new :: "nat \<Rightarrow> Device" where
  "device_new now = \<lparr>dv_current = None, dv_pending = [], dv_last_state_frame = now\<rparr>"

datatype DevOut =
  ToSm "Json WsEvent"
| ToLiveness LivenessEvent
| ToOven Json
| ToLog Logged

type_synonym dev_op = "Device \<Rightarrow> DevOut list \<times> Device"

text \<open>What the network says: a frame, and whether the one send of a branch gets through.\<close>

datatype OvenMsg = MsgPing | MsgPong | MsgClose | MsgBinary | MsgText string

datatype DevEvent =
  SessionArrives "string option" bool     \<comment> \<open>the id in its token\<close>
| FrameArrives OvenMsg bool
| ConnectionEnds
| HealthTick bool
| StateTimeout
| AckDeadline
| CommandArrives "Json WsCommand" bool

text \<open>The clocks and the UUIDs of a step.\<close>

record StepEnv =
  sv_now :: nat                 \<comment> \<open>\<open>Instant::now\<close>\<close>
  sv_unix :: int                \<comment> \<open>\<open>Timestamp::now\<close>\<close>
  sv_uuid :: "nat \<Rightarrow> string"

definition end_session :: dev_op where
  "end_session d =
     (if dv_current d = None then ([], d)
      else ([ToLiveness (LvConnected False), ToLiveness (LvOnline False None), ToSm EvDisconnected],
            d\<lparr>dv_current := None\<rparr>))"

definition send_ack :: "string \<Rightarrow> string \<Rightarrow> DevOut" where
  "send_ack i status = ToSm (CommandAck i status)"

definition session_arrives :: "StepEnv \<Rightarrow> string option \<Rightarrow> bool \<Rightarrow> dev_op" where
  "session_arrives env token_id sent d =
     (let (o1, d) = end_session d;
          i = session_device_id token_id;
          d = d\<lparr>dv_current := Some \<lparr>se_device_id = i, se_log = oven_log_new\<rparr>\<rparr>;
          o2 = [ToLiveness (LvConnected True), ToLiveness (LvOnline True None), ToSm EvConnected,
                ToSm (CookerDiscovered i),
                ToOven (command_json (sv_uuid env 0) ''CMD_APO_SET_REPORT_STATE_RATE'' (Some report_rate_payload))];
          (o3, d) = (if sent then ([], d\<lparr>dv_last_state_frame := sv_now env\<rparr>) else end_session d)
      in (o1 @ o2 @ o3, d))"

definition log_status :: "OvenStatus \<Rightarrow> Device \<Rightarrow> DevOut list \<times> Device" where
  "log_status status d =
     (case dv_current d of
        None \<Rightarrow> ([], d)
      | Some session \<Rightarrow>
          (case observe status (se_log session) of
             (logged, l) \<Rightarrow> (map ToLog logged, d\<lparr>dv_current := Some (session\<lparr>se_log := l\<rparr>)\<rparr>)))"

definition state_arrives :: "StepEnv \<Rightarrow> Json OvenState \<Rightarrow> dev_op" where
  "state_arrives env oven d =
     (let d = d\<lparr>dv_last_state_frame := sv_now env\<rparr>;
          status = to_oven_status oven;
          (logs, d) = log_status status d;
          (acked, rest) = take_acked (sti_processed_command_ids (os_state oven)) (dv_pending d)
      in (ToLiveness LvState # logs @ ToSm (ApoState status (to_oven_cook oven)) #
            map (\<lambda>p. send_ack (pa_id p) ''ok'') acked,
          d\<lparr>dv_pending := rest\<rparr>))"

text \<open>\<open>handle_message\<close>; \<open>False\<close> drops the session.\<close>

definition handle_message :: "DeviceConfig \<Rightarrow> StepEnv \<Rightarrow> OvenMsg \<Rightarrow> bool \<Rightarrow> Device \<Rightarrow> bool \<times> DevOut list \<times> Device" where
  "handle_message cfg env msg sent d =
     (case msg of
        MsgText frame \<Rightarrow>
          (case parse_device_message (dc_decoders cfg) frame of
             Inr (DeState oven) \<Rightarrow> (True, state_arrives env oven d)
           | Inr (DeOther action) \<Rightarrow>
               if action = ''timezone'' then
                 (case dc_time_zone cfg of
                    None \<Rightarrow> (True, [], d)
                  | Some tz \<Rightarrow>
                      (sent, [ToOven (command_json (sv_uuid env 0) ''CMD_APO_SET_TIME_ZONE''
                         (Some (time_zone_payload tz (sv_unix env))))], d))
               else (True, [], d)
           | Inl e \<Rightarrow> (True, [ToSm (ParseError e)], d))
      | _ \<Rightarrow> (True, [], d))"

definition command_arrives :: "DeviceConfig \<Rightarrow> StepEnv \<Rightarrow> Json WsCommand \<Rightarrow> bool \<Rightarrow> dev_op" where
  "command_arrives cfg env cmd sent d =
     (case encode_command (sv_uuid env) cmd of
        (i, kind, json) \<Rightarrow>
          if dv_current d = None then ([send_ack i ''disconnected''], d)
          else if \<not> sent then
            (let (outs, d) = end_session d in (ToOven json # send_ack i ''send failed'' # outs, d))
          else ([ToOven json], d\<lparr>dv_pending := dv_pending d @
                 [\<lparr>pa_id = i, pa_kind = kind, pa_deadline = sv_now env + dc_ack_timeout cfg\<rparr>]\<rparr>))"

text \<open>The guard of each branch of the \<open>select\<close>, and what the branch does.\<close>

fun dev_enabled :: "DeviceConfig \<Rightarrow> StepEnv \<Rightarrow> DevEvent \<Rightarrow> Device \<Rightarrow> bool" where
  "dev_enabled cfg env (FrameArrives _ _) d = (dv_current d \<noteq> None)"
| "dev_enabled cfg env ConnectionEnds d = (dv_current d \<noteq> None)"
| "dev_enabled cfg env (HealthTick _) d = (dv_current d \<noteq> None)"
| "dev_enabled cfg env StateTimeout d =
     (dv_current d \<noteq> None \<and> dv_last_state_frame d + dc_state_timeout cfg \<le> sv_now env)"
| "dev_enabled cfg env AckDeadline d = list_ex (\<lambda>p. pa_deadline p \<le> sv_now env) (dv_pending d)"
| "dev_enabled cfg env _ d = True"

fun dev_branch :: "DeviceConfig \<Rightarrow> StepEnv \<Rightarrow> DevEvent \<Rightarrow> dev_op" where
  "dev_branch cfg env (SessionArrives i sent) d = session_arrives env i sent d"
| "dev_branch cfg env (FrameArrives msg sent) d =
     (case handle_message cfg env msg sent d of
        (keep, outs, d) \<Rightarrow>
          if keep then (outs, d) else (let (outs', d) = end_session d in (outs @ outs', d)))"
| "dev_branch cfg env ConnectionEnds d = end_session d"
| "dev_branch cfg env (HealthTick sent) d =
     (let o1 = ToOven (command_json (sv_uuid env 0) ''CMD_APO_HEALTHCHECK'' None)
      in if sent then ([o1], d) else (let (outs, d) = end_session d in (o1 # outs, d)))"
| "dev_branch cfg env StateTimeout d = end_session d"
| "dev_branch cfg env AckDeadline d =
     (case take_expired (sv_now env) (dv_pending d) of
        (expired, rest) \<Rightarrow>
          (map (\<lambda>p. send_ack (pa_id p) ''timeout'') expired, d\<lparr>dv_pending := rest\<rparr>))"
| "dev_branch cfg env (CommandArrives cmd sent) d = command_arrives cfg env cmd sent d"

definition dev_step :: "DeviceConfig \<Rightarrow> StepEnv \<times> DevEvent \<Rightarrow> dev_op" where
  "dev_step cfg ev d =
     (if dev_enabled cfg (fst ev) (snd ev) d then dev_branch cfg (fst ev) (snd ev) d else ([], d))"

fun dev_run :: "DeviceConfig \<Rightarrow> (StepEnv \<times> DevEvent) list \<Rightarrow> dev_op" where
  "dev_run cfg [] d = ([], d)"
| "dev_run cfg (ev # evs) d =
     (let (o1, d) = dev_step cfg ev d; (o2, d) = dev_run cfg evs d in (o1 @ o2, d))"

section \<open>Every command is answered\<close>

fun ack_of :: "DevOut \<Rightarrow> (string \<times> string) list" where
  "ack_of (ToSm (CommandAck i status)) = [(i, status)]"
| "ack_of _ = []"

definition acks :: "DevOut list \<Rightarrow> (string \<times> string) list" where
  "acks outs = concat (map ack_of outs)"

fun command_id :: "Json WsCommand \<Rightarrow> string" where
  "command_id (SendStart i _ _ _) = i"
| "command_id (SendStop i) = i"
| "command_id (WsControl i _) = i"

definition command_ids :: "(StepEnv \<times> DevEvent) list \<Rightarrow> string list" where
  "command_ids evs = concat (map (\<lambda>ev. case snd ev of CommandArrives cmd _ \<Rightarrow> [command_id cmd] | _ \<Rightarrow> []) evs)"

lemma acks_simps [simp]:
  "acks [] = []" "acks (x # xs) = ack_of x @ acks xs" "acks (xs @ ys) = acks xs @ acks ys"
  by (simp_all add: acks_def)

lemma acks_none [simp]:
  "acks (map ToLog ls) = []" "acks (fst (end_session d)) = []" "ack_of (send_ack i status) = [(i, status)]"
  "acks (map (\<lambda>p. send_ack (f p) status) ps) = map (\<lambda>p. (f p, status)) ps"
  by (induction ls) (auto simp: end_session_def send_ack_def acks_def comp_def)

lemma command_ids_simps [simp]:
  "command_ids [] = []" "command_ids (xs @ ys) = command_ids xs @ command_ids ys"
  "command_ids (ev # evs) = (case snd ev of CommandArrives cmd _ \<Rightarrow> [command_id cmd] | _ \<Rightarrow> []) @ command_ids evs"
  by (simp_all add: command_ids_def)

lemma encode_command_id [simp]: "fst (encode_command u cmd) = command_id cmd"
  by (cases cmd) (simp_all add: case_prod_beta)

lemma pending_end_session [simp]: "dv_pending (snd (end_session d)) = dv_pending d"
  by (simp add: end_session_def)

lemma pending_log_status [simp]: "dv_pending (snd (log_status st d)) = dv_pending d"
  by (simp add: log_status_def case_prod_beta split: option.split)

lemma acks_log_status [simp]: "acks (fst (log_status st d)) = []"
  by (simp add: log_status_def case_prod_beta split: option.split)

lemma take_defs [simp]:
  "take_acked ids ps = (filter (\<lambda>p. pa_id p \<in> set ids) ps, filter (\<lambda>p. pa_id p \<notin> set ids) ps)"
  "take_expired now ps = (filter (\<lambda>p. pa_deadline p \<le> now) ps, filter (\<lambda>p. now < pa_deadline p) ps)"
  by (auto simp: take_acked_def take_expired_def comp_def not_le intro: filter_cong)

lemma mset_split:
  assumes "\<And>x. Q x \<longleftrightarrow> \<not> P x"
  shows "image_mset fst {#(f x, status). x \<in># filter_mset P M#} + image_mset f (filter_mset Q M) = image_mset f M"
proof -
  have "Q = (\<lambda>x. \<not> P x)" using assms by blast
  then have "filter_mset P M + filter_mset Q M = M" using multiset_partition [of M P] by simp
  then have "image_mset f (filter_mset P M) + image_mset f (filter_mset Q M) = image_mset f M"
    by (metis image_mset_union)
  then show ?thesis by (simp add: image_mset.compositionality comp_def)
qed

lemma dev_run_append:
  "dev_run cfg (xs @ ys) d =
     (fst (dev_run cfg xs d) @ fst (dev_run cfg ys (snd (dev_run cfg xs d))), snd (dev_run cfg ys (snd (dev_run cfg xs d))))"
  by (induction xs arbitrary: d) (simp_all add: Let_def case_prod_beta)

lemma dev_run_snoc:
  "dev_run cfg (evs @ [ev]) d =
     (fst (dev_run cfg evs d) @ fst (dev_step cfg ev (snd (dev_run cfg evs d))), snd (dev_step cfg ev (snd (dev_run cfg evs d))))"
  by (simp add: dev_run_append Let_def case_prod_beta)

lemma handle_message_answers:
  "handle_message cfg env msg sent d = (keep, outs, d') \<Longrightarrow>
   mset (map fst (acks outs)) + mset (map pa_id (dv_pending d')) = mset (map pa_id (dv_pending d))"
  by (auto simp: handle_message_def state_arrives_def Let_def case_prod_beta
    split: OvenMsg.splits sum.splits DeviceEvent.splits if_splits option.splits intro!: mset_split)

lemma dev_step_answers:
  "mset (command_ids [ev]) + mset (map pa_id (dv_pending d)) =
     mset (map fst (acks (fst (dev_step cfg ev d)))) + mset (map pa_id (dv_pending (snd (dev_step cfg ev d))))"
proof (cases "snd ev")
  case (FrameArrives msg sent)
  obtain keep outs d' where h: "handle_message cfg (fst ev) msg sent d = (keep, outs, d')" by (metis prod.exhaust)
  with handle_message_answers [OF h] FrameArrives show ?thesis by (auto simp: dev_step_def Let_def case_prod_beta)
next
  case (CommandArrives cmd sent)
  have "fst (encode_command (sv_uuid (fst ev)) cmd) = command_id cmd" by simp
  with CommandArrives show ?thesis
    by (auto simp: dev_step_def command_arrives_def Let_def case_prod_beta)
next
  case AckDeadline
  then show ?thesis by (auto simp: dev_step_def intro!: mset_split [symmetric])
qed (auto simp: dev_step_def session_arrives_def Let_def case_prod_beta)

text \<open>
  C11: no command is lost or answered twice. Over any order of connections, frames, failures, timeouts
  and commands, the commands the state machine gave the task are those it has acknowledged together
  with those that still wait for the oven, each once.
\<close>

theorem every_command_is_answered_once:
  "mset (command_ids evs) =
     mset (map fst (acks (fst (dev_run cfg evs (device_new t0))))) +
     mset (map pa_id (dv_pending (snd (dev_run cfg evs (device_new t0)))))"
proof -
  have "mset (command_ids evs) + mset (map pa_id (dv_pending d)) =
      mset (map fst (acks (fst (dev_run cfg evs d)))) + mset (map pa_id (dv_pending (snd (dev_run cfg evs d))))" for d
  proof (induction evs arbitrary: d)
    case (Cons ev evs)
    show ?case
      using Cons.IH [of "snd (dev_step cfg ev d)"] dev_step_answers [of ev d cfg]
      by (simp add: Let_def case_prod_beta ac_simps)
  qed simp
  from this [of "device_new t0"] show ?thesis by (simp add: device_new_def)
qed

section \<open>What an answer means\<close>

text \<open>
  A command that went to the oven: when it came there was a session, the task's step sent its document,
  and nothing else, and the document names the command's id.
\<close>

definition command_sent :: "DeviceConfig \<Rightarrow> Device \<Rightarrow> StepEnv \<Rightarrow> Json WsCommand \<Rightarrow> bool" where
  "command_sent cfg d env cmd \<longleftrightarrow>
     (let doc = snd (snd (encode_command (sv_uuid env) cmd))
      in dv_current d \<noteq> None \<and> fst (dev_step cfg (env, CommandArrives cmd True) d) = [ToOven doc] \<and>
         j_get ''id'' doc = Some (JStr (command_id cmd)))"

definition sent_in :: "DeviceConfig \<Rightarrow> nat \<Rightarrow> (StepEnv \<times> DevEvent) list \<Rightarrow> PendingAck \<Rightarrow> bool" where
  "sent_in cfg t0 evs p \<longleftrightarrow>
     (\<exists>xs env cmd ys. evs = xs @ (env, CommandArrives cmd True) # ys \<and> command_id cmd = pa_id p \<and>
        pa_deadline p = sv_now env + dc_ack_timeout cfg \<and>
        command_sent cfg (snd (dev_run cfg xs (device_new t0))) env cmd)"

lemma sent_in_snoc: "sent_in cfg t0 evs p \<Longrightarrow> sent_in cfg t0 (evs @ [ev]) p"
  unfolding sent_in_def by fastforce

lemma command_document_id: "j_get ''id'' (snd (snd (encode_command u cmd))) = Some (JStr (command_id cmd))"
  by (cases cmd) (auto simp: device_start_json_def command_json_def case_prod_beta Let_def split: option.split)

lemma handle_message_pending:
  assumes "handle_message cfg env msg sent d = (keep, outs, d')"
  shows "set (dv_pending d') \<subseteq> set (dv_pending d)"
    and "a \<in> set (acks outs) \<Longrightarrow> \<exists>frame oven p. msg = MsgText frame \<and>
      parse_device_message (dc_decoders cfg) frame = Inr (DeState oven) \<and> p \<in> set (dv_pending d) \<and>
      a = (pa_id p, ''ok'') \<and> pa_id p \<in> set (sti_processed_command_ids (os_state oven))"
  using assms
  by (auto simp: handle_message_def state_arrives_def Let_def case_prod_beta
    split: OvenMsg.splits sum.splits DeviceEvent.splits if_splits option.splits)

lemma dev_step_pending:
  assumes "p \<in> set (dv_pending (snd (dev_step cfg ev d)))"
  shows "p \<in> set (dv_pending d) \<or>
    (\<exists>env cmd. ev = (env, CommandArrives cmd True) \<and> command_id cmd = pa_id p \<and>
       pa_deadline p = sv_now env + dc_ack_timeout cfg \<and> command_sent cfg d env cmd)"
proof (cases "snd ev")
  case (FrameArrives msg sent)
  obtain keep outs d' where h: "handle_message cfg (fst ev) msg sent d = (keep, outs, d')" by (metis prod.exhaust)
  with handle_message_pending(1) [OF h] FrameArrives assms show ?thesis
    by (auto simp: dev_step_def Let_def case_prod_beta split: if_splits)
next
  case (CommandArrives cmd sent)
  have i: "fst (encode_command (sv_uuid (fst ev)) cmd) = command_id cmd" by simp
  have "command_sent cfg d (fst ev) cmd" if "dv_current d \<noteq> None"
    using that command_document_id [of "sv_uuid (fst ev)" cmd]
    by (auto simp: command_sent_def dev_step_def command_arrives_def Let_def case_prod_beta)
  with CommandArrives assms i show ?thesis
    by (cases ev) (auto simp: dev_step_def command_arrives_def Let_def case_prod_beta split: if_splits)
qed (use assms in \<open>auto simp: dev_step_def session_arrives_def Let_def case_prod_beta split: if_splits\<close>)

lemma pending_was_sent:
  "p \<in> set (dv_pending (snd (dev_run cfg evs (device_new t0)))) \<Longrightarrow> sent_in cfg t0 evs p"
proof (induction evs arbitrary: p rule: rev_induct)
  case (snoc ev evs)
  let ?d = "snd (dev_run cfg evs (device_new t0))"
  from snoc.prems have "p \<in> set (dv_pending (snd (dev_step cfg ev ?d)))" by (simp add: dev_run_snoc)
  from dev_step_pending [OF this] show ?case
  proof
    assume "p \<in> set (dv_pending ?d)"
    from sent_in_snoc [OF snoc.IH [OF this]] show ?thesis .
  qed (auto simp: sent_in_def)
qed (simp add: device_new_def)

lemma dev_step_ok:
  assumes "(i, ''ok'') \<in> set (acks (fst (dev_step cfg ev d)))"
  shows "\<exists>env frame sent oven p. ev = (env, FrameArrives (MsgText frame) sent) \<and> p \<in> set (dv_pending d) \<and> pa_id p = i \<and>
    parse_device_message (dc_decoders cfg) frame = Inr (DeState oven) \<and>
    i \<in> set (sti_processed_command_ids (os_state oven)) \<and> dv_current d \<noteq> None"
proof (cases "snd ev")
  case (FrameArrives msg sent)
  obtain keep outs d' where h: "handle_message cfg (fst ev) msg sent d = (keep, outs, d')" by (metis prod.exhaust)
  with FrameArrives assms have "(i, ''ok'') \<in> set (acks outs)" "dv_current d \<noteq> None"
    by (auto simp: dev_step_def Let_def case_prod_beta split: if_splits)
  from handle_message_pending(2) [OF h this(1)] this(2) FrameArrives show ?thesis by (cases ev) auto
qed (use assms in \<open>auto simp: dev_step_def session_arrives_def command_arrives_def Let_def case_prod_beta split: if_splits\<close>)

text \<open>
  C12: a command is acknowledged as done only when the oven says so. For every such acknowledgement the
  command came while the task had a session, its step put the command's document, which names its id,
  on the wire to the oven, and the acknowledgement is the answer to a state that came after it over a
  session and lists that id among the commands the oven has handled.
\<close>

theorem ok_means_the_oven_handled_it:
  assumes "(i, ''ok'') \<in> set (acks (fst (dev_run cfg evs (device_new t0))))"
  shows "\<exists>xs env cmd ys env' frame sent oven zs.
    evs = xs @ (env, CommandArrives cmd True) # ys @ (env', FrameArrives (MsgText frame) sent) # zs \<and>
    command_id cmd = i \<and> command_sent cfg (snd (dev_run cfg xs (device_new t0))) env cmd \<and>
    parse_device_message (dc_decoders cfg) frame = Inr (DeState oven) \<and>
    i \<in> set (sti_processed_command_ids (os_state oven)) \<and>
    (let d = snd (dev_run cfg (xs @ (env, CommandArrives cmd True) # ys) (device_new t0))
     in dv_current d \<noteq> None \<and>
        (i, ''ok'') \<in> set (acks (fst (dev_step cfg (env', FrameArrives (MsgText frame) sent) d))))"
  using assms
proof (induction evs rule: rev_induct)
  case (snoc ev evs)
  let ?d = "snd (dev_run cfg evs (device_new t0))"
  consider "(i, ''ok'') \<in> set (acks (fst (dev_run cfg evs (device_new t0))))"
    | "(i, ''ok'') \<in> set (acks (fst (dev_step cfg ev ?d)))"
    using snoc.prems by (auto simp: dev_run_snoc)
  then show ?case
  proof cases
    case 1
    from snoc.IH [OF this] show ?thesis by fastforce
  next
    case 2
    obtain env' frame sent oven p where f: "ev = (env', FrameArrives (MsgText frame) sent)" "p \<in> set (dv_pending ?d)"
        "pa_id p = i" "parse_device_message (dc_decoders cfg) frame = Inr (DeState oven)"
        "i \<in> set (sti_processed_command_ids (os_state oven))" "dv_current ?d \<noteq> None"
      using dev_step_ok [OF 2] by blast
    obtain xs env cmd ys where x: "evs = xs @ (env, CommandArrives cmd True) # ys" "command_id cmd = i"
        "command_sent cfg (snd (dev_run cfg xs (device_new t0))) env cmd"
      using pending_was_sent [OF f(2)] f(3) by (auto simp: sent_in_def)
    have "evs @ [ev] = xs @ (env, CommandArrives cmd True) # ys @ (env', FrameArrives (MsgText frame) sent) # []"
      by (simp add: x(1) f(1))
    moreover have "(i, ''ok'') \<in> set (acks (fst (dev_step cfg (env', FrameArrives (MsgText frame) sent) ?d)))"
      using 2 f(1) by simp
    ultimately show ?thesis using f(4-6) x(2,3) unfolding Let_def x(1) by blast
  qed
qed (simp add: device_new_def)

text \<open>
  C13: a command waits no longer than it may: once the deadline's branch has run, each command that
  still waits was sent less than the time out ago.
\<close>

theorem no_command_waits_too_long:
  assumes "p \<in> set (dv_pending (snd (dev_run cfg (evs @ [(env, AckDeadline)]) (device_new t0))))"
  shows "\<exists>xs e cmd ys. evs = xs @ (e, CommandArrives cmd True) # ys \<and> command_id cmd = pa_id p \<and>
    sv_now env < sv_now e + dc_ack_timeout cfg"
proof -
  let ?d = "snd (dev_run cfg evs (device_new t0))"
  have p: "p \<in> set (dv_pending ?d)" "sv_now env < pa_deadline p"
    using assms by (auto simp: dev_run_snoc dev_step_def list_ex_iff not_le split: if_splits)
  from pending_was_sent [OF p(1)] obtain xs e cmd ys where
      "evs = xs @ (e, CommandArrives cmd True) # ys" "command_id cmd = pa_id p" "pa_deadline p = sv_now e + dc_ack_timeout cfg"
    unfolding sent_in_def by blast
  with p(2) show ?thesis by metis
qed

section \<open>The link\<close>

text \<open>
  What the state machine is told of the link, as a story: a connection begins while there is none and
  ends while there is one, and the oven is found, its states and its garbage come only during one.
  The other output does not matter to it.
\<close>

fun link_tells :: "bool \<Rightarrow> Json WsEvent \<Rightarrow> bool option" where
  "link_tells up EvConnected = (if up then None else Some True)"
| "link_tells up EvDisconnected = (if up then Some False else None)"
| "link_tells up (ApoState _ _) = (if up then Some up else None)"
| "link_tells up (CookerDiscovered _) = (if up then Some up else None)"
| "link_tells up (ParseError _) = (if up then Some up else None)"
| "link_tells up (CommandAck _ _) = Some up"

fun link_story :: "bool \<Rightarrow> DevOut list \<Rightarrow> bool option" where
  "link_story up [] = Some up"
| "link_story up (ToSm ev # outs) = Option.bind (link_tells up ev) (\<lambda>up. link_story up outs)"
| "link_story up (_ # outs) = link_story up outs"

text \<open>What the liveness tracker is told last: the connection, and whether the oven is online.\<close>

fun liveness_told :: "bool \<times> bool \<Rightarrow> DevOut list \<Rightarrow> bool \<times> bool" where
  "liveness_told x [] = x"
| "liveness_told x (ToLiveness (LvConnected b) # outs) = liveness_told (b, snd x) outs"
| "liveness_told x (ToLiveness (LvOnline b _) # outs) = liveness_told (fst x, b) outs"
| "liveness_told x (_ # outs) = liveness_told x outs"

lemma link_story_append [simp]: "link_story up (xs @ ys) = Option.bind (link_story up xs) (\<lambda>up. link_story up ys)"
  by (induction up xs rule: link_story.induct) (simp_all add: bind_assoc split: Option.bind_split)

lemma liveness_told_append [simp]: "liveness_told x (xs @ ys) = liveness_told (liveness_told x xs) ys"
  by (induction x xs rule: liveness_told.induct) simp_all

definition same_link :: "bool \<Rightarrow> bool \<Rightarrow> DevOut list \<Rightarrow> bool" where
  "same_link up up' outs \<longleftrightarrow> link_story up outs = Some up' \<and> liveness_told (up, up) outs = (up', up')"

lemma same_link_append: "same_link a b xs \<Longrightarrow> same_link b c ys \<Longrightarrow> same_link a c (xs @ ys)"
  by (simp add: same_link_def)

lemma same_link_logs [simp]: "same_link up up (map ToLog ls)" "same_link up up (map (\<lambda>p. send_ack (f p) status) ps)"
  by (induction ls) (auto simp: same_link_def send_ack_def intro: list.induct [of _ ps])

abbreviation dev_up :: "Device \<Rightarrow> bool" where "dev_up d \<equiv> dv_current d \<noteq> None"

lemma same_link_end: "same_link (dev_up d) False (fst (end_session d))" "\<not> dev_up (snd (end_session d))"
  by (simp_all add: end_session_def same_link_def)

lemma same_link_nothing [simp]: "same_link up up []" "same_link up up [ToOven j]" "same_link up up [send_ack i status]"
  "same_link True True [ToSm (ParseError e)]"
  by (simp_all add: same_link_def send_ack_def)

lemma same_link_cons: "same_link up up' outs \<Longrightarrow> same_link up up' (ToOven j # outs)"
  "same_link up up' outs \<Longrightarrow> same_link up up' (send_ack i status # outs)"
  by (simp_all add: same_link_def send_ack_def)

lemma log_status_up: "dev_up (snd (log_status st d)) = dev_up d" "\<exists>ls. fst (log_status st d) = map ToLog ls"
  by (auto simp: log_status_def case_prod_beta split: option.split intro: exI [of _ "[]"])

lemma state_arrives_link:
  assumes "dev_up d"
  shows "same_link True True (fst (state_arrives env oven d))" "dev_up (snd (state_arrives env oven d))"
proof -
  let ?d = "d\<lparr>dv_last_state_frame := sv_now env\<rparr>"
  obtain ls where ls: "fst (log_status (to_oven_status oven) ?d) = map ToLog ls" using log_status_up(2) by blast
  have "same_link True True ([ToLiveness LvState] @ map ToLog ls @ [ToSm (ApoState (to_oven_status oven) (to_oven_cook oven))] @
      map (\<lambda>p. send_ack (pa_id p) ''ok'') ps)" for ps
    by (rule same_link_append [of True True], simp add: same_link_def,
        rule same_link_append [OF same_link_logs(1) same_link_append [OF _ same_link_logs(2)]], simp add: same_link_def)
  then show "same_link True True (fst (state_arrives env oven d))"
    by (simp add: state_arrives_def Let_def case_prod_beta ls)
  show "dev_up (snd (state_arrives env oven d))"
    using assms log_status_up(1) [of "to_oven_status oven" ?d] by (simp add: state_arrives_def Let_def case_prod_beta)
qed

lemma handle_message_link:
  assumes "handle_message cfg env msg sent d = (keep, outs, d')" "dev_up d"
  shows "same_link True True outs" "dev_up d'"
proof -
  have st: "same_link True True outs \<and> dev_up d'" if "state_arrives env oven d = (outs, d')" for oven
    using state_arrives_link [OF assms(2), of env oven] that by simp
  have "same_link True True outs \<and> dev_up d'"
    using assms st by (auto simp: handle_message_def split: OvenMsg.splits sum.splits DeviceEvent.splits if_splits option.splits)
  then show "same_link True True outs" "dev_up d'" by simp_all
qed

lemma session_arrives_link:
  "same_link (dev_up d) (dev_up (snd (session_arrives env i sent d))) (fst (session_arrives env i sent d))"
proof -
  let ?d = "(snd (end_session d))\<lparr>dv_current := Some \<lparr>se_device_id = session_device_id i, se_log = oven_log_new\<rparr>\<rparr>"
  let ?o = "[ToLiveness (LvConnected True), ToLiveness (LvOnline True None), ToSm EvConnected, ToSm (CookerDiscovered (session_device_id i)),
     ToOven (command_json (sv_uuid env 0) ''CMD_APO_SET_REPORT_STATE_RATE'' (Some report_rate_payload))]"
  have "same_link (dev_up d) True (fst (end_session d) @ ?o)"
    by (rule same_link_append [OF same_link_end(1)]) (simp add: same_link_def)
  moreover have "same_link True False (fst (end_session ?d))" using same_link_end(1) [of ?d] by simp
  moreover have "\<not> dev_up (snd (end_session ?d))" by (rule same_link_end(2))
  ultimately show ?thesis
    using same_link_append [of "dev_up d" True "fst (end_session d) @ ?o" False]
    by (auto simp: session_arrives_def Let_def case_prod_beta)
qed

lemma dev_step_link:
  "same_link (dev_up d) (dev_up (snd (dev_step cfg ev d))) (fst (dev_step cfg ev d))"
proof (cases "snd ev")
  case (SessionArrives i sent)
  then show ?thesis using session_arrives_link by (simp add: dev_step_def)
next
  case (FrameArrives msg sent)
  obtain keep outs d' where h: "handle_message cfg (fst ev) msg sent d = (keep, outs, d')" by (metis prod.exhaust)
  show ?thesis
  proof (cases "dev_up d")
    case True
    have "same_link True False (fst (end_session d'))" using same_link_end(1) [of d'] handle_message_link(2) [OF h True] by simp
    with True handle_message_link [OF h True] same_link_end(2) [of d'] FrameArrives h show ?thesis
      by (auto simp: dev_step_def Let_def case_prod_beta intro: same_link_append)
  qed (simp add: dev_step_def FrameArrives)
next
  case ConnectionEnds
  then show ?thesis using same_link_end [of d] by (auto simp: dev_step_def)
next
  case (HealthTick sent)
  then show ?thesis using same_link_end [of d] same_link_cons(1)
    by (auto simp: dev_step_def Let_def case_prod_beta)
next
  case StateTimeout
  then show ?thesis using same_link_end [of d] by (auto simp: dev_step_def)
next
  case AckDeadline
  then show ?thesis by (simp add: dev_step_def)
next
  case (CommandArrives cmd sent)
  then show ?thesis using same_link_end [of d] same_link_cons
    by (auto simp: dev_step_def command_arrives_def Let_def case_prod_beta)
qed

text \<open>
  C14: the state machine and the liveness tracker are told the truth about the link. Over any order of
  events, connections and disconnections alternate, the oven's states come only while it is
  connected, and at every point the last word to both is that the oven is connected exactly if the
  task has a session.
\<close>

theorem link_is_told_truly:
  "link_story False (fst (dev_run cfg evs (device_new t0))) = Some (dv_current (snd (dev_run cfg evs (device_new t0))) \<noteq> None) \<and>
   liveness_told (False, False) (fst (dev_run cfg evs (device_new t0))) =
     (dv_current (snd (dev_run cfg evs (device_new t0))) \<noteq> None, dv_current (snd (dev_run cfg evs (device_new t0))) \<noteq> None)"
proof -
  have "same_link (dev_up d) (dev_up (snd (dev_run cfg evs d))) (fst (dev_run cfg evs d))" for d
  proof (induction evs arbitrary: d)
    case (Cons ev evs)
    show ?case using same_link_append [OF dev_step_link Cons.IH] by (simp add: Let_def case_prod_beta)
  qed (simp add: same_link_def)
  from this [of "device_new t0"] show ?thesis by (simp add: same_link_def device_new_def)
qed

section \<open>Examples\<close>

definition demo_device :: DeviceConfig where
  "demo_device =
     \<lparr>dc_decoders =
        \<lparr>de_action = (\<lambda>_. Inr ''state''), de_command = Inl,
         de_state = (\<lambda>_. Inr (demo_oven ''cook'' [''s''])), de_payload = Inl,
         de_value = Inl, de_response = Inl\<rparr>,
      dc_state_timeout = 60, dc_time_zone = None, dc_ack_timeout = 15\<rparr>"

definition at_time :: "nat \<Rightarrow> StepEnv" where
  "at_time t = \<lparr>sv_now = t, sv_unix = 0, sv_uuid = (\<lambda>_. ''u'')\<rparr>"

definition demo_stop :: "(StepEnv \<times> DevEvent) list" where
  "demo_stop = [(at_time 0, SessionArrives None True), (at_time 1, CommandArrives (SendStop ''s'') True)]"

lemmas demo_device_run = demo_stop_def demo_device_def at_time_def device_new_def dev_step_def session_arrives_def
  command_arrives_def end_session_def handle_message_def state_arrives_def parse_device_message_def Let_def case_prod_beta

theorem ok_means_the_oven_handled_it_witness:
  "\<exists>xs env cmd ys env' frame sent oven zs.
    demo_stop @ [(at_time 2, FrameArrives (MsgText []) True)] =
      xs @ (env, CommandArrives cmd True) # ys @ (env', FrameArrives (MsgText frame) sent) # zs \<and>
    command_id cmd = ''s'' \<and> command_sent demo_device (snd (dev_run demo_device xs (device_new 0))) env cmd \<and>
    parse_device_message (dc_decoders demo_device) frame = Inr (DeState oven) \<and>
    ''s'' \<in> set (sti_processed_command_ids (os_state oven)) \<and>
    (let d = snd (dev_run demo_device (xs @ (env, CommandArrives cmd True) # ys) (device_new 0))
     in dv_current d \<noteq> None \<and>
        (''s'', ''ok'') \<in> set (acks (fst (dev_step demo_device (env', FrameArrives (MsgText frame) sent) d))))"
proof (rule ok_means_the_oven_handled_it)
  show "(''s'', ''ok'') \<in> set (acks (fst (dev_run demo_device (demo_stop @ [(at_time 2, FrameArrives (MsgText []) True)]) (device_new 0))))"
    by (simp add: demo_device_run demo_oven_def)
qed

theorem no_command_waits_too_long_witness:
  "\<exists>xs e cmd ys. demo_stop = xs @ (e, CommandArrives cmd True) # ys \<and> command_id cmd = ''s'' \<and> 10 < sv_now e + 15"
proof -
  have "\<lparr>pa_id = ''s'', pa_kind = ''CMD_APO_STOP'', pa_deadline = 16\<rparr> \<in>
      set (dv_pending (snd (dev_run demo_device (demo_stop @ [(at_time 10, AckDeadline)]) (device_new 0))))"
    by (simp add: demo_device_run)
  from no_command_waits_too_long [OF this] show ?thesis by (simp add: demo_device_def at_time_def)
qed

end
