(* ===== verification/Cloud.thy ===== *)
theory Cloud
  imports Device
begin

text \<open>
  Cloud mode: the task that holds the connection to Anova's cloud (\<open>processors/ws.rs\<close>): its token, the
  reconnects, what a frame says of the oven's own link, and the commands. The task is a step per
  attempt to connect and per branch of its \<open>select\<close>; its output is that of the local task. The
  WebSocket and the token service are inputs.
\<close>

section \<open>The token\<close>

text \<open>A Firebase session's id token and when it was refreshed last.\<close>

datatype TokenSource = Pat string | Firebase string "nat option"

definition FIREBASE_TOKEN_TTL :: nat where "FIREBASE_TOKEN_TTL = 50 * 60 * 1000"

text \<open>\<open>refresh\<close> is what the token service answers if it is asked.\<close>

fun token :: "nat \<Rightarrow> string + string \<Rightarrow> TokenSource \<Rightarrow> (string + string) \<times> TokenSource" where
  "token now refresh (Pat t) = (Inr t, Pat t)"
| "token now refresh (Firebase t refreshed_at) =
     (let stale = (case refreshed_at of Some since \<Rightarrow> FIREBASE_TOKEN_TTL \<le> now - since | None \<Rightarrow> True)
      in if stale then
           (case refresh of
              Inl e \<Rightarrow> (Inl e, Firebase t refreshed_at)
            | Inr t' \<Rightarrow> (Inr t', Firebase t' (Some now)))
         else (Inr t, Firebase t refreshed_at))"

section \<open>Commands\<close>

definition stop_command_json :: "string \<Rightarrow> string \<Rightarrow> Json" where
  "stop_command_json cooker request_id =
     JObj [(''command'', JStr ''CMD_APO_STOP''),
       (''payload'', JObj [(''type'', JStr ''CMD_APO_STOP''), (''id'', JStr cooker)]),
       (''requestId'', JStr request_id)]"

definition start_command_json :: "(nat \<Rightarrow> string) \<Rightarrow> string \<Rightarrow> string \<Rightarrow> Stage list \<Rightarrow> string \<Rightarrow> Json" where
  "start_command_json u cooker cid stages request_id =
     JObj [(''command'', JStr ''CMD_APO_START''),
       (''payload'', JObj [(''type'', JStr ''CMD_APO_START''), (''id'', JStr cooker),
          (''payload'', JObj [(''cookId'', JStr cid), (''stages'', JArr (start_stages_json u stages))])]),
       (''requestId'', JStr request_id)]"

section \<open>What a state says of the oven's link\<close>

datatype Freshness = Fresh | Replay | Offline

text \<open>\<open>read_ts\<close> reads a timestamp; times are in one unit.\<close>

definition classify_state ::
  "(string \<Rightarrow> int option) \<Rightarrow> 'j OvenState \<Rightarrow> string option \<Rightarrow> int \<Rightarrow> int \<Rightarrow> Freshness" where
  "classify_state read_ts oven last_updated now max_age =
     (if Option.bind (os_system_info oven) si_online = Some False then Offline
      else
        (case os_updated_timestamp oven of
           None \<Rightarrow> Fresh
         | Some updated \<Rightarrow>
             if last_updated = Some updated then Replay
             else if (case read_ts updated of
                        Some taken \<Rightarrow> max_age < \<bar>now - taken\<bar> \<and> taken < now | None \<Rightarrow> False) then Offline
             else Fresh))"

section \<open>The task\<close>

record CloudConfig =
  cg_decoders :: Decoders
  cg_read_ts :: "string \<Rightarrow> int option"
  cg_read_ms :: "string \<Rightarrow> int option"
  cg_state_timeout :: nat
  cg_max_age :: int                       \<comment> \<open>the same time out, in the unit of \<open>sv_unix\<close>\<close>

record Connection =
  cn_cooker_id :: "string option"
  cn_log :: OvenLog
  cn_last_state_frame :: nat

record Cloud =
  cl_source :: TokenSource
  cl_last_updated :: "string option"
  cl_conn :: "Connection option"

definition cloud_new :: "TokenSource \<Rightarrow> Cloud" where
  "cloud_new src = \<lparr>cl_source = src, cl_last_updated = None, cl_conn = None\<rparr>"

datatype CloudMsg = CmPing | CmPong | CmClose | CmData string

text \<open>\<open>CloudEnds\<close> is a connection error, the end of the stream or of the command channel.\<close>

datatype CloudEvent =
  Dial "string + string" bool        \<comment> \<open>the token service's answer; whether the connect succeeds\<close>
| CloudFrame CloudMsg
| CloudEnds
| CloudTimeout
| CloudCommand "Json WsCommand" bool

type_synonym cloud_op = "Cloud \<Rightarrow> DevOut list \<times> Cloud"

definition end_connection :: cloud_op where
  "end_connection c = ([ToLiveness (LvConnected False), ToSm EvDisconnected], c\<lparr>cl_conn := None\<rparr>)"

definition dial :: "StepEnv \<Rightarrow> string + string \<Rightarrow> bool \<Rightarrow> cloud_op" where
  "dial env refresh connects c =
     (case token (sv_now env) refresh (cl_source c) of
        (Inl _, src) \<Rightarrow> ([], c\<lparr>cl_source := src\<rparr>)
      | (Inr _, src) \<Rightarrow>
          (let c = c\<lparr>cl_source := src\<rparr>
           in if connects then
                ([ToLiveness (LvConnected True), ToSm EvConnected],
                 c\<lparr>cl_conn := Some \<lparr>cn_cooker_id = None, cn_log = oven_log_new, cn_last_state_frame = sv_now env\<rparr>\<rparr>)
              else end_connection c))"

definition link_outs :: "CloudConfig \<Rightarrow> Freshness \<Rightarrow> Json OvenState \<Rightarrow> DevOut list" where
  "link_outs cfg fresh oven =
     (case fresh of
        Fresh \<Rightarrow> [ToLiveness LvState, ToLiveness (LvOnline True None)]
      | Replay \<Rightarrow> []
      | Offline \<Rightarrow>
          [ToLiveness (LvOnline False
             (Option.bind (os_system_info oven) (last_disconnected_unix_ms (cg_read_ms cfg))))])"

definition cloud_state :: "CloudConfig \<Rightarrow> StepEnv \<Rightarrow> Json OvenState \<Rightarrow> Connection \<Rightarrow> cloud_op" where
  "cloud_state cfg env oven k c =
     (let fresh = classify_state (cg_read_ts cfg) oven (cl_last_updated c) (sv_unix env) (cg_max_age cfg);
          status = to_oven_status oven;
          (logged, l) = observe status (cn_log k);
          k = k\<lparr>cn_log := l\<rparr>;
          k = (if fresh = Fresh then k\<lparr>cn_last_state_frame := sv_now env\<rparr> else k)
      in (link_outs cfg fresh oven @ map ToLog logged @ [ToSm (ApoState status (to_oven_cook oven))],
          c\<lparr>cl_last_updated := (case os_updated_timestamp oven of Some t \<Rightarrow> Some t | None \<Rightarrow> cl_last_updated c),
            cl_conn := Some k\<rparr>))"

definition cloud_frame :: "CloudConfig \<Rightarrow> StepEnv \<Rightarrow> CloudMsg \<Rightarrow> Connection \<Rightarrow> cloud_op" where
  "cloud_frame cfg env msg k c =
     (case msg of
        CmData raw \<Rightarrow>
          (case parse_app_message (cg_decoders cfg) raw of
             Inr (ApApoState _ oven) \<Rightarrow> cloud_state cfg env oven k c
           | Inr (ApApoWifiList (Some i)) \<Rightarrow>
               ([ToSm (CookerDiscovered i)], c\<lparr>cl_conn := Some (k\<lparr>cn_cooker_id := Some i\<rparr>)\<rparr>)
           | Inr (ApResponse request_id status) \<Rightarrow> ([ToSm (CommandAck request_id status)], c)
           | Inr _ \<Rightarrow> ([], c)
           | Inl e \<Rightarrow> ([ToSm (ParseError e)], c))
      | _ \<Rightarrow> ([], c))"

definition cloud_command :: "StepEnv \<Rightarrow> Json WsCommand \<Rightarrow> bool \<Rightarrow> Connection \<Rightarrow> cloud_op" where
  "cloud_command env cmd sent k c =
     (let json = (case (cmd, cn_cooker_id k) of
            (SendStop request_id, Some i) \<Rightarrow> Some (stop_command_json i request_id)
          | (SendStart request_id cid _ stages, Some i) \<Rightarrow>
              Some (start_command_json (sv_uuid env) i cid stages request_id)
          | _ \<Rightarrow> None)
      in case json of
           None \<Rightarrow> ([], c)
         | Some j \<Rightarrow>
             if sent then ([ToOven j], c)
             else (let (outs, c) = end_connection c in (ToOven j # outs, c)))"

fun cloud_step :: "CloudConfig \<Rightarrow> StepEnv \<times> CloudEvent \<Rightarrow> cloud_op" where
  "cloud_step cfg (env, Dial refresh connects) c =
     (if cl_conn c = None then dial env refresh connects c else ([], c))"
| "cloud_step cfg (env, CloudFrame msg) c =
     (case cl_conn c of None \<Rightarrow> ([], c) | Some k \<Rightarrow> cloud_frame cfg env msg k c)"
| "cloud_step cfg (env, CloudEnds) c =
     (case cl_conn c of None \<Rightarrow> ([], c) | Some k \<Rightarrow> end_connection c)"
| "cloud_step cfg (env, CloudTimeout) c =
     (case cl_conn c of
        None \<Rightarrow> ([], c)
      | Some k \<Rightarrow>
          if cn_last_state_frame k + cg_state_timeout cfg \<le> sv_now env then
            (let (outs, c) = end_connection c in (ToLiveness (LvOnline False None) # outs, c))
          else ([], c))"
| "cloud_step cfg (env, CloudCommand cmd sent) c =
     (case cl_conn c of None \<Rightarrow> ([], c) | Some k \<Rightarrow> cloud_command env cmd sent k c)"

fun cloud_run :: "CloudConfig \<Rightarrow> (StepEnv \<times> CloudEvent) list \<Rightarrow> cloud_op" where
  "cloud_run cfg [] c = ([], c)"
| "cloud_run cfg (ev # evs) c =
     (let (o1, c) = cloud_step cfg ev c; (o2, c) = cloud_run cfg evs c in (o1 @ o2, c))"

section \<open>Lemmas\<close>

lemma token_is_fresh:
  "token now refresh (Firebase t r) = (Inr t', src) \<Longrightarrow>
   \<exists>since. src = Firebase t' (Some since) \<and> now - since < FIREBASE_TOKEN_TTL"
  by (auto simp: Let_def FIREBASE_TOKEN_TTL_def not_le split: if_splits option.splits sum.splits)

lemma liveness_told_logs [simp]: "liveness_told x (map ToLog ls) = x"
  by (induction ls) auto

text \<open>The state a frame carries.\<close>

fun carried :: "CloudConfig \<Rightarrow> StepEnv \<times> CloudEvent \<Rightarrow> Json OvenState option" where
  "carried cfg (env, CloudFrame (CmData raw)) =
     (case parse_app_message (cg_decoders cfg) raw of Inr (ApApoState _ oven) \<Rightarrow> Some oven | _ \<Rightarrow> None)"
| "carried cfg _ = None"

section \<open>The link\<close>

text \<open>As in local mode, but that each attempt to connect that fails is told as a disconnect as well.\<close>

fun cloud_tells :: "bool \<Rightarrow> Json WsEvent \<Rightarrow> bool option" where
  "cloud_tells up EvDisconnected = Some False"
| "cloud_tells up (CommandAck _ _) = (if up then Some up else None)"
| "cloud_tells up ev = link_tells up ev"

fun cloud_story :: "bool \<Rightarrow> DevOut list \<Rightarrow> bool option" where
  "cloud_story up [] = Some up"
| "cloud_story up (ToSm ev # outs) = Option.bind (cloud_tells up ev) (\<lambda>up. cloud_story up outs)"
| "cloud_story up (_ # outs) = cloud_story up outs"

lemma cloud_story_append [simp]: "cloud_story up (xs @ ys) = Option.bind (cloud_story up xs) (\<lambda>up. cloud_story up ys)"
  by (induction up xs rule: cloud_story.induct) (simp_all add: bind_assoc split: Option.bind_split)

lemma cloud_story_logs [simp]: "cloud_story up (map ToLog ls) = Some up"
  by (induction ls) auto

definition cloud_link :: "bool \<Rightarrow> bool \<Rightarrow> DevOut list \<Rightarrow> bool" where
  "cloud_link up up' outs \<longleftrightarrow> cloud_story up outs = Some up' \<and> (\<forall>on. fst (liveness_told (up, on) outs) = up')"

lemma cloud_link_append: "cloud_link a b xs \<Longrightarrow> cloud_link b c ys \<Longrightarrow> cloud_link a c (xs @ ys)"
proof -
  assume a: "cloud_link a b xs" "cloud_link b c ys"
  have "liveness_told (a, on) xs = (b, snd (liveness_told (a, on) xs))" for on
    using a(1) by (simp add: cloud_link_def prod_eq_iff)
  then have "fst (liveness_told (a, on) (xs @ ys)) = c" for on
    using a(2) unfolding liveness_told_append cloud_link_def by metis
  with a show ?thesis by (simp add: cloud_link_def)
qed

abbreviation cloud_up :: "Cloud \<Rightarrow> bool" where "cloud_up c \<equiv> cl_conn c \<noteq> None"

lemma cloud_step_link:
  "cloud_link (cloud_up c) (cloud_up (snd (cloud_step cfg ev c))) (fst (cloud_step cfg ev c))"
  by (induction cfg ev c rule: cloud_step.induct)
    (auto simp: cloud_link_def dial_def end_connection_def cloud_frame_def cloud_state_def cloud_command_def link_outs_def
      Let_def case_prod_beta
      split: option.splits sum.splits prod.splits CloudMsg.splits AppEvent.splits Freshness.splits WsCommand.splits)

text \<open>
  The state machine and the liveness tracker are told the truth about the connection. Over any
  order of attempts, frames, failures and time outs, a connection begins only while there is none,
  states, acknowledgements and the oven's id come only during one, and at every point the last word
  is that it is up exactly if the task has a connection.
\<close>

theorem cloud_link_is_told_truly:
  "cloud_story False (fst (cloud_run cfg evs (cloud_new src))) = Some (cl_conn (snd (cloud_run cfg evs (cloud_new src))) \<noteq> None) \<and>
   fst (liveness_told (False, on) (fst (cloud_run cfg evs (cloud_new src)))) = (cl_conn (snd (cloud_run cfg evs (cloud_new src))) \<noteq> None)"
proof -
  have "cloud_link (cloud_up c) (cloud_up (snd (cloud_run cfg evs c))) (fst (cloud_run cfg evs c))" for c
  proof (induction evs arbitrary: c)
    case (Cons ev evs)
    show ?case using cloud_link_append [OF cloud_step_link Cons.IH] by (simp add: Let_def case_prod_beta)
  qed (simp add: cloud_link_def)
  from this [of "cloud_new src"] show ?thesis by (simp add: cloud_link_def cloud_new_def)
qed

section \<open>Replays\<close>

text \<open>A run in which the oven sends nothing new: each state is the one last seen.\<close>

definition only_replays :: "CloudConfig \<Rightarrow> string \<Rightarrow> (StepEnv \<times> CloudEvent) list \<Rightarrow> bool" where
  "only_replays cfg t evs \<longleftrightarrow> list_all (\<lambda>ev. case carried cfg ev of
     Some oven \<Rightarrow> os_updated_timestamp oven = Some t | None \<Rightarrow> True) evs"

lemma replay_step:
  assumes "case carried cfg ev of Some oven \<Rightarrow> os_updated_timestamp oven = Some t | None \<Rightarrow> True"
    and "cl_last_updated c = Some t"
  shows "cl_last_updated (snd (cloud_step cfg ev c)) = Some t \<and>
    \<not> snd (liveness_told (up, False) (fst (cloud_step cfg ev c)))"
  using assms
  by (induction cfg ev c rule: cloud_step.induct)
    (auto simp: dial_def end_connection_def cloud_frame_def cloud_state_def cloud_command_def link_outs_def classify_state_def
      Let_def case_prod_beta
      split: option.splits sum.splits prod.splits CloudMsg.splits AppEvent.splits Freshness.splits WsCommand.splits if_splits)

lemma replay_run:
  "only_replays cfg t evs \<Longrightarrow> cl_last_updated c = Some t \<Longrightarrow> \<not> snd (liveness_told (up, False) (fst (cloud_run cfg evs c)))"
proof (induction evs arbitrary: c up)
  case (Cons ev evs)
  have s: "cl_last_updated (snd (cloud_step cfg ev c)) = Some t \<and> \<not> snd (liveness_told (up, False) (fst (cloud_step cfg ev c)))"
    by (rule replay_step) (use Cons.prems in \<open>simp_all add: only_replays_def\<close>)
  then obtain x where x: "liveness_told (up, False) (fst (cloud_step cfg ev c)) = (x, False)"
    by (metis prod.collapse)
  have "\<not> snd (liveness_told (x, False) (fst (cloud_run cfg evs (snd (cloud_step cfg ev c)))))"
    by (rule Cons.IH) (use Cons.prems s in \<open>simp_all add: only_replays_def\<close>)
  with x show ?case by (simp add: Let_def case_prod_beta)
qed simp

text \<open>
  C15: replays do not hide an outage. Once the watchdog has given the oven up, it is told as offline
  through any reconnects and however often Anova's cloud sends its last state again, until a state
  with another time stamp arrives.
\<close>

theorem replays_hide_no_outage:
  assumes "cl_conn c = Some k" "cn_last_state_frame k + cg_state_timeout cfg \<le> sv_now env"
    and "cl_last_updated c = Some t" "only_replays cfg t evs"
  shows "\<not> snd (liveness_told told (fst (cloud_run cfg ((env, CloudTimeout) # evs) c)))"
proof -
  have "cl_last_updated (c\<lparr>cl_conn := None\<rparr>) = Some t" using assms(3) by simp
  from replay_run [OF assms(4) this, of False] show ?thesis
    using assms(1,2) by (simp add: end_connection_def Let_def case_prod_beta)
qed

theorem replays_hide_no_outage_witness:
  "\<not> snd (liveness_told (True, True) (fst (cloud_run
     \<lparr>cg_decoders = dc_decoders demo_device\<lparr>de_command := (\<lambda>_. Inr ''EVENT_APO_STATE''),
        de_payload := (\<lambda>_. Inr (''x'', (demo_oven ''cook'' [])\<lparr>os_updated_timestamp := Some ''t''\<rparr>))\<rparr>,
      cg_read_ts = (\<lambda>_. None), cg_read_ms = (\<lambda>_. None), cg_state_timeout = 60, cg_max_age = 60\<rparr>
     [(at_time 100, CloudTimeout), (at_time 105, Dial (Inl []) True), (at_time 106, CloudFrame (CmData []))]
     \<lparr>cl_source = Pat ''p'', cl_last_updated = Some ''t'',
      cl_conn = Some \<lparr>cn_cooker_id = None, cn_log = oven_log_new, cn_last_state_frame = 0\<rparr>\<rparr>)))"
  by (rule replays_hide_no_outage [where t = "''t''" and
      k = "\<lparr>cn_cooker_id = None, cn_log = oven_log_new, cn_last_state_frame = 0\<rparr>"])
    (simp_all add: at_time_def only_replays_def parse_app_message_def)

end
