(* ===== verification/Spec2Isabelle.thy ===== *)
theory Spec2Isabelle
  imports Encoder Button Scheduler Api_Client Ui Persist View_Plan State_Machine_Runs Cook_Progress Liveness Local_Store Http
    Mqtt_Runs Cloud
begin

text \<open>
  Anova oven server and panel firmware: a verification library.

  The program. A server keeps the state of an Anova Precision Oven, taken from Anova's cloud or, in
  local mode, from the oven itself, and serves it over HTTP; a Raspberry Pi Pico panel polls the
  server, shows the state on a character display and sends the presses of a rotary encoder back as
  commands. The crates are \<open>anova-oven-api\<close> (shared data), \<open>anova-oven-server\<close>,
  \<open>anova-oven-pico-core\<close> (the panel's logic, without hardware) and \<open>anova-oven-pico\<close> (its tasks).

  Theories, from the bottom up.

  \<^item> \<open>Prelude\<close>: words, \<open>get\<close>, \<open>position\<close>, \<open>remove\<close>, \<open>swap_remove\<close>, decimal printing, runs of a
    step function. \<open>F32\<close>: IEEE binary32 values with exact comparison and rounded arithmetic.
  \<^item> \<open>Oven_Api\<close> (\<open>anova-oven-api/src/lib.rs\<close>): status, recipes, stages, current cook and the
    readings derived from them.
  \<^item> \<open>Encoder\<close>, \<open>Button\<close>, \<open>Scheduler\<close>, \<open>Reset\<close>, \<open>Core_Api\<close>, \<open>Fsm\<close> (\<open>anova-oven-pico-core/src\<close>): the
    quadrature decoder, the debouncer, the event queue, reset classification, the server address,
    and the panel's screens and views. \<open>poll_queue\<close> is the queue's interface, which \<open>Api_Client\<close>
    relies on; \<open>Scheduler\<close> interprets it.
  \<^item> \<open>Api_Client\<close> (\<open>anova-oven-pico/src/api.rs\<close>, \<open>api_client.rs\<close>): the polling task.
  \<^item> \<open>Ui\<close> (\<open>anova-oven-pico/src/state.rs\<close>): the screen handlers and the main loop. A handler's head is
    run on entry, each event of its \<open>select\<close> is one step, and what it shows, lights and sends are
    effects.
  \<^item> \<open>Persist\<close> (\<open>persist_data.rs\<close>, \<open>persist.rs\<close>): the crash record that survives a reset.
  \<^item> \<open>Runtime_Types\<close> (\<open>anova-oven-server/src/runtime/types.rs\<close>, \<open>recipe.rs\<close>), \<open>State_Machine\<close>
    (\<open>processors/state_machine.rs\<close>) and \<open>State_Machine_Runs\<close>: the server's canonical state, its
    reducers, the dispatch of their effects and what holds over runs.
  \<^item> \<open>Cook_Progress\<close> (\<open>cook_progress.rs\<close>): which stage a cook is in and when the next one is ready.
  \<^item> \<open>Liveness\<close> (\<open>liveness.rs\<close>): how long the link to the oven has been down.
  \<^item> \<open>Text\<close> (the \<open>char\<close>s, words and trimming of a \<open>str\<close>), \<open>Lcd_Plan\<close> (\<open>pico-core/src/lcd_plan.rs\<close>, the
    rendering of \<open>pico/src/lcd.rs\<close>) and \<open>View_Plan\<close> (\<open>pico-core/src/view_plan.rs\<close>): what the character
    display and the graphical panels show of a view.
  \<^item> \<open>Recipe_Files\<close> (\<open>RecipeFiles\<close> and \<open>normalize\<close> in \<open>processors/local_store.rs\<close>): the recipe files and
    the rules a recipe must obey. \<open>recipe_store\<close> is the interface of such a store; its interpretation
    shows that the files implement it. \<open>Local_Store\<close> (the rest of that file): the journal of the cook
    in flight, the history, and the store's answers to the state machine.
  \<^item> \<open>Http\<close> (\<open>processors/http.rs\<close>): the routes, over a world of state machine, recipe files, tracker
    and link health; what other tasks do while a handler waits is an arbitrary function.

  \<^item> \<open>F64\<close>: binary64 values and \<open>str::parse\<close> of numbers, with the lemma that a bound survives rounding.
    \<open>Json\<close>: a \<open>serde_json::Value\<close> and its edits; printing and parsing are parameters.
  \<^item> The task that ties the oven to Home Assistant (\<open>processors/mqtt.rs\<close> and its directory).
    \<open>Mqtt_Recipes\<close> (\<open>recipes.rs\<close>): the options of the recipe select and the attributes of a recipe.
    \<open>Mqtt_Manual\<close> (\<open>manual.rs\<close>): the manual cook set up field by field. \<open>Milestones\<close>
    (\<open>milestones.rs\<close>): what two successive looks at the oven announce. \<open>Discovery\<close> (\<open>discovery.rs\<close>): the
    topics and the documents that describe the controls. \<open>Mqtt\<close>: the configuration and the processor,
    an operation per function and a step per branch of its \<open>select\<close>; \<open>Mqtt_Runs\<close>: what holds over runs,
    against a broker that keeps retained messages.
  \<^item> The oven's protocol and the two links to it. \<open>Float_Error\<close>: how far the float operations are from the
    exact ones. \<open>Oven_Stages\<close> (\<open>protocol/stages.rs\<close>): the stages of a start, the stage read back from
    the oven's JSON, and the edits of a reported stage; \<open>raw_stages\<close> is what the state machine relies
    on of these edits, interpreted on the JSON. \<open>Protocol\<close> (\<open>protocol/mod.rs\<close>, \<open>device.rs\<close>, \<open>app.rs\<close>): the
    oven's state, the status and cook made of it, and the frames. \<open>Device\<close> (\<open>processors/device.rs\<close>,
    \<open>oven_log.rs\<close>): the task that stands in for Anova's cloud in local mode. \<open>Cloud\<close> (\<open>processors/ws.rs\<close>):
    the task that holds the connection to it in cloud mode.

  Conventions. A Rust struct is a record, an enum a datatype, a sized integer a word that wraps, a
  \<open>usize\<close> index a natural number, a \<open>Result\<close> a sum and a \<open>String\<close> its bytes. Clocks, fresh UUIDs,
  pin levels, HTTP outcomes and \<open>serde_json\<close> edits are inputs. An asynchronous task is a step
  function over the events its \<open>select\<close> waits for, and the properties quantify over all their orders.

  What is shown. For each component an invariant of its runs or the functional contract of its
  operations: the screen's commands and deadlines (\<open>Ui\<close>), liveness of the polls (\<open>Api_Client\<close>), the
  queue as a refinement of a set of kinds with due times (\<open>Scheduler\<close>), the ring as a refinement of
  the list of resets (\<open>Persist\<close>), the decoder as a refinement of the shaft's quarter steps
  (\<open>Encoder\<close>), request ids, refusals, preheats and stops (\<open>State_Machine_Runs\<close>), justified completion
  and consistent progress (\<open>Cook_Progress\<close>), outages timed from their start (\<open>Liveness\<close>), the cells of
  the display against the plan although only changes are written (\<open>Lcd_Plan\<close>), wrapping and fitting
  (\<open>View_Plan\<close>), and the recipe files as a refinement of a map whose recipes the oven can run
  (\<open>Recipe_Files\<close>), the history as the cooks that ended, over reports, starts and restarts in which no
  file operation fails (\<open>Local_Store\<close>), and what a request can and cannot do (\<open>Http\<close>). For Home
  Assistant, the retained topics as a refinement of the last look at the oven (the selected recipe's
  attributes may lag behind an edit of its stages or of the unit), exactly one announcement of the
  start and of the end of each cook, counted by its id, checked commands, a choice of recipe that
  survives changes, failures and other commands, and controls that fit the manual cook in both units
  (\<open>Mqtt_Runs\<close>, \<open>Milestones\<close>, \<open>Mqtt_Manual\<close>, \<open>Discovery\<close>). For the oven, temperatures that survive it and
  stages that survive it but for the rack position, which the oven does not report (\<open>Oven_Stages\<close>),
  controls that change one stage (\<open>Protocol\<close>), commands put on the wire, answered once and truly
  within their time and a link told as it is (\<open>Device\<close>), and outages that replays do not hide
  (\<open>Cloud\<close>).

  What is assumed of others is a hypothesis with a name of its own: \<open>reported_as\<close> (\<open>Oven_Stages\<close>), the
  keys the oven keeps of a stage, after \<open>docs/oven-cloud-emulation.md\<close>; \<open>oven_reports\<close> (\<open>Milestones\<close>), the
  ids and the end of the cooks an oven reports; \<open>leaves_choice\<close> (\<open>Mqtt_Runs\<close>), that the chosen recipe is
  neither deleted nor another one chosen; \<open>calls_ordered\<close> (\<open>Api_Client\<close>), a clock that does not go back.

  The last section of this theory composes server and panel. \<open>refused_start_disables_stop\<close> shows a
  defect of the code: a start the oven refuses while it cooks leaves the server unable to stop it.
  \<open>probe_stage_sent_with_a_timer\<close> shows another: a stage that ends on the probe is sent as a timed one
  if it still carries a duration. \<open>restart_announces_again\<close> shows that a server restarted during a cook
  announces it again if it looks before the oven is back, \<open>failed_removal_records_twice\<close> that a journal
  that cannot be removed records its cook twice, and \<open>options_can_collide\<close> that two recipes can have the
  same option.

  Bounds. The drain loop of \<open>Api_Client\<close> is given the queue's length as fuel, which its rounds
  cannot exceed; the sampling loop of \<open>Button\<close> is proved to end within twelve samples of a released
  line; the other recursions are structural or have a measure.

  Not modelled: drivers and pixel drawing, the parsing of HTTP requests, the WebSocket, TLS and MQTT
  libraries, the replacement of characters the display's character set lacks (they show as blanks),
  Firestore's HTTP calls, the metrics, the command line and start-up, which are I/O, and
  the reading and printing of JSON text, which is \<open>serde_json\<close>'s.
\<close>

section \<open>From the link's events to the panel\<close>

text \<open>
  C1: the panel calls its data stale from the server's link events alone: when the status it shows
  was served \<open>now\<close>, exactly if the link has been down for a minute then, counted from the event that
  took it down, and it blames the oven exactly if the oven is what is offline.
\<close>

theorem panel_shows_the_outage:
  fixes es :: "(u64 \<times> LivenessEvent) list"
  assumes "t \<noteq> 0" and "\<forall>e \<in> set es. fst e \<noteq> 0"
    and "l = lv_run (liveness_new t timeout) es"
    and "age = sat_sub now (down_since (liveness_new t timeout) t es) div 1000"
    and "sn_oven_missing_since sn = None" and "sn_status sn = Some (attach_upstream now l p status)"
  shows "(upstream_stale hz sn clock = None \<longleftrightarrow> reachable l \<or> age < 60) \<and>
    (\<forall>cause secs. upstream_stale hz sn clock = Some (cause, secs) \<longrightarrow>
       cause = (if oven_online l then AnovaLink else OvenOffline) \<and>
       (oven_online l \<longrightarrow> secs = age))"
proof -
  have "down_since (liveness_new t timeout) t es \<noteq> 0"
    using assms(1,2) by (induction es rule: rev_induct) (auto simp: down_since_snoc)
  with lv_run_since [OF assms(2), of t timeout] assms(3,4)
  have "link_down_secs now l = (if reachable l then 0 else age)"
    by (auto simp: link_down_secs_def)
  moreover from offline_ok_run [OF assms(2), of t timeout] assms(3)
  have "offline_secs now l = None \<longleftrightarrow> oven_online l"
    by (simp add: offline_secs_def offline_ok_def)
  ultimately show ?thesis
    using assms(5,6)
    by (auto simp: upstream_stale_def attach_upstream_def UPSTREAM_STALE_GRACE_SECS_def not_less
        split: option.split)
qed

section \<open>From the oven's report to the panel's prompt\<close>

text \<open>
  C2: in local mode, once the server has handled a status of a cook it tracks, the panel prompts for
  a stage exactly when that status says the oven waits for the user and the cook has a stage after
  the active one, and the prompt names that stage.
\<close>

theorem panel_prompts_when_the_oven_waits:
  assumes "task_ok k" and "follows_oven k" and "is_cooking status"
    and "tracker (on_status now (Some status) k) = Some t"
    and "sn_status sn = Some (attach_upstream ms l (progress_tx (on_status now (Some status) k)) status)"
  shows "next_stage_prompt sn =
    (if stage_transition_pending_user_action status \<and> tr_index t + 1 < length (tr_stages t)
     then Some (short_description (tr_stages t ! (tr_index t + 1))) else None)"
proof -
  have "progress_tx (on_status now (Some status) k) = Some (build_cook_progress t)"
    using task_ok_status [OF assms(1), of now "Some status"] assms(4) by (simp add: task_ok_def)
  moreover from assms(2-4) have "\<exists>t0. t = snd (follow_oven t0 status)"
    by (auto simp: on_status_def publish_def Let_def case_prod_beta split: option.splits if_splits)
  then obtain t0 where t0: "t = snd (follow_oven t0 status)" ..
  from follow_oven_result [OF t0] have "next_stage_ready t \<longleftrightarrow>
      stage_transition_pending_user_action status \<and> tr_index t + 1 < length (tr_stages t)"
    by simp
  ultimately show ?thesis
    by (simp add: next_stage_prompt_def assms(5) attach_upstream_def build_cook_progress_def
        tr_next_stage_def get_nth_def Let_def)
qed

section \<open>Examples\<close>

definition demo_panel :: "OvenStatus \<Rightarrow> ApiSnapshot" where
  "demo_panel status = snapshot_default\<lparr>sn_status := Some status\<rparr>"

theorem panel_shows_the_outage_witness:
  "upstream_stale 1000 (demo_panel (attach_upstream 62000
     (lv_run (liveness_new 5 60) [(1000, LvConnected True), (2000, LvConnected False), (9000, LvConnected False)])
     None demo_status)) 0 \<noteq> None"
proof -
  let ?es = "[(1000, LvConnected True), (2000, LvConnected False), (9000, LvConnected False)] :: (u64 \<times> LivenessEvent) list"
  let ?l = "lv_run (liveness_new 5 60) ?es"
  have "\<not> reachable ?l" "\<not> sat_sub 62000 (down_since (liveness_new 5 60) 5 ?es) div 1000 < (60 :: u64)"
    by code_simp+
  with panel_shows_the_outage [of 5 ?es ?l 60 _ 62000
      "demo_panel (attach_upstream 62000 ?l None demo_status)" None demo_status 1000 0]
  show ?thesis by (simp add: demo_panel_def snapshot_default_def del: lv_run_snoc)
qed

theorem panel_prompts_when_the_oven_waits_witness:
  "next_stage_prompt (demo_panel (attach_upstream 0 (liveness_new 1 60)
     (progress_tx (on_status 0 (Some (demo_status\<lparr>stage_transition_pending_user_action := True\<rparr>))
        (publish (demo_task\<lparr>follows_oven := True\<rparr>))))
     (demo_status\<lparr>stage_transition_pending_user_action := True\<rparr>))) \<noteq> None"
proof -
  let ?st = "demo_status\<lparr>stage_transition_pending_user_action := True\<rparr>"
  let ?k = "publish (demo_task\<lparr>follows_oven := True\<rparr>)"
  have c: "is_cooking ?st" by code_simp
  have ok: "task_ok ?k" by (simp add: demo_task_def task_new_def fresh_tracker_ok)
  have f: "follows_oven ?k" by (simp add: publish_def)
  have "(case tracker (on_status 0 (Some ?st) ?k) of
      Some t \<Rightarrow> tr_index t + 1 < length (tr_stages t) | None \<Rightarrow> False)"
    by code_simp
  then obtain t where t: "tracker (on_status 0 (Some ?st) ?k) = Some t"
    "tr_index t + 1 < length (tr_stages t)"
    by (auto split: option.splits)
  show ?thesis
    by (subst panel_prompts_when_the_oven_waits [OF ok f c t(1)])
      (use t(2) in \<open>simp_all add: demo_panel_def\<close>)
qed

end
